(* ===== verification/Prelude.thy ===== *)
theory Prelude
  imports Main "HOL-Library.Monad_Syntax"
begin

text \<open>
  Shared vocabulary of the development: results with errors and panics, fixed-width arithmetic,
  bit fields, and the generic lemmas on lists, sums and tilings the component theories use.

  \<^item> A fallible Rust function returns \<open>'a res\<close>. \<open>Inl (Bail s)\<close> is an
    \<^verbatim>\<open>anyhow\<close> error with its message, \<open>Inl Panic\<close> a panic (an index out of
    range, a failed \<^verbatim>\<open>unwrap\<close>, a division by zero), \<open>Inl Diverge\<close> a loop that makes no
    progress.
  \<^item> Unsigned integers are natural numbers below \<open>2 ^ w\<close>. An operation that can leave
    the width is written with its wrap-around, as in the release profile (the manifest sets no
    \<^verbatim>\<open>overflow-checks\<close> of its own).
  \<^item> A bit field (\<^verbatim>\<open>bitvec\<close>'s \<^verbatim>\<open>BitBox\<close>) is a list of booleans in
    the order of its indices.
\<close>

named_theorems res_simps \<open>elimination of the result monad\<close>
named_theorems arith_exact \<open>fixed-width operations that stay in range\<close>

subsection \<open>Results\<close>

datatype err = Bail string | Panic | Diverge

type_synonym 'a res = "err + 'a"

definition rbind :: "'a res \<Rightarrow> ('a \<Rightarrow> 'b res) \<Rightarrow> 'b res" where
  "rbind m f = (case m of Inl e \<Rightarrow> Inl e | Inr x \<Rightarrow> f x)"

definition of_option :: "err \<Rightarrow> 'a option \<Rightarrow> 'a res" where
  "of_option e x = (case x of None \<Rightarrow> Inl e | Some y \<Rightarrow> Inr y)"

definition is_ok :: "'a res \<Rightarrow> bool" where
  "is_ok m = (case m of Inl _ \<Rightarrow> False | Inr _ \<Rightarrow> True)"

lemma rbind_Inl [simp]: "rbind (Inl e) f = Inl e"
  by (simp add: rbind_def)

lemma rbind_Inr [simp]: "rbind (Inr x) f = f x"
  by (simp add: rbind_def)

lemma rbind_eq_Inr [res_simps]:
  "rbind m f = Inr r \<longleftrightarrow> (\<exists>x. m = Inr x \<and> f x = Inr r)"
  by (cases m) auto

lemma rbind_eq_Inl [res_simps]:
  "rbind m f = Inl e \<longleftrightarrow> m = Inl e \<or> (\<exists>x. m = Inr x \<and> f x = Inl e)"
  by (cases m) auto

lemma rbind_cong [fundef_cong]:
  "m = m' \<Longrightarrow> (\<And>x. m' = Inr x \<Longrightarrow> f x = g x) \<Longrightarrow> rbind m f = rbind m' g"
  by (cases m') auto

lemma of_option_simps [simp]:
  "of_option e None = Inl e" "of_option e (Some x) = Inr x"
  by (simp_all add: of_option_def)

lemma of_option_eq_Inr [res_simps]: "of_option e x = Inr y \<longleftrightarrow> x = Some y"
  by (cases x) auto

lemma is_ok_simps [simp]: "is_ok (Inr x)" "\<not> is_ok (Inl e)"
  by (simp_all add: is_ok_def)

lemma is_ok_iff: "is_ok m \<longleftrightarrow> (\<exists>x. m = Inr x)"
  by (cases m) auto

text \<open>A fallible operation on a state returns the state it reached, also when it fails: an early return
  with an error keeps the changes made before it.\<close>

definition abind :: "'a res \<times> 's \<Rightarrow> ('a \<Rightarrow> 's \<Rightarrow> 'b res \<times> 's) \<Rightarrow> 'b res \<times> 's" where
  "abind m k = (case fst m of Inl e \<Rightarrow> (Inl e, snd m) | Inr x \<Rightarrow> k x (snd m))"

lemma abind_simps [simp]: "abind (Inl e, s) k = (Inl e, s)" "abind (Inr x, s) k = k x s"
  by (simp_all add: abind_def)

text \<open>A relation between states that is kept by the parts of a sequence is kept by the sequence.\<close>

lemma abind_rel:
  assumes "R s (snd m)" "\<And>x. fst m = Inr x \<Longrightarrow> R (snd m) (snd (k x (snd m)))" "\<And>a b c. R a b \<Longrightarrow> R b c \<Longrightarrow> R a c"
  shows "R s (snd (abind m k))"
  using assms by (auto simp: abind_def split: sum.split)

subsection \<open>Fixed-width arithmetic\<close>

definition as_u32 :: "nat \<Rightarrow> nat" where
  "as_u32 n = n mod 2 ^ 32"

definition as_u64 :: "nat \<Rightarrow> nat" where
  "as_u64 n = n mod 2 ^ 64"

definition add32 :: "nat \<Rightarrow> nat \<Rightarrow> nat" where
  "add32 a b = as_u32 (a + b)"

definition sub32 :: "nat \<Rightarrow> nat \<Rightarrow> nat" where
  "sub32 a b = as_u32 (a + 2 ^ 32 - b)"

definition mul32 :: "nat \<Rightarrow> nat \<Rightarrow> nat" where
  "mul32 a b = as_u32 (a * b)"

definition add64 :: "nat \<Rightarrow> nat \<Rightarrow> nat" where
  "add64 a b = as_u64 (a + b)"

definition sub64 :: "nat \<Rightarrow> nat \<Rightarrow> nat" where
  "sub64 a b = as_u64 (a + 2 ^ 64 - b)"

definition mul64 :: "nat \<Rightarrow> nat \<Rightarrow> nat" where
  "mul64 a b = as_u64 (a * b)"

text \<open>\<^verbatim>\<open>TryInto<u32>\<close> and \<^verbatim>\<open>TryInto<u64>\<close> fail where the casts truncate.\<close>

definition try_u32 :: "nat \<Rightarrow> nat option" where
  "try_u32 n = (if n < 2 ^ 32 then Some n else None)"

definition try_i64 :: "nat \<Rightarrow> int option" where
  "try_i64 n = (if n < 2 ^ 63 then Some (int n) else None)"

text \<open>\<^verbatim>\<open>div_ceil\<close>; a zero divisor panics in the callers.\<close>

definition div_ceil :: "nat \<Rightarrow> nat \<Rightarrow> nat" where
  "div_ceil a b = (if a mod b = 0 then a div b else a div b + 1)"

lemmas width_defs = as_u32_def as_u64_def add32_def sub32_def mul32_def add64_def sub64_def mul64_def
  try_u32_def div_ceil_def Let_def

lemma as_u32_exact [arith_exact]: "n < 2 ^ 32 \<Longrightarrow> as_u32 n = n"
  by (simp add: as_u32_def)

lemma as_u64_exact [arith_exact]: "n < 2 ^ 64 \<Longrightarrow> as_u64 n = n"
  by (simp add: as_u64_def)

lemma as_u32_less [simp]: "as_u32 n < 2 ^ 32"
  by (simp add: as_u32_def)

lemma as_u64_less [simp]: "as_u64 n < 2 ^ 64"
  by (simp add: as_u64_def)

lemma add32_exact [arith_exact]: "a + b < 2 ^ 32 \<Longrightarrow> add32 a b = a + b"
  by (simp add: add32_def as_u32_def)

lemma mul32_exact [arith_exact]: "a * b < 2 ^ 32 \<Longrightarrow> mul32 a b = a * b"
  by (simp add: mul32_def as_u32_def)

lemma sub32_exact [arith_exact]: "b \<le> a \<Longrightarrow> a < 2 ^ 32 \<Longrightarrow> sub32 a b = a - b"
  by (simp add: sub32_def as_u32_def mod_if)

lemma add64_exact [arith_exact]: "a + b < 2 ^ 64 \<Longrightarrow> add64 a b = a + b"
  by (simp add: add64_def as_u64_def)

lemma mul64_exact [arith_exact]: "a * b < 2 ^ 64 \<Longrightarrow> mul64 a b = a * b"
  by (simp add: mul64_def as_u64_def)

lemma sub64_exact [arith_exact]: "b \<le> a \<Longrightarrow> a < 2 ^ 64 \<Longrightarrow> sub64 a b = a - b"
  by (simp add: sub64_def as_u64_def mod_if)

lemma mul64_u32_exact:
  assumes "a < 2 ^ 32" "b < 2 ^ 32"
  shows "mul64 a b = a * b"
proof -
  have "a * b < 2 ^ 32 * 2 ^ 32"
    using assms by (intro mult_strict_mono) auto
  then show ?thesis by (simp add: mul64_def as_u64_def)
qed

lemma le_mult_pos: "0 < b \<Longrightarrow> a \<le> a * b" for a b :: nat
  by (cases b) auto

lemma div_ceil_le_iff: "0 < b \<Longrightarrow> div_ceil a b \<le> n \<longleftrightarrow> a \<le> n * b"
proof -
  assume b: "0 < b"
  have a: "a = a div b * b + a mod b" by simp
  show ?thesis
  proof (cases "a mod b = 0")
    case True
    then have "a = a div b * b" using a by simp
    then show ?thesis using True b by (metis div_ceil_def div_le_mono mult_le_mono1 nonzero_mult_div_cancel_right not_gr_zero)
  next
    case False
    have "a div b + 1 \<le> n \<longleftrightarrow> a div b < n" by auto
    also have "\<dots> \<longleftrightarrow> a < n * b" using b by (simp add: div_less_iff_less_mult)
    also have "\<dots> \<longleftrightarrow> a \<le> n * b" using False b by (auto simp: le_less)
    finally show ?thesis using False by (simp add: div_ceil_def)
  qed
qed

lemma less_div_ceil_iff: "0 < b \<Longrightarrow> n < div_ceil a b \<longleftrightarrow> n * b < a"
  using div_ceil_le_iff [of b a n] by linarith

lemma div_ceil_pos: "0 < b \<Longrightarrow> 0 < a \<Longrightarrow> 0 < div_ceil a b"
  by (simp add: less_div_ceil_iff)

lemma div_ceil_altdef: "0 < b \<Longrightarrow> 0 < a \<Longrightarrow> div_ceil a b = (a - 1) div b + 1"
proof -
  assume b: "0 < b" and a: "0 < a"
  have "\<And>n. n < div_ceil a b \<longleftrightarrow> n < (a - 1) div b + 1"
  proof -
    fix n
    have "n < (a - 1) div b + 1 \<longleftrightarrow> n * b \<le> a - 1"
      using b by (simp add: less_eq_div_iff_mult_less_eq less_Suc_eq_le)
    also have "\<dots> \<longleftrightarrow> n * b < a" using a by linarith
    finally show "n < div_ceil a b \<longleftrightarrow> n < (a - 1) div b + 1"
      using b by (simp add: less_div_ceil_iff)
  qed
  then show ?thesis by (meson linorder_neqE_nat nat_less_le)
qed

subsection \<open>Bit fields\<close>

type_synonym bits = "bool list"

text \<open>\<^verbatim>\<open>BF::from_boxed_slice(vec![0u8; n].into_boxed_slice())\<close>: eight bits per byte.\<close>

definition zero_bytes_bf :: "nat \<Rightarrow> bits" where
  "zero_bytes_bf n = replicate (8 * n) False"

text \<open>Indexing and \<^verbatim>\<open>set\<close> panic out of range; \<^verbatim>\<open>get\<close> returns an option.\<close>

definition bf_index :: "bits \<Rightarrow> nat \<Rightarrow> bool res" where
  "bf_index bf i = (if i < length bf then Inr (bf ! i) else Inl Panic)"

definition bf_set :: "bits \<Rightarrow> nat \<Rightarrow> bool \<Rightarrow> bits res" where
  "bf_set bf i v = (if i < length bf then Inr (bf[i := v]) else Inl Panic)"

definition bf_get :: "bits \<Rightarrow> nat \<Rightarrow> bool option" where
  "bf_get bf i = (if i < length bf then Some (bf ! i) else None)"

definition bf_get_range :: "bits \<Rightarrow> nat \<Rightarrow> nat \<Rightarrow> bits option" where
  "bf_get_range bf a b = (if a \<le> b \<and> b \<le> length bf then Some (take (b - a) (drop a bf)) else None)"

text \<open>\<^verbatim>\<open>get_mut(a..b)\<close> followed by \<^verbatim>\<open>fill(v)\<close>.\<close>

definition bf_fill :: "bits \<Rightarrow> nat \<Rightarrow> nat \<Rightarrow> bool \<Rightarrow> bits option" where
  "bf_fill bf a b v =
     (if a \<le> b \<and> b \<le> length bf then Some (take a bf @ replicate (b - a) v @ drop b bf) else None)"

definition bits_all :: "bits \<Rightarrow> bool" where
  "bits_all bs = list_all (\<lambda>b. b) bs"

lemma length_zero_bytes_bf [simp]: "length (zero_bytes_bf n) = 8 * n"
  by (simp add: zero_bytes_bf_def)

lemma nth_zero_bytes_bf [simp]: "i < 8 * n \<Longrightarrow> \<not> zero_bytes_bf n ! i"
  by (simp add: zero_bytes_bf_def)

lemma bf_index_Inr [res_simps]: "bf_index bf i = Inr v \<longleftrightarrow> i < length bf \<and> v = bf ! i"
  by (auto simp: bf_index_def)

lemma bf_set_Inr [res_simps]: "bf_set bf i v = Inr bf' \<longleftrightarrow> i < length bf \<and> bf' = bf[i := v]"
  by (auto simp: bf_set_def)

lemma bf_index_in [simp]: "i < length bf \<Longrightarrow> bf_index bf i = Inr (bf ! i)"
  by (simp add: bf_index_def)

lemma bf_set_in [simp]: "i < length bf \<Longrightarrow> bf_set bf i v = Inr (bf[i := v])"
  by (simp add: bf_set_def)

lemma bf_fill_in: "a \<le> b \<Longrightarrow> b \<le> length bf \<Longrightarrow> \<exists>bf'. bf_fill bf a b v = Some bf'"
  by (simp add: bf_fill_def)

lemma bf_fill_length: "bf_fill bf a b v = Some bf' \<Longrightarrow> length bf' = length bf"
  by (auto simp: bf_fill_def split: if_splits)

lemma bf_fill_nth:
  assumes "bf_fill bf a b v = Some bf'" and "i < length bf"
  shows "bf' ! i = (if a \<le> i \<and> i < b then v else bf ! i)"
  using assms by (auto simp: bf_fill_def nth_append min_def not_less split: if_splits)

lemma bf_get_range_all:
  assumes "bf_get_range bf a b = Some bs"
  shows "bits_all bs \<longleftrightarrow> (\<forall>i. a \<le> i \<and> i < b \<longrightarrow> bf ! i)"
proof -
  from assms have bs: "bs = take (b - a) (drop a bf)" and le: "a \<le> b" "b \<le> length bf"
    by (auto simp: bf_get_range_def split: if_splits)
  have "bits_all bs \<longleftrightarrow> (\<forall>j < b - a. bf ! (a + j))"
    using le by (simp add: bits_all_def bs list_all_length)
  also have "\<dots> \<longleftrightarrow> (\<forall>i. a \<le> i \<and> i < b \<longrightarrow> bf ! i)"
    using le by (metis add_diff_cancel_left' diff_less_mono le_add1 le_add_diff_inverse less_diff_conv add.commute)
  finally show ?thesis .
qed

lemma list_update_True_nth: "xs ! i \<Longrightarrow> i < length xs \<Longrightarrow> xs[k := True] ! i"
  by (cases "k = i") auto

subsection \<open>Sums over index ranges\<close>

lemma sum_list_upt: "(\<Sum>i\<leftarrow>[a..<b]. f i) = (\<Sum>i = a..<b. f i)"
  by (simp add: sum_list_distinct_conv_sum_set)

lemma sum_upd_point:
  fixes f g :: "nat \<Rightarrow> nat"
  assumes "k < n" and "\<And>i. i < n \<Longrightarrow> i \<noteq> k \<Longrightarrow> g i = f i"
  shows "(\<Sum>i<n. g i) + f k = (\<Sum>i<n. f i) + g k"
proof -
  have "(\<Sum>i<n. g i) = g k + (\<Sum>i\<in>{..<n} - {k}. g i)"
    using assms(1) by (simp add: sum.remove)
  moreover have "(\<Sum>i<n. f i) = f k + (\<Sum>i\<in>{..<n} - {k}. f i)"
    using assms(1) by (simp add: sum.remove)
  moreover have "(\<Sum>i\<in>{..<n} - {k}. g i) = (\<Sum>i\<in>{..<n} - {k}. f i)"
    using assms(2) by (intro sum.cong) auto
  ultimately show ?thesis by simp
qed

subsection \<open>Tilings\<close>

text \<open>
  Pieces tile a torrent, chunks tile a piece, chunk bits tile the chunk bit field and files tile
  the torrent. Each is a sequence of \<open>count\<close> consecutive intervals: interval \<open>i\<close> begins
  at \<open>start s i\<close>, has \<open>size s i\<close> elements, and the last one ends at \<open>total s\<close>.
\<close>

locale tiling =
  fixes invar :: "'s \<Rightarrow> bool"
    and count :: "'s \<Rightarrow> nat"
    and size :: "'s \<Rightarrow> nat \<Rightarrow> nat"
    and start :: "'s \<Rightarrow> nat \<Rightarrow> nat"
    and total :: "'s \<Rightarrow> nat"
  assumes start_0: "invar s \<Longrightarrow> start s 0 = 0"
    and start_Suc: "invar s \<Longrightarrow> Suc i < count s \<Longrightarrow> start s (Suc i) = start s i + size s i"
    and count_pos: "invar s \<Longrightarrow> 0 < count s"
    and total_eq: "invar s \<Longrightarrow> start s (count s - 1) + size s (count s - 1) = total s"
begin

lemma start_eq_sum: "invar s \<Longrightarrow> i < count s \<Longrightarrow> start s i = (\<Sum>k<i. size s k)"
proof (induction i)
  case 0
  then show ?case by (simp add: start_0)
next
  case (Suc i)
  then show ?case by (simp add: start_Suc)
qed

lemma total_eq_sum: "invar s \<Longrightarrow> total s = (\<Sum>k<count s. size s k)"
proof -
  assume inv: "invar s"
  then obtain n where n: "count s = Suc n" using count_pos [of s] by (cases "count s") auto
  then have "start s n = (\<Sum>k<n. size s k)" using inv by (simp add: start_eq_sum)
  then show ?thesis using total_eq [OF inv] n by simp
qed

lemma end_le_start: "invar s \<Longrightarrow> i < j \<Longrightarrow> j < count s \<Longrightarrow> start s i + size s i \<le> start s j"
proof -
  assume inv: "invar s" and ij: "i < j" "j < count s"
  have "start s i + size s i = (\<Sum>k<Suc i. size s k)" using inv ij by (simp add: start_eq_sum)
  also have "\<dots> \<le> (\<Sum>k<j. size s k)" using ij by (intro sum_mono2) auto
  finally show ?thesis using inv ij by (simp add: start_eq_sum)
qed

lemma end_le_total: "invar s \<Longrightarrow> i < count s \<Longrightarrow> start s i + size s i \<le> total s"
proof -
  assume inv: "invar s" and i: "i < count s"
  have "start s i + size s i = (\<Sum>k<Suc i. size s k)" using inv i by (simp add: start_eq_sum)
  also have "\<dots> \<le> (\<Sum>k<count s. size s k)" using i by (intro sum_mono2) auto
  finally show ?thesis using inv by (simp add: total_eq_sum)
qed

lemma start_mono: "invar s \<Longrightarrow> i \<le> j \<Longrightarrow> j < count s \<Longrightarrow> start s i \<le> start s j"
  using end_le_start [of s i j] by (cases "i = j") auto

lemma owner_unique:
  assumes "invar s" "i < count s" "j < count s"
    and "start s i \<le> x" "x < start s i + size s i" "start s j \<le> x" "x < start s j + size s j"
  shows "i = j"
proof (rule ccontr)
  assume "i \<noteq> j"
  then consider "i < j" | "j < i" by linarith
  then show False
    using assms end_le_start [of s i j] end_le_start [of s j i] by cases auto
qed

lemma owner_exists:
  assumes "invar s" "x < total s"
  shows "\<exists>i < count s. start s i \<le> x \<and> x < start s i + size s i"
proof -
  have "n \<le> count s \<Longrightarrow> x < (\<Sum>k<n. size s k) \<Longrightarrow>
      \<exists>i < n. start s i \<le> x \<and> x < start s i + size s i" for n
  proof (induction n)
    case 0
    then show ?case by simp
  next
    case (Suc n)
    show ?case
    proof (cases "x < (\<Sum>k<n. size s k)")
      case True
      with Suc show ?thesis by (metis Suc_leD less_SucI)
    next
      case False
      then have "start s n \<le> x \<and> x < start s n + size s n"
        using Suc.prems assms(1) by (simp add: start_eq_sum)
      then show ?thesis by blast
    qed
  qed
  from this [of "count s"] show ?thesis using assms by (simp add: total_eq_sum)
qed

end

end
