(* ===== verification/Lengths.thy ===== *)
theory Lengths
  imports Prelude
begin

text \<open>
  The geometry of a torrent: \<^verbatim>\<open>librqbit_core::lengths\<close>. A torrent of
  \<open>total_length\<close> bytes is cut into pieces of \<open>default_piece_length\<close> bytes (the last one may
  be shorter), and each piece into chunks of \<open>CHUNK_SIZE\<close> bytes, the unit peers request.
  \<open>ValidPieceIndex\<close> is a number not above \<open>last_piece_id\<close>.

  The theory proves that pieces tile the torrent, chunks tile a piece and chunk bits tile the
  chunk bit field (three interpretations of the locale \<open>tiling\<close>), and that the validation of
  received data accepts exactly the chunks the requester generates.
\<close>

definition CHUNK_SIZE :: nat where
  "CHUNK_SIZE = 16384"

lemma CHUNK_SIZE_pos [simp]: "0 < CHUNK_SIZE"
  by (simp add: CHUNK_SIZE_def)

text \<open>The record's fields carry the names of the struct's accessor methods where a field and a
  method share a name: \<open>default_piece_length\<close> is the field \<^verbatim>\<open>piece_length\<close>,
  \<open>default_chunks_per_piece\<close> the field \<^verbatim>\<open>chunks_per_piece\<close>.\<close>

record lengths =
  total_length :: nat
  default_piece_length :: nat
  last_piece_id :: nat
  last_piece_length :: nat
  default_chunks_per_piece :: nat

type_synonym valid_piece_index = nat

record piece_info =
  pi_index :: valid_piece_index
  pi_len :: nat

record chunk_info =
  ci_piece_index :: valid_piece_index
  ci_chunk_index :: nat
  ci_absolute_index :: nat
  ci_size :: nat
  ci_offset :: nat

definition last_element_size :: "nat \<Rightarrow> nat \<Rightarrow> nat" where
  "last_element_size tlen elem_length =
     (let rem = tlen mod elem_length in if rem = 0 then elem_length else rem)"

definition lengths_new :: "nat \<Rightarrow> nat \<Rightarrow> lengths res" where
  "lengths_new tlen plen =
     (if tlen = 0 then Inl (Bail ''torrent with 0 length is useless'')
      else if plen = 0 then Inl Panic
      else
        let pieces = as_u32 (div_ceil tlen plen)
        in Inr \<lparr>total_length = tlen,
                default_piece_length = plen,
                last_piece_id = sub32 pieces 1,
                last_piece_length = as_u32 (last_element_size tlen plen),
                default_chunks_per_piece = as_u32 (div_ceil plen CHUNK_SIZE)\<rparr>)"

definition total_pieces :: "lengths \<Rightarrow> nat" where
  "total_pieces l = add32 (last_piece_id l) 1"

definition validate_piece_index :: "lengths \<Rightarrow> nat \<Rightarrow> valid_piece_index option" where
  "validate_piece_index l index = (if index > last_piece_id l then None else Some index)"

definition piece_length :: "lengths \<Rightarrow> valid_piece_index \<Rightarrow> nat" where
  "piece_length l index =
     (if index = last_piece_id l then last_piece_length l else default_piece_length l)"

definition chunks_per_piece :: "lengths \<Rightarrow> valid_piece_index \<Rightarrow> nat" where
  "chunks_per_piece l index =
     (if index = last_piece_id l then div_ceil (last_piece_length l) CHUNK_SIZE
      else default_chunks_per_piece l)"

definition total_chunks :: "lengths \<Rightarrow> nat" where
  "total_chunks l =
     add32 (mul32 (last_piece_id l) (default_chunks_per_piece l)) (chunks_per_piece l (last_piece_id l))"

definition piece_bitfield_bytes :: "lengths \<Rightarrow> nat" where
  "piece_bitfield_bytes l = div_ceil (total_pieces l) 8"

definition chunk_bitfield_bytes :: "lengths \<Rightarrow> nat" where
  "chunk_bitfield_bytes l = div_ceil (total_chunks l) 8"

definition piece_offset :: "lengths \<Rightarrow> valid_piece_index \<Rightarrow> nat" where
  "piece_offset l index = mul64 index (default_piece_length l)"

definition chunk_absolute_offset :: "lengths \<Rightarrow> chunk_info \<Rightarrow> nat" where
  "chunk_absolute_offset l ci = add64 (piece_offset l (ci_piece_index ci)) (ci_offset ci)"

definition iter_piece_infos :: "lengths \<Rightarrow> piece_info list" where
  "iter_piece_infos l =
     map (\<lambda>idx. \<lparr>pi_index = idx,
                 pi_len = (if idx = last_piece_id l then last_piece_length l
                           else default_piece_length l)\<rparr>)
       [0..<total_pieces l]"

text \<open>A Rust range \<^verbatim>\<open>a..b\<close> is the pair of its bounds.\<close>

definition iter_pieces_within_offset :: "lengths \<Rightarrow> nat \<Rightarrow> nat \<Rightarrow> nat \<times> nat" where
  "iter_pieces_within_offset l offset_bytes len =
     (let offset_bytes = min offset_bytes (total_length l);
          end_bytes = min (add64 offset_bytes len) (total_length l);
          start_piece_id = as_u32 (offset_bytes div default_piece_length l);
          end_piece_id = (if end_bytes = offset_bytes then start_piece_id
                          else as_u32 (div_ceil end_bytes (default_piece_length l)))
      in (start_piece_id, end_piece_id))"

text \<open>The \<^verbatim>\<open>scan\<close> closure of \<open>iter_chunk_infos\<close>: its captured variables
  \<open>remaining\<close> and \<open>offset\<close> and the counter \<open>idx\<close> are arguments.\<close>

function chunk_infos_scan :: "valid_piece_index \<Rightarrow> nat \<Rightarrow> nat \<Rightarrow> nat \<Rightarrow> nat \<Rightarrow> chunk_info list" where
  "chunk_infos_scan index absolute_offset remaining offset idx =
     (if remaining = 0 then []
      else
        let s = min remaining CHUNK_SIZE
        in \<lparr>ci_piece_index = index, ci_chunk_index = idx,
             ci_absolute_index = add32 absolute_offset idx, ci_size = s, ci_offset = offset\<rparr>
           # chunk_infos_scan index absolute_offset (remaining - s) (add32 offset s) (add32 idx 1))"
  by pat_completeness auto
termination
  by (relation "measure (\<lambda>(index, absolute_offset, remaining, offset, idx). remaining)")
    (auto simp: CHUNK_SIZE_def)

declare chunk_infos_scan.simps [simp del]

definition iter_chunk_infos :: "lengths \<Rightarrow> valid_piece_index \<Rightarrow> chunk_info list" where
  "iter_chunk_infos l index =
     chunk_infos_scan index (mul32 index (default_chunks_per_piece l)) (piece_length l index) 0 0"

definition chunk_offset_in_piece :: "lengths \<Rightarrow> valid_piece_index \<Rightarrow> nat \<Rightarrow> nat option" where
  "chunk_offset_in_piece l piece_index chunk_index =
     (if chunk_index \<ge> chunks_per_piece l piece_index then None
      else Some (mul32 chunk_index CHUNK_SIZE))"

definition chunk_size :: "lengths \<Rightarrow> valid_piece_index \<Rightarrow> nat \<Rightarrow> nat option" where
  "chunk_size l piece_index chunk_index =
     (let len = piece_length l piece_index;
          last_chunk_id = sub32 (div_ceil len CHUNK_SIZE) 1
      in if chunk_index < last_chunk_id then Some CHUNK_SIZE
         else if chunk_index = last_chunk_id then Some (last_element_size len CHUNK_SIZE)
         else None)"

definition chunk_info_from_received_data ::
  "lengths \<Rightarrow> valid_piece_index \<Rightarrow> nat \<Rightarrow> nat \<Rightarrow> chunk_info option" where
  "chunk_info_from_received_data l piece_index begin chunk_sz =
     (let index = begin div CHUNK_SIZE in
      do {
        expected_chunk_size \<leftarrow> chunk_size l piece_index index;
        offset \<leftarrow> chunk_offset_in_piece l piece_index index;
        if offset \<noteq> begin then None
        else if expected_chunk_size \<noteq> chunk_sz then None
        else
          let absolute_index = add32 (mul32 (default_chunks_per_piece l) piece_index) index
          in Some \<lparr>ci_piece_index = piece_index, ci_chunk_index = index,
                   ci_absolute_index = absolute_index, ci_size = chunk_sz, ci_offset = offset\<rparr>
      })"

definition chunk_range :: "lengths \<Rightarrow> valid_piece_index \<Rightarrow> nat \<times> nat" where
  "chunk_range l index =
     (let start = mul32 index (default_chunks_per_piece l);
          stop = add32 start (chunks_per_piece l index)
      in (start, stop))"

definition size_of_piece_in_file :: "lengths \<Rightarrow> nat \<Rightarrow> nat \<Rightarrow> nat \<Rightarrow> nat" where
  "size_of_piece_in_file l piece_id file_offset file_len =
     (let piece_offset = mul64 piece_id (default_piece_length l);
          piece_end = add64 piece_offset (default_piece_length l);
          file_end = add64 file_offset file_len;
          offset = max file_offset piece_offset;
          stop = min file_end piece_end
      in stop - offset)"

record current_piece =
  cp_id :: valid_piece_index
  cp_piece_remaining :: nat
  cp_piece_offset :: nat

definition compute_current_piece :: "lengths \<Rightarrow> nat \<Rightarrow> nat \<Rightarrow> current_piece option" where
  "compute_current_piece l file_pos file_torrent_abs_offset =
     (let dpl = default_piece_length l;
          abs_pos = add64 file_torrent_abs_offset file_pos
      in do {
        piece_id \<leftarrow> try_u32 (abs_pos div dpl);
        piece_id \<leftarrow> validate_piece_index l piece_id;
        let piece_len = piece_length l piece_id;
        piece_offset \<leftarrow> try_u32 (abs_pos div dpl);
        piece_remaining \<leftarrow> try_u32 (sub64 piece_len (abs_pos mod dpl));
        Some \<lparr>cp_id = piece_id, cp_piece_remaining = piece_remaining, cp_piece_offset = piece_offset\<rparr>
      })"

lemma lengths_new_pos: "lengths_new n plen = Inr l \<Longrightarrow> 0 < n"
  by (auto simp: lengths_new_def split: if_splits)

subsection \<open>Well-formed lengths\<close>

text \<open>
  What \<open>lengths_new\<close> establishes for a torrent whose pieces and chunks can be counted in 32 bits.
\<close>

definition wf_lengths :: "lengths \<Rightarrow> bool" where
  "wf_lengths l \<longleftrightarrow>
     0 < total_length l \<and> total_length l < 2 ^ 64 \<and>
     0 < default_piece_length l \<and> default_piece_length l < 2 ^ 32 \<and>
     last_piece_id l = (total_length l - 1) div default_piece_length l \<and>
     last_piece_length l = total_length l - last_piece_id l * default_piece_length l \<and>
     default_chunks_per_piece l = div_ceil (default_piece_length l) CHUNK_SIZE \<and>
     (last_piece_id l + 1) * default_chunks_per_piece l < 2 ^ 32"

named_theorems wf_lens \<open>consequences of well-formed lengths\<close>

lemma wf_total [wf_lens]: "wf_lengths l \<Longrightarrow> 0 < total_length l \<and> total_length l < 2 ^ 64"
  by (simp add: wf_lengths_def)

lemma wf_dpl [wf_lens]:
  "wf_lengths l \<Longrightarrow> 0 < default_piece_length l \<and> default_piece_length l < 2 ^ 32"
  by (simp add: wf_lengths_def)

lemma wf_dcpp [wf_lens]: "wf_lengths l \<Longrightarrow> 0 < default_chunks_per_piece l"
  by (simp add: wf_lengths_def div_ceil_pos)

lemma wf_chunk_count [wf_lens]:
  "wf_lengths l \<Longrightarrow> (last_piece_id l + 1) * default_chunks_per_piece l < 2 ^ 32"
  unfolding wf_lengths_def by blast

lemma wf_last_piece_id [wf_lens]: "wf_lengths l \<Longrightarrow> last_piece_id l + 1 < 2 ^ 32"
proof -
  assume wf: "wf_lengths l"
  have "last_piece_id l + 1 \<le> (last_piece_id l + 1) * default_chunks_per_piece l"
    using wf_dcpp [OF wf] by (rule le_mult_pos)
  also have "\<dots> < 2 ^ 32" by (rule wf_chunk_count [OF wf])
  finally show ?thesis .
qed

lemma total_pieces_eq: "wf_lengths l \<Longrightarrow> total_pieces l = last_piece_id l + 1"
  using wf_last_piece_id [of l] by (simp add: total_pieces_def add32_exact)

lemma total_pieces_pos: "wf_lengths l \<Longrightarrow> 0 < total_pieces l"
  by (simp add: total_pieces_eq)

lemma less_total_pieces_iff: "wf_lengths l \<Longrightarrow> p < total_pieces l \<longleftrightarrow> p \<le> last_piece_id l"
  by (auto simp: total_pieces_eq)

lemma last_piece_bounds:
  assumes wf: "wf_lengths l"
  shows "last_piece_id l * default_piece_length l < total_length l"
    and "total_length l \<le> (last_piece_id l + 1) * default_piece_length l"
    and "0 < last_piece_length l" and "last_piece_length l \<le> default_piece_length l"
    and "last_piece_id l * default_piece_length l + last_piece_length l = total_length l"
proof -
  let ?t = "total_length l" and ?d = "default_piece_length l" and ?n = "last_piece_id l"
  have d: "0 < ?d" and t: "0 < ?t" using wf wf_dpl wf_total by blast+
  have n: "?n = (?t - 1) div ?d" using wf by (simp add: wf_lengths_def)
  show 1: "?n * ?d < ?t"
    using n t by (metis Suc_pred' div_times_less_eq_dividend less_Suc_eq_le)
  show 2: "?t \<le> (?n + 1) * ?d"
  proof -
    have "?t - 1 < (?n + 1) * ?d" using n dividend_less_div_times [OF d] by simp
    then show ?thesis using t by linarith
  qed
  have ll: "last_piece_length l = ?t - ?n * ?d" using wf by (simp add: wf_lengths_def)
  show "0 < last_piece_length l" using ll 1 by simp
  show "last_piece_length l \<le> ?d" using ll 2 by (simp add: algebra_simps)
  show "?n * ?d + last_piece_length l = ?t" using ll 1 by simp
qed

lemma piece_length_bounds:
  assumes "wf_lengths l"
  shows "0 < piece_length l p" "piece_length l p \<le> default_piece_length l"
  using assms wf_dpl last_piece_bounds(3,4) by (auto simp: piece_length_def)

lemma piece_length_u32: "wf_lengths l \<Longrightarrow> piece_length l p < 2 ^ 32"
  using piece_length_bounds(2) wf_dpl by (metis le_less_trans)

lemma piece_offset_eq:
  assumes "wf_lengths l" "p < 2 ^ 32"
  shows "piece_offset l p = p * default_piece_length l"
  using assms wf_dpl [of l] by (simp add: piece_offset_def mul64_u32_exact)

lemma piece_index_u32: "wf_lengths l \<Longrightarrow> p < total_pieces l \<Longrightarrow> p < 2 ^ 32"
  using wf_last_piece_id [of l] by (simp add: total_pieces_eq)

lemma validate_piece_index_Some:
  "wf_lengths l \<Longrightarrow> validate_piece_index l i = Some p \<longleftrightarrow> p = i \<and> i < total_pieces l"
  by (auto simp: validate_piece_index_def total_pieces_eq)

lemma last_element_size_eq: "0 < n \<Longrightarrow> 0 < c \<Longrightarrow> last_element_size n c = n - (div_ceil n c - 1) * c"
proof (cases "n mod c = 0")
  case True
  assume "0 < n" "0 < c"
  moreover from this True have "c \<le> n" by (auto intro: dvd_imp_le)
  ultimately show ?thesis using True
    by (simp add: last_element_size_def div_ceil_def diff_mult_distrib
        dvd_imp_mod_0 minus_mod_eq_div_mult [symmetric])
next
  case False
  then show ?thesis by (simp add: last_element_size_def div_ceil_def minus_div_mult_eq_mod)
qed

lemma lengths_new_wf:
  assumes "0 < tlen" "tlen < 2 ^ 64" "0 < plen" "plen < 2 ^ 32"
    and "div_ceil tlen plen * div_ceil plen CHUNK_SIZE < 2 ^ 32"
  shows "\<exists>l. lengths_new tlen plen = Inr l \<and> wf_lengths l \<and>
    total_length l = tlen \<and> default_piece_length l = plen"
proof -
  let ?n = "div_ceil tlen plen" and ?c = "div_ceil plen CHUNK_SIZE"
  have n: "0 < ?n" and c: "0 < ?c" using assms by (auto intro: div_ceil_pos)
  have n32: "?n < 2 ^ 32" using assms(5) le_mult_pos [OF c, of ?n] by linarith
  have c32: "?c < 2 ^ 32"
    using assms(5) le_mult_pos [OF n, of ?c] by (metis le_less_trans mult.commute)
  have last: "last_element_size tlen plen = tlen - (?n - 1) * plen"
    by (rule last_element_size_eq [OF assms(1,3)])
  have last32: "last_element_size tlen plen < 2 ^ 32"
    using assms(3,4) mod_less_divisor [OF assms(3), of tlen]
    by (auto simp: last_element_size_def Let_def)
  have nid: "?n - 1 = (tlen - 1) div plen" using assms by (simp add: div_ceil_altdef)
  have m: "((tlen - 1) div plen + 1) * ?c < 2 ^ 32"
    using assms(5) unfolding div_ceil_altdef [OF assms(3,1)] .
  show ?thesis
    using assms n n32 c32 last32 last nid m
    by (simp add: lengths_new_def wf_lengths_def as_u32_exact sub32_exact Suc_leI)
qed

subsection \<open>Pieces tile the torrent\<close>

interpretation pieces: tiling wf_lengths total_pieces piece_length piece_offset total_length
proof unfold_locales
  fix l :: lengths and i :: nat
  assume wf: "wf_lengths l"
  show "piece_offset l 0 = 0" using piece_offset_eq [OF wf, of 0] by simp
  show "0 < total_pieces l" by (rule total_pieces_pos [OF wf])
  show "piece_offset l (total_pieces l - 1) + piece_length l (total_pieces l - 1) = total_length l"
    using wf last_piece_bounds(5) [OF wf] wf_last_piece_id [OF wf]
    by (simp add: total_pieces_eq piece_offset_eq piece_length_def)
  assume i: "Suc i < total_pieces l"
  then have "i \<noteq> last_piece_id l" using wf by (simp add: total_pieces_eq)
  then show "piece_offset l (Suc i) = piece_offset l i + piece_length l i"
    using wf i piece_index_u32 [OF wf, of i] piece_index_u32 [OF wf i]
    by (simp add: piece_offset_eq piece_length_def)
qed

lemma iter_piece_infos_simp:
  "iter_piece_infos l = map (\<lambda>i. \<lparr>pi_index = i, pi_len = piece_length l i\<rparr>) [0..<total_pieces l]"
  by (simp add: iter_piece_infos_def piece_length_def)

lemma pieces_sum: "wf_lengths l \<Longrightarrow> (\<Sum>p<total_pieces l. piece_length l p) = total_length l"
  by (simp add: pieces.total_eq_sum)

lemma piece_end_u64: "wf_lengths l \<Longrightarrow> p < total_pieces l \<Longrightarrow> (p + 1) * default_piece_length l < 2 ^ 64"
proof -
  assume wf: "wf_lengths l" and p: "p < total_pieces l"
  have "p + 1 \<le> 2 ^ 32" using piece_index_u32 [OF wf p] by simp
  moreover have "default_piece_length l < 2 ^ 32" using wf_dpl [OF wf] by simp
  ultimately have "(p + 1) * default_piece_length l < 2 ^ 32 * 2 ^ 32"
    by (metis le_less_trans mult_le_mono1 mult_less_mono2 zero_less_numeral zero_less_power)
  then show ?thesis by simp
qed

subsection \<open>Chunks tile a piece\<close>

text \<open>The size of chunk \<open>i\<close> of a piece, as the requester hands it out.\<close>

definition nth_chunk_size :: "lengths \<Rightarrow> valid_piece_index \<Rightarrow> nat \<Rightarrow> nat" where
  "nth_chunk_size l p i = min CHUNK_SIZE (piece_length l p - i * CHUNK_SIZE)"

lemma chunks_per_piece_eq:
  "wf_lengths l \<Longrightarrow> chunks_per_piece l p = div_ceil (piece_length l p) CHUNK_SIZE"
  by (simp add: chunks_per_piece_def piece_length_def wf_lengths_def)

lemma less_chunks_per_piece_iff:
  "wf_lengths l \<Longrightarrow> i < chunks_per_piece l p \<longleftrightarrow> i * CHUNK_SIZE < piece_length l p"
  by (simp add: chunks_per_piece_eq less_div_ceil_iff)

lemma chunks_per_piece_pos: "wf_lengths l \<Longrightarrow> 0 < chunks_per_piece l p"
  by (simp add: less_chunks_per_piece_iff piece_length_bounds)

lemma chunks_per_piece_le: "wf_lengths l \<Longrightarrow> chunks_per_piece l p \<le> default_chunks_per_piece l"
proof -
  assume wf: "wf_lengths l"
  have "chunks_per_piece l p \<le> div_ceil (default_piece_length l) CHUNK_SIZE"
    using piece_length_bounds(2) [OF wf, of p] less_chunks_per_piece_iff [OF wf]
    by (metis CHUNK_SIZE_pos leI less_div_ceil_iff less_le_trans nat_less_le)
  then show ?thesis using wf by (simp add: wf_lengths_def)
qed

lemma chunk_size_eq:
  assumes wf: "wf_lengths l"
  shows "chunk_size l p i = (if i < chunks_per_piece l p then Some (nth_chunk_size l p i) else None)"
proof -
  let ?n = "piece_length l p" and ?k = "chunks_per_piece l p"
  have k: "?k = div_ceil ?n CHUNK_SIZE" by (rule chunks_per_piece_eq [OF wf])
  have k0: "0 < ?k" by (rule chunks_per_piece_pos [OF wf])
  have n: "0 < ?n" "?n < 2 ^ 32" using piece_length_bounds [OF wf] piece_length_u32 [OF wf] by auto
  have kn: "?k \<le> ?n"
    using k n by (simp add: div_ceil_le_iff CHUNK_SIZE_def)
  then have sub: "sub32 ?k 1 = ?k - 1" using k0 n by (simp add: sub32_exact)
  have full: "i < ?k - 1 \<Longrightarrow> nth_chunk_size l p i = CHUNK_SIZE"
  proof -
    assume "i < ?k - 1"
    then have "Suc i < ?k" by simp
    then have "Suc i * CHUNK_SIZE < ?n" by (simp only: less_chunks_per_piece_iff [OF wf])
    then show ?thesis by (simp add: nth_chunk_size_def)
  qed
  have last: "nth_chunk_size l p (?k - 1) = last_element_size ?n CHUNK_SIZE"
  proof -
    have "?n \<le> ?k * CHUNK_SIZE" using k by (simp add: div_ceil_le_iff [symmetric])
    then have "?n - (?k - 1) * CHUNK_SIZE \<le> CHUNK_SIZE" using k0 by (cases ?k) auto
    then show ?thesis using n k by (simp add: nth_chunk_size_def last_element_size_eq)
  qed
  show ?thesis using full last sub k k0 by (auto simp: chunk_size_def Let_def)
qed

lemma nth_chunk_size_bounds:
  assumes "wf_lengths l" "i < chunks_per_piece l p"
  shows "0 < nth_chunk_size l p i" "nth_chunk_size l p i \<le> CHUNK_SIZE"
    "i * CHUNK_SIZE + nth_chunk_size l p i \<le> piece_length l p"
  using assms by (auto simp: nth_chunk_size_def less_chunks_per_piece_iff)

interpretation chunks: tiling
  "\<lambda>(l, p). wf_lengths l" "\<lambda>(l, p). chunks_per_piece l p" "\<lambda>(l, p) i. nth_chunk_size l p i"
  "\<lambda>(l, p) i. i * CHUNK_SIZE" "\<lambda>(l, p). piece_length l p"
proof (unfold_locales; clarify)
  fix l p i
  assume wf: "wf_lengths l"
  show "0 * CHUNK_SIZE = 0" by simp
  show "0 < chunks_per_piece l p" by (rule chunks_per_piece_pos [OF wf])
  then show "(chunks_per_piece l p - 1) * CHUNK_SIZE + nth_chunk_size l p (chunks_per_piece l p - 1)
      = piece_length l p"
    using wf less_chunks_per_piece_iff [OF wf, of "chunks_per_piece l p - 1" p]
      less_chunks_per_piece_iff [OF wf, of "chunks_per_piece l p" p]
    by (cases "chunks_per_piece l p") (auto simp: nth_chunk_size_def)
  assume "Suc i < chunks_per_piece l p"
  then have "Suc i * CHUNK_SIZE < piece_length l p" by (simp only: less_chunks_per_piece_iff [OF wf])
  then show "Suc i * CHUNK_SIZE = i * CHUNK_SIZE + nth_chunk_size l p i"
    by (simp add: nth_chunk_size_def)
qed

lemma nth_chunk_size_zero: "piece_length l p \<le> i * CHUNK_SIZE \<Longrightarrow> nth_chunk_size l p i = 0"
  by (simp add: nth_chunk_size_def)

text \<open>Chunk \<open>i\<close> of piece \<open>p\<close>.\<close>

definition nth_chunk :: "lengths \<Rightarrow> valid_piece_index \<Rightarrow> nat \<Rightarrow> chunk_info" where
  "nth_chunk l p i = \<lparr>ci_piece_index = p, ci_chunk_index = i,
     ci_absolute_index = p * default_chunks_per_piece l + i,
     ci_size = nth_chunk_size l p i, ci_offset = i * CHUNK_SIZE\<rparr>"

lemma chunk_bit_bound:
  assumes wf: "wf_lengths l" and p: "p < total_pieces l" and i: "i \<le> chunks_per_piece l p"
  shows "p * default_chunks_per_piece l + i \<le> (last_piece_id l + 1) * default_chunks_per_piece l"
    and "p * default_chunks_per_piece l + i < 2 ^ 32"
proof -
  have "p * default_chunks_per_piece l + i \<le> (p + 1) * default_chunks_per_piece l"
    using i chunks_per_piece_le [OF wf, of p] by simp
  also have "\<dots> \<le> (last_piece_id l + 1) * default_chunks_per_piece l"
    using p wf by (intro mult_le_mono1) (simp add: total_pieces_eq)
  finally show "p * default_chunks_per_piece l + i
      \<le> (last_piece_id l + 1) * default_chunks_per_piece l" .
  then show "p * default_chunks_per_piece l + i < 2 ^ 32"
    using wf_chunk_count [OF wf] by linarith
qed

lemma chunk_infos_scan_eq:
  assumes wf: "wf_lengths l" and p: "p < total_pieces l" and i: "i \<le> chunks_per_piece l p"
  shows "chunk_infos_scan p (p * default_chunks_per_piece l) (piece_length l p - i * CHUNK_SIZE)
      (min (i * CHUNK_SIZE) (piece_length l p)) i
    = map (nth_chunk l p) [i..<chunks_per_piece l p]"
  using i
proof (induction "chunks_per_piece l p - i" arbitrary: i)
  case 0
  then have "i = chunks_per_piece l p" by simp
  moreover from this have "piece_length l p \<le> i * CHUNK_SIZE"
    using less_chunks_per_piece_iff [OF wf, of i p] by simp
  ultimately show ?case by (simp add: chunk_infos_scan.simps)
next
  case (Suc n)
  then have lt: "i < chunks_per_piece l p" by simp
  then have pos: "i * CHUNK_SIZE < piece_length l p" by (simp add: less_chunks_per_piece_iff [OF wf])
  have len: "piece_length l p < 2 ^ 32" by (rule piece_length_u32 [OF wf])
  have sz: "min (piece_length l p - i * CHUNK_SIZE) CHUNK_SIZE = nth_chunk_size l p i"
    by (simp add: nth_chunk_size_def min.commute)
  have abs: "add32 (p * default_chunks_per_piece l) i = p * default_chunks_per_piece l + i"
    using chunk_bit_bound(2) [OF wf p less_imp_le [OF lt]] by (simp add: add32_exact)
  have idx: "add32 i 1 = Suc i"
    using chunk_bit_bound(2) [OF wf p Suc_leI [OF lt]] by (simp add: add32_exact)
  have off: "add32 (i * CHUNK_SIZE) (nth_chunk_size l p i) = min (Suc i * CHUNK_SIZE) (piece_length l p)"
    using nth_chunk_size_bounds(3) [OF wf lt] len pos
    by (simp add: add32_exact) (simp add: nth_chunk_size_def min_def, linarith)
  have rem: "piece_length l p - i * CHUNK_SIZE - nth_chunk_size l p i = piece_length l p - Suc i * CHUNK_SIZE"
    by (simp add: nth_chunk_size_def min_def add.commute)
  have "chunk_infos_scan p (p * default_chunks_per_piece l) (piece_length l p - Suc i * CHUNK_SIZE)
      (min (Suc i * CHUNK_SIZE) (piece_length l p)) (Suc i) = map (nth_chunk l p) [Suc i..<chunks_per_piece l p]"
    using lt Suc.hyps(2) by (intro Suc.hyps(1)) linarith+
  moreover have "[i..<chunks_per_piece l p] = i # [Suc i..<chunks_per_piece l p]"
    using lt by (rule upt_conv_Cons)
  ultimately show ?case
    using pos sz abs idx off rem
    by (subst chunk_infos_scan.simps) (simp add: nth_chunk_def Let_def min_absorb1)
qed

lemma iter_chunk_infos_eq:
  assumes wf: "wf_lengths l" and p: "p < total_pieces l"
  shows "iter_chunk_infos l p = map (nth_chunk l p) [0..<chunks_per_piece l p]"
proof -
  have "mul32 p (default_chunks_per_piece l) = p * default_chunks_per_piece l"
    using chunk_bit_bound(2) [OF wf p, of 0] by (simp add: mul32_exact)
  then show ?thesis
    using chunk_infos_scan_eq [OF wf p, of 0] by (simp add: iter_chunk_infos_def)
qed

text \<open>Received data is accepted exactly when it is one of the chunks the requester generates.\<close>

lemma chunk_info_from_received_data_iff:
  assumes wf: "wf_lengths l" and p: "p < total_pieces l"
  shows "chunk_info_from_received_data l p begin sz = Some ci
    \<longleftrightarrow> ci \<in> set (iter_chunk_infos l p) \<and> ci_offset ci = begin \<and> ci_size ci = sz"
proof -
  let ?i = "begin div CHUNK_SIZE"
  have mul: "?i < chunks_per_piece l p \<Longrightarrow> mul32 ?i CHUNK_SIZE = ?i * CHUNK_SIZE"
    using less_chunks_per_piece_iff [OF wf] piece_length_u32 [OF wf, of p]
    by (simp add: mul32_exact)
  have abs: "?i < chunks_per_piece l p \<Longrightarrow>
      add32 (mul32 (default_chunks_per_piece l) p) ?i = p * default_chunks_per_piece l + ?i"
    using chunk_bit_bound(2) [OF wf p, of ?i] chunk_bit_bound(2) [OF wf p, of 0]
    by (simp add: mul32_exact add32_exact mult.commute)
  have "chunk_info_from_received_data l p begin sz = Some ci \<longleftrightarrow>
      ?i < chunks_per_piece l p \<and> ?i * CHUNK_SIZE = begin \<and> nth_chunk_size l p ?i = sz
      \<and> ci = nth_chunk l p ?i"
    using mul abs
    by (auto simp: chunk_info_from_received_data_def Let_def chunk_size_eq [OF wf]
        chunk_offset_in_piece_def nth_chunk_def)
  also have "\<dots> \<longleftrightarrow> (\<exists>i < chunks_per_piece l p. ci = nth_chunk l p i) \<and>
      ci_offset ci = begin \<and> ci_size ci = sz"
    by (auto simp: nth_chunk_def)
  finally show ?thesis by (auto simp: iter_chunk_infos_eq [OF wf p])
qed

subsection \<open>Chunk bits tile the chunk bit field\<close>

lemma chunk_range_eq:
  assumes wf: "wf_lengths l" and p: "p < total_pieces l"
  shows "chunk_range l p =
    (p * default_chunks_per_piece l, p * default_chunks_per_piece l + chunks_per_piece l p)"
  using chunk_bit_bound(2) [OF wf p, of 0] chunk_bit_bound(2) [OF wf p, of "chunks_per_piece l p"]
  by (simp add: chunk_range_def Let_def mul32_exact add32_exact)

lemma total_chunks_eq:
  assumes wf: "wf_lengths l"
  shows "total_chunks l =
    last_piece_id l * default_chunks_per_piece l + chunks_per_piece l (last_piece_id l)"
proof -
  have p: "last_piece_id l < total_pieces l" using wf by (simp add: total_pieces_eq)
  show ?thesis
    using chunk_bit_bound(2) [OF wf p, of 0]
      chunk_bit_bound(2) [OF wf p, of "chunks_per_piece l (last_piece_id l)"]
    by (simp add: total_chunks_def mul32_exact add32_exact)
qed

interpretation chunk_bits: tiling
  wf_lengths total_pieces chunks_per_piece "\<lambda>l p. p * default_chunks_per_piece l" total_chunks
proof unfold_locales
  fix l :: lengths and i :: nat
  assume wf: "wf_lengths l"
  show "0 * default_chunks_per_piece l = 0" by simp
  show "0 < total_pieces l" by (rule total_pieces_pos [OF wf])
  show "(total_pieces l - 1) * default_chunks_per_piece l + chunks_per_piece l (total_pieces l - 1)
      = total_chunks l"
    by (simp add: total_pieces_eq [OF wf] total_chunks_eq [OF wf])
  assume "Suc i < total_pieces l"
  then have "i \<noteq> last_piece_id l" by (simp add: total_pieces_eq [OF wf])
  then show "Suc i * default_chunks_per_piece l
      = i * default_chunks_per_piece l + chunks_per_piece l i"
    by (simp add: chunks_per_piece_def)
qed

lemma bitfield_bytes_ge: "n \<le> 8 * div_ceil n 8"
  using div_ceil_le_iff [of 8 n "div_ceil n 8"] by simp

lemma total_pieces_le_bits: "total_pieces l \<le> 8 * piece_bitfield_bytes l"
  by (simp add: piece_bitfield_bytes_def bitfield_bytes_ge)

lemma total_chunks_le_bits: "total_chunks l \<le> 8 * chunk_bitfield_bytes l"
  by (simp add: chunk_bitfield_bytes_def bitfield_bytes_ge)

lemma chunk_range_in_bits:
  assumes "wf_lengths l" "p < total_pieces l"
  shows "snd (chunk_range l p) \<le> 8 * chunk_bitfield_bytes l" "fst (chunk_range l p) \<le> snd (chunk_range l p)"
  using chunk_bits.end_le_total [OF assms] total_chunks_le_bits [of l]
  by (simp_all add: chunk_range_eq [OF assms])

lemma chunk_range_disjoint:
  assumes "wf_lengths l" "p < total_pieces l" "q < total_pieces l" "p \<noteq> q"
    and "fst (chunk_range l p) \<le> i" "i < snd (chunk_range l p)"
  shows "\<not> (fst (chunk_range l q) \<le> i \<and> i < snd (chunk_range l q))"
  using chunk_bits.owner_unique [OF assms(1-3), of i] assms(4-6)
  by (auto simp: chunk_range_eq [OF assms(1,2)] chunk_range_eq [OF assms(1,3)])

subsection \<open>Files and pieces\<close>

text \<open>Piece \<open>p\<close> and the byte range \<open>[off, off + len)\<close> of the torrent have a byte in common.\<close>

definition piece_overlaps :: "lengths \<Rightarrow> nat \<Rightarrow> nat \<Rightarrow> nat \<Rightarrow> bool" where
  "piece_overlaps l p off len \<longleftrightarrow>
     max off (p * default_piece_length l) < min (off + len) ((p + 1) * default_piece_length l)"

lemma iter_pieces_within_offset_iff:
  assumes wf: "wf_lengths l" and fits: "off + len \<le> total_length l"
    and r: "iter_pieces_within_offset l off len = (a, b)"
  shows "a \<le> p \<and> p < b \<longleftrightarrow> piece_overlaps l p off len"
    and "a < b \<Longrightarrow> b \<le> total_pieces l"
proof -
  let ?d = "default_piece_length l"
  have d: "0 < ?d" "?d < 2 ^ 32" using wf_dpl [OF wf] by auto
  have e64: "off + len < 2 ^ 64" using fits wf_total [OF wf] by linarith
  have pieces: "total_length l \<le> total_pieces l * ?d"
    using last_piece_bounds(2) [OF wf] by (simp add: total_pieces_eq [OF wf])
  have n32: "total_pieces l < 2 ^ 32" using wf_last_piece_id [OF wf] by (simp add: total_pieces_eq [OF wf])
  have "off div ?d \<le> total_pieces l"
    using fits pieces d by (metis add_leE div_le_mono le_trans nonzero_mult_div_cancel_right not_gr_zero)
  then have a: "a = off div ?d"
    using r fits n32 by (auto simp: iter_pieces_within_offset_def Let_def as_u32_exact)
  have ceil: "div_ceil (off + len) ?d \<le> total_pieces l"
    using fits pieces d by (simp add: div_ceil_le_iff)
  have b: "b = (if len = 0 then a else div_ceil (off + len) ?d)"
    using r fits n32 e64 ceil a
    by (auto simp: iter_pieces_within_offset_def Let_def as_u32_exact add64_exact)
  have "off div ?d \<le> p \<longleftrightarrow> off < (p + 1) * ?d"
    using d by (metis Suc_eq_plus1 div_less_iff_less_mult less_Suc_eq_le)
  then show "a \<le> p \<and> p < b \<longleftrightarrow> piece_overlaps l p off len"
    using a b d by (auto simp: piece_overlaps_def less_div_ceil_iff)
  show "a < b \<Longrightarrow> b \<le> total_pieces l" using b ceil by (auto split: if_splits)
qed

lemma size_of_piece_in_file_eq:
  assumes wf: "wf_lengths l" and p: "p < total_pieces l" and fits: "off + len \<le> total_length l"
  shows "size_of_piece_in_file l p off len =
    min (off + len) ((p + 1) * default_piece_length l) - max off (p * default_piece_length l)"
proof -
  have "off + len < 2 ^ 64" using fits wf_total [OF wf] by linarith
  then show ?thesis
    using piece_end_u64 [OF wf p] piece_index_u32 [OF wf p] wf_dpl [OF wf]
    by (simp add: size_of_piece_in_file_def Let_def mul64_u32_exact add64_exact add.commute)
qed

lemma size_of_piece_in_file_pos_iff:
  assumes "wf_lengths l" "p < total_pieces l" "off + len \<le> total_length l"
  shows "0 < size_of_piece_in_file l p off len \<longleftrightarrow> piece_overlaps l p off len"
  using assms by (auto simp: size_of_piece_in_file_eq piece_overlaps_def)

text \<open>Summed over the pieces below \<open>n\<close>, the parts of a file are its bytes below the end of piece \<open>n - 1\<close>.\<close>

lemma size_of_piece_in_file_prefix:
  assumes wf: "wf_lengths l" and fits: "off + len \<le> total_length l" and n: "n \<le> total_pieces l"
  shows "(\<Sum>p<n. size_of_piece_in_file l p off len) = min (off + len) (n * default_piece_length l) - off"
  using n
proof (induction n)
  case 0
  then show ?case by simp
next
  case (Suc n)
  then have "size_of_piece_in_file l n off len =
      min (off + len) ((n + 1) * default_piece_length l) - max off (n * default_piece_length l)"
    using wf fits by (simp add: size_of_piece_in_file_eq)
  with Suc show ?case by (auto simp: min_def max_def)
qed

lemma size_of_piece_in_file_sum:
  assumes wf: "wf_lengths l" and fits: "off + len \<le> total_length l"
  shows "(\<Sum>p<total_pieces l. size_of_piece_in_file l p off len) = len"
proof -
  have "total_length l \<le> total_pieces l * default_piece_length l"
    using last_piece_bounds(2) [OF wf] by (simp add: total_pieces_eq [OF wf])
  then show ?thesis
    using fits by (simp add: size_of_piece_in_file_prefix [OF wf fits order_refl] min_absorb1)
qed

subsection \<open>The current piece of a stream\<close>

lemma compute_current_piece_Some:
  assumes wf: "wf_lengths l" and pos: "off + pos < total_length l"
  shows "compute_current_piece l pos off =
    Some \<lparr>cp_id = (off + pos) div default_piece_length l,
          cp_piece_remaining = piece_length l ((off + pos) div default_piece_length l)
            - (off + pos) mod default_piece_length l,
          cp_piece_offset = (off + pos) div default_piece_length l\<rparr>"
proof -
  let ?d = "default_piece_length l" and ?x = "off + pos"
  let ?p = "?x div ?d"
  have d: "0 < ?d" using wf_dpl [OF wf] by simp
  have x64: "?x < 2 ^ 64" using pos wf_total [OF wf] by linarith
  have "?x \<le> total_length l - 1" using pos by linarith
  then have "?p \<le> last_piece_id l" using wf by (simp add: wf_lengths_def div_le_mono)
  then have p: "?p < total_pieces l" by (simp add: total_pieces_eq [OF wf])
  have p32: "?p < 2 ^ 32" by (rule piece_index_u32 [OF wf p])
  have within: "?x mod ?d \<le> piece_length l ?p"
  proof (cases "?p = last_piece_id l")
    case True
    have "last_piece_id l * ?d + ?x mod ?d = ?x" using True by (metis div_mult_mod_eq)
    then have "?x mod ?d < last_piece_length l" using last_piece_bounds(5) [OF wf] pos by linarith
    then show ?thesis using True by (simp add: piece_length_def)
  next
    case False
    then show ?thesis using d by (simp add: piece_length_def less_imp_le)
  qed
  have "piece_length l ?p < 2 ^ 32" by (rule piece_length_u32 [OF wf])
  then show ?thesis
    using p32 x64 within validate_piece_index_Some [OF wf, of ?p ?p] p
    by (simp add: compute_current_piece_def Let_def try_u32_def add64_exact sub64_exact add.commute)
qed

lemma compute_current_piece_bounds:
  assumes wf: "wf_lengths l" and pos: "off + pos < total_length l"
    and cp: "compute_current_piece l pos off = Some c"
  shows "cp_id c < total_pieces l"
    and "piece_offset l (cp_id c) \<le> off + pos"
    and "off + pos + cp_piece_remaining c = piece_offset l (cp_id c) + piece_length l (cp_id c)"
    and "0 < cp_piece_remaining c"
proof -
  let ?d = "default_piece_length l" and ?x = "off + pos"
  have id: "cp_id c = ?x div ?d" and rem: "cp_piece_remaining c = piece_length l (?x div ?d) - ?x mod ?d"
    using cp compute_current_piece_Some [OF wf pos] by auto
  obtain i where i: "i < total_pieces l" "piece_offset l i \<le> ?x" "?x < piece_offset l i + piece_length l i"
    using pieces.owner_exists [OF wf pos] by blast
  have off: "piece_offset l i = i * ?d" by (rule piece_offset_eq [OF wf piece_index_u32 [OF wf i(1)]])
  have "i * ?d \<le> ?x" "?x < (i + 1) * ?d"
    using i off piece_length_bounds(2) [OF wf, of i] by auto
  then have x: "?x div ?d = i"
    by (intro div_nat_eqI) (auto simp: mult.commute)
  then have "?x = i * ?d + ?x mod ?d" by (metis div_mult_mod_eq)
  then show "cp_id c < total_pieces l" "piece_offset l (cp_id c) \<le> ?x"
    "?x + cp_piece_remaining c = piece_offset l (cp_id c) + piece_length l (cp_id c)"
    "0 < cp_piece_remaining c"
    using i off x id rem by auto
qed

lemma piece_overlaps_byte:
  assumes wf: "wf_lengths l"
  shows "piece_overlaps l q off len \<longleftrightarrow> (\<exists>y. off \<le> y \<and> y < off + len \<and> y div default_piece_length l = q)"
proof
  let ?d = "default_piece_length l"
  assume o: "piece_overlaps l q off len"
  let ?y = "max off (q * ?d)"
  have "?y div ?d = q" using o by (intro div_nat_eqI) (auto simp: piece_overlaps_def mult.commute)
  then show "\<exists>y. off \<le> y \<and> y < off + len \<and> y div ?d = q"
    using o by (intro exI [of _ ?y]) (auto simp: piece_overlaps_def)
next
  let ?d = "default_piece_length l"
  assume "\<exists>y. off \<le> y \<and> y < off + len \<and> y div ?d = q"
  then obtain y where y: "off \<le> y" "y < off + len" "y div ?d = q" by blast
  moreover have "y < (y div ?d + 1) * ?d" using wf_dpl [OF wf] dividend_less_div_times [of ?d y] by (simp add: algebra_simps)
  moreover have "y div ?d * ?d \<le> y" by simp
  ultimately show "piece_overlaps l q off len" by (auto simp: piece_overlaps_def)
qed


subsection \<open>Properties\<close>

text \<open>The geometry \<open>Lengths::new\<close> computes cuts the torrent into pieces without gaps or
  overlaps: every byte lies in exactly one piece, the pieces are non-empty and no longer than the
  nominal piece length.\<close>

theorem lengths_new_partition:
  assumes "lengths_new tlen plen = Inr l" "tlen < 2 ^ 64" "plen < 2 ^ 32"
    and "div_ceil tlen plen * div_ceil plen CHUNK_SIZE < 2 ^ 32"
  shows "(\<forall>x < tlen. \<exists>!p. p < total_pieces l \<and> piece_offset l p \<le> x \<and> x < piece_offset l p + piece_length l p) \<and>
    (\<forall>p < total_pieces l. 0 < piece_length l p \<and> piece_length l p \<le> plen)"
proof -
  have p: "0 < tlen" "0 < plen" using assms(1) by (auto simp: lengths_new_def split: if_splits)
  have wf: "wf_lengths l" and t: "total_length l = tlen" "default_piece_length l = plen"
    using lengths_new_wf [OF p(1) assms(2) p(2) assms(3,4)] assms(1) by auto
  have "\<forall>x < tlen. \<exists>!p. p < total_pieces l \<and> piece_offset l p \<le> x \<and> x < piece_offset l p + piece_length l p"
    using pieces.owner_exists [OF wf] pieces.owner_unique [OF wf] t(1) by metis
  then show ?thesis using piece_length_bounds [OF wf] t(2) by simp
qed

definition ex_lengths :: lengths where
  "ex_lengths = \<lparr>total_length = 100, default_piece_length = 40, last_piece_id = 2,
     last_piece_length = 20, default_chunks_per_piece = 1\<rparr>"

lemma ex_lengths_sel [simp]:
  "total_length ex_lengths = 100" "default_piece_length ex_lengths = 40" "last_piece_id ex_lengths = 2"
  "last_piece_length ex_lengths = 20" "default_chunks_per_piece ex_lengths = 1"
  by (simp_all add: ex_lengths_def)

lemma ex_lengths_new: "lengths_new 100 40 = Inr ex_lengths"
  by (simp add: lengths_new_def ex_lengths_def last_element_size_def CHUNK_SIZE_def width_defs)

lemma ex_lengths_wf: "wf_lengths ex_lengths"
  by (simp add: wf_lengths_def CHUNK_SIZE_def width_defs)

lemma ex_total_pieces [simp]: "total_pieces ex_lengths = 3"
  by (simp add: total_pieces_def width_defs)

lemma ex_chunk_range: "p < 3 \<Longrightarrow> chunk_range ex_lengths p = (p, p + 1)"
  using chunk_range_eq [OF ex_lengths_wf, of p] by (simp add: chunks_per_piece_def CHUNK_SIZE_def div_ceil_def)

theorem lengths_new_partition_witness:
  "\<exists>!p. p < total_pieces ex_lengths \<and> piece_offset ex_lengths p \<le> 85 \<and>
     85 < piece_offset ex_lengths p + piece_length ex_lengths p"
  using lengths_new_partition [OF ex_lengths_new] by (simp add: div_ceil_def CHUNK_SIZE_def)

text \<open>a block received from a peer is accepted as a chunk exactly when its offset and its size
  are those of one of the chunks the client would request for the piece.\<close>

theorem received_chunk_iff_requested:
  assumes "wf_lengths l" "p < total_pieces l"
  shows "chunk_info_from_received_data l p begin sz = Some ci
    \<longleftrightarrow> ci \<in> set (iter_chunk_infos l p) \<and> ci_offset ci = begin \<and> ci_size ci = sz"
  by (rule chunk_info_from_received_data_iff [OF assms])

theorem received_chunk_iff_requested_witness:
  "chunk_info_from_received_data ex_lengths 2 0 20 = Some (nth_chunk ex_lengths 2 0) \<and>
   nth_chunk ex_lengths 2 0 \<in> set (iter_chunk_infos ex_lengths 2)"
proof -
  have "chunk_info_from_received_data ex_lengths 2 0 20 = Some (nth_chunk ex_lengths 2 0)"
    by (simp add: chunk_info_from_received_data_def nth_chunk_def nth_chunk_size_def CHUNK_SIZE_def
        chunks_per_piece_def chunk_size_def chunk_offset_in_piece_def piece_length_def last_element_size_def width_defs)
  then show ?thesis
    using received_chunk_iff_requested [OF ex_lengths_wf, of 2 0 20] by (simp add: ex_total_pieces)
qed

end
