(* ===== verification/Text.thy ===== *)
theory Text
  imports Prelude
begin

text \<open>
  The string functions of the standard library the program uses. A string is the list of its UTF-8 bytes.
  Case and white space are those of ASCII; a character outside it is not white space and has no case.
\<close>

subsection \<open>Searching and trimming\<close>

definition starts_with :: "string \<Rightarrow> string \<Rightarrow> bool" where
  "starts_with s p \<longleftrightarrow> take (length p) s = p"

definition strip_prefix :: "string \<Rightarrow> string \<Rightarrow> string option" where
  "strip_prefix p s = (if starts_with s p then Some (drop (length p) s) else None)"

fun contains :: "string \<Rightarrow> string \<Rightarrow> bool" where
  "contains [] p \<longleftrightarrow> p = []"
| "contains (c # s) p \<longleftrightarrow> starts_with (c # s) p \<or> contains s p"

definition ends_with :: "string \<Rightarrow> string \<Rightarrow> bool" where
  "ends_with s p \<longleftrightarrow> length p \<le> length s \<and> drop (length s - length p) s = p"

definition is_whitespace :: "char \<Rightarrow> bool" where
  "is_whitespace c \<longleftrightarrow> of_char c \<in> {9, 10, 11, 12, 13, 32 :: nat}"

definition trim_start :: "(char \<Rightarrow> bool) \<Rightarrow> string \<Rightarrow> string" where
  "trim_start P s = dropWhile P s"

definition trim_both :: "(char \<Rightarrow> bool) \<Rightarrow> string \<Rightarrow> string" where
  "trim_both P s = rev (dropWhile P (rev (dropWhile P s)))"

abbreviation trim :: "string \<Rightarrow> string" where
  "trim \<equiv> trim_both is_whitespace"

lemma in_set_trim: "c \<in> set (trim_both P s) \<Longrightarrow> c \<in> set s"
  by (auto simp: trim_both_def dest!: set_dropWhileD)

lemma dropWhile_idem [simp]: "dropWhile P (dropWhile P s) = dropWhile P s"
  by (induction s) auto

lemma dropWhile_rev_head:
  assumes "s = [] \<or> \<not> P (hd s)" "rev (dropWhile P (rev s)) \<noteq> []"
  shows "\<not> P (hd (rev (dropWhile P (rev s))))"
proof -
  obtain t where t: "rev s = t @ dropWhile P (rev s)" by (metis takeWhile_dropWhile_id)
  then have "s = rev (dropWhile P (rev s)) @ rev t" by (metis rev_append rev_rev_ident)
  then have "hd s = hd (rev (dropWhile P (rev s)))" using assms(2) by (metis hd_append2)
  then show ?thesis using assms by auto
qed

lemma trim_trim [simp]: "trim_both P (trim_both P s) = trim_both P s"
proof (cases "trim_both P s = []")
  case True
  show ?thesis unfolding True by (simp add: trim_both_def)
next
  case False
  let ?d = "dropWhile P s"
  have "\<not> P (hd (trim_both P s))"
    using False dropWhile_rev_head [of ?d P] hd_dropWhile [of P s] by (auto simp: trim_both_def)
  then have "dropWhile P (trim_both P s) = trim_both P s" using False by (cases "trim_both P s") auto
  then show ?thesis by (simp add: trim_both_def)
qed

definition to_lower_char :: "char \<Rightarrow> char" where
  "to_lower_char c = (let n = of_char c in if 65 \<le> n \<and> n \<le> (90 :: nat) then char_of (n + 32) else c)"

definition to_lowercase :: "string \<Rightarrow> string" where
  "to_lowercase s = map to_lower_char s"

text \<open>\<^verbatim>\<open>trim_start_matches\<close> with a string: every leading copy of it goes.\<close>

function trim_start_matches :: "string \<Rightarrow> string \<Rightarrow> string" where
  "trim_start_matches p s = (if p \<noteq> [] \<and> starts_with s p then trim_start_matches p (drop (length p) s) else s)"
  by pat_completeness auto
termination
proof (relation "measure (\<lambda>(_, s). length s)", goal_cases)
  case (2 p s)
  then have "s \<noteq> []" by (auto simp: starts_with_def)
  then show ?case using 2 by (cases p; cases s) auto
qed simp

declare trim_start_matches.simps [simp del]

subsection \<open>UTF-8\<close>

definition in_byte_range :: "nat \<Rightarrow> nat \<Rightarrow> char \<Rightarrow> bool" where
  "in_byte_range lo hi c \<longleftrightarrow> lo \<le> (of_char c :: nat) \<and> (of_char c :: nat) \<le> hi"

text \<open>\<^verbatim>\<open>core::str::from_utf8\<close> succeeds on these byte sequences.\<close>

fun utf8_ok :: "string \<Rightarrow> bool" where
  "utf8_ok [] = True"
| "utf8_ok (a # s) =
     (if in_byte_range 0 127 a then utf8_ok s
      else case s of
        [] \<Rightarrow> False
      | b # s1 \<Rightarrow>
          if in_byte_range 194 223 a then in_byte_range 128 191 b \<and> utf8_ok s1
          else case s1 of
            [] \<Rightarrow> False
          | c # s2 \<Rightarrow>
              if in_byte_range 224 239 a then
                in_byte_range (if in_byte_range 224 224 a then 160 else 128)
                  (if in_byte_range 237 237 a then 159 else 191) b
                \<and> in_byte_range 128 191 c \<and> utf8_ok s2
              else case s2 of
                [] \<Rightarrow> False
              | d # s3 \<Rightarrow>
                  in_byte_range 240 244 a
                  \<and> in_byte_range (if in_byte_range 240 240 a then 144 else 128)
                      (if in_byte_range 244 244 a then 143 else 191) b
                  \<and> in_byte_range 128 191 c \<and> in_byte_range 128 191 d \<and> utf8_ok s3)"

abbreviation is_cont :: "char \<Rightarrow> bool" where
  "is_cont \<equiv> in_byte_range 128 191"

text \<open>\<^verbatim>\<open>split_at\<close>: panics outside the string and inside a character.\<close>

definition is_char_boundary :: "nat \<Rightarrow> string \<Rightarrow> bool" where
  "is_char_boundary i s \<longleftrightarrow> i = 0 \<or> i = length s \<or> (i < length s \<and> \<not> is_cont (s ! i))"

definition split_at :: "nat \<Rightarrow> string \<Rightarrow> (string \<times> string) res" where
  "split_at i s = (if is_char_boundary i s then Inr (take i s, drop i s) else Inl Panic)"

text \<open>\<^verbatim>\<open>find\<close> and \<^verbatim>\<open>rfind\<close> of a character and \<^verbatim>\<open>split_once\<close>.\<close>

definition find_char :: "char \<Rightarrow> string \<Rightarrow> nat option" where
  "find_char c s = (if c \<in> set s then Some (length (takeWhile (\<lambda>x. x \<noteq> c) s)) else None)"

definition rfind_char :: "char \<Rightarrow> string \<Rightarrow> nat option" where
  "rfind_char c s = (if c \<in> set s then Some (length s - 1 - length (takeWhile (\<lambda>x. x \<noteq> c) (rev s))) else None)"

definition split_once :: "char \<Rightarrow> string \<Rightarrow> (string \<times> string) option" where
  "split_once c s = map_option (\<lambda>i. (take i s, drop (i + 1) s)) (find_char c s)"

lemma find_char_less: "find_char c s = Some i \<Longrightarrow> i < length s"
  by (induction s arbitrary: i) (auto simp: find_char_def split: if_splits)

lemma rfind_char_less: "rfind_char c s = Some i \<Longrightarrow> i < length s"
  by (cases s) (auto simp: rfind_char_def split: if_splits)

subsection \<open>Splitting\<close>

fun split_on :: "char \<Rightarrow> string \<Rightarrow> string list" where
  "split_on d [] = [[]]"
| "split_on d (c # cs) =
     (if c = d then [] # split_on d cs
      else case split_on d cs of [] \<Rightarrow> [[c]] | p # ps \<Rightarrow> (c # p) # ps)"

lemma split_on_nonempty [simp]: "split_on d s \<noteq> []"
  by (cases s) (auto split: list.split)

lemma split_on_parts: "p \<in> set (split_on d s) \<Longrightarrow> d \<notin> set p"
  by (induction d s arbitrary: p rule: split_on.induct) (auto split: if_splits list.splits)

lemma split_on_none: "d \<notin> set s \<Longrightarrow> split_on d s = [s]"
  by (induction s) auto

lemma split_on_append: "d \<notin> set s \<Longrightarrow> split_on d (s @ d # t) = s # split_on d t"
  by (induction s) auto

subsection \<open>Numbers\<close>

definition digit :: "nat \<Rightarrow> char" where
  "digit n = char_of (48 + n)"

fun show_nat :: "nat \<Rightarrow> string" where
  "show_nat n = (if n < 10 then [digit n] else show_nat (n div 10) @ [digit (n mod 10)])"

declare show_nat.simps [simp del]

definition digit_value :: "char \<Rightarrow> nat option" where
  "digit_value c = (let n = of_char c in if 48 \<le> n \<and> n \<le> (57 :: nat) then Some (n - 48) else None)"

fun parse_digits :: "nat \<Rightarrow> string \<Rightarrow> nat option" where
  "parse_digits acc [] = Some acc"
| "parse_digits acc (c # cs) = Option.bind (digit_value c) (\<lambda>d. parse_digits (acc * 10 + d) cs)"

text \<open>\<^verbatim>\<open>parse::<usize>()\<close>: digits after an optional plus sign, of a value that fits.\<close>

definition parse_usize :: "string \<Rightarrow> nat option" where
  "parse_usize s =
     (let ds = (case s of c # cs \<Rightarrow> if c = CHR ''+'' then cs else s | [] \<Rightarrow> [])
      in if ds = [] then None
         else Option.bind (parse_digits 0 ds) (\<lambda>n. if n < 2 ^ 64 then Some n else None))"

lemma of_char_digit: "n < 10 \<Longrightarrow> of_char (digit n) = (48 + n :: nat)"
  by (simp add: digit_def)

lemma digit_value_digit: "n < 10 \<Longrightarrow> digit_value (digit n) = Some n"
  by (simp add: digit_value_def of_char_digit)

lemma parse_digits_append: "parse_digits acc (s @ t) = Option.bind (parse_digits acc s) (\<lambda>n. parse_digits n t)"
  by (induction s arbitrary: acc) (auto split: bind_split)

lemma parse_digits_show: "parse_digits 0 (show_nat n) = Some n"
proof (induction n rule: show_nat.induct)
  case (1 n)
  then show ?case
    by (cases "n < 10") (simp_all add: show_nat.simps [of n] digit_value_digit parse_digits_append)
qed

lemma show_nat_chars: "c \<in> set (show_nat n) \<Longrightarrow> \<exists>d < 10. c = digit d"
proof (induction n rule: show_nat.induct)
  case (1 n)
  then show ?case by (cases "n < 10") (auto simp: show_nat.simps [of n] intro: exI [of _ "n mod 10"])
qed

lemma show_nat_nonempty [simp]: "show_nat n \<noteq> []"
  by (simp add: show_nat.simps [of n])

lemma digit_neq: "n < 10 \<Longrightarrow> of_char c < (48 :: nat) \<Longrightarrow> digit n \<noteq> c"
  using of_char_digit [of n] by auto

lemma not_digit: "of_char c < (48 :: nat) \<Longrightarrow> c \<notin> set (show_nat n)"
  using show_nat_chars [of c n] digit_neq [of _ c] by blast

lemma parse_usize_show: "n < 2 ^ 64 \<Longrightarrow> parse_usize (show_nat n) = Some n"
proof -
  assume n: "n < 2 ^ 64"
  have "CHR ''+'' \<notin> set (show_nat n)" by (rule not_digit) simp
  then have "(case show_nat n of c # cs \<Rightarrow> if c = CHR ''+'' then cs else show_nat n | [] \<Rightarrow> []) = show_nat n"
    by (auto split: list.split)
  then show ?thesis using n by (simp add: parse_usize_def parse_digits_show)
qed

end
