(* ===== verification/Metadata.thy ===== *)
theory Metadata
  imports Lengths Text "HOL-Library.Multiset"
begin

text \<open>
  Torrent metadata: the parts of \<^verbatim>\<open>librqbit_core::torrent_metainfo\<close> that turn the
  bencoded info dictionary into file details, \<^verbatim>\<open>file_info.rs\<close>, and
  \<^verbatim>\<open>TorrentMetadata::new\<close>. Byte strings and decoded strings are both \<open>string\<close> (one
  \<open>char\<close> per byte): \<^verbatim>\<open>from_utf8\<close> only decides whether the bytes are well-formed.
  A \<^verbatim>\<open>PathBuf\<close> is the list of the components pushed onto it.

  Shown here: the files of an accepted torrent tile it and their piece ranges are the pieces they
  overlap; no accepted file name can leave the output folder; and the piece priorities of a file
  are a permutation of its pieces that begins with the first and the last one.
\<close>

subsection \<open>File names\<close>

datatype file_iterator_name = Single "string option" | Tree "string list"

definition check_component :: "string \<Rightarrow> string res" where
  "check_component part =
     (if \<not> utf8_ok part then Inl (Bail ''cannot decode filename bit as UTF-8'')
      else if part = ''..'' then Inl (Bail ''path traversal detected'')
      else if CHR ''/'' \<in> set part \<or> CHR 0x5C \<in> set part
        then Inl (Bail ''suspicios separator in filename bit'')
      else Inr part)"

fun iter_components :: "file_iterator_name \<Rightarrow> string res list" where
  "iter_components (Single None) = [Inr ''torrent-content'']"
| "iter_components (Single (Some name)) = [check_component name]"
| "iter_components (Tree t) = map check_component t"

fun push_components :: "string list \<Rightarrow> string res list \<Rightarrow> string list res" where
  "push_components buf [] = Inr buf"
| "push_components buf (part # parts) = rbind part (\<lambda>b. push_components (buf @ [b]) parts)"

definition to_pathbuf :: "file_iterator_name \<Rightarrow> string list res" where
  "to_pathbuf n = push_components [] (iter_components n)"

subsection \<open>The info dictionary\<close>

record file_attrs =
  symlink :: bool
  hidden :: bool
  padding :: bool
  executable :: bool

definition default_attrs :: file_attrs where
  "default_attrs = \<lparr>symlink = False, hidden = False, padding = False, executable = False\<rparr>"

text \<open>The records leave out the fields no modelled code reads: checksums of single files and the targets of
  symbolic links.\<close>

record meta_file =
  mf_length :: nat
  mf_path :: "string list"
  mf_attr :: "string option"

record meta_info =
  mi_name :: "string option"
  mi_pieces :: "nat list"
  mi_piece_length :: nat
  mi_length :: "nat option"
  mi_attr :: "string option"
  mi_files :: "meta_file list option"
  mi_private :: bool

record file_details =
  fd_filename :: file_iterator_name
  fd_len :: nat
  fd_attr :: "string option"

definition attr_byte :: "file_attrs \<Rightarrow> char \<Rightarrow> file_attrs" where
  "attr_byte r b =
     (if b = CHR ''l'' then r\<lparr>symlink := True\<rparr>
      else if b = CHR ''h'' then r\<lparr>hidden := True\<rparr>
      else if b = CHR ''p'' then r\<lparr>padding := True\<rparr>
      else if b = CHR ''x'' then r\<lparr>executable := True\<rparr>
      else r)"

definition attrs_of :: "file_details \<Rightarrow> file_attrs" where
  "attrs_of d = (case fd_attr d of None \<Rightarrow> default_attrs | Some a \<Rightarrow> foldl attr_byte default_attrs a)"

definition get_hash :: "meta_info \<Rightarrow> nat \<Rightarrow> nat list option" where
  "get_hash t piece =
     (let start = piece * 20; stop = start + 20
      in if stop \<le> length (mi_pieces t) then Some (take 20 (drop start (mi_pieces t))) else None)"

definition compare_hash :: "meta_info \<Rightarrow> nat \<Rightarrow> nat list \<Rightarrow> bool option" where
  "compare_hash t piece hash = map_option (\<lambda>expected. expected = hash) (get_hash t piece)"

definition iter_file_details :: "meta_info \<Rightarrow> file_details list res" where
  "iter_file_details t =
     (case (mi_length t, mi_files t) of
        (Some len, None) \<Rightarrow>
          Inr [\<lparr>fd_filename = Single (mi_name t), fd_len = len, fd_attr = mi_attr t\<rparr>]
      | (None, Some files) \<Rightarrow>
          if files = [] then Inl (Bail ''expected multi-file torrent to have at least one file'')
          else Inr (map (\<lambda>f. \<lparr>fd_filename = Tree (mf_path f), fd_len = mf_length f,
                             fd_attr = mf_attr f\<rparr>) files)
      | _ \<Rightarrow> Inl (Bail ''torrent cannot be both in single and multi-file mode''))"

definition iter_file_lengths :: "meta_info \<Rightarrow> nat list res" where
  "iter_file_lengths t = rbind (iter_file_details t) (\<lambda>ds. Inr (map fd_len ds))"

definition lengths_from_torrent :: "meta_info \<Rightarrow> lengths res" where
  "lengths_from_torrent t =
     rbind (iter_file_lengths t) (\<lambda>ls. lengths_new (as_u64 (sum_list ls)) (mi_piece_length t))"

text \<open>\<^verbatim>\<open>iter_file_details_ext\<close>: the scan that accumulates the offsets.\<close>

fun file_details_scan :: "lengths \<Rightarrow> nat \<Rightarrow> file_details list \<Rightarrow> (file_details \<times> nat \<times> (nat \<times> nat)) list" where
  "file_details_scan l acc_offset [] = []"
| "file_details_scan l acc_offset (d # ds) =
     (d, acc_offset, iter_pieces_within_offset l acc_offset (fd_len d))
       # file_details_scan l (add64 acc_offset (fd_len d)) ds"

definition iter_file_details_ext :: "meta_info \<Rightarrow> lengths \<Rightarrow> (file_details \<times> nat \<times> (nat \<times> nat)) list res" where
  "iter_file_details_ext t l = rbind (iter_file_details t) (\<lambda>ds. Inr (file_details_scan l 0 ds))"

subsection \<open>File infos\<close>

record file_info =
  relative_filename :: "string list"
  offset_in_torrent :: nat
  piece_range :: "nat \<times> nat"
  fi_attrs :: file_attrs
  fi_len :: nat

text \<open>The free function of \<^verbatim>\<open>file_info.rs\<close>; \<open>overflowing_sub\<close> wraps at the width of
  \<^verbatim>\<open>usize\<close>.\<close>

definition iter_piece_priorities :: "nat \<times> nat \<Rightarrow> nat list" where
  "iter_piece_priorities r =
     (let n = snd r - fst r;
          first = [fst r];
          last = [add64 (fst r) (sub64 n 1)];
          mid = take (sub64 n 2) (drop 1 [fst r..<snd r])
      in take n (first @ last @ mid))"

record torrent_metadata =
  tm_info :: meta_info
  tm_torrent_bytes :: "nat list"
  tm_info_bytes :: "nat list"
  tm_lengths :: lengths
  tm_file_infos :: "file_info list"
  tm_name :: "string option"

fun collect_file_infos :: "(file_details \<times> nat \<times> (nat \<times> nat)) list \<Rightarrow> file_info list res" where
  "collect_file_infos [] = Inr []"
| "collect_file_infos ((d, off, pieces) # ds) =
     rbind (to_pathbuf (fd_filename d)) (\<lambda>path.
     rbind (collect_file_infos ds) (\<lambda>fis.
       Inr (\<lparr>relative_filename = path, offset_in_torrent = off, piece_range = pieces,
             fi_attrs = attrs_of d, fi_len = fd_len d\<rparr> # fis)))"

definition torrent_metadata_new :: "meta_info \<Rightarrow> nat list \<Rightarrow> nat list \<Rightarrow> torrent_metadata res" where
  "torrent_metadata_new info torrent_bytes info_bytes =
     rbind (lengths_from_torrent info) (\<lambda>l.
     rbind (iter_file_details_ext info l) (\<lambda>exts.
     rbind (collect_file_infos exts) (\<lambda>fis.
       Inr \<lparr>tm_info = info, tm_torrent_bytes = torrent_bytes, tm_info_bytes = info_bytes, tm_lengths = l, tm_file_infos = fis,
            tm_name = Option.bind (mi_name info) (\<lambda>n. if utf8_ok n then Some n else None)\<rparr>)))"

subsection \<open>Files tile the torrent\<close>

definition wf_file_infos :: "lengths \<Rightarrow> file_info list \<Rightarrow> bool" where
  "wf_file_infos l fis \<longleftrightarrow>
     fis \<noteq> [] \<and> (\<Sum>fi\<leftarrow>fis. fi_len fi) = total_length l \<and>
     (\<forall>i < length fis.
        offset_in_torrent (fis ! i) = (\<Sum>k<i. fi_len (fis ! k)) \<and>
        piece_range (fis ! i) =
          iter_pieces_within_offset l (offset_in_torrent (fis ! i)) (fi_len (fis ! i)))"

lemma wf_file_offset:
  "wf_file_infos l fis \<Longrightarrow> i < length fis \<Longrightarrow> offset_in_torrent (fis ! i) = (\<Sum>k<i. fi_len (fis ! k))"
  by (simp add: wf_file_infos_def)

lemma wf_file_total: "wf_file_infos l fis \<Longrightarrow> (\<Sum>k<length fis. fi_len (fis ! k)) = total_length l"
  by (simp add: wf_file_infos_def sum_list_sum_nth atLeast0LessThan)

lemma wf_file_last:
  assumes wf: "wf_file_infos l fis"
  shows "offset_in_torrent (fis ! (length fis - 1)) + fi_len (fis ! (length fis - 1)) = total_length l"
proof -
  obtain n where n: "length fis = Suc n" using wf by (cases fis) (auto simp: wf_file_infos_def)
  then show ?thesis using wf_file_offset [OF wf, of n] wf_file_total [OF wf] by simp
qed

interpretation files: tiling
  "\<lambda>(l, fis). wf_lengths l \<and> wf_file_infos l fis" "\<lambda>(l, fis). length fis"
  "\<lambda>(l, fis) i. fi_len (fis ! i)" "\<lambda>(l, fis) i. offset_in_torrent (fis ! i)"
  "\<lambda>(l, fis). total_length l"
proof (unfold_locales, goal_cases)
  case (1 s)
  then show ?case using wf_file_offset [of _ _ 0] by (auto simp: wf_file_infos_def)
next
  case (2 s i)
  then show ?case using wf_file_offset by (auto simp: split_beta)
next
  case (3 s)
  then show ?case by (auto simp: wf_file_infos_def)
next
  case (4 s)
  then show ?case using wf_file_last by (auto simp: split_beta)
qed

lemma file_fits:
  assumes "wf_lengths l" "wf_file_infos l fis" "i < length fis"
  shows "offset_in_torrent (fis ! i) + fi_len (fis ! i) \<le> total_length l"
  using files.end_le_total [of "(l, fis)" i] assms by simp

lemma file_piece_range_iff:
  assumes wf: "wf_lengths l" "wf_file_infos l fis" and i: "i < length fis"
  shows "fst (piece_range (fis ! i)) \<le> p \<and> p < snd (piece_range (fis ! i))
    \<longleftrightarrow> piece_overlaps l p (offset_in_torrent (fis ! i)) (fi_len (fis ! i))"
    and "fst (piece_range (fis ! i)) < snd (piece_range (fis ! i)) \<Longrightarrow>
      snd (piece_range (fis ! i)) \<le> total_pieces l"
proof -
  have "iter_pieces_within_offset l (offset_in_torrent (fis ! i)) (fi_len (fis ! i)) =
      (fst (piece_range (fis ! i)), snd (piece_range (fis ! i)))"
    using wf i by (simp add: wf_file_infos_def)
  from iter_pieces_within_offset_iff [OF wf(1) file_fits [OF wf i] this]
  show "fst (piece_range (fis ! i)) \<le> p \<and> p < snd (piece_range (fis ! i))
      \<longleftrightarrow> piece_overlaps l p (offset_in_torrent (fis ! i)) (fi_len (fis ! i))"
    and "fst (piece_range (fis ! i)) < snd (piece_range (fis ! i)) \<Longrightarrow>
      snd (piece_range (fis ! i)) \<le> total_pieces l"
    by blast+
qed

lemma file_range_sizes:
  assumes wf: "wf_lengths l" "wf_file_infos l fis" and i: "i < length fis"
    and r: "piece_range (fis ! i) = (a, b)"
  shows "(\<Sum>p = a..<b. size_of_piece_in_file l p (offset_in_torrent (fis ! i)) (fi_len (fis ! i)))
    = fi_len (fis ! i)"
proof -
  let ?sz = "\<lambda>p. size_of_piece_in_file l p (offset_in_torrent (fis ! i)) (fi_len (fis ! i))"
  note fits = file_fits [OF wf i]
  have iff: "a \<le> p \<and> p < b \<longleftrightarrow> piece_overlaps l p (offset_in_torrent (fis ! i)) (fi_len (fis ! i))" for p
    using file_piece_range_iff(1) [OF wf i, of p] r by simp
  have sub: "{a..<b} \<subseteq> {..<total_pieces l}"
    using file_piece_range_iff(2) [OF wf i] r by auto
  have "(\<Sum>p = a..<b. ?sz p) = (\<Sum>p<total_pieces l. ?sz p)"
  proof (rule sum.mono_neutral_left)
    show "\<forall>p\<in>{..<total_pieces l} - {a..<b}. ?sz p = 0"
      using iff size_of_piece_in_file_pos_iff [OF wf(1) _ fits] by fastforce
  qed (use sub in auto)
  then show ?thesis using size_of_piece_in_file_sum [OF wf(1) fits] by simp
qed

lemma file_details_scan_nth:
  assumes "acc + sum_list (map fd_len ds) < 2 ^ 64" "i < length ds"
  shows "file_details_scan l acc ds ! i =
    (ds ! i, acc + (\<Sum>k<i. fd_len (ds ! k)),
     iter_pieces_within_offset l (acc + (\<Sum>k<i. fd_len (ds ! k))) (fd_len (ds ! i)))"
  using assms
proof (induction ds arbitrary: acc i)
  case Nil
  then show ?case by simp
next
  case (Cons d ds)
  have acc: "add64 acc (fd_len d) = acc + fd_len d" using Cons.prems(1) by (simp add: add64_exact)
  show ?case
  proof (cases i)
    case 0
    then show ?thesis by simp
  next
    case (Suc j)
    have "(\<Sum>k<Suc j. fd_len ((d # ds) ! k)) = fd_len d + (\<Sum>k<j. fd_len (ds ! k))"
      by (simp only: sum.lessThan_Suc_shift nth_Cons_0 nth_Cons_Suc)
    then show ?thesis using Cons.IH [of "acc + fd_len d" j] Cons.prems Suc acc by (simp add: add.assoc)
  qed
qed

lemma length_file_details_scan [simp]: "length (file_details_scan l acc ds) = length ds"
  by (induction ds arbitrary: acc) auto

lemma collect_file_infos_nth:
  assumes "collect_file_infos exts = Inr fis"
  shows "length fis = length exts \<and> (\<forall>i < length exts.
    \<exists>d off r. exts ! i = (d, off, r) \<and> to_pathbuf (fd_filename d) = Inr (relative_filename (fis ! i)) \<and>
      offset_in_torrent (fis ! i) = off \<and> piece_range (fis ! i) = r \<and> fi_len (fis ! i) = fd_len d)"
  using assms
proof (induction exts arbitrary: fis rule: collect_file_infos.induct)
  case 1
  then show ?case by simp
next
  case (2 d off pieces ds)
  then obtain path fis' where p: "to_pathbuf (fd_filename d) = Inr path"
    and c: "collect_file_infos ds = Inr fis'"
    and fis: "fis = \<lparr>relative_filename = path, offset_in_torrent = off, piece_range = pieces,
             fi_attrs = attrs_of d, fi_len = fd_len d\<rparr> # fis'"
    by (auto simp: res_simps)
  from 2 p c fis show ?case by (auto simp: less_Suc_eq_0_disj)
qed

lemma iter_file_details_nonempty: "iter_file_details t = Inr ds \<Longrightarrow> ds \<noteq> []"
  by (auto simp: iter_file_details_def split: option.splits if_splits)

lemma torrent_metadata_new_wf:
  assumes ok: "torrent_metadata_new info tbytes bytes = Inr m"
    and ds: "iter_file_details info = Inr ds"
    and total: "sum_list (map fd_len ds) < 2 ^ 64"
    and plen: "0 < mi_piece_length info" "mi_piece_length info < 2 ^ 32"
    and count: "div_ceil (sum_list (map fd_len ds)) (mi_piece_length info)
      * div_ceil (mi_piece_length info) CHUNK_SIZE < 2 ^ 32"
  shows "wf_lengths (tm_lengths m)" and "wf_file_infos (tm_lengths m) (tm_file_infos m)"
    and "total_length (tm_lengths m) = sum_list (map fd_len ds)"
    and "default_piece_length (tm_lengths m) = mi_piece_length info"
proof -
  let ?t = "sum_list (map fd_len ds)"
  from ok ds obtain l fis where l: "lengths_new (as_u64 ?t) (mi_piece_length info) = Inr l"
    and fis: "collect_file_infos (file_details_scan l 0 ds) = Inr fis"
    and m: "tm_lengths m = l" "tm_file_infos m = fis"
    by (auto simp: torrent_metadata_new_def lengths_from_torrent_def iter_file_lengths_def
        iter_file_details_ext_def res_simps)
  have t: "as_u64 ?t = ?t" using total by (simp add: as_u64_exact)
  have pos: "0 < ?t" using lengths_new_pos [OF l] unfolding t .
  from lengths_new_wf [OF pos total plen count] l t
  have wf: "wf_lengths l" and tl: "total_length l = ?t"
    and dp: "default_piece_length l = mi_piece_length info" by auto
  note nth = collect_file_infos_nth [OF fis]
  have len: "length fis = length ds" using nth by simp
  have each: "fi_len (fis ! i) = fd_len (ds ! i) \<and>
      offset_in_torrent (fis ! i) = (\<Sum>k<i. fd_len (ds ! k)) \<and>
      piece_range (fis ! i) = iter_pieces_within_offset l (\<Sum>k<i. fd_len (ds ! k)) (fd_len (ds ! i))"
    if "i < length ds" for i
    using nth that file_details_scan_nth [of 0 ds i l] total by fastforce
  have "map fi_len fis = map fd_len ds"
    using len each by (auto intro: nth_equalityI)
  then have "(\<Sum>fi\<leftarrow>fis. fi_len fi) = ?t" by simp
  moreover have "fis \<noteq> []" using len iter_file_details_nonempty [OF ds] by auto
  moreover have "offset_in_torrent (fis ! i) = (\<Sum>k<i. fi_len (fis ! k))" if "i < length fis" for i
    using each that len by simp
  ultimately have "wf_file_infos l fis"
    using each len tl by (simp add: wf_file_infos_def)
  then show "wf_lengths (tm_lengths m)" "wf_file_infos (tm_lengths m) (tm_file_infos m)"
    "total_length (tm_lengths m) = ?t" "default_piece_length (tm_lengths m) = mi_piece_length info"
    using wf tl dp m by auto
qed

subsection \<open>No path traversal\<close>

definition safe_component :: "string \<Rightarrow> bool" where
  "safe_component c \<longleftrightarrow> c \<noteq> ''..'' \<and> CHR ''/'' \<notin> set c \<and> CHR 0x5C \<notin> set c \<and> utf8_ok c"

lemma check_component_safe: "check_component c = Inr c' \<Longrightarrow> c' = c \<and> safe_component c"
  by (auto simp: check_component_def safe_component_def split: if_splits)

lemma iter_components_safe: "Inr c \<in> set (iter_components n) \<Longrightarrow> safe_component c"
proof (induction n rule: iter_components.induct)
  case 1
  then show ?case by (simp add: safe_component_def in_byte_range_def)
qed (auto dest: check_component_safe [OF sym])

lemma push_components_safe:
  assumes "push_components buf bits = Inr path"
    and "\<And>c. c \<in> set buf \<Longrightarrow> safe_component c"
    and "\<And>c. Inr c \<in> set bits \<Longrightarrow> safe_component c"
  shows "\<forall>c \<in> set path. safe_component c"
  using assms
proof (induction buf bits rule: push_components.induct)
  case (1 buf)
  then show ?case by simp
next
  case (2 buf part parts)
  then obtain b where b: "part = Inr b" "push_components (buf @ [b]) parts = Inr path"
    by (auto simp: res_simps)
  have "\<And>c. c \<in> set (buf @ [b]) \<Longrightarrow> safe_component c" using 2 b(1) by auto
  then show ?case using "2.IH" [OF b(1,2)] "2.prems"(3) by simp
qed

lemma to_pathbuf_safe: "to_pathbuf n = Inr path \<Longrightarrow> c \<in> set path \<Longrightarrow> safe_component c"
  using push_components_safe [of "[]" "iter_components n" path] iter_components_safe
  by (auto simp: to_pathbuf_def)

lemma collect_file_infos_paths:
  "collect_file_infos exts = Inr fis \<Longrightarrow> fi \<in> set fis \<Longrightarrow> \<exists>n. to_pathbuf n = Inr (relative_filename fi)"
  by (induction exts arbitrary: fis rule: collect_file_infos.induct) (auto simp: res_simps, blast)

lemma torrent_metadata_paths_safe:
  assumes "torrent_metadata_new info tbytes bytes = Inr m" "fi \<in> set (tm_file_infos m)"
    "c \<in> set (relative_filename fi)"
  shows "safe_component c"
proof -
  from assms(1) obtain exts where "collect_file_infos exts = Inr (tm_file_infos m)"
    by (auto simp: torrent_metadata_new_def res_simps)
  from collect_file_infos_paths [OF this assms(2)] obtain n
    where "to_pathbuf n = Inr (relative_filename fi)" ..
  then show ?thesis using assms(3) by (rule to_pathbuf_safe)
qed

subsection \<open>Piece priorities\<close>

lemma iter_piece_priorities_eq:
  assumes "a + 2 + c < 2 ^ 64"
  shows "iter_piece_priorities (a, a + 2 + c) = a # (a + 1 + c) # [a + 1..<a + 1 + c]"
proof -
  have "sub64 (2 + c) 1 = 1 + c" "sub64 (2 + c) 2 = c" using assms by (simp_all add: sub64_exact)
  moreover have "add64 a (1 + c) = a + 1 + c" using assms by (simp add: add64_exact)
  moreover have "drop 1 [a..<a + 2 + c] = [a + 1..<a + 2 + c]" by (rule drop_upt)
  moreover have "take c [a + 1..<a + 2 + c] = [a + 1..<a + 1 + c]"
    using take_upt [of "a + 1" c "a + 2 + c"] by simp
  ultimately show ?thesis by (simp add: iter_piece_priorities_def Let_def take_Cons')
qed

lemma iter_piece_priorities_mset:
  assumes "b < 2 ^ 64"
  shows "mset (iter_piece_priorities (a, b)) = mset [a..<b]"
proof -
  consider "b \<le> a" | "b = Suc a" | "a + 2 \<le> b" by linarith
  then show ?thesis
  proof cases
    case 3
    then obtain c where b: "b = a + 2 + c" using le_Suc_ex by blast
    have "[a..<a + 2 + c] = a # [a + 1..<a + 1 + c] @ [a + 1 + c]"
      using upt_conv_Cons [of a "a + 2 + c"] upt_Suc_append [of "a + 1" "a + 1 + c"] by simp
    then show ?thesis using iter_piece_priorities_eq [of a c] assms b by simp
  qed (auto simp: iter_piece_priorities_def)
qed

subsection \<open>Properties\<close>

text \<open>C36: no accepted torrent can write outside its output folder: every component of every file path is
  valid UTF-8, is not the parent directory and contains no path separator of either kind.\<close>

theorem torrent_paths_confined:
  assumes "torrent_metadata_new info tbytes bytes = Inr m"
  shows "\<forall>fi \<in> set (tm_file_infos m). \<forall>c \<in> set (relative_filename fi).
    c \<noteq> ''..'' \<and> CHR ''/'' \<notin> set c \<and> CHR 0x5C \<notin> set c \<and> utf8_ok c"
  using torrent_metadata_paths_safe [OF assms] by (auto simp: safe_component_def)

definition ex_info :: meta_info where
  "ex_info = \<lparr>mi_name = Some ''t'', mi_pieces = replicate 60 0, mi_piece_length = 40, mi_length = None,
     mi_attr = None,
     mi_files = Some [\<lparr>mf_length = 30, mf_path = [''a''], mf_attr = None\<rparr>,
       \<lparr>mf_length = 0, mf_path = [''d'', ''b''], mf_attr = None\<rparr>,
       \<lparr>mf_length = 70, mf_path = [''d'', ''c''], mf_attr = None\<rparr>],
     mi_private = False\<rparr>"

definition ex_files :: "file_info list" where
  "ex_files =
    [\<lparr>relative_filename = [''a''], offset_in_torrent = 0, piece_range = (0, 1), fi_attrs = default_attrs, fi_len = 30\<rparr>,
     \<lparr>relative_filename = [''d'', ''b''], offset_in_torrent = 30, piece_range = (0, 0), fi_attrs = default_attrs, fi_len = 0\<rparr>,
     \<lparr>relative_filename = [''d'', ''c''], offset_in_torrent = 30, piece_range = (0, 3), fi_attrs = default_attrs, fi_len = 70\<rparr>]"

definition ex_metadata :: torrent_metadata where
  "ex_metadata = \<lparr>tm_info = ex_info, tm_torrent_bytes = [], tm_info_bytes = [], tm_lengths = ex_lengths,
     tm_file_infos = ex_files, tm_name = Some ''t''\<rparr>"

lemma ex_metadata_new: "torrent_metadata_new ex_info [] [] = Inr ex_metadata"
  by (simp add: torrent_metadata_new_def lengths_from_torrent_def iter_file_lengths_def iter_file_details_def
      ex_info_def as_u64_exact ex_lengths_new iter_file_details_ext_def iter_pieces_within_offset_def
      to_pathbuf_def check_component_def in_byte_range_def attrs_of_def ex_metadata_def ex_files_def
      ex_lengths_def width_defs)

theorem torrent_paths_confined_witness:
  "''d'' \<in> set (relative_filename (ex_files ! 1)) \<and> CHR ''/'' \<notin> set ''d''"
  using torrent_paths_confined [OF ex_metadata_new] by (simp add: ex_metadata_def ex_files_def)

text \<open>in the metadata of an accepted torrent the files lie one after the other and fill it, and the
  piece range recorded for a file holds exactly the pieces that share at least one byte with it.\<close>

theorem file_ranges_exact:
  assumes ok: "torrent_metadata_new info tbytes bytes = Inr m" "iter_file_details info = Inr ds"
    and "sum_list (map fd_len ds) < 2 ^ 64" "0 < mi_piece_length info" "mi_piece_length info < 2 ^ 32"
      "div_ceil (sum_list (map fd_len ds)) (mi_piece_length info)
        * div_ceil (mi_piece_length info) CHUNK_SIZE < 2 ^ 32"
    and i: "i < length (tm_file_infos m)"
  defines "fi \<equiv> tm_file_infos m ! i"
  shows "offset_in_torrent fi = (\<Sum>k<i. fi_len (tm_file_infos m ! k)) \<and>
    (\<Sum>fi\<leftarrow>tm_file_infos m. fi_len fi) = total_length (tm_lengths m) \<and>
    (fst (piece_range fi) \<le> p \<and> p < snd (piece_range fi) \<longleftrightarrow>
      (\<exists>x. offset_in_torrent fi \<le> x \<and> x < offset_in_torrent fi + fi_len fi \<and>
           x div default_piece_length (tm_lengths m) = p))"
proof -
  note wf = torrent_metadata_new_wf(1,2) [OF assms(1-6)]
  have "offset_in_torrent fi = (\<Sum>k<i. fi_len (tm_file_infos m ! k))"
    "(\<Sum>fi\<leftarrow>tm_file_infos m. fi_len fi) = total_length (tm_lengths m)"
    using wf(2) i by (simp_all add: wf_file_infos_def fi_def)
  moreover have "fst (piece_range fi) \<le> p \<and> p < snd (piece_range fi) \<longleftrightarrow>
      (\<exists>x. offset_in_torrent fi \<le> x \<and> x < offset_in_torrent fi + fi_len fi \<and>
           x div default_piece_length (tm_lengths m) = p)"
    unfolding fi_def file_piece_range_iff(1) [OF wf i] by (rule piece_overlaps_byte [OF wf(1)])
  ultimately show ?thesis by blast
qed

lemma ex_file_details:
  "iter_file_details ex_info = Inr [\<lparr>fd_filename = Tree [''a''], fd_len = 30, fd_attr = None\<rparr>,
     \<lparr>fd_filename = Tree [''d'', ''b''], fd_len = 0, fd_attr = None\<rparr>,
     \<lparr>fd_filename = Tree [''d'', ''c''], fd_len = 70, fd_attr = None\<rparr>]"
  by (simp add: iter_file_details_def ex_info_def)

theorem file_ranges_exact_witness:
  "\<exists>x. 30 \<le> x \<and> x < 30 + 70 \<and> x div 40 = (2::nat)"
  using file_ranges_exact [OF ex_metadata_new ex_file_details, of 2 2]
  by (simp add: ex_info_def ex_metadata_def ex_files_def CHUNK_SIZE_def div_ceil_def)

lemma ex_files_wf: "wf_file_infos ex_lengths ex_files"
  using torrent_metadata_new_wf(2) [OF ex_metadata_new ex_file_details]
  by (simp add: ex_info_def ex_metadata_def CHUNK_SIZE_def div_ceil_def)

text \<open>the download order of a file's pieces is a permutation of them that starts with the first and
  the last piece, the ones a player needs to open the file.\<close>

theorem piece_priorities_permute:
  assumes "a < b" "b < 2 ^ 64"
  shows "mset (iter_piece_priorities (a, b)) = mset [a..<b] \<and> hd (iter_piece_priorities (a, b)) = a \<and>
    (a + 1 < b \<longrightarrow> iter_piece_priorities (a, b) ! 1 = b - 1)"
proof (intro conjI impI)
  show "mset (iter_piece_priorities (a, b)) = mset [a..<b]"
    by (rule iter_piece_priorities_mset [OF assms(2)])
  show "hd (iter_piece_priorities (a, b)) = a"
    using assms(1) by (cases "b - a") (auto simp: iter_piece_priorities_def Let_def)
  assume "a + 1 < b"
  then have "a + 2 \<le> b" by simp
  then obtain c where "b = a + 2 + c" using le_Suc_ex by blast
  then show "iter_piece_priorities (a, b) ! 1 = b - 1"
    using iter_piece_priorities_eq [of a c] assms(2) by simp
qed

theorem piece_priorities_permute_witness:
  "mset (iter_piece_priorities (2, 6)) = mset [2, 3, 4, 5] \<and> iter_piece_priorities (2, 6) ! 1 = 5"
  using piece_priorities_permute [of 2 6] by (simp add: upt_conv_Cons)

end
