(* ===== verification/Protocol.thy ===== *)
theory Protocol
  imports Lengths "HOL-Library.Word" "HOL-Library.AList"
begin

text \<open>
  The values peers exchange, as far as the engine looks at them: addresses, the messages of the peer
  protocol and the requests handed to a connection's writer. Wire formats belong to the protocol
  crate and to the theory Wire; here a message is the value the handlers match on.

  \<^verbatim>\<open>DashMap\<close> and \<^verbatim>\<open>HashMap\<close> tables are association lists with distinct keys, so that iterating over
  a table is a fold; nothing proved depends on the order. The laws of such tables are at the end.
\<close>

subsection \<open>Addresses\<close>

datatype ip_addr = V4 nat | V6 nat

text \<open>The order of \<^verbatim>\<open>IpAddr\<close>: every IPv4 address comes before every IPv6 address.\<close>

instantiation ip_addr :: linorder
begin

fun less_eq_ip_addr :: "ip_addr \<Rightarrow> ip_addr \<Rightarrow> bool" where
  "less_eq_ip_addr (V4 a) (V4 b) = (a \<le> b)"
| "less_eq_ip_addr (V4 _) (V6 _) = True"
| "less_eq_ip_addr (V6 _) (V4 _) = False"
| "less_eq_ip_addr (V6 a) (V6 b) = (a \<le> b)"

definition less_ip_addr :: "ip_addr \<Rightarrow> ip_addr \<Rightarrow> bool" where
  "less_ip_addr a b \<longleftrightarrow> a \<le> b \<and> \<not> b \<le> a"

instance
proof
  fix x y z :: ip_addr
  show "x < y \<longleftrightarrow> x \<le> y \<and> \<not> y \<le> x" by (rule less_ip_addr_def)
  show "x \<le> x" by (cases x) auto
  show "x \<le> y \<Longrightarrow> y \<le> z \<Longrightarrow> x \<le> z" by (cases x; cases y; cases z) auto
  show "x \<le> y \<Longrightarrow> y \<le> x \<Longrightarrow> x = y" by (cases x; cases y) auto
  show "x \<le> y \<or> y \<le> x" by (cases x; cases y) auto
qed

end

type_synonym socket_addr = "ip_addr \<times> nat"

type_synonym id20 = "nat list"

subsection \<open>Messages\<close>

record request =
  rq_index :: nat
  rq_begin :: nat
  rq_length :: nat

record piece_msg =
  pm_index :: nat
  pm_begin :: nat
  pm_block :: "nat list"

datatype ut_metadata =
    UtRequest nat
  | UtData nat nat "nat list" \<comment> \<open>piece, total size, data\<close>
  | UtReject nat

record ut_pex =
  pex_added :: "socket_addr list"
  pex_dropped :: "socket_addr list"

text \<open>The handshake of the extension protocol: \<open>eh_m\<close> are the extensions of a peer with the ids it wants their messages under.\<close>

record extended_handshake =
  eh_m :: "(string \<times> nat) list"
  eh_p :: "nat option"
  eh_v :: "string option"
  eh_yourip :: "ip_addr option"
  eh_ipv6 :: "nat option"
  eh_ipv4 :: "nat option"
  eh_reqq :: "nat option"
  eh_metadata_size :: "nat option"
  eh_complete_ago :: "int option"
  eh_upload_only :: "nat option"

definition MY_EXTENDED_UT_METADATA :: nat where
  "MY_EXTENDED_UT_METADATA = 3"

definition MY_EXTENDED_UT_PEX :: nat where
  "MY_EXTENDED_UT_PEX = 1"

definition extended_handshake_new :: extended_handshake where
  "extended_handshake_new =
     \<lparr>eh_m = [(''ut_metadata'', MY_EXTENDED_UT_METADATA), (''ut_pex'', MY_EXTENDED_UT_PEX)], eh_p = None, eh_v = None, eh_yourip = None,
      eh_ipv6 = None, eh_ipv4 = None, eh_reqq = None, eh_metadata_size = None, eh_complete_ago = None, eh_upload_only = None\<rparr>"

definition eh_ut_metadata :: "extended_handshake \<Rightarrow> nat option" where
  "eh_ut_metadata h = map_of (eh_m h) ''ut_metadata''"

definition eh_ut_pex :: "extended_handshake \<Rightarrow> nat option" where
  "eh_ut_pex h = map_of (eh_m h) ''ut_pex''"

definition eh_ip_addr :: "extended_handshake \<Rightarrow> ip_addr option" where
  "eh_ip_addr h = (case eh_ipv4 h of Some b \<Rightarrow> Some (V4 b) | None \<Rightarrow> map_option V6 (eh_ipv6 h))"

definition eh_port :: "extended_handshake \<Rightarrow> nat option" where
  "eh_port h = Option.bind (eh_p h) (\<lambda>p. if p < 2 ^ 16 then Some p else None)"

text \<open>A message of an extension this client does not know is its id and its value in encoded form.\<close>

datatype extended_message =
    ExtHandshake extended_handshake
  | UtMetadata ut_metadata
  | UtPex ut_pex
  | Dyn nat "nat list"

datatype message =
    MRequest request
  | MCancel request
  | MBitfield "nat list"
  | MKeepAlive
  | MHave nat
  | MChoke
  | MUnchoke
  | MInterested
  | MNotInterested
  | MPiece piece_msg
  | MExtended extended_message

text \<open>What a writer can be asked to do; \<open>Disconnect\<close> carries the error a peer is dropped with.\<close>

datatype writer_request =
    WMessage message
  | ReadChunkRequest chunk_info
  | Disconnect "unit res"

text \<open>A channel is known by a number; what is sent on it is collected with that number.\<close>

type_synonym peer_tx = nat

type_synonym outbox = "(peer_tx \<times> writer_request) list"

subsection \<open>Tables\<close>

definition kcount :: "('v \<Rightarrow> bool) \<Rightarrow> ('k \<times> 'v) list \<Rightarrow> nat" where
  "kcount P al = length (filter (\<lambda>e. P (snd e)) al)"

definition tbl_ok :: "('k \<times> 'v) list \<Rightarrow> bool" where
  "tbl_ok al \<longleftrightarrow> distinct (map fst al)"

lemma kcount_simps [simp]:
  "kcount P [] = 0" "kcount P (e # al) = (if P (snd e) then 1 else 0) + kcount P al"
  by (simp_all add: kcount_def)

lemma tbl_ok_Nil [simp]: "tbl_ok []"
  by (simp add: tbl_ok_def)

lemma tbl_ok_update [simp]: "tbl_ok al \<Longrightarrow> tbl_ok (AList.update k v al)"
  by (simp add: tbl_ok_def distinct_update)

lemma tbl_ok_delete [simp]: "tbl_ok al \<Longrightarrow> tbl_ok (AList.delete k al)"
  by (simp add: tbl_ok_def distinct_delete)

lemma kcount_update_new: "map_of al k = None \<Longrightarrow> kcount P (AList.update k v al) = kcount P al + (if P v then 1 else 0)"
  by (induction al) (auto split: if_splits)

lemma kcount_update:
  "tbl_ok al \<Longrightarrow> map_of al k = Some w \<Longrightarrow>
   kcount P (AList.update k v al) + (if P w then 1 else 0) = kcount P al + (if P v then 1 else 0)"
proof (induction al)
  case Nil
  then show ?case by simp
next
  case (Cons e al)
  then show ?case by (cases e) (auto simp: tbl_ok_def split: if_splits)
qed

lemma delete_absent: "k \<notin> fst ` set al \<Longrightarrow> AList.delete k al = al"
  by (induction al) auto

lemma kcount_delete:
  "tbl_ok al \<Longrightarrow> map_of al k = Some w \<Longrightarrow> kcount P (AList.delete k al) + (if P w then 1 else 0) = kcount P al"
proof (induction al)
  case Nil
  then show ?case by simp
next
  case (Cons e al)
  then show ?case by (cases e) (auto simp: tbl_ok_def delete_absent split: if_splits)
qed

lemma tbl_in_set: "tbl_ok al \<Longrightarrow> (k, v) \<in> set al \<longleftrightarrow> map_of al k = Some v"
  by (simp add: tbl_ok_def map_of_eq_Some_iff)

end
