(* ===== verification/Chunk_Tracker.thy ===== *)
theory Chunk_Tracker
  imports Metadata Protocol
begin

text \<open>
  The chunk tracker, \<^verbatim>\<open>chunk_tracker.rs\<close> (\<open>update_only_files\<close> is in theory
  \<^verbatim>\<open>Selection\<close>). It records which
  pieces are queued, which chunks have been written, which pieces are verified and which the user
  selected, and keeps the byte counters \<open>hns\<close> and \<open>per_file_bytes\<close> in step with them.

  The invariant \<open>ct_inv\<close> says that the bit fields have the sizes the geometry gives them, that the
  counters are what the bit fields say (\<open>hns = calc_hns\<close>), and that every chunk of a verified piece
  is marked as written. Every operation keeps it.
\<close>

subsection \<open>State\<close>

record have_needed_selected =
  have_bytes :: nat
  needed_bytes :: nat
  selected_bytes :: nat

definition hns_default :: have_needed_selected where
  "hns_default = \<lparr>have_bytes = 0, needed_bytes = 0, selected_bytes = 0\<rparr>"

definition hns_progress :: "have_needed_selected \<Rightarrow> nat" where
  "hns_progress h = sub64 (selected_bytes h) (needed_bytes h)"

definition hns_total :: "have_needed_selected \<Rightarrow> nat" where
  "hns_total h = selected_bytes h"

definition hns_finished :: "have_needed_selected \<Rightarrow> bool" where
  "hns_finished h \<longleftrightarrow> needed_bytes h = 0"

record chunk_tracker =
  queue_pieces :: bits
  chunk_status :: bits
  ct_have :: bits
  selected :: bits
  per_file_bytes :: "nat list"
  ct_lengths :: lengths
  hns :: have_needed_selected

datatype chunk_marking_result = PreviouslyCompleted | NotCompleted | Completed

subsection \<open>Construction\<close>

fun chunk_have_status_loop :: "lengths \<Rightarrow> bits \<Rightarrow> piece_info list \<Rightarrow> bits \<Rightarrow> bits res" where
  "chunk_have_status_loop l have_pieces [] chunk_bf = Inr chunk_bf"
| "chunk_have_status_loop l have_pieces (piece # ps) chunk_bf =
     (let chunks = chunks_per_piece l (pi_index piece);
          offset = mul32 (default_chunks_per_piece l) (pi_index piece)
      in rbind (bf_index have_pieces (pi_index piece)) (\<lambda>h.
           if h then
             rbind (of_option (Bail ''bug in bitvec: error getting range'')
                      (bf_fill chunk_bf offset (offset + chunks) True))
               (chunk_have_status_loop l have_pieces ps)
           else chunk_have_status_loop l have_pieces ps chunk_bf))"

definition compute_chunk_have_status :: "lengths \<Rightarrow> bits \<Rightarrow> bits res" where
  "compute_chunk_have_status l have_pieces =
     (if length have_pieces < total_pieces l
      then Inl (Bail ''bug: have_pieces.len() < lengths.total_pieces()'')
      else chunk_have_status_loop l have_pieces (iter_piece_infos l)
             (zero_bytes_bf (chunk_bitfield_bytes l)))"

text \<open>\<^verbatim>\<open>bitand\<close> stops at the shorter operand; the checked caller only passes equal lengths.\<close>

definition compute_queued_pieces_unchecked :: "bits \<Rightarrow> bits \<Rightarrow> bits" where
  "compute_queued_pieces_unchecked have_pieces selected_pieces =
     map2 (\<lambda>h s. \<not> h \<and> s) have_pieces selected_pieces"

definition compute_queued_pieces :: "bits \<Rightarrow> bits \<Rightarrow> bits res" where
  "compute_queued_pieces have_pieces selected_pieces =
     (if length have_pieces \<noteq> length selected_pieces
      then Inl (Bail ''have_pieces.len() != selected_pieces.len()'')
      else Inr (compute_queued_pieces_unchecked have_pieces selected_pieces))"

fun sum_piece_in_file :: "lengths \<Rightarrow> bits \<Rightarrow> file_info \<Rightarrow> nat list \<Rightarrow> nat res" where
  "sum_piece_in_file l hv fi [] = Inr 0"
| "sum_piece_in_file l hv fi (p # ps) =
     rbind (bf_index hv p) (\<lambda>h.
     rbind (sum_piece_in_file l hv fi ps) (\<lambda>rest.
       Inr (if h then add64 (size_of_piece_in_file l p (offset_in_torrent fi) (fi_len fi)) rest
            else rest)))"

text \<open>The loop pairs the slots with the file infos and stops at the shorter of the two.\<close>

fun per_file_loop :: "lengths \<Rightarrow> bits \<Rightarrow> nat list \<Rightarrow> file_info list \<Rightarrow> nat list res" where
  "per_file_loop l hv [] fis = Inr []"
| "per_file_loop l hv (slot # slots) [] = Inr (slot # slots)"
| "per_file_loop l hv (slot # slots) (fi # fis) =
     rbind (sum_piece_in_file l hv fi [fst (piece_range fi)..<snd (piece_range fi)]) (\<lambda>n.
     rbind (per_file_loop l hv slots fis) (\<lambda>rest. Inr (n # rest)))"

definition recalculate_per_file_bytes :: "chunk_tracker \<Rightarrow> file_info list \<Rightarrow> chunk_tracker res" where
  "recalculate_per_file_bytes ct file_infos =
     rbind (per_file_loop (ct_lengths ct) (ct_have ct) (per_file_bytes ct) file_infos)
       (\<lambda>slots. Inr (ct\<lparr>per_file_bytes := slots\<rparr>))"

fun calc_hns_loop :: "bits \<Rightarrow> bits \<Rightarrow> piece_info list \<Rightarrow> have_needed_selected \<Rightarrow> have_needed_selected res" where
  "calc_hns_loop hv sel [] h = Inr h"
| "calc_hns_loop hv sel (piece # ps) h =
     (let id = pi_index piece; len = pi_len piece
      in rbind (bf_index hv id) (\<lambda>is_have.
         rbind (bf_index sel id) (\<lambda>is_selected.
           let is_needed = is_selected \<and> \<not> is_have
           in calc_hns_loop hv sel ps
                \<lparr>have_bytes = add64 (have_bytes h) (mul64 len (of_bool is_have)),
                 needed_bytes = add64 (needed_bytes h) (mul64 len (of_bool is_needed)),
                 selected_bytes = add64 (selected_bytes h) (mul64 len (of_bool is_selected))\<rparr>)))"

definition calc_hns :: "chunk_tracker \<Rightarrow> have_needed_selected res" where
  "calc_hns ct = calc_hns_loop (ct_have ct) (selected ct) (iter_piece_infos (ct_lengths ct)) hns_default"

definition chunk_tracker_new :: "bits \<Rightarrow> bits \<Rightarrow> lengths \<Rightarrow> file_info list \<Rightarrow> chunk_tracker res" where
  "chunk_tracker_new have_pieces selected_pieces l file_infos =
     rbind (compute_queued_pieces have_pieces selected_pieces) (\<lambda>needed_pieces.
     rbind (compute_chunk_have_status l have_pieces) (\<lambda>status.
     let ct = \<lparr>queue_pieces = needed_pieces, chunk_status = status, ct_have = have_pieces,
               selected = selected_pieces, per_file_bytes = replicate (length file_infos) 0,
               ct_lengths = l, hns = hns_default\<rparr>
     in rbind (recalculate_per_file_bytes ct file_infos) (\<lambda>ct.
        rbind (calc_hns ct) (\<lambda>h. Inr (ct\<lparr>hns := h\<rparr>)))))"

subsection \<open>Operations\<close>

definition reserve_needed_piece :: "chunk_tracker \<Rightarrow> valid_piece_index \<Rightarrow> chunk_tracker res" where
  "reserve_needed_piece ct index =
     rbind (bf_set (queue_pieces ct) index False) (\<lambda>q. Inr (ct\<lparr>queue_pieces := q\<rparr>))"

text \<open>The filters of \<open>iter_queued_pieces\<close>, in the order of the iterator chain. The chain is lazy: an
  index out of range panics when the element is reached, which the callers never get to once they
  have found their piece.\<close>

definition queued_file_pieces :: "chunk_tracker \<Rightarrow> file_info list \<Rightarrow> nat \<Rightarrow> nat list res" where
  "queued_file_pieces ct file_infos p =
     (if p < length file_infos then
        let f = file_infos ! p in
        if p < length (per_file_bytes ct) then
          Inr (if per_file_bytes ct ! p \<noteq> fi_len f then iter_piece_priorities (piece_range f) else [])
        else Inl Panic
      else Inr [])"

fun iter_queued_pieces :: "chunk_tracker \<Rightarrow> nat list \<Rightarrow> file_info list \<Rightarrow> valid_piece_index res list" where
  "iter_queued_pieces ct [] file_infos = []"
| "iter_queued_pieces ct (p # ps) file_infos =
     (case queued_file_pieces ct file_infos p of
        Inl e \<Rightarrow> [Inl e]
      | Inr ids \<Rightarrow>
          List.map_filter (\<lambda>id.
              case bf_index (queue_pieces ct) id of
                Inl e \<Rightarrow> Some (Inl e)
              | Inr q \<Rightarrow> if q then map_option Inr (Option.bind (try_u32 id) (validate_piece_index (ct_lengths ct)))
                        else None) ids
            @ iter_queued_pieces ct ps file_infos)"

definition is_piece_have :: "chunk_tracker \<Rightarrow> valid_piece_index \<Rightarrow> bool res" where
  "is_piece_have ct pid = bf_index (ct_have ct) pid"

definition mark_piece_broken_if_not_have :: "chunk_tracker \<Rightarrow> valid_piece_index \<Rightarrow> chunk_tracker res" where
  "mark_piece_broken_if_not_have ct index =
     (if (case bf_get (ct_have ct) index of Some h \<Rightarrow> h | None \<Rightarrow> False) then Inr ct
      else
        rbind (bf_set (queue_pieces ct) index True) (\<lambda>q.
          let r = chunk_range (ct_lengths ct) index;
              status = (case bf_fill (chunk_status ct) (fst r) (snd r) False of
                          Some s \<Rightarrow> s | None \<Rightarrow> chunk_status ct)
          in Inr (ct\<lparr>queue_pieces := q, chunk_status := status\<rparr>)))"

definition mark_piece_downloaded :: "chunk_tracker \<Rightarrow> valid_piece_index \<Rightarrow> chunk_tracker res" where
  "mark_piece_downloaded ct idx =
     rbind (bf_index (ct_have ct) idx) (\<lambda>h.
       if h then Inr ct
       else
         let len = piece_length (ct_lengths ct) idx;
             ct = ct\<lparr>ct_have := (ct_have ct)[idx := True],
                     hns := (hns ct)\<lparr>have_bytes := add64 (have_bytes (hns ct)) len\<rparr>\<rparr>
         in rbind (bf_index (selected ct) idx) (\<lambda>s.
              Inr (if s then ct\<lparr>hns := (hns ct)\<lparr>needed_bytes := sub64 (needed_bytes (hns ct)) len\<rparr>\<rparr>
                   else ct)))"

definition is_chunk_ready_to_upload :: "chunk_tracker \<Rightarrow> chunk_info \<Rightarrow> bool" where
  "is_chunk_ready_to_upload ct chunk =
     (case bf_get (ct_have ct) (ci_piece_index chunk) of Some b \<Rightarrow> b | None \<Rightarrow> False)"

definition get_remaining_bytes :: "chunk_tracker \<Rightarrow> nat" where
  "get_remaining_bytes ct = needed_bytes (hns ct)"

text \<open>The result \<open>None\<close> is the data not mapping to a chunk; the tracker is then unchanged.
  \<^verbatim>\<open>chunk_range.set\<close> is relative to the slice.\<close>

definition mark_chunk_downloaded ::
  "chunk_tracker \<Rightarrow> piece_msg \<Rightarrow> (chunk_tracker \<times> chunk_marking_result option) res" where
  "mark_chunk_downloaded ct piece =
     (case validate_piece_index (ct_lengths ct) (pm_index piece) of
        None \<Rightarrow> Inr (ct, None)
      | Some idx \<Rightarrow>
          rbind (of_option Panic (try_u32 (length (pm_block piece)))) (\<lambda>len.
          case chunk_info_from_received_data (ct_lengths ct) idx (pm_begin piece) len of
            None \<Rightarrow> Inr (ct, None)
          | Some ci \<Rightarrow>
              let r = chunk_range (ct_lengths ct) (ci_piece_index ci)
              in rbind (of_option Panic (bf_get_range (chunk_status ct) (fst r) (snd r))) (\<lambda>bs.
                   if bits_all bs then Inr (ct, Some PreviouslyCompleted)
                   else
                     rbind (bf_set bs (ci_chunk_index ci) True) (\<lambda>bs'.
                       let ct' = ct\<lparr>chunk_status :=
                             (chunk_status ct)[fst r + ci_chunk_index ci := True]\<rparr>
                       in Inr (ct', Some (if bits_all bs' then Completed else NotCompleted))))))"

definition get_selected_pieces :: "chunk_tracker \<Rightarrow> bits" where
  "get_selected_pieces ct = selected ct"

definition is_file_finished :: "chunk_tracker \<Rightarrow> file_info \<Rightarrow> bool" where
  "is_file_finished ct fi =
     (case bf_get_range (ct_have ct) (fst (piece_range fi)) (snd (piece_range fi)) of
        Some r \<Rightarrow> bits_all r | None \<Rightarrow> True)"

definition is_finished :: "chunk_tracker \<Rightarrow> bool" where
  "is_finished ct = hns_finished (hns ct)"

definition update_file_have_on_piece_completed ::
  "chunk_tracker \<Rightarrow> valid_piece_index \<Rightarrow> nat \<Rightarrow> file_info \<Rightarrow> (chunk_tracker \<times> nat) res" where
  "update_file_have_on_piece_completed ct piece_id file_id fi =
     (let diff_have = size_of_piece_in_file (ct_lengths ct) piece_id (offset_in_torrent fi) (fi_len fi)
      in if file_id < length (per_file_bytes ct) then
           let n = add64 (per_file_bytes ct ! file_id) diff_have;
               ct' = ct\<lparr>per_file_bytes := (per_file_bytes ct)[file_id := n]\<rparr>
           in Inr (ct', fi_len fi - n)
         else Inl Panic)"

subsection \<open>Byte counters\<close>

text \<open>The number of bytes in the pieces that satisfy a predicate.\<close>

definition bytes_of :: "lengths \<Rightarrow> (nat \<Rightarrow> bool) \<Rightarrow> nat" where
  "bytes_of l P = (\<Sum>p<total_pieces l. if P p then piece_length l p else 0)"

definition hns_of :: "lengths \<Rightarrow> bits \<Rightarrow> bits \<Rightarrow> have_needed_selected" where
  "hns_of l hv sel = \<lparr>have_bytes = bytes_of l (\<lambda>p. hv ! p),
     needed_bytes = bytes_of l (\<lambda>p. sel ! p \<and> \<not> hv ! p), selected_bytes = bytes_of l (\<lambda>p. sel ! p)\<rparr>"

lemma bytes_of_le: "wf_lengths l \<Longrightarrow> bytes_of l P \<le> total_length l"
proof -
  assume wf: "wf_lengths l"
  have "bytes_of l P \<le> (\<Sum>p<total_pieces l. piece_length l p)"
    unfolding bytes_of_def by (intro sum_mono) simp
  then show ?thesis by (simp add: pieces_sum [OF wf])
qed

lemma bytes_of_u64: "wf_lengths l \<Longrightarrow> bytes_of l P < 2 ^ 64"
  using bytes_of_le [of l P] wf_total [of l] by linarith

lemma bytes_of_mono: "(\<And>p. p < total_pieces l \<Longrightarrow> P p \<Longrightarrow> Q p) \<Longrightarrow> bytes_of l P \<le> bytes_of l Q"
  unfolding bytes_of_def by (intro sum_mono) auto

lemma bytes_of_cong: "(\<And>p. p < total_pieces l \<Longrightarrow> P p = Q p) \<Longrightarrow> bytes_of l P = bytes_of l Q"
  unfolding bytes_of_def by (intro sum.cong) auto

lemma bytes_of_zero_iff: "wf_lengths l \<Longrightarrow> bytes_of l P = 0 \<longleftrightarrow> (\<forall>p < total_pieces l. \<not> P p)"
proof -
  assume "wf_lengths l"
  then have z: "(piece_length l p = 0) = False" for p using piece_length_bounds(1) [of l p] by simp
  show ?thesis by (auto simp: bytes_of_def z)
qed

lemma bytes_of_all: "wf_lengths l \<Longrightarrow> (\<And>p. p < total_pieces l \<Longrightarrow> P p) \<Longrightarrow> bytes_of l P = total_length l"
  using bytes_of_cong [of l P "\<lambda>_. True"] by (simp add: bytes_of_def pieces_sum)

lemma bytes_of_insert:
  assumes "k < total_pieces l" "\<not> P k" "Q k" "\<And>p. p < total_pieces l \<Longrightarrow> p \<noteq> k \<Longrightarrow> Q p = P p"
  shows "bytes_of l Q = bytes_of l P + piece_length l k"
proof -
  have "(\<Sum>p<total_pieces l. if Q p then piece_length l p else 0) + (if P k then piece_length l k else 0)
      = (\<Sum>p<total_pieces l. if P p then piece_length l p else 0) + (if Q k then piece_length l k else 0)"
    by (rule sum_upd_point [OF assms(1)]) (simp add: assms(4))
  then show ?thesis using assms(2,3) by (simp add: bytes_of_def)
qed

lemma bytes_of_split:
  "bytes_of l P = bytes_of l (\<lambda>p. P p \<and> Q p) + bytes_of l (\<lambda>p. P p \<and> \<not> Q p)"
  unfolding bytes_of_def by (simp add: sum.distrib [symmetric] if_distrib cong: if_cong) (intro sum.cong, auto)

text \<open>The counters over the pieces below \<open>n\<close>: the state of \<open>calc_hns\<close> and \<open>update_only_files\<close> after \<open>n\<close> pieces.\<close>

definition bytes_below :: "lengths \<Rightarrow> nat \<Rightarrow> (nat \<Rightarrow> bool) \<Rightarrow> nat" where
  "bytes_below l n P = (\<Sum>p<n. if P p then piece_length l p else 0)"

lemma bytes_below_total: "bytes_below l (total_pieces l) P = bytes_of l P"
  by (simp add: bytes_below_def bytes_of_def)

lemma bytes_below_0 [simp]: "bytes_below l 0 P = 0"
  by (simp add: bytes_below_def)

lemma bytes_below_Suc: "bytes_below l (Suc n) P = bytes_below l n P + (if P n then piece_length l n else 0)"
  by (simp add: bytes_below_def)

lemma bytes_below_u64: "wf_lengths l \<Longrightarrow> n \<le> total_pieces l \<Longrightarrow> bytes_below l n P < 2 ^ 64"
proof -
  assume wf: "wf_lengths l" and n: "n \<le> total_pieces l"
  have "bytes_below l n P \<le> bytes_of l P"
    unfolding bytes_below_def bytes_of_def using n by (intro sum_mono2) auto
  then show ?thesis using bytes_of_u64 [OF wf, of P] by linarith
qed

lemma bytes_below_cong: "(\<And>p. p < n \<Longrightarrow> P p = Q p) \<Longrightarrow> bytes_below l n P = bytes_below l n Q"
  unfolding bytes_below_def by (intro sum.cong) auto

lemma bytes_below_step:
  assumes "wf_lengths l" "n < total_pieces l"
  shows "add64 (bytes_below l n P) (mul64 (piece_length l n) (of_bool (P n))) = bytes_below l (Suc n) P"
    and "P n \<Longrightarrow> add64 (bytes_below l n P) (piece_length l n) = bytes_below l (Suc n) P"
  using bytes_below_u64 [OF assms(1), of "Suc n" P] assms piece_length_u32 [OF assms(1), of n]
  by (simp_all add: bytes_below_Suc mul64_exact add64_exact split: if_splits)

lemma calc_hns_loop_eq:
  assumes wf: "wf_lengths l" and len: "total_pieces l \<le> length hv" "total_pieces l \<le> length sel"
    and n: "n \<le> total_pieces l"
  shows "calc_hns_loop hv sel (map (\<lambda>i. \<lparr>pi_index = i, pi_len = piece_length l i\<rparr>) [n..<total_pieces l])
      \<lparr>have_bytes = bytes_below l n (\<lambda>p. hv ! p), needed_bytes = bytes_below l n (\<lambda>p. sel ! p \<and> \<not> hv ! p),
       selected_bytes = bytes_below l n (\<lambda>p. sel ! p)\<rparr> = Inr (hns_of l hv sel)"
  using n
proof (induction "total_pieces l - n" arbitrary: n)
  case 0
  then have "n = total_pieces l" by simp
  then show ?case by (simp add: hns_of_def bytes_below_total)
next
  case (Suc k)
  then have n: "n < total_pieces l" and IH: "k = total_pieces l - Suc n" by auto
  have "[n..<total_pieces l] = n # [Suc n..<total_pieces l]" using n by (rule upt_conv_Cons)
  then show ?case
    using Suc.hyps(1) [OF IH] n len bytes_below_step(1) [OF wf n, of "\<lambda>p. hv ! p"]
      bytes_below_step(1) [OF wf n, of "\<lambda>p. sel ! p"]
      bytes_below_step(1) [OF wf n, of "\<lambda>p. sel ! p \<and> \<not> hv ! p"]
    by (cases "sel ! n"; cases "hv ! n") (simp_all add: Let_def)
qed

lemma calc_hns_eq:
  assumes "wf_lengths (ct_lengths ct)"
    and "total_pieces (ct_lengths ct) \<le> length (ct_have ct)" "total_pieces (ct_lengths ct) \<le> length (selected ct)"
  shows "calc_hns ct = Inr (hns_of (ct_lengths ct) (ct_have ct) (selected ct))"
  using calc_hns_loop_eq [OF assms, of 0]
  by (simp add: calc_hns_def iter_piece_infos_simp hns_default_def)

subsection \<open>The invariant\<close>

definition chunks_marked :: "lengths \<Rightarrow> bits \<Rightarrow> nat \<Rightarrow> bool" where
  "chunks_marked l status p \<longleftrightarrow>
     (\<forall>i. fst (chunk_range l p) \<le> i \<and> i < snd (chunk_range l p) \<longrightarrow> status ! i)"

definition ct_inv :: "chunk_tracker \<Rightarrow> bool" where
  "ct_inv ct \<longleftrightarrow>
     (let l = ct_lengths ct in
      wf_lengths l \<and>
      length (ct_have ct) = 8 * piece_bitfield_bytes l \<and>
      length (selected ct) = 8 * piece_bitfield_bytes l \<and>
      length (queue_pieces ct) = 8 * piece_bitfield_bytes l \<and>
      length (chunk_status ct) = 8 * chunk_bitfield_bytes l \<and>
      hns ct = hns_of l (ct_have ct) (selected ct) \<and>
      (\<forall>p < total_pieces l. ct_have ct ! p \<longrightarrow> chunks_marked l (chunk_status ct) p))"

lemma ct_invD:
  assumes "ct_inv ct"
  shows "wf_lengths (ct_lengths ct)"
    and "length (ct_have ct) = 8 * piece_bitfield_bytes (ct_lengths ct)"
    and "length (selected ct) = 8 * piece_bitfield_bytes (ct_lengths ct)"
    and "length (queue_pieces ct) = 8 * piece_bitfield_bytes (ct_lengths ct)"
    and "length (chunk_status ct) = 8 * chunk_bitfield_bytes (ct_lengths ct)"
    and "hns ct = hns_of (ct_lengths ct) (ct_have ct) (selected ct)"
    and "\<And>p. p < total_pieces (ct_lengths ct) \<Longrightarrow> ct_have ct ! p \<Longrightarrow>
      chunks_marked (ct_lengths ct) (chunk_status ct) p"
  using assms by (simp_all add: ct_inv_def Let_def)

lemma ct_inv_bits:
  assumes "ct_inv ct" "p < total_pieces (ct_lengths ct)"
  shows "p < length (ct_have ct)" "p < length (selected ct)" "p < length (queue_pieces ct)"
  using assms total_pieces_le_bits [of "ct_lengths ct"] by (simp_all add: ct_invD)

text \<open>Updates of the queue and of chunk bits of a piece we do not have keep the invariant.\<close>

lemma ct_inv_queue:
  "ct_inv ct \<Longrightarrow> length q = length (queue_pieces ct) \<Longrightarrow> ct_inv (ct\<lparr>queue_pieces := q\<rparr>)"
  by (simp add: ct_inv_def Let_def)

lemma ct_inv_pfb: "ct_inv ct \<Longrightarrow> ct_inv (ct\<lparr>per_file_bytes := b\<rparr>)"
  by (simp add: ct_inv_def Let_def)

lemma ct_inv_status:
  assumes inv: "ct_inv ct" and len: "length s = length (chunk_status ct)"
    and keep: "\<And>p. p < total_pieces (ct_lengths ct) \<Longrightarrow> ct_have ct ! p \<Longrightarrow>
      chunks_marked (ct_lengths ct) s p"
  shows "ct_inv (ct\<lparr>chunk_status := s\<rparr>)"
  using inv len keep by (simp add: ct_inv_def Let_def)

lemma chunks_marked_other:
  assumes wf: "wf_lengths l" and p: "p < total_pieces l" and q: "q < total_pieces l" "p \<noteq> q"
    and m: "chunks_marked l s p"
    and same: "\<And>i. \<not> (fst (chunk_range l q) \<le> i \<and> i < snd (chunk_range l q)) \<Longrightarrow> i < snd (chunk_range l p) \<Longrightarrow> s' ! i = s ! i"
  shows "chunks_marked l s' p"
  unfolding chunks_marked_def
proof (intro allI impI)
  fix i assume i: "fst (chunk_range l p) \<le> i \<and> i < snd (chunk_range l p)"
  then have "\<not> (fst (chunk_range l q) \<le> i \<and> i < snd (chunk_range l q))"
    using chunk_range_disjoint [OF wf p q(1) q(2)] by blast
  then have "s' ! i = s ! i" using same i by blast
  then show "s' ! i" using m i by (simp add: chunks_marked_def)
qed

subsection \<open>Single operations\<close>

lemma reserve_needed_piece_ok:
  assumes "ct_inv ct" "p < total_pieces (ct_lengths ct)"
  shows "reserve_needed_piece ct p = Inr (ct\<lparr>queue_pieces := (queue_pieces ct)[p := False]\<rparr>)"
    and "ct_inv (ct\<lparr>queue_pieces := (queue_pieces ct)[p := False]\<rparr>)"
  using assms ct_inv_bits [OF assms] by (simp_all add: reserve_needed_piece_def ct_inv_queue)

text \<open>The tracker after a piece was marked broken.\<close>

definition cleared :: "chunk_tracker \<Rightarrow> nat \<Rightarrow> bits" where
  "cleared ct p = take (fst (chunk_range (ct_lengths ct) p)) (chunk_status ct)
     @ replicate (snd (chunk_range (ct_lengths ct) p) - fst (chunk_range (ct_lengths ct) p)) False
     @ drop (snd (chunk_range (ct_lengths ct) p)) (chunk_status ct)"

lemma bf_fill_cleared:
  assumes "ct_inv ct" "p < total_pieces (ct_lengths ct)"
  shows "bf_fill (chunk_status ct) (fst (chunk_range (ct_lengths ct) p))
    (snd (chunk_range (ct_lengths ct) p)) False = Some (cleared ct p)"
  using chunk_range_in_bits [OF ct_invD(1) [OF assms(1)] assms(2)] ct_invD(5) [OF assms(1)]
  by (simp add: bf_fill_def cleared_def)

lemma cleared_nth:
  assumes "ct_inv ct" "p < total_pieces (ct_lengths ct)" "i < length (chunk_status ct)"
  shows "cleared ct p ! i \<longleftrightarrow> chunk_status ct ! i \<and>
    \<not> (fst (chunk_range (ct_lengths ct) p) \<le> i \<and> i < snd (chunk_range (ct_lengths ct) p))"
  using bf_fill_nth [OF bf_fill_cleared [OF assms(1,2)] assms(3)] by auto

lemma length_cleared: "ct_inv ct \<Longrightarrow> p < total_pieces (ct_lengths ct) \<Longrightarrow> length (cleared ct p) = length (chunk_status ct)"
  using bf_fill_length [OF bf_fill_cleared] by blast

lemma mark_piece_broken_eq:
  assumes "ct_inv ct" "p < total_pieces (ct_lengths ct)"
  shows "mark_piece_broken_if_not_have ct p =
    (if ct_have ct ! p then Inr ct
     else Inr (ct\<lparr>queue_pieces := (queue_pieces ct)[p := True], chunk_status := cleared ct p\<rparr>))"
  using ct_inv_bits [OF assms] bf_fill_cleared [OF assms]
  by (simp add: mark_piece_broken_if_not_have_def bf_get_def Let_def)

lemma ct_inv_cleared:
  assumes inv: "ct_inv ct" and p: "p < total_pieces (ct_lengths ct)" and nh: "\<not> ct_have ct ! p"
  shows "ct_inv (ct\<lparr>queue_pieces := (queue_pieces ct)[p := b], chunk_status := cleared ct p\<rparr>)"
proof -
  let ?l = "ct_lengths ct"
  have "chunks_marked ?l (cleared ct p) q" if q: "q < total_pieces ?l" "ct_have ct ! q" for q
  proof (rule chunks_marked_other [OF ct_invD(1) [OF inv] q(1) p])
    show "q \<noteq> p" using nh q by auto
    show "chunks_marked ?l (chunk_status ct) q" by (rule ct_invD(7) [OF inv q])
    fix i assume "\<not> (fst (chunk_range ?l p) \<le> i \<and> i < snd (chunk_range ?l p))" and i: "i < snd (chunk_range ?l q)"
    moreover have "i < length (chunk_status ct)"
      using i chunk_range_in_bits(1) [OF ct_invD(1) [OF inv] q(1)] ct_invD(5) [OF inv] by simp
    ultimately show "cleared ct p ! i = chunk_status ct ! i" using cleared_nth [OF inv p] by blast
  qed
  moreover have "ct_inv (ct\<lparr>queue_pieces := (queue_pieces ct)[p := b]\<rparr>)"
    by (rule ct_inv_queue [OF inv]) simp
  ultimately show ?thesis
    by (intro ct_inv_status) (simp_all add: length_cleared [OF inv p])
qed

lemma mark_piece_broken_inv:
  assumes "ct_inv ct" "p < total_pieces (ct_lengths ct)" "mark_piece_broken_if_not_have ct p = Inr ct'"
  shows "ct_inv ct'" "ct_have ct' = ct_have ct" "ct_lengths ct' = ct_lengths ct" "selected ct' = selected ct"
    "hns ct' = hns ct" "per_file_bytes ct' = per_file_bytes ct"
  using assms ct_inv_cleared [OF assms(1,2), of True]
  by (auto simp: mark_piece_broken_eq [OF assms(1,2)] split: if_splits)

lemma mark_piece_downloaded_eq:
  assumes inv: "ct_inv ct" and p: "p < total_pieces (ct_lengths ct)"
    and marked: "chunks_marked (ct_lengths ct) (chunk_status ct) p"
  shows "\<exists>ct'. mark_piece_downloaded ct p = Inr ct' \<and> ct_inv ct' \<and> ct_have ct' = (ct_have ct)[p := True] \<and>
    ct_lengths ct' = ct_lengths ct \<and> selected ct' = selected ct \<and> queue_pieces ct' = queue_pieces ct \<and>
    chunk_status ct' = chunk_status ct \<and> per_file_bytes ct' = per_file_bytes ct"
proof (cases "ct_have ct ! p")
  case True
  then have "(ct_have ct)[p := True] = ct_have ct" by (metis list_update_id)
  with True inv ct_inv_bits [OF inv p] show ?thesis by (simp add: mark_piece_downloaded_def)
next
  case False
  let ?l = "ct_lengths ct" and ?h = "ct_have ct" and ?s = "selected ct"
  let ?h' = "?h[p := True]"
  note wf = ct_invD(1) [OF inv] and bits = ct_inv_bits [OF inv p]
  have nth: "?h' ! q = (if q = p then True else ?h ! q)" if "q < total_pieces ?l" for q
    using ct_inv_bits(1) [OF inv that] by (simp add: nth_list_update)
  have hb: "bytes_of ?l (\<lambda>q. ?h' ! q) = bytes_of ?l (\<lambda>q. ?h ! q) + piece_length ?l p"
    by (rule bytes_of_insert [OF p]) (use False nth p in auto)
  have nb: "bytes_of ?l (\<lambda>q. ?s ! q \<and> \<not> ?h ! q) =
      bytes_of ?l (\<lambda>q. ?s ! q \<and> \<not> ?h' ! q) + (if ?s ! p then piece_length ?l p else 0)"
  proof (cases "?s ! p")
    case True
    then show ?thesis
      using bytes_of_insert [OF p, of "\<lambda>q. ?s ! q \<and> \<not> ?h' ! q" "\<lambda>q. ?s ! q \<and> \<not> ?h ! q"] False nth p by simp
  next
    case F: False
    then show ?thesis using nth by (simp, intro bytes_of_cong) auto
  qed
  have hns': "hns_of ?l ?h' ?s = (hns ct)\<lparr>have_bytes := add64 (have_bytes (hns ct)) (piece_length ?l p),
      needed_bytes := (if ?s ! p then sub64 (needed_bytes (hns ct)) (piece_length ?l p) else needed_bytes (hns ct))\<rparr>"
    using hb nb bytes_of_u64 [OF wf, of "\<lambda>q. ?h' ! q"] bytes_of_u64 [OF wf, of "\<lambda>q. ?s ! q \<and> \<not> ?h ! q"]
    by (cases "?s ! p") (simp_all add: ct_invD(6) [OF inv] hns_of_def add64_exact sub64_exact)
  let ?ct = "ct\<lparr>ct_have := ?h', hns := hns_of ?l ?h' ?s\<rparr>"
  have "chunks_marked ?l (chunk_status ct) q" if "q < total_pieces ?l" "?h' ! q" for q
    using that nth marked ct_invD(7) [OF inv] by (auto split: if_splits)
  then have "ct_inv ?ct" using inv by (simp add: ct_inv_def Let_def)
  moreover have "mark_piece_downloaded ct p = Inr ?ct"
    using False bits hns' by (simp add: mark_piece_downloaded_def Let_def)
  ultimately show ?thesis by simp
qed

lemma mark_chunk_downloaded_cases:
  assumes inv: "ct_inv ct" and blk: "length (pm_block m) < 2 ^ 32"
  shows "(mark_chunk_downloaded ct m = Inr (ct, None) \<and>
      \<not> (\<exists>ci. pm_index m < total_pieces (ct_lengths ct) \<and>
        ci \<in> set (iter_chunk_infos (ct_lengths ct) (pm_index m)) \<and>
        ci_offset ci = pm_begin m \<and> ci_size ci = length (pm_block m)))
    \<or> (\<exists>i < chunks_per_piece (ct_lengths ct) (pm_index m).
        let l = ct_lengths ct; p = pm_index m;
            s = (chunk_status ct)[fst (chunk_range l p) + i := True]
        in p < total_pieces l \<and> pm_begin m = i * CHUNK_SIZE \<and> length (pm_block m) = nth_chunk_size l p i \<and>
          mark_chunk_downloaded ct m =
            (if chunks_marked l (chunk_status ct) p then Inr (ct, Some PreviouslyCompleted)
             else Inr (ct\<lparr>chunk_status := s\<rparr>,
                       Some (if chunks_marked l s p then Completed else NotCompleted))))"
proof -
  let ?l = "ct_lengths ct" and ?p = "pm_index m" and ?n = "length (pm_block m)"
  note wf = ct_invD(1) [OF inv]
  show ?thesis
  proof (cases "?p < total_pieces ?l")
    case False
    then have "validate_piece_index ?l ?p = None"
      using validate_piece_index_Some [OF wf, of ?p] by (cases "validate_piece_index ?l ?p") auto
    then show ?thesis using False by (simp add: mark_chunk_downloaded_def)
  next
    case True
    then have v: "validate_piece_index ?l ?p = Some ?p" by (simp add: validate_piece_index_Some [OF wf])
    note iff = chunk_info_from_received_data_iff [OF wf True, of "pm_begin m" ?n]
    show ?thesis
    proof (cases "chunk_info_from_received_data ?l ?p (pm_begin m) ?n")
      case None
      then have "mark_chunk_downloaded ct m = Inr (ct, None)"
        using v blk by (simp add: mark_chunk_downloaded_def try_u32_def)
      then show ?thesis using iff None by auto
    next
      case (Some ci)
      then obtain i where i: "i < chunks_per_piece ?l ?p" and ci: "ci = nth_chunk ?l ?p i"
        and b: "pm_begin m = i * CHUNK_SIZE" and n: "?n = nth_chunk_size ?l ?p i"
        using iff [of ci] by (auto simp: iter_chunk_infos_eq [OF wf True] nth_chunk_def)
      let ?a = "fst (chunk_range ?l ?p)" and ?b = "snd (chunk_range ?l ?p)"
      let ?s = "(chunk_status ct)[?a + i := True]"
      have ab: "?a \<le> ?b" "?b \<le> length (chunk_status ct)" "?b = ?a + chunks_per_piece ?l ?p"
        using chunk_range_in_bits [OF wf True] ct_invD(5) [OF inv]
        by (auto simp: chunk_range_eq [OF wf True])
      let ?bs = "take (?b - ?a) (drop ?a (chunk_status ct))"
      have r: "bf_get_range (chunk_status ct) ?a ?b = Some ?bs" using ab by (simp add: bf_get_range_def)
      have r': "bf_get_range ?s ?a ?b = Some (?bs[i := True])"
        using ab i by (simp add: bf_get_range_def drop_update_swap take_update_swap)
      have "bf_set ?bs i True = Inr (?bs[i := True])" using ab i by (simp add: bf_set_def)
      then have "mark_chunk_downloaded ct m =
            (if chunks_marked ?l (chunk_status ct) ?p then Inr (ct, Some PreviouslyCompleted)
             else Inr (ct\<lparr>chunk_status := ?s\<rparr>,
                       Some (if chunks_marked ?l ?s ?p then Completed else NotCompleted)))"
        using v blk Some r bf_get_range_all [OF r] bf_get_range_all [OF r'] ci
        by (simp add: mark_chunk_downloaded_def try_u32_def Let_def nth_chunk_def chunks_marked_def)
      then show ?thesis using i True b n by (intro disjI2 exI [of _ i]) (simp add: Let_def)
    qed
  qed
qed

lemma mark_chunk_downloaded_inv:
  assumes inv: "ct_inv ct" and blk: "length (pm_block m) < 2 ^ 32"
    and r: "mark_chunk_downloaded ct m = Inr (ct', res)"
  shows "ct_inv ct'" "ct_have ct' = ct_have ct" "selected ct' = selected ct"
    "queue_pieces ct' = queue_pieces ct" "ct_lengths ct' = ct_lengths ct"
    "per_file_bytes ct' = per_file_bytes ct"
    and "res = Some Completed \<Longrightarrow> pm_index m < total_pieces (ct_lengths ct) \<and>
      chunks_marked (ct_lengths ct) (chunk_status ct') (pm_index m)"
proof -
  let ?l = "ct_lengths ct" and ?p = "pm_index m"
  have set_inv: "ct_inv (ct\<lparr>chunk_status := (chunk_status ct)[k := True]\<rparr>)" for k
  proof (rule ct_inv_status [OF inv])
    fix q assume q: "q < total_pieces ?l" "ct_have ct ! q"
    have "i < length (chunk_status ct)" if "i < snd (chunk_range ?l q)" for i
      using that chunk_range_in_bits(1) [OF ct_invD(1) [OF inv] q(1)] ct_invD(5) [OF inv] by simp
    then show "chunks_marked ?l ((chunk_status ct)[k := True]) q"
      using ct_invD(7) [OF inv q] by (simp add: chunks_marked_def list_update_True_nth)
  qed simp
  show "ct_inv ct'" "ct_have ct' = ct_have ct" "selected ct' = selected ct"
    "queue_pieces ct' = queue_pieces ct" "ct_lengths ct' = ct_lengths ct"
    "per_file_bytes ct' = per_file_bytes ct"
    "res = Some Completed \<Longrightarrow> ?p < total_pieces ?l \<and> chunks_marked ?l (chunk_status ct') ?p"
    using mark_chunk_downloaded_cases [OF inv blk] r inv set_inv
    by (auto simp: Let_def split: if_splits)
qed

subsection \<open>Construction\<close>

lemma chunk_have_status_loop_ok:
  assumes wf: "wf_lengths l" and hv: "total_pieces l \<le> length hv" and n: "n \<le> total_pieces l"
    and bf: "length bf = 8 * chunk_bitfield_bytes l"
    and done_: "\<And>p. p < n \<Longrightarrow> hv ! p \<Longrightarrow> chunks_marked l bf p"
    and sound: "\<And>i. i < length bf \<Longrightarrow> bf ! i \<Longrightarrow>
      \<exists>p < total_pieces l. hv ! p \<and> fst (chunk_range l p) \<le> i \<and> i < snd (chunk_range l p)"
  shows "\<exists>bf'. chunk_have_status_loop l hv
      (map (\<lambda>i. \<lparr>pi_index = i, pi_len = piece_length l i\<rparr>) [n..<total_pieces l]) bf = Inr bf' \<and>
    length bf' = length bf \<and> (\<forall>p < total_pieces l. hv ! p \<longrightarrow> chunks_marked l bf' p) \<and>
    (\<forall>i < length bf'. bf' ! i \<longrightarrow>
      (\<exists>p < total_pieces l. hv ! p \<and> fst (chunk_range l p) \<le> i \<and> i < snd (chunk_range l p)))"
  using n bf done_ sound
proof (induction "total_pieces l - n" arbitrary: n bf)
  case 0
  then have "n = total_pieces l" by simp
  then show ?case using 0 by simp
next
  case (Suc k)
  then have n: "n < total_pieces l" and k: "k = total_pieces l - Suc n" by auto
  let ?a = "fst (chunk_range l n)" and ?b = "snd (chunk_range l n)"
  have cr: "?b = ?a + chunks_per_piece l n" "mul32 (default_chunks_per_piece l) n = ?a"
    using chunk_bit_bound(2) [OF wf n, of 0]
    by (auto simp: chunk_range_eq [OF wf n] mul32_exact mult.commute)
  have ab: "?a \<le> ?b" "?b \<le> length bf" using chunk_range_in_bits [OF wf n] Suc.prems(2) by auto
  have upt: "[n..<total_pieces l] = n # [Suc n..<total_pieces l]" using n by (rule upt_conv_Cons)
  show ?case
  proof (cases "hv ! n")
    case True
    obtain bf1 where f: "bf_fill bf ?a ?b True = Some bf1" using bf_fill_in [OF ab] by blast
    note len1 = bf_fill_length [OF f] and nth1 = bf_fill_nth [OF f]
    have "chunks_marked l bf1 p" if "p < Suc n" "hv ! p" for p
    proof -
      have b: "i < length bf" if "i < snd (chunk_range l p)" for i
        using that \<open>p < Suc n\<close> n chunk_range_in_bits(1) [OF wf, of p] Suc.prems(2) by simp
      show ?thesis
      proof (cases "p = n")
        case True
        then show ?thesis using nth1 b by (simp add: chunks_marked_def)
      next
        case False
        then have "chunks_marked l bf p" using that Suc.prems(3) by simp
        then show ?thesis using nth1 b by (auto simp: chunks_marked_def)
      qed
    qed
    moreover have "\<exists>p < total_pieces l. hv ! p \<and> fst (chunk_range l p) \<le> i \<and> i < snd (chunk_range l p)"
      if "i < length bf1" "bf1 ! i" for i
      using that nth1 [of i] len1 Suc.prems(4) [of i] True n by (auto split: if_splits)
    ultimately show ?thesis
      using Suc.hyps(1) [OF k, of bf1] n hv True f cr upt len1 Suc.prems(2)
      by (simp add: Let_def of_option_def)
  next
    case False
    have "chunks_marked l bf p" if "p < Suc n" "hv ! p" for p
      using that False Suc.prems(3) by (cases "p = n") auto
    then show ?thesis
      using Suc.hyps(1) [OF k, of bf] n hv False upt Suc.prems by (simp add: Let_def)
  qed
qed

lemma compute_chunk_have_status_ok:
  assumes wf: "wf_lengths l" and hv: "total_pieces l \<le> length hv"
  shows "\<exists>bf. compute_chunk_have_status l hv = Inr bf \<and> length bf = 8 * chunk_bitfield_bytes l \<and>
    (\<forall>p < total_pieces l. hv ! p \<longrightarrow> chunks_marked l bf p) \<and>
    (\<forall>i < length bf. bf ! i \<longrightarrow>
      (\<exists>p < total_pieces l. hv ! p \<and> fst (chunk_range l p) \<le> i \<and> i < snd (chunk_range l p)))"
  using chunk_have_status_loop_ok [OF wf hv, of 0 "zero_bytes_bf (chunk_bitfield_bytes l)"] hv
  by (simp add: compute_chunk_have_status_def iter_piece_infos_simp)

text \<open>The bytes of file \<open>fi\<close> that the pieces in \<open>hv\<close> hold.\<close>

definition file_have :: "lengths \<Rightarrow> bits \<Rightarrow> file_info \<Rightarrow> nat" where
  "file_have l hv fi = (\<Sum>p = fst (piece_range fi)..<snd (piece_range fi).
     if hv ! p then size_of_piece_in_file l p (offset_in_torrent fi) (fi_len fi) else 0)"

definition pfb_inv :: "chunk_tracker \<Rightarrow> file_info list \<Rightarrow> bool" where
  "pfb_inv ct fis \<longleftrightarrow> wf_file_infos (ct_lengths ct) fis \<and> length (per_file_bytes ct) = length fis \<and>
     (\<forall>i < length fis. per_file_bytes ct ! i = file_have (ct_lengths ct) (ct_have ct) (fis ! i))"

lemma file_have_le:
  assumes "wf_lengths l" "wf_file_infos l fis" "i < length fis"
  shows "file_have l hv (fis ! i) \<le> fi_len (fis ! i)"
proof -
  have "file_have l hv (fis ! i) \<le> (\<Sum>p = fst (piece_range (fis ! i))..<snd (piece_range (fis ! i)).
      size_of_piece_in_file l p (offset_in_torrent (fis ! i)) (fi_len (fis ! i)))"
    unfolding file_have_def by (intro sum_mono) simp
  also have "\<dots> = fi_len (fis ! i)" by (rule file_range_sizes [OF assms]) simp
  finally show ?thesis .
qed

lemma sum_piece_in_file_eq:
  assumes "\<And>p. p \<in> set ps \<Longrightarrow> p < length hv"
    and "(\<Sum>p\<leftarrow>ps. if hv ! p then size_of_piece_in_file l p (offset_in_torrent fi) (fi_len fi) else 0) < 2 ^ 64"
  shows "sum_piece_in_file l hv fi ps = Inr (\<Sum>p\<leftarrow>ps.
    if hv ! p then size_of_piece_in_file l p (offset_in_torrent fi) (fi_len fi) else 0)"
  using assms by (induction ps) (auto simp: add64_exact)

lemma sum_piece_in_file_range:
  assumes wf: "wf_lengths l" "wf_file_infos l fis" and hv: "total_pieces l \<le> length hv" and i: "i < length fis"
  shows "sum_piece_in_file l hv (fis ! i) [fst (piece_range (fis ! i))..<snd (piece_range (fis ! i))]
    = Inr (file_have l hv (fis ! i))"
proof -
  have "p < length hv" if "p \<in> set [fst (piece_range (fis ! i))..<snd (piece_range (fis ! i))]" for p
    using that file_piece_range_iff(2) [OF wf i] hv by simp
  moreover have "file_have l hv (fis ! i) < 2 ^ 64"
    using file_have_le [OF wf i, of hv] file_fits [OF wf i] wf_total [OF wf(1)] by linarith
  ultimately show ?thesis
    using sum_piece_in_file_eq [of "[fst (piece_range (fis ! i))..<snd (piece_range (fis ! i))]" hv l "fis ! i"]
    by (simp add: file_have_def sum_list_upt)
qed

lemma per_file_loop_eq:
  assumes "length slots = length fis"
    and "\<And>fi. fi \<in> set fis \<Longrightarrow>
      sum_piece_in_file l hv fi [fst (piece_range fi)..<snd (piece_range fi)] = Inr (file_have l hv fi)"
  shows "per_file_loop l hv slots fis = Inr (map (file_have l hv) fis)"
  using assms
proof (induction slots arbitrary: fis)
  case Nil
  then show ?case by simp
next
  case (Cons s slots)
  then obtain f fs where "fis = f # fs" by (cases fis) auto
  with Cons show ?case by simp
qed

lemma chunk_tracker_new_ok:
  assumes wf: "wf_lengths l" "wf_file_infos l fis"
    and hv: "length hv = 8 * piece_bitfield_bytes l" and sel: "length sel = 8 * piece_bitfield_bytes l"
  shows "\<exists>ct. chunk_tracker_new hv sel l fis = Inr ct \<and> ct_inv ct \<and> pfb_inv ct fis \<and>
    ct_have ct = hv \<and> selected ct = sel \<and> ct_lengths ct = l \<and>
    (\<forall>p < total_pieces l. queue_pieces ct ! p \<longleftrightarrow> sel ! p \<and> \<not> hv ! p)"
proof -
  have tp: "total_pieces l \<le> length hv" "total_pieces l \<le> length sel"
    using total_pieces_le_bits [of l] hv sel by auto
  obtain bf where bf: "compute_chunk_have_status l hv = Inr bf" "length bf = 8 * chunk_bitfield_bytes l"
    "\<And>p. p < total_pieces l \<Longrightarrow> hv ! p \<Longrightarrow> chunks_marked l bf p"
    using compute_chunk_have_status_ok [OF wf(1) tp(1)] by blast
  have pf: "per_file_loop l hv (replicate (length fis) 0) fis = Inr (map (file_have l hv) fis)"
    using sum_piece_in_file_range [OF wf tp(1)]
    by (intro per_file_loop_eq) (auto simp: in_set_conv_nth)
  let ?q = "map2 (\<lambda>h s. \<not> h \<and> s) hv sel"
  let ?ct = "\<lparr>queue_pieces = ?q, chunk_status = bf, ct_have = hv, selected = sel,
    per_file_bytes = map (file_have l hv) fis, ct_lengths = l, hns = hns_of l hv sel\<rparr>"
  have "chunk_tracker_new hv sel l fis = Inr ?ct"
    using bf pf hv sel wf tp
    by (simp add: chunk_tracker_new_def compute_queued_pieces_def compute_queued_pieces_unchecked_def
        recalculate_per_file_bytes_def calc_hns_eq Let_def)
  moreover have "ct_inv ?ct" using bf hv sel wf by (simp add: ct_inv_def Let_def)
  moreover have "pfb_inv ?ct fis" using wf by (simp add: pfb_inv_def)
  moreover have "\<forall>p < total_pieces l. ?q ! p \<longleftrightarrow> sel ! p \<and> \<not> hv ! p"
    using tp hv sel by auto
  ultimately show ?thesis by (intro exI [of _ ?ct]) simp
qed

subsection \<open>Completion\<close>

lemma is_finished_iff:
  assumes "ct_inv ct"
  shows "is_finished ct \<longleftrightarrow>
    (\<forall>p < total_pieces (ct_lengths ct). selected ct ! p \<longrightarrow> ct_have ct ! p)"
  using bytes_of_zero_iff [OF ct_invD(1) [OF assms]] ct_invD(6) [OF assms]
  by (auto simp: is_finished_def hns_finished_def hns_of_def)

lemma hns_progress_eq:
  assumes "ct_inv ct"
  shows "hns_progress (hns ct) = bytes_of (ct_lengths ct) (\<lambda>p. selected ct ! p \<and> ct_have ct ! p)"
    and "hns_progress (hns ct) \<le> hns_total (hns ct)"
    and "hns_finished (hns ct) \<longleftrightarrow> hns_progress (hns ct) = hns_total (hns ct)"
proof -
  let ?l = "ct_lengths ct"
  have s: "selected_bytes (hns ct) = bytes_of ?l (\<lambda>p. selected ct ! p \<and> ct_have ct ! p) + needed_bytes (hns ct)"
    using bytes_of_split [of ?l "\<lambda>p. selected ct ! p" "\<lambda>p. ct_have ct ! p"] ct_invD(6) [OF assms]
    by (simp add: hns_of_def)
  moreover have "selected_bytes (hns ct) < 2 ^ 64"
    using bytes_of_u64 [OF ct_invD(1) [OF assms]] ct_invD(6) [OF assms] by (simp add: hns_of_def)
  ultimately show "hns_progress (hns ct) = bytes_of ?l (\<lambda>p. selected ct ! p \<and> ct_have ct ! p)"
    "hns_progress (hns ct) \<le> hns_total (hns ct)"
    "hns_finished (hns ct) \<longleftrightarrow> hns_progress (hns ct) = hns_total (hns ct)"
    by (auto simp: hns_progress_def hns_total_def hns_finished_def sub64_exact)
qed

lemma is_file_finished_iff:
  assumes inv: "ct_inv ct" and wf: "wf_file_infos (ct_lengths ct) fis" and i: "i < length fis"
  shows "is_file_finished ct (fis ! i) \<longleftrightarrow> file_have (ct_lengths ct) (ct_have ct) (fis ! i) = fi_len (fis ! i)"
proof -
  let ?l = "ct_lengths ct" and ?fi = "fis ! i" and ?h = "ct_have ct"
  let ?a = "fst (piece_range ?fi)" and ?b = "snd (piece_range ?fi)"
  let ?sz = "\<lambda>p. size_of_piece_in_file ?l p (offset_in_torrent ?fi) (fi_len ?fi)"
  note wl = ct_invD(1) [OF inv]
  have le: "?b \<le> total_pieces ?l" if "?a < ?b" by (rule file_piece_range_iff(2) [OF wl wf i that])
  have "is_file_finished ct ?fi \<longleftrightarrow> (\<forall>p. ?a \<le> p \<and> p < ?b \<longrightarrow> ?h ! p)"
  proof (cases "bf_get_range ?h ?a ?b")
    case None
    then have "\<not> ?a < ?b" using le total_pieces_le_bits [of ?l] ct_invD(2) [OF inv]
      by (auto simp: bf_get_range_def split: if_splits)
    then show ?thesis using None by (auto simp: is_file_finished_def)
  next
    case (Some bs)
    then show ?thesis using bf_get_range_all [OF Some] by (simp add: is_file_finished_def)
  qed
  also have "\<dots> \<longleftrightarrow> (\<forall>p \<in> {?a..<?b}. (if ?h ! p then ?sz p else 0) = ?sz p)"
  proof -
    have "0 < ?sz p" if "p \<in> {?a..<?b}" for p
      using that file_piece_range_iff(1) [OF wl wf i, of p] le
        size_of_piece_in_file_pos_iff [OF wl _ file_fits [OF wl wf i], of p] by simp
    then show ?thesis by (metis (no_types, lifting) atLeastLessThan_iff less_irrefl)
  qed
  also have "\<dots> \<longleftrightarrow> file_have ?l ?h ?fi = (\<Sum>p = ?a..<?b. ?sz p)"
  proof
    assume e: "file_have ?l ?h ?fi = (\<Sum>p = ?a..<?b. ?sz p)"
    show "\<forall>p \<in> {?a..<?b}. (if ?h ! p then ?sz p else 0) = ?sz p"
    proof
      fix p assume "p \<in> {?a..<?b}"
      from sum_mono_inv [OF e [unfolded file_have_def] _ this]
      show "(if ?h ! p then ?sz p else 0) = ?sz p" by simp
    qed
  qed (simp add: file_have_def)
  also have "\<dots> \<longleftrightarrow> file_have ?l ?h ?fi = fi_len ?fi"
    using file_range_sizes [OF wl wf i] by (metis prod.collapse)
  finally show ?thesis .
qed

text \<open>A verified piece adds its share to the counter of each of its files.\<close>

lemma file_have_insert:
  assumes wf: "wf_lengths l" "wf_file_infos l fis" and i: "i < length fis"
    and p: "p < total_pieces l" "p < length hv" "\<not> hv ! p"
  shows "file_have l (hv[p := True]) (fis ! i) = file_have l hv (fis ! i)
    + size_of_piece_in_file l p (offset_in_torrent (fis ! i)) (fi_len (fis ! i))"
proof -
  let ?fi = "fis ! i"
  let ?sz = "\<lambda>p. size_of_piece_in_file l p (offset_in_torrent ?fi) (fi_len ?fi)"
  let ?R = "{fst (piece_range ?fi)..<snd (piece_range ?fi)}"
  have nth: "hv[p := True] ! q = (q = p \<or> hv ! q)" for q using p by (cases "q = p") auto
  have in_iff: "q \<in> ?R \<longleftrightarrow> piece_overlaps l q (offset_in_torrent ?fi) (fi_len ?fi)" for q
    using file_piece_range_iff(1) [OF wf i, of q] by simp
  show ?thesis
  proof (cases "p \<in> ?R")
    case True
    have "(\<Sum>q\<in>?R. if hv[p := True] ! q then ?sz q else 0)
        = ?sz p + (\<Sum>q\<in>?R - {p}. if hv ! q then ?sz q else 0)"
      using True by (subst sum.remove [of _ p]) (auto simp: nth intro!: sum.cong)
    moreover have "(\<Sum>q\<in>?R. if hv ! q then ?sz q else 0) = (\<Sum>q\<in>?R - {p}. if hv ! q then ?sz q else 0)"
      using True p by (subst sum.remove [of _ p]) auto
    ultimately show ?thesis by (simp add: file_have_def)
  next
    case False
    then have "?sz p = 0"
      using in_iff [of p] size_of_piece_in_file_pos_iff [OF wf(1) p(1) file_fits [OF wf i]] by auto
    moreover have "(\<Sum>q\<in>?R. if hv[p := True] ! q then ?sz q else 0) = (\<Sum>q\<in>?R. if hv ! q then ?sz q else 0)"
      using False by (intro sum.cong refl) (auto simp: nth)
    ultimately show ?thesis by (simp add: file_have_def)
  qed
qed

subsection \<open>Properties\<close>

text \<open>C35: building the tracker from the pieces on disk and the user's selection succeeds and establishes the
  invariant: the byte counters agree with the bit fields, every verified piece has all its chunks
  marked, each file's counter is the number of its bytes in verified pieces, and exactly the pieces
  that are selected and missing are queued.\<close>

theorem chunk_tracker_new_establishes:
  assumes "wf_lengths l" "wf_file_infos l fis"
    and "length hv = 8 * piece_bitfield_bytes l" "length sel = 8 * piece_bitfield_bytes l"
  shows "\<exists>ct. chunk_tracker_new hv sel l fis = Inr ct \<and> ct_inv ct \<and> pfb_inv ct fis \<and>
    ct_have ct = hv \<and> selected ct = sel \<and> ct_lengths ct = l \<and>
    (\<forall>p < total_pieces l. queue_pieces ct ! p \<longleftrightarrow> sel ! p \<and> \<not> hv ! p)"
  by (rule chunk_tracker_new_ok [OF assms])

lemma ex_bits: "8 * piece_bitfield_bytes ex_lengths = 8" "8 * chunk_bitfield_bytes ex_lengths = 8"
  by (simp_all add: piece_bitfield_bytes_def chunk_bitfield_bytes_def ex_total_pieces total_chunks_def
      chunks_per_piece_def CHUNK_SIZE_def width_defs)

definition ex_have :: bits where
  "ex_have = [True, False, False, False, False, False, False, False]"

definition ex_selected :: bits where
  "ex_selected = [True, True, True, False, False, False, False, False]"

theorem chunk_tracker_new_establishes_witness:
  "\<exists>ct. chunk_tracker_new ex_have ex_selected ex_lengths ex_files = Inr ct \<and> queue_pieces ct ! 2 \<and> \<not> queue_pieces ct ! 0"
  using chunk_tracker_new_establishes [OF ex_lengths_wf ex_files_wf, of ex_have ex_selected]
  by (auto simp: ex_bits ex_have_def ex_selected_def ex_total_pieces)

text \<open>A tracker for the example torrent with piece 0 verified, piece 1 written but not yet verified.\<close>

definition ex_ct :: chunk_tracker where
  "ex_ct = \<lparr>queue_pieces = [False, False, True, False, False, False, False, False],
     chunk_status = [True, True, False, False, False, False, False, False],
     ct_have = ex_have, selected = ex_selected, per_file_bytes = [30, 0, 10],
     ct_lengths = ex_lengths, hns = \<lparr>have_bytes = 40, needed_bytes = 60, selected_bytes = 100\<rparr>\<rparr>"

lemma ex_ct_inv: "ct_inv ex_ct"
proof -
  have "hns_of ex_lengths ex_have ex_selected = \<lparr>have_bytes = 40, needed_bytes = 60, selected_bytes = 100\<rparr>"
    by (simp add: hns_of_def bytes_of_def ex_total_pieces numeral_3_eq_3 ex_have_def ex_selected_def
        piece_length_def)
  moreover have "chunks_marked ex_lengths (chunk_status ex_ct) p" if "p < 3" "ex_have ! p" for p
    using that ex_chunk_range [of p]
    by (auto simp: chunks_marked_def ex_have_def ex_ct_def nth_Cons' less_Suc_eq split: if_splits)
  ultimately show ?thesis using ex_lengths_wf ex_bits
    by (simp add: ct_inv_def ex_ct_def ex_total_pieces ex_have_def ex_selected_def Let_def)
qed

text \<open>Marking a downloaded chunk. Data that is not a chunk of the torrent changes nothing; a chunk of a piece
  whose chunks are all present is reported as \<open>PreviouslyCompleted\<close>; otherwise exactly its bit is set and
  \<open>Completed\<close> is reported iff this was the last missing chunk of its piece.\<close>

theorem mark_chunk_downloaded_spec:
  assumes "ct_inv ct" "length (pm_block m) < 2 ^ 32"
  defines "l \<equiv> ct_lengths ct" and "p \<equiv> pm_index m"
  shows "(mark_chunk_downloaded ct m = Inr (ct, None) \<and>
      \<not> (\<exists>ci. p < total_pieces l \<and> ci \<in> set (iter_chunk_infos l p) \<and>
              ci_offset ci = pm_begin m \<and> ci_size ci = length (pm_block m)))
    \<or> (\<exists>i < chunks_per_piece l p. p < total_pieces l \<and> pm_begin m = i * CHUNK_SIZE \<and>
        length (pm_block m) = nth_chunk_size l p i \<and>
        (let s = (chunk_status ct)[fst (chunk_range l p) + i := True]
         in mark_chunk_downloaded ct m =
            (if chunks_marked l (chunk_status ct) p then Inr (ct, Some PreviouslyCompleted)
             else Inr (ct\<lparr>chunk_status := s\<rparr>,
                       Some (if chunks_marked l s p then Completed else NotCompleted)))))"
  using mark_chunk_downloaded_cases [OF assms(1,2)] unfolding l_def p_def Let_def by blast

lemma ex_chunks: "chunks_per_piece ex_lengths p = 1" "nth_chunk_size ex_lengths 2 0 = 20"
  by (simp_all add: chunks_per_piece_def nth_chunk_size_def piece_length_def CHUNK_SIZE_def div_ceil_def)

lemma ex_chunks_marked: "p < 3 \<Longrightarrow> chunks_marked ex_lengths s p = s ! p"
  by (auto simp: chunks_marked_def ex_chunk_range less_Suc_eq_le)

theorem mark_chunk_downloaded_spec_witness:
  "\<exists>ct'. mark_chunk_downloaded ex_ct \<lparr>pm_index = 2, pm_begin = 0, pm_block = replicate 20 7\<rparr> = Inr (ct', Some Completed)"
proof -
  have "nth_chunk ex_lengths 2 0 \<in> set (iter_chunk_infos ex_lengths 2)"
    by (simp add: iter_chunk_infos_eq [OF ex_lengths_wf] ex_chunks)
  then show ?thesis
    using mark_chunk_downloaded_spec [OF ex_ct_inv, of "\<lparr>pm_index = 2, pm_begin = 0, pm_block = replicate 20 7\<rparr>"]
    by (auto simp: ex_ct_def ex_chunks ex_chunk_range ex_chunks_marked nth_chunk_def Let_def)
qed

text \<open>Marking a fully written piece as verified sets exactly its bit and keeps the invariant, so the
  counters of bytes we have and bytes we need stay exact; marking it twice changes nothing.\<close>

theorem mark_piece_downloaded_exact:
  assumes "ct_inv ct" "p < total_pieces (ct_lengths ct)"
    and "chunks_marked (ct_lengths ct) (chunk_status ct) p"
  shows "\<exists>ct'. mark_piece_downloaded ct p = Inr ct' \<and> ct_inv ct' \<and>
    ct_have ct' = (ct_have ct)[p := True] \<and> selected ct' = selected ct \<and>
    mark_piece_downloaded ct' p = Inr ct'"
proof -
  obtain ct' where ct': "mark_piece_downloaded ct p = Inr ct'" "ct_inv ct'"
    "ct_have ct' = (ct_have ct)[p := True]" "selected ct' = selected ct" "ct_lengths ct' = ct_lengths ct"
    using mark_piece_downloaded_eq [OF assms] by blast
  moreover have "mark_piece_downloaded ct' p = Inr ct'"
    using ct'(2,3,5) assms ct_inv_bits [OF ct'(2)] by (simp add: mark_piece_downloaded_def)
  ultimately show ?thesis by blast
qed

theorem mark_piece_downloaded_exact_witness:
  "\<exists>ct'. mark_piece_downloaded ex_ct 1 = Inr ct' \<and> ct_inv ct' \<and> ct_have ct' ! 1"
proof -
  have "chunks_marked (ct_lengths ex_ct) (chunk_status ex_ct) 1"
    using ex_chunk_range [of 1] by (auto simp: chunks_marked_def ex_ct_def less_Suc_eq)
  then show ?thesis
    using mark_piece_downloaded_exact [OF ex_ct_inv, of 1]
    by (auto simp: ex_ct_def ex_total_pieces ex_have_def)
qed

text \<open>a piece that fails its checksum is queued again with no chunk marked, a verified piece is left alone,
  and no other piece's chunks, no counter and no verified piece changes.\<close>

theorem mark_piece_broken_resets:
  assumes inv: "ct_inv ct" and p: "p < total_pieces (ct_lengths ct)"
  shows "\<exists>ct'. mark_piece_broken_if_not_have ct p = Inr ct' \<and> ct_inv ct' \<and>
    ct_have ct' = ct_have ct \<and> hns ct' = hns ct \<and>
    (ct_have ct ! p \<longrightarrow> ct' = ct) \<and>
    (\<not> ct_have ct ! p \<longrightarrow> queue_pieces ct' = (queue_pieces ct)[p := True] \<and>
       (\<forall>i < length (chunk_status ct). chunk_status ct' ! i \<longleftrightarrow> chunk_status ct ! i \<and>
          \<not> (fst (chunk_range (ct_lengths ct) p) \<le> i \<and> i < snd (chunk_range (ct_lengths ct) p))))"
proof -
  obtain ct' where ct': "mark_piece_broken_if_not_have ct p = Inr ct'"
    using mark_piece_broken_eq [OF assms] by (cases "ct_have ct ! p") auto
  show ?thesis
    using ct' mark_piece_broken_inv [OF assms ct'] mark_piece_broken_eq [OF assms] cleared_nth [OF assms]
    by (cases "ct_have ct ! p") auto
qed

theorem mark_piece_broken_resets_witness:
  "\<exists>ct'. mark_piece_broken_if_not_have ex_ct 1 = Inr ct' \<and> queue_pieces ct' ! 1 \<and> \<not> chunk_status ct' ! 1"
  using mark_piece_broken_resets [OF ex_ct_inv, of 1] ex_chunk_range [of 1]
  by (auto simp: ex_ct_def ex_total_pieces ex_have_def)

text \<open>a torrent counts as finished exactly when every selected piece is verified, and the reported
  progress is the number of bytes in the pieces that are both, so it reaches the total exactly then.\<close>

theorem finished_iff_selected_verified:
  assumes "ct_inv ct"
  shows "(is_finished ct \<longleftrightarrow> (\<forall>p < total_pieces (ct_lengths ct). selected ct ! p \<longrightarrow> ct_have ct ! p)) \<and>
    hns_progress (hns ct) = bytes_of (ct_lengths ct) (\<lambda>p. selected ct ! p \<and> ct_have ct ! p) \<and>
    (is_finished ct \<longleftrightarrow> hns_progress (hns ct) = hns_total (hns ct))"
  using is_finished_iff [OF assms] hns_progress_eq [OF assms] by (simp add: is_finished_def)

theorem finished_iff_selected_verified_witness:
  "\<not> is_finished ex_ct \<and> hns_progress (hns ex_ct) = bytes_of ex_lengths (\<lambda>p. ex_selected ! p \<and> ex_have ! p)"
  using finished_iff_selected_verified [OF ex_ct_inv]
  by (auto simp: ex_ct_def ex_total_pieces ex_have_def ex_selected_def intro!: exI [of _ 2])

text \<open>a file counts as finished exactly when the verified pieces hold all of its bytes.\<close>

theorem file_finished_iff_bytes:
  assumes "ct_inv ct" "wf_file_infos (ct_lengths ct) fis" "i < length fis"
  shows "is_file_finished ct (fis ! i) \<longleftrightarrow> file_have (ct_lengths ct) (ct_have ct) (fis ! i) = fi_len (fis ! i)"
  by (rule is_file_finished_iff [OF assms])

theorem file_finished_iff_bytes_witness:
  "is_file_finished ex_ct (ex_files ! 0) \<longleftrightarrow> file_have ex_lengths ex_have (ex_files ! 0) = 30"
  using file_finished_iff_bytes [OF ex_ct_inv, of ex_files 0] ex_files_wf
  by (simp add: ex_ct_def ex_files_def)

end
