(* ===== verification/Selection.thy ===== *)
theory Selection
  imports Chunk_Tracker
begin

text \<open>
  The selection of files: \<open>compute_selected_pieces\<close> of \<^verbatim>\<open>torrent_state/initializing.rs\<close>,
  which turns the file ids chosen at start-up into a bit field of pieces, and
  \<open>update_only_files\<close> of \<^verbatim>\<open>chunk_tracker.rs\<close>, which recomputes the selection, the
  queue and the byte counters when the user changes it, in one walk over files and pieces.

  The walk is verified against its meaning: a piece is selected iff one of its bytes lies in a
  wanted file (\<open>piece_wanted\<close>), and both routines select the same pieces.
\<close>

subsection \<open>At start-up\<close>

definition compute_selected_pieces :: "lengths \<Rightarrow> nat list option \<Rightarrow> file_info list \<Rightarrow> bits" where
  "compute_selected_pieces l only_files file_infos =
     fold (\<lambda>(id, fi) bf.
        if (case only_files of None \<Rightarrow> True | Some ids \<Rightarrow> id \<in> set ids)
        then (case bf_fill bf (fst (piece_range fi)) (snd (piece_range fi)) True of
                Some bf' \<Rightarrow> bf' | None \<Rightarrow> bf)
        else bf)
       (List.enumerate 0 file_infos) (zero_bytes_bf (piece_bitfield_bytes l))"

subsection \<open>Changing the selection\<close>

text \<open>The local variables of \<open>update_only_files\<close>: the current piece, whether it is selected, how
  much of it is left, and the three counters.\<close>

record uof_state =
  uf_ct :: chunk_tracker
  uf_piece :: valid_piece_index
  uf_selected :: bool
  uf_remaining :: nat
  uf_have_bytes :: nat
  uf_selected_bytes :: nat
  uf_needed_bytes :: nat

text \<open>The body of \<^verbatim>\<open>if current_piece_remaining == 0\<close>: account for the piece that was just
  walked over and move on to the next one.\<close>

definition uof_piece_end :: "uof_state \<Rightarrow> uof_state res" where
  "uof_piece_end s =
     (let ct = uf_ct s; p = uf_piece s; l = ct_lengths ct; len = piece_length l p
      in rbind (bf_index (ct_have ct) p) (\<lambda>hv.
         rbind (bf_set (selected ct) p (uf_selected s)) (\<lambda>sel.
         let ct = ct\<lparr>selected := sel\<rparr>
         in rbind (case (uf_selected s, hv) of
                (True, True) \<Rightarrow> Inr ct
              | (True, False) \<Rightarrow> mark_piece_broken_if_not_have ct p
              | (False, True) \<Rightarrow> Inr ct
              | (False, False) \<Rightarrow>
                  rbind (bf_set (queue_pieces ct) p False) (\<lambda>q. Inr (ct\<lparr>queue_pieces := q\<rparr>))) (\<lambda>ct.
            let s = s\<lparr>uf_ct := ct,
                      uf_have_bytes := (if hv then add64 (uf_have_bytes s) len else uf_have_bytes s),
                      uf_selected_bytes := (if uf_selected s then add64 (uf_selected_bytes s) len
                                            else uf_selected_bytes s),
                      uf_needed_bytes := (if uf_selected s \<and> \<not> hv then add64 (uf_needed_bytes s) len
                                          else uf_needed_bytes s)\<rparr>
            in if p \<noteq> last_piece_id l then
                 if Suc p < total_pieces l then
                   Inr (s\<lparr>uf_piece := Suc p, uf_selected := False, uf_remaining := piece_length l (Suc p)\<rparr>)
                 else Inl (Bail ''bug: iter_piece_infos() pieces ended earlier than expected'')
               else Inr s))))"

text \<open>The \<^verbatim>\<open>while remaining_file_len > 0\<close> loop of one file.\<close>

function uof_file_loop :: "bool \<Rightarrow> nat \<Rightarrow> nat \<Rightarrow> uof_state \<Rightarrow> uof_state res" where
  "uof_file_loop file_required len remaining_file_len s =
     (if remaining_file_len = 0 then Inr s
      else
        let s = s\<lparr>uf_selected := uf_selected s \<or> (len > 0 \<and> file_required)\<rparr>;
            shift = min (uf_remaining s) remaining_file_len
        in if shift = 0 then Inl (Bail ''bug: shift = 0, this should not have happened'')
           else
             rbind (of_option (Bail ''out of range integral type conversion attempted'') (try_u32 shift)) (\<lambda>_.
             let s = s\<lparr>uf_remaining := uf_remaining s - shift\<rparr>
             in rbind (if uf_remaining s = 0 then uof_piece_end s else Inr s)
                  (uof_file_loop file_required len (remaining_file_len - shift))))"
  by pat_completeness auto
termination
  by (relation "measure (\<lambda>(file_required, len, remaining_file_len, s). remaining_file_len)") auto

declare uof_file_loop.simps [simp del]

fun uof_files :: "nat set \<Rightarrow> (nat \<times> nat) list \<Rightarrow> uof_state \<Rightarrow> uof_state res" where
  "uof_files only [] s = Inr s"
| "uof_files only ((idx, len) # fs) s =
     rbind (uof_file_loop (idx \<in> only) len len s) (uof_files only fs)"

text \<open>A failing call leaves the tracker in the state reached so far; its callers turn the error into
  the failure of the whole request.\<close>

definition update_only_files ::
  "chunk_tracker \<Rightarrow> nat list \<Rightarrow> nat set \<Rightarrow> (chunk_tracker \<times> have_needed_selected) res" where
  "update_only_files ct file_lengths new_only_files =
     (if total_pieces (ct_lengths ct) = 0
      then Inl (Bail ''bug: iter_piece_infos() returned empty iterator'')
      else
        rbind (uof_files new_only_files (List.enumerate 0 file_lengths)
                 \<lparr>uf_ct = ct, uf_piece = 0, uf_selected = False,
                  uf_remaining = piece_length (ct_lengths ct) 0,
                  uf_have_bytes = 0, uf_selected_bytes = 0, uf_needed_bytes = 0\<rparr>) (\<lambda>s.
        let res = \<lparr>have_bytes = uf_have_bytes s, needed_bytes = uf_needed_bytes s,
                   selected_bytes = uf_selected_bytes s\<rparr>
        in Inr ((uf_ct s)\<lparr>hns := res\<rparr>, res)))"

subsection \<open>The walk over the pieces\<close>

text \<open>While \<open>update_only_files\<close> runs, the counters lag behind the bit fields.\<close>

definition synced :: "chunk_tracker \<Rightarrow> chunk_tracker" where
  "synced ct = ct\<lparr>hns := hns_of (ct_lengths ct) (ct_have ct) (selected ct)\<rparr>"

lemma synced_sel [simp]:
  "queue_pieces (synced ct) = queue_pieces ct" "chunk_status (synced ct) = chunk_status ct"
  "ct_have (synced ct) = ct_have ct" "selected (synced ct) = selected ct"
  "ct_lengths (synced ct) = ct_lengths ct" "per_file_bytes (synced ct) = per_file_bytes ct"
  by (simp_all add: synced_def)

lemma synced_id: "ct_inv ct \<Longrightarrow> synced ct = ct"
  by (simp add: synced_def ct_invD(6) [symmetric])

lemma ct_inv_synced_selected:
  "ct_inv (synced ct) \<Longrightarrow> length s = length (selected ct) \<Longrightarrow> ct_inv (synced (ct\<lparr>selected := s\<rparr>))"
  by (simp add: ct_inv_def synced_def Let_def)

lemma ct_inv_synced_queue:
  "ct_inv (synced ct) \<Longrightarrow> length q = length (queue_pieces ct) \<Longrightarrow> ct_inv (synced (ct\<lparr>queue_pieces := q\<rparr>))"
  by (simp add: ct_inv_def synced_def Let_def)

lemma mark_piece_broken_synced:
  assumes "ct_inv (synced ct)" "p < total_pieces (ct_lengths ct)" "\<not> ct_have ct ! p"
  shows "mark_piece_broken_if_not_have ct p =
      Inr (ct\<lparr>queue_pieces := (queue_pieces ct)[p := True], chunk_status := cleared ct p\<rparr>)"
    and "ct_inv (synced (ct\<lparr>queue_pieces := (queue_pieces ct)[p := b], chunk_status := cleared ct p\<rparr>))"
proof -
  have "cleared (synced ct) p = cleared ct p" by (simp add: cleared_def)
  moreover have "synced (ct\<lparr>queue_pieces := (queue_pieces ct)[p := b], chunk_status := cleared ct p\<rparr>)
      = (synced ct)\<lparr>queue_pieces := (queue_pieces ct)[p := b], chunk_status := cleared ct p\<rparr>"
    by (cases ct) (simp add: synced_def)
  moreover note ct_inv_bits [OF assms(1), of p] bf_fill_cleared [OF assms(1), of p]
    ct_inv_cleared [OF assms(1), of p b]
  ultimately show "mark_piece_broken_if_not_have ct p =
      Inr (ct\<lparr>queue_pieces := (queue_pieces ct)[p := True], chunk_status := cleared ct p\<rparr>)"
    and "ct_inv (synced (ct\<lparr>queue_pieces := (queue_pieces ct)[p := b], chunk_status := cleared ct p\<rparr>))"
    using assms
    by (simp_all add: mark_piece_broken_if_not_have_def bf_get_def Let_def)
qed

definition piece_wanted :: "lengths \<Rightarrow> (nat \<Rightarrow> bool) \<Rightarrow> nat \<Rightarrow> bool" where
  "piece_wanted l W q \<longleftrightarrow> (\<exists>y < total_length l. W y \<and> y div default_piece_length l = q)"

definition pieces_walked :: "lengths \<Rightarrow> nat \<Rightarrow> nat" where
  "pieces_walked l x = (if x = total_length l then total_pieces l else x div default_piece_length l)"

text \<open>The invariant of the walk after \<open>x\<close> bytes, where \<open>W y\<close> says that the new selection
  wants byte \<open>y\<close>.\<close>

definition uof_inv :: "chunk_tracker \<Rightarrow> (nat \<Rightarrow> bool) \<Rightarrow> nat \<Rightarrow> uof_state \<Rightarrow> bool" where
  "uof_inv ct0 W x s \<longleftrightarrow>
     (let ct = uf_ct s; l = ct_lengths ct0; n = pieces_walked l x; hv = ct_have ct0 in
      x \<le> total_length l \<and> ct_inv (synced ct) \<and> ct_have ct = hv \<and> ct_lengths ct = l \<and>
      per_file_bytes ct = per_file_bytes ct0 \<and>
      (\<forall>q < n. selected ct ! q = piece_wanted l W q) \<and>
      (\<forall>q < n. \<not> hv ! q \<longrightarrow> queue_pieces ct ! q = piece_wanted l W q) \<and>
      uf_have_bytes s = bytes_below l n (\<lambda>q. hv ! q) \<and>
      uf_selected_bytes s = bytes_below l n (piece_wanted l W) \<and>
      uf_needed_bytes s = bytes_below l n (\<lambda>q. piece_wanted l W q \<and> \<not> hv ! q) \<and>
      (x < total_length l \<longrightarrow> uf_piece s = n \<and>
         uf_remaining s + x = n * default_piece_length l + piece_length l n \<and>
         (uf_selected s \<longleftrightarrow> (\<exists>y < x. W y \<and> y div default_piece_length l = n))))"

lemma piece_of_byte:
  assumes wf: "wf_lengths l" and y: "y < total_length l"
  shows "y div default_piece_length l < total_pieces l"
    and "y < y div default_piece_length l * default_piece_length l + piece_length l (y div default_piece_length l)"
proof -
  let ?d = "default_piece_length l" and ?p = "y div default_piece_length l"
  have d: "0 < ?d" using wf_dpl [OF wf] by simp
  have "y < total_pieces l * ?d" using last_piece_bounds(2) [OF wf] y by (simp add: total_pieces_eq [OF wf])
  then show p: "?p < total_pieces l" using d by (simp add: div_less_iff_less_mult)
  have m: "y < ?p * ?d + ?d" using d by (metis add.commute dividend_less_div_times)
  show "y < ?p * ?d + piece_length l ?p"
  proof (cases "?p = last_piece_id l")
    case True
    have "?p * ?d + piece_length l ?p = total_length l"
      using pieces.total_eq [OF wf] p piece_index_u32 [OF wf p] True
      by (simp add: total_pieces_eq [OF wf] piece_offset_eq [OF wf])
    then show ?thesis using y by simp
  next
    case False
    then show ?thesis using m by (simp add: piece_length_def)
  qed
qed

lemma piece_end_cases:
  assumes wf: "wf_lengths l" and p: "p < total_pieces l"
  shows "p = last_piece_id l \<Longrightarrow> p * default_piece_length l + piece_length l p = total_length l"
    and "p \<noteq> last_piece_id l \<Longrightarrow> p * default_piece_length l + piece_length l p = Suc p * default_piece_length l"
    and "p \<noteq> last_piece_id l \<Longrightarrow> Suc p < total_pieces l \<and> Suc p * default_piece_length l < total_length l"
proof -
  show "p = last_piece_id l \<Longrightarrow> p * default_piece_length l + piece_length l p = total_length l"
    using pieces.total_eq [OF wf] piece_index_u32 [OF wf p]
    by (simp add: total_pieces_eq [OF wf] piece_offset_eq [OF wf])
  show "p \<noteq> last_piece_id l \<Longrightarrow> p * default_piece_length l + piece_length l p = Suc p * default_piece_length l"
    by (simp add: piece_length_def)
  assume np: "p \<noteq> last_piece_id l"
  then have s: "Suc p \<le> last_piece_id l" using p by (simp add: total_pieces_eq [OF wf])
  then have "Suc p * default_piece_length l \<le> last_piece_id l * default_piece_length l"
    by (rule mult_le_mono1)
  then show "Suc p < total_pieces l \<and> Suc p * default_piece_length l < total_length l"
    using last_piece_bounds(1) [OF wf] s by (simp add: total_pieces_eq [OF wf])
qed


lemma uof_invD:
  assumes "uof_inv ct0 W x s" "l = ct_lengths ct0" "n = pieces_walked l x" "hv = ct_have ct0"
  shows "x \<le> total_length l" "ct_inv (synced (uf_ct s))" "ct_have (uf_ct s) = hv" "ct_lengths (uf_ct s) = l"
    "per_file_bytes (uf_ct s) = per_file_bytes ct0"
    "\<And>q. q < n \<Longrightarrow> selected (uf_ct s) ! q = piece_wanted l W q"
    "\<And>q. q < n \<Longrightarrow> \<not> hv ! q \<Longrightarrow> queue_pieces (uf_ct s) ! q = piece_wanted l W q"
    "uf_have_bytes s = bytes_below l n (\<lambda>q. hv ! q)"
    "uf_selected_bytes s = bytes_below l n (piece_wanted l W)"
    "uf_needed_bytes s = bytes_below l n (\<lambda>q. piece_wanted l W q \<and> \<not> hv ! q)"
    "x < total_length l \<Longrightarrow> uf_piece s = n"
    "x < total_length l \<Longrightarrow> uf_remaining s + x = n * default_piece_length l + piece_length l n"
    "x < total_length l \<Longrightarrow> uf_selected s \<longleftrightarrow> (\<exists>y < x. W y \<and> y div default_piece_length l = n)"
  using assms by (simp_all add: uof_inv_def Let_def)

text \<open>The end of a piece: \<open>s\<close> stands at the last byte of piece \<open>p\<close>.\<close>

lemma uof_piece_end_inv:
  assumes wf: "wf_lengths l" and l: "l = ct_lengths ct0" and hv: "hv = ct_have ct0"
    and p: "p < total_pieces l" "uf_piece s = p" and sel: "uf_selected s = piece_wanted l W p"
    and inv: "ct_inv (synced (uf_ct s))" "ct_have (uf_ct s) = hv" "ct_lengths (uf_ct s) = l"
      "per_file_bytes (uf_ct s) = per_file_bytes ct0"
    and bits: "\<And>q. q < p \<Longrightarrow> selected (uf_ct s) ! q = piece_wanted l W q"
      "\<And>q. q < p \<Longrightarrow> \<not> hv ! q \<Longrightarrow> queue_pieces (uf_ct s) ! q = piece_wanted l W q"
    and cnt: "uf_have_bytes s = bytes_below l p (\<lambda>q. hv ! q)"
      "uf_selected_bytes s = bytes_below l p (piece_wanted l W)"
      "uf_needed_bytes s = bytes_below l p (\<lambda>q. piece_wanted l W q \<and> \<not> hv ! q)"
  shows "\<exists>s'. uof_piece_end s = Inr s' \<and> uof_inv ct0 W (p * default_piece_length l + piece_length l p) s'"
proof -
  let ?ct = "uf_ct s" and ?w = "piece_wanted l W p" and ?d = "default_piece_length l"
  let ?x = "p * ?d + piece_length l p"
  let ?ct1 = "?ct\<lparr>selected := (selected ?ct)[p := ?w]\<rparr>"
  have d: "0 < ?d" using wf_dpl [OF wf] by simp
  note ix = ct_inv_bits [OF inv(1), of p, unfolded synced_sel inv, OF p(1)]
  have inv1: "ct_inv (synced ?ct1)" by (rule ct_inv_synced_selected [OF inv(1)]) simp
  define ct2 where "ct2 = (if hv ! p then ?ct1
     else if ?w then ?ct1\<lparr>queue_pieces := (queue_pieces ?ct)[p := True], chunk_status := cleared ?ct1 p\<rparr>
     else ?ct1\<lparr>queue_pieces := (queue_pieces ?ct)[p := False]\<rparr>)"
  have inv2: "ct_inv (synced ct2)"
    using inv1 mark_piece_broken_synced(2) [OF inv1, of p True] ct_inv_synced_queue [OF inv1] p inv
    by (cases "hv ! p"; cases ?w) (simp_all add: ct2_def)
  have f2: "ct_have ct2 = hv" "ct_lengths ct2 = l" "per_file_bytes ct2 = per_file_bytes ct0"
    "selected ct2 = (selected ?ct)[p := ?w]"
    "\<not> hv ! p \<Longrightarrow> queue_pieces ct2 = (queue_pieces ?ct)[p := ?w]" "hv ! p \<Longrightarrow> queue_pieces ct2 = queue_pieces ?ct"
    using inv by (auto simp: ct2_def)
  define s1 where "s1 = s\<lparr>uf_ct := ct2, uf_have_bytes := bytes_below l (Suc p) (\<lambda>q. hv ! q),
     uf_selected_bytes := bytes_below l (Suc p) (piece_wanted l W),
     uf_needed_bytes := bytes_below l (Suc p) (\<lambda>q. piece_wanted l W q \<and> \<not> hv ! q)\<rparr>"
  have mb: "mark_piece_broken_if_not_have ?ct1 p =
      Inr (?ct1\<lparr>queue_pieces := (queue_pieces ?ct)[p := True], chunk_status := cleared ?ct1 p\<rparr>)" if "\<not> hv ! p"
    using mark_piece_broken_synced(1) [OF inv1, of p] that p inv by simp
  define lst where "lst = (p = last_piece_id l)"
  note lst = lst_def [symmetric]
  have c: "(if hv ! p then add64 (bytes_below l p (\<lambda>q. hv ! q)) (piece_length l p)
        else bytes_below l p (\<lambda>q. hv ! q)) = bytes_below l (Suc p) (\<lambda>q. hv ! q)"
    "(if ?w then add64 (bytes_below l p (piece_wanted l W)) (piece_length l p)
        else bytes_below l p (piece_wanted l W)) = bytes_below l (Suc p) (piece_wanted l W)"
    "(if ?w \<and> \<not> hv ! p then add64 (bytes_below l p (\<lambda>q. piece_wanted l W q \<and> \<not> hv ! q)) (piece_length l p)
        else bytes_below l p (\<lambda>q. piece_wanted l W q \<and> \<not> hv ! q))
      = bytes_below l (Suc p) (\<lambda>q. piece_wanted l W q \<and> \<not> hv ! q)"
    using bytes_below_step(2) [OF wf p(1)] by (auto simp: bytes_below_Suc)
  have e: "uof_piece_end s = (if \<not> lst then
       Inr (s1\<lparr>uf_piece := Suc p, uf_selected := False, uf_remaining := piece_length l (Suc p)\<rparr>) else Inr s1)"
    using p ix inv cnt sel mb piece_end_cases(3) [OF wf p(1), unfolded lst] c
    by (cases "hv ! p"; cases ?w) (simp_all add: uof_piece_end_def Let_def s1_def ct2_def lst)
  have n: "pieces_walked l ?x = Suc p"
    using piece_end_cases [OF wf p(1)] d
    by (cases "p = last_piece_id l") (auto simp: pieces_walked_def total_pieces_eq [OF wf])
  have sel2: "selected ct2 ! q = piece_wanted l W q" if "q < Suc p" for q
    using that bits(1) ix f2(4) by (cases "q = p") auto
  have q2: "queue_pieces ct2 ! q = piece_wanted l W q" if "q < Suc p" "\<not> hv ! q" for q
    using that bits(2) ix f2(5,6) by (cases "q = p"; cases "hv ! p") auto
  have sf: "\<not> (\<exists>y < Suc p * ?d. W y \<and> y div ?d = Suc p)" using div_less_iff_less_mult [OF d, of _ "Suc p"] by (metis less_irrefl)
  have xle: "?x \<le> total_length l" using piece_end_cases [OF wf p(1)] by (cases "p = last_piece_id l") auto
  show ?thesis
  proof (cases "p = last_piece_id l")
    case True
    then have "uof_inv ct0 W ?x s1"
      using f2 sel2 q2 inv2 n piece_end_cases(1) [OF wf p(1)] l hv
      by (simp add: uof_inv_def Let_def s1_def)
    then show ?thesis using e True by (simp add: lst_def)
  next
    case False
    let ?s = "s1\<lparr>uf_piece := Suc p, uf_selected := False, uf_remaining := piece_length l (Suc p)\<rparr>"
    have "uof_inv ct0 W ?x ?s"
      using f2 sel2 q2 inv2 n xle sf piece_end_cases(2,3) [OF wf p(1) False] l hv
      by (simp add: uof_inv_def Let_def s1_def)
    then show ?thesis using e False by (simp add: lst_def)
  qed
qed


lemma uof_shift_inv:
  assumes wf: "wf_lengths l" and l: "l = ct_lengths ct0" and inv: "uof_inv ct0 W x s"
    and x: "x < total_length l" and sh: "0 < sh" "sh \<le> uf_remaining s"
    and W: "\<And>y. x \<le> y \<Longrightarrow> y < x + sh \<Longrightarrow> W y = b"
  shows "\<exists>s'. (let s1 = s\<lparr>uf_selected := uf_selected s \<or> b, uf_remaining := uf_remaining s - sh\<rparr>
      in if uf_remaining s1 = 0 then uof_piece_end s1 else Inr s1) = Inr s' \<and> uof_inv ct0 W (x + sh) s'"
proof -
  let ?d = "default_piece_length l"
  define p where "p = x div ?d"
  define s1 where "s1 = s\<lparr>uf_selected := uf_selected s \<or> b, uf_remaining := uf_remaining s - sh\<rparr>"
  have n: "pieces_walked l x = p" using x by (simp add: pieces_walked_def p_def)
  note D = uof_invD [OF inv l refl refl, unfolded n] and D' = uof_invD(11-13) [OF inv l refl refl x, unfolded n]
  have p: "p < total_pieces l" using piece_of_byte(1) [OF wf x] by (simp add: p_def)
  have d: "0 < ?d" using wf_dpl [OF wf] by simp
  have pe: "x + sh \<le> p * ?d + piece_length l p" using D'(2) sh by linarith
  have inp: "y div ?d = p" if "x \<le> y" "y < p * ?d + piece_length l p" for y
  proof -
    have "p * ?d \<le> x" by (simp add: p_def)
    moreover have "piece_length l p \<le> ?d" by (rule piece_length_bounds(2) [OF wf])
    ultimately show ?thesis using that by (intro div_nat_eqI) (simp_all add: mult.commute)
  qed
  have sel: "uf_selected s1 \<longleftrightarrow> (\<exists>y < x + sh. W y \<and> y div ?d = p)"
  proof
    assume "uf_selected s1"
    then consider "uf_selected s" | "b" by (auto simp: s1_def)
    then show "\<exists>y < x + sh. W y \<and> y div ?d = p"
    proof cases
      case 1
      then obtain y where "y < x" "W y" "y div ?d = p" using D'(3) by blast
      then show ?thesis by (intro exI [of _ y]) simp
    next
      case 2
      then have "W x" using W [of x] sh by simp
      then show ?thesis using sh by (intro exI [of _ x]) (simp add: p_def)
    qed
  next
    assume "\<exists>y < x + sh. W y \<and> y div ?d = p"
    then obtain y where y: "y < x + sh" "W y" "y div ?d = p" by blast
    show "uf_selected s1" using D'(3) W [of y] y by (cases "y < x") (auto simp: s1_def)
  qed
  show ?thesis
  proof (cases "uf_remaining s1 = 0")
    case True
    then have xe: "x + sh = p * ?d + piece_length l p" using D'(2) sh by (simp add: s1_def)
    have "uf_selected s1 = piece_wanted l W p"
    proof -
      have "y < x + sh" if "y < total_length l" "y div ?d = p" for y
        using piece_of_byte(2) [OF wf that(1)] that xe by simp
      moreover have "x + sh \<le> total_length l"
        using piece_end_cases [OF wf p] xe by (cases "p = last_piece_id l") auto
      ultimately have "y < x + sh \<and> y div ?d = p \<longleftrightarrow> y < total_length l \<and> y div ?d = p" for y
        by (auto dest: less_le_trans)
      then show ?thesis unfolding sel piece_wanted_def by blast
    qed
    from uof_piece_end_inv [OF wf l refl p _ this]
    have "\<exists>s'. uof_piece_end s1 = Inr s' \<and> uof_inv ct0 W (p * ?d + piece_length l p) s'"
      using D D' by (simp add: s1_def)
    then show ?thesis using True xe by (simp add: s1_def)
  next
    case False
    then have lt: "x + sh < p * ?d + piece_length l p" using D'(2) sh by (simp add: s1_def)
    then have xt: "x + sh < total_length l"
      using piece_end_cases [OF wf p] by (cases "p = last_piece_id l") auto
    have "(x + sh) div ?d = p" by (rule inp) (use lt in auto)
    then have "pieces_walked l (x + sh) = p" using xt by (simp add: pieces_walked_def)
    then have "uof_inv ct0 W (x + sh) s1"
      using D D' sel xt sh l by (simp add: uof_inv_def Let_def s1_def)
    then show ?thesis using False by (simp add: s1_def)
  qed
qed

lemma uof_file_loop_inv:
  assumes wf: "wf_lengths l" and l: "l = ct_lengths ct0"
    and inv: "uof_inv ct0 W x s" and x: "x + r \<le> total_length l" and len: "r \<le> len"
    and W: "\<And>y. x \<le> y \<Longrightarrow> y < x + r \<Longrightarrow> W y = b"
  shows "\<exists>s'. uof_file_loop b len r s = Inr s' \<and> uof_inv ct0 W (x + r) s'"
  using inv x len W
proof (induction r arbitrary: x s rule: less_induct)
  case (less r)
  show ?case
  proof (cases "r = 0")
    case True
    then show ?thesis using less.prems by (simp add: uof_file_loop.simps)
  next
    case False
    define sh where "sh = min (uf_remaining s) r"
    have x: "x < total_length l" using less.prems False by simp
    have n: "pieces_walked l x = x div default_piece_length l" using x by (simp add: pieces_walked_def)
    have rem: "0 < uf_remaining s" "uf_remaining s \<le> default_piece_length l"
      using uof_invD(12) [OF less.prems(1) l refl refl x, unfolded n] piece_of_byte(2) [OF wf x]
        piece_length_bounds(2) [OF wf, of "x div default_piece_length l"] div_times_less_eq_dividend [of x "default_piece_length l"]
      by linarith+
    have sh: "0 < sh" "sh \<le> uf_remaining s" "sh \<le> r" "try_u32 sh = Some sh"
      using rem False wf_dpl [OF wf] by (auto simp: sh_def try_u32_def)
    obtain s' where s': "(let s1 = s\<lparr>uf_selected := uf_selected s \<or> b, uf_remaining := uf_remaining s - sh\<rparr>
        in if uf_remaining s1 = 0 then uof_piece_end s1 else Inr s1) = Inr s'" "uof_inv ct0 W (x + sh) s'"
      using uof_shift_inv [OF wf l less.prems(1) x sh(1,2), of b] less.prems(4) sh(3) by force
    have "\<exists>s''. uof_file_loop b len (r - sh) s' = Inr s'' \<and> uof_inv ct0 W (x + sh + (r - sh)) s''"
      using less.IH [of "r - sh" "x + sh" s'] s'(2) sh less.prems by fastforce
    moreover have "uof_file_loop b len r s = uof_file_loop b len (r - sh) s'"
      using False sh s'(1) less.prems(3) rem
      by (subst uof_file_loop.simps) (simp add: Let_def sh_def [symmetric] split: if_splits)
    ultimately show ?thesis using sh by simp
  qed
qed

text \<open>Byte \<open>y\<close> of the torrent is in a file of the new selection.\<close>

definition byte_wanted :: "nat list \<Rightarrow> nat set \<Rightarrow> nat \<Rightarrow> bool" where
  "byte_wanted lens only y \<longleftrightarrow>
     (\<exists>i < length lens. i \<in> only \<and> sum_list (take i lens) \<le> y \<and> y < sum_list (take (Suc i) lens))"

lemma sum_list_take_mono: "i \<le> j \<Longrightarrow> sum_list (take i xs) \<le> sum_list (take j xs)" for xs :: "nat list"
proof -
  assume "i \<le> j"
  then have "take j xs = take i xs @ take (j - i) (drop i xs)" by (metis le_add_diff_inverse take_add)
  then show ?thesis by simp
qed

lemma byte_wanted_iff:
  assumes "i < length lens" "sum_list (take i lens) \<le> y" "y < sum_list (take (Suc i) lens)"
  shows "byte_wanted lens only y \<longleftrightarrow> i \<in> only"
proof -
  have "j = i" if "sum_list (take j lens) \<le> y" "y < sum_list (take (Suc j) lens)" for j
    using that assms sum_list_take_mono [of "Suc i" j lens] sum_list_take_mono [of "Suc j" i lens]
    by (metis linorder_neqE_nat Suc_leI leD le_trans)
  then show ?thesis using assms unfolding byte_wanted_def by blast
qed

lemma uof_files_inv:
  assumes wf: "wf_lengths l" and l: "l = ct_lengths ct0" and tot: "sum_list lens = total_length l"
    and W: "W = byte_wanted lens only" and i: "i \<le> length lens" and inv: "uof_inv ct0 W (sum_list (take i lens)) s"
  shows "\<exists>s'. uof_files only (List.enumerate i (drop i lens)) s = Inr s' \<and> uof_inv ct0 W (total_length l) s'"
  using i inv
proof (induction "length lens - i" arbitrary: i s)
  case 0
  then show ?case using tot by simp
next
  case (Suc k)
  then have i: "i < length lens" "k = length lens - Suc i" by auto
  have t: "take (Suc i) lens = take i lens @ [lens ! i]" using i by (simp add: take_Suc_conv_app_nth)
  have le: "sum_list (take (Suc i) lens) \<le> total_length l"
    using sum_list_take_mono [of "Suc i" "length lens" lens] i tot by simp
  have Wi: "W y = (i \<in> only)" if "sum_list (take i lens) \<le> y" "y < sum_list (take i lens) + lens ! i" for y
    using byte_wanted_iff [OF i(1) that(1)] that(2) t W by simp
  obtain s' where s': "uof_file_loop (i \<in> only) (lens ! i) (lens ! i) s = Inr s'"
    "uof_inv ct0 W (sum_list (take i lens) + lens ! i) s'"
    using uof_file_loop_inv [OF wf l Suc.prems(2) _ order_refl Wi] le t by auto
  have "List.enumerate i (drop i lens) = (i, lens ! i) # List.enumerate (Suc i) (drop (Suc i) lens)"
    using i by (metis Cons_nth_drop_Suc enumerate_simps(2))
  then show ?case using Suc.hyps(1) [OF i(2), of s'] i s' t by simp
qed

lemma update_only_files_ok:
  fixes only :: "nat set"
  assumes inv: "ct_inv ct" and tot: "sum_list lens = total_length (ct_lengths ct)"
  defines "W \<equiv> piece_wanted (ct_lengths ct) (byte_wanted lens only)"
  shows "\<exists>ct'. update_only_files ct lens only = Inr (ct', hns ct') \<and> ct_inv ct' \<and>
    ct_have ct' = ct_have ct \<and> ct_lengths ct' = ct_lengths ct \<and> per_file_bytes ct' = per_file_bytes ct \<and>
    (\<forall>q < total_pieces (ct_lengths ct). selected ct' ! q = W q \<and>
       (\<not> ct_have ct ! q \<longrightarrow> queue_pieces ct' ! q = W q))"
proof -
  let ?l = "ct_lengths ct" and ?W = "byte_wanted lens only"
  let ?s0 = "\<lparr>uf_ct = ct, uf_piece = 0, uf_selected = False, uf_remaining = piece_length ?l 0,
    uf_have_bytes = 0, uf_selected_bytes = 0, uf_needed_bytes = 0\<rparr>"
  note wf = ct_invD(1) [OF inv]
  have "uof_inv ct ?W 0 ?s0"
    using inv wf_total [OF wf] by (simp add: uof_inv_def Let_def synced_id pieces_walked_def)
  then obtain s where s: "uof_files only (List.enumerate 0 lens) ?s0 = Inr s" "uof_inv ct ?W (total_length ?l) s"
    using uof_files_inv [OF wf refl tot refl, of 0 only ?s0] by auto
  note D = uof_invD [OF s(2) refl _ refl, of "total_pieces ?l", unfolded pieces_walked_def]
  let ?h = "\<lparr>have_bytes = uf_have_bytes s, needed_bytes = uf_needed_bytes s, selected_bytes = uf_selected_bytes s\<rparr>"
  have "?h = hns_of ?l (ct_have ct) (selected (uf_ct s))"
    using D by (auto simp: hns_of_def bytes_below_total intro!: bytes_of_cong)
  then have "(uf_ct s)\<lparr>hns := ?h\<rparr> = synced (uf_ct s)" "?h = hns (synced (uf_ct s))"
    using D(3,4) by (simp_all add: synced_def)
  then have "update_only_files ct lens only = Inr (synced (uf_ct s), hns (synced (uf_ct s)))"
    using s total_pieces_pos [OF wf] by (simp add: update_only_files_def Let_def)
  then show ?thesis using D unfolding W_def by (intro exI [of _ "synced (uf_ct s)"]) simp
qed

subsection \<open>Selection at start-up\<close>

lemma piece_wanted_files:
  assumes wf: "wf_lengths l" "wf_file_infos l fis"
  shows "piece_wanted l (byte_wanted (map fi_len fis) only) q \<longleftrightarrow>
    (\<exists>i < length fis. i \<in> only \<and> fst (piece_range (fis ! i)) \<le> q \<and> q < snd (piece_range (fis ! i)))"
proof -
  have off1: "sum_list (take i (map fi_len fis)) = offset_in_torrent (fis ! i)" if "i < length fis" for i
    using wf_file_offset [OF wf(2) that] that by (simp add: sum_list_sum_nth atLeast0LessThan)
  have off2: "sum_list (take (Suc i) (map fi_len fis)) = offset_in_torrent (fis ! i) + fi_len (fis ! i)"
    if "i < length fis" for i
    using off1 [OF that] that by (simp add: take_Suc_conv_app_nth)
  note off = off1 off2
  show ?thesis (is "?L \<longleftrightarrow> ?R")
  proof
    assume ?L
    then obtain i y where i: "i < length fis" "i \<in> only" "sum_list (take i (map fi_len fis)) \<le> y"
      "y < sum_list (take (Suc i) (map fi_len fis))" "y div default_piece_length l = q"
      by (auto simp: piece_wanted_def byte_wanted_def)
    then have "piece_overlaps l q (offset_in_torrent (fis ! i)) (fi_len (fis ! i))"
      unfolding piece_overlaps_byte [OF wf(1)] off1 [OF i(1)] off2 [OF i(1)] by blast
    then show ?R using i file_piece_range_iff(1) [OF wf i(1)] by blast
  next
    assume ?R
    then obtain i y where i: "i < length fis" "i \<in> only" "offset_in_torrent (fis ! i) \<le> y"
      "y < offset_in_torrent (fis ! i) + fi_len (fis ! i)" "y div default_piece_length l = q"
      using file_piece_range_iff(1) [OF wf] piece_overlaps_byte [OF wf(1)] by metis
    moreover have "y < total_length l" using file_fits [OF wf i(1)] i by simp
    ultimately show ?L using off
      unfolding piece_wanted_def byte_wanted_def by (metis length_map)
  qed
qed

lemma compute_selected_pieces_nth:
  fixes only :: "nat list option"
  assumes wf: "wf_lengths l" "wf_file_infos l fis"
  defines "inc \<equiv> \<lambda>i. case only of None \<Rightarrow> True | Some ids \<Rightarrow> i \<in> set ids"
  shows "length (compute_selected_pieces l only fis) = 8 * piece_bitfield_bytes l"
    and "q < 8 * piece_bitfield_bytes l \<Longrightarrow> compute_selected_pieces l only fis ! q \<longleftrightarrow>
      (\<exists>i < length fis. inc i \<and> fst (piece_range (fis ! i)) \<le> q \<and> q < snd (piece_range (fis ! i)))"
proof -
  let ?N = "8 * piece_bitfield_bytes l"
  let ?f = "\<lambda>(id, fi) bf. if inc id
        then (case bf_fill bf (fst (piece_range fi)) (snd (piece_range fi)) True of Some bf' \<Rightarrow> bf' | None \<Rightarrow> bf)
        else bf"
  have loop: "length (fold ?f (List.enumerate 0 (take n fis)) (zero_bytes_bf (piece_bitfield_bytes l))) = ?N \<and>
      (\<forall>q < ?N. fold ?f (List.enumerate 0 (take n fis)) (zero_bytes_bf (piece_bitfield_bytes l)) ! q \<longleftrightarrow>
        (\<exists>i < n. inc i \<and> fst (piece_range (fis ! i)) \<le> q \<and> q < snd (piece_range (fis ! i))))"
    if "n \<le> length fis" for n
    using that
  proof (induction n)
    case 0
    then show ?case by simp
  next
    case (Suc n)
    let ?bf = "fold ?f (List.enumerate 0 (take n fis)) (zero_bytes_bf (piece_bitfield_bytes l))"
    let ?a = "fst (piece_range (fis ! n))" and ?b = "snd (piece_range (fis ! n))"
    have n: "n < length fis" using Suc.prems by simp
    have "List.enumerate 0 (take (Suc n) fis) = List.enumerate 0 (take n fis) @ [(n, fis ! n)]"
      using n by (simp add: take_Suc_conv_app_nth enumerate_append_eq)
    then have e: "fold ?f (List.enumerate 0 (take (Suc n) fis)) (zero_bytes_bf (piece_bitfield_bytes l)) =
        (if inc n then case bf_fill ?bf ?a ?b True of Some bf' \<Rightarrow> bf' | None \<Rightarrow> ?bf else ?bf)"
      by simp
    have le: "?b \<le> ?N" if "?a < ?b"
      using file_piece_range_iff(2) [OF wf n that] total_pieces_le_bits [of l] by simp
    have IH: "length ?bf = ?N" "\<And>q. q < ?N \<Longrightarrow> ?bf ! q \<longleftrightarrow>
        (\<exists>i < n. inc i \<and> fst (piece_range (fis ! i)) \<le> q \<and> q < snd (piece_range (fis ! i)))"
      using Suc by auto
    show ?case
    proof (cases "bf_fill ?bf ?a ?b True")
      case None
      then have "\<not> ?a < ?b" using le IH(1) by (auto simp: bf_fill_def split: if_splits)
      then show ?thesis using IH None unfolding e by (auto simp: less_Suc_eq)
    next
      case (Some bf')
      then show ?thesis using IH bf_fill_length [OF Some] bf_fill_nth [OF Some]
        unfolding e by (auto simp: less_Suc_eq)
    qed
  qed
  from loop [of "length fis"]
  show "length (compute_selected_pieces l only fis) = ?N"
    and "q < ?N \<Longrightarrow> compute_selected_pieces l only fis ! q \<longleftrightarrow>
      (\<exists>i < length fis. inc i \<and> fst (piece_range (fis ! i)) \<le> q \<and> q < snd (piece_range (fis ! i)))"
    by (simp_all add: compute_selected_pieces_def inc_def)
qed

subsection \<open>Properties\<close>

text \<open>C14: changing the set of selected files. When the file lengths add up to the torrent, the walk over files
  and pieces succeeds (it never runs out of pieces or stalls), keeps the invariant, and afterwards a
  piece is selected iff it contains a byte of a wanted file; a missing piece is queued iff it is selected.\<close>

theorem update_only_files_correct:
  fixes only :: "nat set"
  assumes "ct_inv ct" "sum_list lens = total_length (ct_lengths ct)"
  shows "\<exists>ct'. update_only_files ct lens only = Inr (ct', hns ct') \<and> ct_inv ct' \<and>
    ct_have ct' = ct_have ct \<and>
    (\<forall>q < total_pieces (ct_lengths ct).
       selected ct' ! q = piece_wanted (ct_lengths ct) (byte_wanted lens only) q \<and>
       (\<not> ct_have ct ! q \<longrightarrow> queue_pieces ct' ! q = piece_wanted (ct_lengths ct) (byte_wanted lens only) q))"
  using update_only_files_ok [OF assms] by blast

theorem update_only_files_correct_witness:
  "\<exists>ct'. update_only_files ex_ct [30, 0, 70] {2} = Inr (ct', hns ct') \<and> ct_inv ct'"
  using update_only_files_correct [OF ex_ct_inv, of "[30, 0, 70]" "{2}"]
  by (auto simp: ex_ct_def)

text \<open>selecting a set of files when the torrent is added and switching to the same set later agree on
  every piece, although the two routines share no code.\<close>

theorem selection_routines_agree:
  assumes inv: "ct_inv ct" and wf: "wf_file_infos (ct_lengths ct) fis"
    and u: "update_only_files ct (map fi_len fis) (set ids) = Inr (ct', h)"
    and q: "q < total_pieces (ct_lengths ct)"
  shows "compute_selected_pieces (ct_lengths ct) (Some ids) fis ! q = selected ct' ! q"
proof -
  note wl = ct_invD(1) [OF inv]
  have tot: "sum_list (map fi_len fis) = total_length (ct_lengths ct)" using wf by (simp add: wf_file_infos_def)
  have "selected ct' ! q = piece_wanted (ct_lengths ct) (byte_wanted (map fi_len fis) (set ids)) q"
    using update_only_files_ok [OF inv tot, of "set ids"] u q by auto
  moreover have "q < 8 * piece_bitfield_bytes (ct_lengths ct)" using q total_pieces_le_bits [of "ct_lengths ct"] by simp
  ultimately show ?thesis
    using compute_selected_pieces_nth(2) [OF wl wf, of q "Some ids"] piece_wanted_files [OF wl wf, of "set ids" q] by simp
qed

theorem selection_routines_agree_witness:
  "\<exists>ct' h. update_only_files ex_ct (map fi_len ex_files) (set [0]) = Inr (ct', h) \<and>
     compute_selected_pieces ex_lengths (Some [0]) ex_files ! 1 = selected ct' ! 1"
proof -
  have l: "ct_lengths ex_ct = ex_lengths" by (simp add: ex_ct_def)
  obtain ct' where ct': "update_only_files ex_ct (map fi_len ex_files) (set [0]) = Inr (ct', hns ct')"
    using update_only_files_ok [OF ex_ct_inv, of "map fi_len ex_files" "set [0]"] ex_files_wf
    by (auto simp: l wf_file_infos_def)
  then show ?thesis
    using selection_routines_agree [OF ex_ct_inv _ ct', of 1] ex_files_wf by (auto simp: l ex_total_pieces)
qed

end
