(* ===== verification/Peer_State.thy ===== *)
theory Peer_State
  imports Protocol
begin

text \<open>
  The table of known peers: \<^verbatim>\<open>live/peer/mod.rs\<close> (one peer and its state), \<^verbatim>\<open>live/peers/mod.rs\<close> (the
  table) and their counters. A counter is a 32 bit word, so a decrement below zero wraps as the
  atomic does. The back-off timer of a peer is a value of an arbitrary type \<open>'b\<close>: its crate decides
  how it advances.

  A closure that runs on an entry of the table receives the peer and the rest of the table and
  returns both (\<open>with_peer_mut\<close>). Shown: after every operation each of the five state counters is
  the number of peers in that state, the session's counters move in step with the torrent's, and a
  peer moves only along the edges of its state machine.
\<close>

subsection \<open>State\<close>

type_synonym peer_handle = socket_addr

record live_peer_state =
  lp_peer_id :: id20
  peer_interested :: bool
  lp_bitfield :: bits
  inflight_requests :: "chunk_info list"
  lp_tx :: peer_tx

datatype peer_state = Queued | Connecting peer_tx | Live live_peer_state | Dead | NotNeeded

record peer_counters =
  fetched_bytes :: "64 word"
  total_time_connecting_ms :: "64 word"
  incoming_connections :: "32 word"
  outgoing_connection_attempts :: "32 word"
  outgoing_connections :: "32 word"
  errors :: "32 word"
  fetched_chunks :: "32 word"
  downloaded_and_checked_pieces :: "32 word"
  downloaded_and_checked_bytes :: "64 word"
  total_piece_download_ms :: "64 word"
  times_stolen_from_me :: "32 word"
  times_i_stole :: "32 word"

definition peer_counters_default :: peer_counters where
  "peer_counters_default = \<lparr>fetched_bytes = 0, total_time_connecting_ms = 0, incoming_connections = 0,
     outgoing_connection_attempts = 0, outgoing_connections = 0, errors = 0, fetched_chunks = 0,
     downloaded_and_checked_pieces = 0, downloaded_and_checked_bytes = 0, total_piece_download_ms = 0,
     times_stolen_from_me = 0, times_i_stole = 0\<rparr>"

record 'b peer =
  p_addr :: socket_addr
  p_state :: peer_state
  p_counters :: peer_counters
  p_backoff :: 'b
  outgoing_address :: "socket_addr option"

record aggregate_peer_stats =
  n_queued :: "32 word"
  n_connecting :: "32 word"
  n_live :: "32 word"
  n_seen :: "32 word"
  n_dead :: "32 word"
  n_not_needed :: "32 word"
  n_steals :: "32 word"

definition aggregate_default :: aggregate_peer_stats where
  "aggregate_default = \<lparr>n_queued = 0, n_connecting = 0, n_live = 0, n_seen = 0, n_dead = 0,
     n_not_needed = 0, n_steals = 0\<rparr>"

record 'b peer_states =
  session_peers :: aggregate_peer_stats
  live_outgoing_peers :: "socket_addr set"
  ps_stats :: aggregate_peer_stats
  states :: "(peer_handle \<times> 'b peer) list"

subsection \<open>Counters\<close>

definition counters_on_piece_completed :: "nat \<Rightarrow> nat \<Rightarrow> peer_counters \<Rightarrow> peer_counters" where
  "counters_on_piece_completed piece_len elapsed_ms c =
     c\<lparr>total_piece_download_ms := total_piece_download_ms c + of_nat elapsed_ms,
       downloaded_and_checked_pieces := downloaded_and_checked_pieces c + 1,
       downloaded_and_checked_bytes := downloaded_and_checked_bytes c + of_nat piece_len\<rparr>"

text \<open>In milliseconds.\<close>

definition average_piece_download_time :: "peer_counters \<Rightarrow> nat option" where
  "average_piece_download_time c =
     (let downloaded_pieces = downloaded_and_checked_pieces c;
          total_download_time = total_piece_download_ms c
      in if total_download_time = 0 \<or> downloaded_pieces = 0 then None
         else Some (unat total_download_time div unat downloaded_pieces))"

text \<open>The counter a state belongs to, and its increment and decrement.\<close>

fun add_counter :: "32 word \<Rightarrow> peer_state \<Rightarrow> aggregate_peer_stats \<Rightarrow> aggregate_peer_stats" where
  "add_counter d (Connecting _) s = s\<lparr>n_connecting := n_connecting s + d\<rparr>"
| "add_counter d (Live _) s = s\<lparr>n_live := n_live s + d\<rparr>"
| "add_counter d Queued s = s\<lparr>n_queued := n_queued s + d\<rparr>"
| "add_counter d Dead s = s\<lparr>n_dead := n_dead s + d\<rparr>"
| "add_counter d NotNeeded s = s\<lparr>n_not_needed := n_not_needed s + d\<rparr>"

definition stats_inc :: "peer_state \<Rightarrow> aggregate_peer_stats \<Rightarrow> aggregate_peer_stats" where
  "stats_inc st = add_counter 1 st"

definition stats_dec :: "peer_state \<Rightarrow> aggregate_peer_stats \<Rightarrow> aggregate_peer_stats" where
  "stats_dec st = add_counter (- 1) st"

definition stats_incdec :: "peer_state \<Rightarrow> peer_state \<Rightarrow> aggregate_peer_stats \<Rightarrow> aggregate_peer_stats" where
  "stats_incdec old new s = stats_inc new (stats_dec old s)"

definition inc_steals :: "aggregate_peer_stats \<Rightarrow> aggregate_peer_stats" where
  "inc_steals s = s\<lparr>n_steals := n_steals s + 1\<rparr>"

text \<open>\<^verbatim>\<open>for counter in [&counters.session_stats.peers, &counters.stats]\<close>.\<close>

definition both_stats :: "(aggregate_peer_stats \<Rightarrow> aggregate_peer_stats) \<Rightarrow> 'b peer_states \<Rightarrow> 'b peer_states" where
  "both_stats f ps = ps\<lparr>session_peers := f (session_peers ps), ps_stats := f (ps_stats ps)\<rparr>"

subsection \<open>One peer\<close>

definition live_peer_new :: "id20 \<Rightarrow> peer_tx \<Rightarrow> bool \<Rightarrow> live_peer_state" where
  "live_peer_new pid tx initial_interested =
     \<lparr>lp_peer_id = pid, peer_interested = initial_interested, lp_bitfield = [], inflight_requests = [], lp_tx = tx\<rparr>"

definition has_full_torrent :: "live_peer_state \<Rightarrow> nat \<Rightarrow> bool" where
  "has_full_torrent lp tp =
     (case bf_get_range (lp_bitfield lp) 0 tp of Some s \<Rightarrow> bits_all s | None \<Rightarrow> False)"

fun is_live :: "peer_state \<Rightarrow> bool" where
  "is_live (Live _) = True"
| "is_live _ = False"

fun take_live_no_counters :: "peer_state \<Rightarrow> live_peer_state option" where
  "take_live_no_counters (Live l) = Some l"
| "take_live_no_counters _ = None"

definition get_live :: "'b peer \<Rightarrow> live_peer_state option" where
  "get_live p = take_live_no_counters (p_state p)"

definition set_state :: "'b peer \<Rightarrow> peer_state \<Rightarrow> 'b peer_states \<Rightarrow> peer_state \<times> 'b peer \<times> 'b peer_states" where
  "set_state p new ps =
     (let ps = both_stats (stats_incdec (p_state p) new) ps;
          ps = (case outgoing_address p of
                  None \<Rightarrow> ps
                | Some addr \<Rightarrow>
                    let ps = (if is_live (p_state p)
                              then ps\<lparr>live_outgoing_peers := live_outgoing_peers ps - {addr}\<rparr> else ps)
                    in if is_live new \<and> outgoing_connections (p_counters p) > 0
                       then ps\<lparr>live_outgoing_peers := insert addr (live_outgoing_peers ps)\<rparr> else ps)
      in (p_state p, p\<lparr>p_state := new\<rparr>, ps))"

definition take_state :: "'b peer \<Rightarrow> 'b peer_states \<Rightarrow> peer_state \<times> 'b peer \<times> 'b peer_states" where
  "take_state p ps = set_state p Queued ps"

definition destroy :: "'b peer \<Rightarrow> 'b peer_states \<Rightarrow> 'b peer_states" where
  "destroy p ps =
     (let ps = both_stats (stats_dec (p_state p)) ps
      in case outgoing_address p of
           Some addr \<Rightarrow>
             if is_live (p_state p) then ps\<lparr>live_outgoing_peers := live_outgoing_peers ps - {addr}\<rparr> else ps
         | None \<Rightarrow> ps)"

definition new_live_for_incoming_connection ::
  "'b \<Rightarrow> socket_addr \<Rightarrow> id20 \<Rightarrow> peer_tx \<Rightarrow> 'b peer_states \<Rightarrow> 'b peer \<times> 'b peer_states" where
  "new_live_for_incoming_connection backoff0 addr pid tx ps =
     (let state = Live (live_peer_new pid tx True)
      in (\<lparr>p_addr = addr, p_state = state, p_counters = peer_counters_default, p_backoff = backoff0,
           outgoing_address = None\<rparr>, both_stats (stats_inc state) ps))"

definition new_with_outgoing_address :: "'b \<Rightarrow> socket_addr \<Rightarrow> 'b peer" where
  "new_with_outgoing_address backoff0 addr =
     \<lparr>p_addr = addr, p_state = Queued, p_counters = peer_counters_default, p_backoff = backoff0,
      outgoing_address = Some addr\<rparr>"

definition reconnect_not_needed_peer ::
  "'b peer \<Rightarrow> 'b peer_states \<Rightarrow> socket_addr option \<times> 'b peer \<times> 'b peer_states" where
  "reconnect_not_needed_peer p ps =
     (if p_state p = NotNeeded then
        case outgoing_address p of
          None \<Rightarrow> (None, p, ps)
        | Some socket_addr \<Rightarrow>
            if p_addr p = socket_addr then
              (case set_state p Queued ps of (_, p, ps) \<Rightarrow> (Some socket_addr, p, ps))
            else (Some socket_addr, p, ps)
      else (None, p, ps))"

text \<open>The new channel is an argument; both ends of it are known by its number.\<close>

definition idle_to_connecting ::
  "peer_tx \<Rightarrow> 'b peer \<Rightarrow> 'b peer_states \<Rightarrow> peer_tx option \<times> 'b peer \<times> 'b peer_states" where
  "idle_to_connecting tx p ps =
     (if p_state p = Queued \<or> p_state p = NotNeeded then
        (case set_state p (Connecting tx) ps of (_, p, ps) \<Rightarrow> (Some tx, p, ps))
      else (None, p, ps))"

definition incoming_connection ::
  "id20 \<Rightarrow> peer_tx \<Rightarrow> 'b peer \<Rightarrow> 'b peer_states \<Rightarrow> unit res \<times> 'b peer \<times> 'b peer_states" where
  "incoming_connection pid tx p ps =
     (case p_state p of
        Connecting _ \<Rightarrow> (Inl (Bail ''peer already active''), p, ps)
      | Live _ \<Rightarrow> (Inl (Bail ''peer already active''), p, ps)
      | _ \<Rightarrow>
          (case take_state p ps of (_, p, ps) \<Rightarrow>
           case set_state p (Live (live_peer_new pid tx True)) ps of (_, p, ps) \<Rightarrow> (Inr (), p, ps)))"

definition connecting_to_live ::
  "id20 \<Rightarrow> 'b peer \<Rightarrow> 'b peer_states \<Rightarrow> live_peer_state option \<times> 'b peer \<times> 'b peer_states" where
  "connecting_to_live pid p ps =
     (case p_state p of
        Connecting tx \<Rightarrow>
          (case take_state p ps of (_, p, ps) \<Rightarrow>
           case set_state p (Live (live_peer_new pid tx False)) ps of (_, p, ps) \<Rightarrow> (get_live p, p, ps))
      | _ \<Rightarrow> (None, p, ps))"

definition set_not_needed :: "'b peer \<Rightarrow> 'b peer_states \<Rightarrow> peer_state \<times> 'b peer \<times> 'b peer_states" where
  "set_not_needed p ps = set_state p NotNeeded ps"

subsection \<open>The table\<close>

definition with_peer :: "'b peer_states \<Rightarrow> peer_handle \<Rightarrow> ('b peer \<Rightarrow> 'r) \<Rightarrow> 'r option" where
  "with_peer ps addr f = map_option f (map_of (states ps) addr)"

definition with_peer_mut ::
  "'b peer_states \<Rightarrow> peer_handle \<Rightarrow> ('b peer \<Rightarrow> 'b peer_states \<Rightarrow> 'r \<times> 'b peer \<times> 'b peer_states)
   \<Rightarrow> 'r option \<times> 'b peer_states" where
  "with_peer_mut ps addr f =
     (case map_of (states ps) addr of
        None \<Rightarrow> (None, ps)
      | Some p \<Rightarrow>
          (case f p ps of (r, p', ps') \<Rightarrow> (Some r, ps'\<lparr>states := AList.update addr p' (states ps')\<rparr>)))"

definition with_live :: "'b peer_states \<Rightarrow> peer_handle \<Rightarrow> (live_peer_state \<Rightarrow> 'r) \<Rightarrow> 'r option" where
  "with_live ps addr f = Option.bind (with_peer ps addr (\<lambda>p. map_option f (get_live p))) (\<lambda>r. r)"

text \<open>The closure \<^verbatim>\<open>|peer| peer.get_live_mut().map(f)\<close>.\<close>

definition on_live ::
  "(live_peer_state \<Rightarrow> 'r \<times> live_peer_state) \<Rightarrow> 'b peer \<Rightarrow> 'b peer_states \<Rightarrow> 'r option \<times> 'b peer \<times> 'b peer_states" where
  "on_live f p ps =
     (case get_live p of
        None \<Rightarrow> (None, p, ps)
      | Some l \<Rightarrow> (case f l of (r, l') \<Rightarrow> (Some r, p\<lparr>p_state := Live l'\<rparr>, ps)))"

definition with_live_mut ::
  "'b peer_states \<Rightarrow> peer_handle \<Rightarrow> (live_peer_state \<Rightarrow> 'r \<times> live_peer_state) \<Rightarrow> 'r option \<times> 'b peer_states" where
  "with_live_mut ps addr f =
     (case with_peer_mut ps addr (on_live f) of (r, ps) \<Rightarrow> (Option.bind r (\<lambda>r. r), ps))"

definition add_if_not_seen :: "'b \<Rightarrow> 'b peer_states \<Rightarrow> socket_addr \<Rightarrow> peer_handle option \<times> 'b peer_states" where
  "add_if_not_seen backoff0 ps addr =
     (case map_of (states ps) addr of
        Some _ \<Rightarrow> (None, ps)
      | None \<Rightarrow>
          let ps = ps\<lparr>states := AList.update addr (new_with_outgoing_address backoff0 addr) (states ps)\<rparr>;
              ps = both_stats (\<lambda>s. s\<lparr>n_queued := n_queued s + 1\<rparr>) ps;
              ps = both_stats (\<lambda>s. s\<lparr>n_seen := n_seen s + 1\<rparr>) ps
          in (Some addr, ps))"

definition drop_peer :: "'b peer_states \<Rightarrow> peer_handle \<Rightarrow> 'b peer option \<times> 'b peer_states" where
  "drop_peer ps handle =
     (case map_of (states ps) handle of
        None \<Rightarrow> (None, ps)
      | Some p \<Rightarrow> (Some p, both_stats (stats_dec (p_state p)) (ps\<lparr>states := AList.delete handle (states ps)\<rparr>)))"

definition is_peer_interested :: "'b peer_states \<Rightarrow> peer_handle \<Rightarrow> bool" where
  "is_peer_interested ps handle = (case with_live ps handle peer_interested of Some b \<Rightarrow> b | None \<Rightarrow> False)"

definition mark_peer_interested :: "'b peer_states \<Rightarrow> peer_handle \<Rightarrow> bool \<Rightarrow> bool option \<times> 'b peer_states" where
  "mark_peer_interested ps handle is_interested =
     with_live_mut ps handle (\<lambda>l. (peer_interested l, l\<lparr>peer_interested := is_interested\<rparr>))"

definition update_bitfield :: "'b peer_states \<Rightarrow> peer_handle \<Rightarrow> bits \<Rightarrow> unit option \<times> 'b peer_states" where
  "update_bitfield ps handle bitfield = with_live_mut ps handle (\<lambda>l. ((), l\<lparr>lp_bitfield := bitfield\<rparr>))"

definition mark_peer_connecting :: "peer_tx \<Rightarrow> 'b peer_states \<Rightarrow> peer_handle \<Rightarrow> peer_tx res \<times> 'b peer_states" where
  "mark_peer_connecting tx ps h =
     (case with_peer_mut ps h (idle_to_connecting tx) of
        (None, ps) \<Rightarrow> (Inl (Bail ''peer not found in states''), ps)
      | (Some None, ps) \<Rightarrow> (Inl (Bail ''invalid peer state''), ps)
      | (Some (Some tx), ps) \<Rightarrow> (Inr tx, ps))"

definition reset_peer_backoff :: "('b \<Rightarrow> 'b) \<Rightarrow> 'b peer_states \<Rightarrow> peer_handle \<Rightarrow> 'b peer_states" where
  "reset_peer_backoff backoff_reset ps handle =
     snd (with_peer_mut ps handle (\<lambda>p ps. ((), p\<lparr>p_backoff := backoff_reset (p_backoff p)\<rparr>, ps)))"

definition mark_peer_not_needed :: "'b peer_states \<Rightarrow> peer_handle \<Rightarrow> peer_state option \<times> 'b peer_states" where
  "mark_peer_not_needed ps handle = with_peer_mut ps handle set_not_needed"

text \<open>The per-peer counters are atomics behind a shared pointer: incrementing them through a read
  access changes the entry.\<close>

definition bump_counters :: "'b peer_states \<Rightarrow> peer_handle \<Rightarrow> (peer_counters \<Rightarrow> peer_counters) \<Rightarrow> 'b peer_states" where
  "bump_counters ps handle f =
     snd (with_peer_mut ps handle (\<lambda>p ps. ((), p\<lparr>p_counters := f (p_counters p)\<rparr>, ps)))"

definition on_steal :: "'b peer_states \<Rightarrow> socket_addr \<Rightarrow> socket_addr \<Rightarrow> valid_piece_index \<Rightarrow> 'b peer_states \<times> outbox" where
  "on_steal ps from_peer to_peer stolen_idx =
     (let ps = bump_counters ps to_peer (\<lambda>c. c\<lparr>times_i_stole := times_i_stole c + 1\<rparr>);
          ps = bump_counters ps from_peer (\<lambda>c. c\<lparr>times_stolen_from_me := times_stolen_from_me c + 1\<rparr>);
          ps = both_stats inc_steals ps
      in case with_live_mut ps from_peer (\<lambda>live.
             (map (\<lambda>req. (lp_tx live, WMessage (MCancel
                      \<lparr>rq_index = stolen_idx, rq_begin = ci_offset req, rq_length = ci_size req\<rparr>)))
                (filter (\<lambda>r. ci_piece_index r = stolen_idx) (inflight_requests live)), live)) of
           (msgs, ps) \<Rightarrow> (ps, case msgs of Some m \<Rightarrow> m | None \<Rightarrow> []))"

text \<open>\<^verbatim>\<open>Drop for PeerStates\<close>: the table is taken and each peer destroyed.\<close>

definition peer_states_drop :: "'b peer_states \<Rightarrow> 'b peer_states" where
  "peer_states_drop ps = fold (\<lambda>(_, p) ps. destroy p ps) (states ps) (ps\<lparr>states := []\<rparr>)"

subsection \<open>What a counter counts\<close>

datatype state_kind = KQueued | KConnecting | KLive | KDead | KNotNeeded

fun kind_of :: "peer_state \<Rightarrow> state_kind" where
  "kind_of Queued = KQueued"
| "kind_of (Connecting _) = KConnecting"
| "kind_of (Live _) = KLive"
| "kind_of Dead = KDead"
| "kind_of NotNeeded = KNotNeeded"

fun kcounter :: "state_kind \<Rightarrow> aggregate_peer_stats \<Rightarrow> 32 word" where
  "kcounter KQueued s = n_queued s"
| "kcounter KConnecting s = n_connecting s"
| "kcounter KLive s = n_live s"
| "kcounter KDead s = n_dead s"
| "kcounter KNotNeeded s = n_not_needed s"

text \<open>One if the peer is in a state of kind \<open>k\<close>.\<close>

definition ind :: "state_kind \<Rightarrow> 'b peer \<Rightarrow> 32 word" where
  "ind k p = (if kind_of (p_state p) = k then 1 else 0)"

definition peers_of :: "state_kind \<Rightarrow> 'b peer_states \<Rightarrow> nat" where
  "peers_of k ps = kcount (\<lambda>p. kind_of (p_state p) = k) (states ps)"

definition peers_inv :: "'b peer_states \<Rightarrow> bool" where
  "peers_inv ps \<longleftrightarrow> tbl_ok (states ps) \<and> (\<forall>k. kcounter k (ps_stats ps) = of_nat (peers_of k ps))"

text \<open>What the other torrents of the session contribute to a counter.\<close>

definition others :: "state_kind \<Rightarrow> 'b peer_states \<Rightarrow> 32 word" where
  "others k ps = kcounter k (session_peers ps) - kcounter k (ps_stats ps)"

definition keeps :: "'b peer_states \<Rightarrow> 'b peer_states \<Rightarrow> bool" where
  "keeps ps ps' \<longleftrightarrow> (peers_inv ps \<longrightarrow> peers_inv ps') \<and> (\<forall>k. others k ps' = others k ps)"

lemma keeps_refl [simp, intro]: "keeps ps ps"
  by (simp add: keeps_def)

lemma keeps_trans [trans]: "keeps a b \<Longrightarrow> keeps b c \<Longrightarrow> keeps a c"
  by (simp add: keeps_def)

lemma kcounter_add: "kcounter k (add_counter d st s) = kcounter k s + (if kind_of st = k then d else 0)"
  by (cases k; cases st) auto

lemma kcounter_inc: "kcounter k (stats_inc st s) = kcounter k s + (if kind_of st = k then 1 else 0)"
  by (simp add: stats_inc_def kcounter_add)

lemma kcounter_dec: "kcounter k (stats_dec st s) = kcounter k s - (if kind_of st = k then 1 else 0)"
  by (simp add: stats_dec_def kcounter_add)

lemma kcounter_steals [simp]: "kcounter k (inc_steals s) = kcounter k s"
  by (cases k) (auto simp: inc_steals_def)

lemma is_live_kind: "is_live st \<longleftrightarrow> kind_of st = KLive"
  by (cases st) auto

lemma both_stats_sel [simp]:
  "states (both_stats f ps) = states ps" "session_peers (both_stats f ps) = f (session_peers ps)"
  "ps_stats (both_stats f ps) = f (ps_stats ps)" "live_outgoing_peers (both_stats f ps) = live_outgoing_peers ps"
  by (simp_all add: both_stats_def)

subsection \<open>The contract of a closure on an entry\<close>

text \<open>
  A closure passed to \<open>with_peer_mut\<close> may change the peer and the counters, but not the table. If it
  accounts for the change of state of its peer in both sets of counters, the whole operation keeps
  the counters exact.
\<close>

locale peer_closure =
  fixes f :: "'b peer \<Rightarrow> 'b peer_states \<Rightarrow> 'r \<times> 'b peer \<times> 'b peer_states"
  assumes closure_states: "f p ps = (r, p', ps') \<Longrightarrow> states ps' = states ps"
    and closure_stats: "f p ps = (r, p', ps') \<Longrightarrow> kcounter k (ps_stats ps') = kcounter k (ps_stats ps) - ind k p + ind k p'"
    and closure_session: "f p ps = (r, p', ps') \<Longrightarrow>
      kcounter k (session_peers ps') = kcounter k (session_peers ps) - ind k p + ind k p'"
begin

lemma with_peer_mut_keeps: "keeps ps (snd (with_peer_mut ps a f))"
proof (cases "map_of (states ps) a")
  case None
  then show ?thesis by (simp add: with_peer_mut_def)
next
  case (Some p)
  obtain r p' ps' where f: "f p ps = (r, p', ps')" by (cases "f p ps") auto
  let ?n = "ps'\<lparr>states := AList.update a p' (states ps')\<rparr>"
  have w: "snd (with_peer_mut ps a f) = ?n" using Some f by (simp add: with_peer_mut_def)
  have "peers_inv ?n" if inv: "peers_inv ps"
  proof -
    have ok: "tbl_ok (states ps)" using inv by (simp add: peers_inv_def)
    have "kcounter k (ps_stats ps') = of_nat (peers_of k ?n)" for k
    proof -
      have "peers_of k ?n + (if kind_of (p_state p) = k then 1 else 0)
          = peers_of k ps + (if kind_of (p_state p') = k then 1 else 0)"
        using kcount_update [OF ok Some, of "\<lambda>p. kind_of (p_state p) = k" p'] closure_states [OF f]
        by (simp add: peers_of_def)
      from arg_cong [OF this, of "of_nat :: nat \<Rightarrow> 32 word"]
      have "of_nat (peers_of k ?n) + ind k p = of_nat (peers_of k ps) + ind k p'"
        by (simp add: ind_def split: if_splits)
      then have "of_nat (peers_of k ?n) = of_nat (peers_of k ps) - ind k p + ind k p'"
        by (simp add: algebra_simps)
      then show ?thesis using closure_stats [OF f] inv by (simp add: peers_inv_def)
    qed
    then show ?thesis using ok closure_states [OF f] by (simp add: peers_inv_def)
  qed
  moreover have "others k ?n = others k ps" for k
    using closure_stats [OF f] closure_session [OF f] by (simp add: others_def)
  ultimately show ?thesis by (simp add: w keeps_def)
qed

lemma with_peer_mut_other:
  "h \<noteq> a \<Longrightarrow> map_of (states (snd (with_peer_mut ps a f))) h = map_of (states ps) h"
  by (auto simp: with_peer_mut_def update_conv' closure_states split: option.split prod.split)

lemma with_peer_mut_this:
  "map_of (states ps) a = Some p \<Longrightarrow> f p ps = (r, p', ps') \<Longrightarrow>
   with_peer_mut ps a f = (Some r, ps'\<lparr>states := AList.update a p' (states ps)\<rparr>)"
  by (simp add: with_peer_mut_def closure_states)

end

lemma set_state_fst: "fst (set_state p new ps) = p_state p"
  by (simp add: set_state_def Let_def)

lemma set_state_peer: "fst (snd (set_state p new ps)) = p\<lparr>p_state := new\<rparr>"
  by (simp add: set_state_def Let_def)

lemma set_state_sel:
  assumes "set_state p new ps = (r, p', ps')"
  shows "r = p_state p" "p' = p\<lparr>p_state := new\<rparr>" "states ps' = states ps"
    "kcounter k (ps_stats ps') = kcounter k (ps_stats ps) - ind k p + ind k p'"
    "kcounter k (session_peers ps') = kcounter k (session_peers ps) - ind k p + ind k p'"
  using assms
  by (auto simp: set_state_def Let_def stats_incdec_def kcounter_inc kcounter_dec ind_def
      split: option.splits if_splits)

interpretation set_state: peer_closure "\<lambda>p. set_state p new"
  by unfold_locales (use set_state_sel in metis)+

interpretation set_not_needed: peer_closure set_not_needed
  unfolding set_not_needed_def by unfold_locales (use set_state_sel in metis)+

text \<open>A closure that leaves the state's kind and the counters alone.\<close>

lemma pure_closure:
  assumes "\<And>p. kind_of (p_state (g p)) = kind_of (p_state p)"
  shows "peer_closure (\<lambda>p ps. (h p, g p, ps))"
  by unfold_locales (use assms in \<open>auto simp: ind_def\<close>)

lemma idle_to_connecting_cases:
  assumes "idle_to_connecting tx p ps = (r, p', ps')"
  obtains (busy) "kind_of (p_state p) \<notin> {KQueued, KNotNeeded}" "r = None" "p' = p" "ps' = ps"
  | (connecting) q where "kind_of (p_state p) \<in> {KQueued, KNotNeeded}" "r = Some tx"
      "set_state p (Connecting tx) ps = (q, p', ps')"
proof (cases "p_state p = Queued \<or> p_state p = NotNeeded")
  case True
  then show ?thesis using assms set_state_fst [of p "Connecting tx" ps]
    by (intro connecting [of "p_state p"]) (auto simp: idle_to_connecting_def split: prod.splits)
next
  case False
  then show ?thesis using assms by (intro busy; cases "p_state p") (auto simp: idle_to_connecting_def)
qed

interpretation idle_to_connecting: peer_closure "idle_to_connecting tx"
  by unfold_locales (erule idle_to_connecting_cases, auto dest: set_state_sel)+

lemma two_states:
  assumes "set_state p s1 ps = (r1, p1, ps1)" "set_state p1 s2 ps1 = (r2, p2, ps2)"
  shows "p2 = p\<lparr>p_state := s2\<rparr>" "states ps2 = states ps"
    "kcounter k (ps_stats ps2) = kcounter k (ps_stats ps) - ind k p + ind k p2"
    "kcounter k (session_peers ps2) = kcounter k (session_peers ps) - ind k p + ind k p2"
  using set_state_sel [OF assms(1)] set_state_sel [OF assms(2)] by auto

lemma incoming_connection_cases:
  assumes "incoming_connection pid tx p ps = (r, p', ps')"
  obtains (active) "kind_of (p_state p) = KConnecting \<or> kind_of (p_state p) = KLive" "is_ok r = False" "p' = p" "ps' = ps"
  | (live) r1 p1 ps1 r2 where "kind_of (p_state p) \<notin> {KConnecting, KLive}" "r = Inr ()"
      "set_state p Queued ps = (r1, p1, ps1)"
      "set_state p1 (Live (live_peer_new pid tx True)) ps1 = (r2, p', ps')"
  using assms by (cases "p_state p") (auto simp: incoming_connection_def take_state_def split: prod.splits)

interpretation incoming_connection: peer_closure "incoming_connection pid tx"
  by unfold_locales (erule incoming_connection_cases, auto dest: two_states)+

lemma connecting_to_live_cases:
  assumes "connecting_to_live pid p ps = (r, p', ps')"
  obtains (idle) "kind_of (p_state p) \<noteq> KConnecting" "r = None" "p' = p" "ps' = ps"
  | (live) tx r1 p1 ps1 r2 where "p_state p = Connecting tx" "r = Some (live_peer_new pid tx False)"
      "set_state p Queued ps = (r1, p1, ps1)"
      "set_state p1 (Live (live_peer_new pid tx False)) ps1 = (r2, p', ps')"
proof (cases "p_state p")
  case (Connecting tx)
  obtain r1 p1 ps1 where 1: "set_state p Queued ps = (r1, p1, ps1)" by (cases "set_state p Queued ps") auto
  obtain r2 p2 ps2 where 2: "set_state p1 (Live (live_peer_new pid tx False)) ps1 = (r2, p2, ps2)"
    by (cases "set_state p1 (Live (live_peer_new pid tx False)) ps1") auto
  show ?thesis
    using assms Connecting 1 2 set_state_sel(2) [OF 2]
    by (intro live) (auto simp: connecting_to_live_def take_state_def get_live_def)
qed (rule idle; use assms in \<open>simp add: connecting_to_live_def\<close>)+

interpretation connecting_to_live: peer_closure "connecting_to_live pid"
  by unfold_locales (erule connecting_to_live_cases, auto dest: two_states)+

lemma reconnect_not_needed_cases:
  assumes "reconnect_not_needed_peer p ps = (r, p', ps')"
  obtains (same) "p' = p" "ps' = ps" "r = None \<or> p_state p = NotNeeded \<and> r = outgoing_address p"
  | (queued) q a where "p_state p = NotNeeded" "outgoing_address p = Some (p_addr p)" "r = Some (p_addr p)"
      "set_state p Queued ps = (q, p', ps')"
  using assms by (auto simp: reconnect_not_needed_peer_def split: if_splits option.splits prod.splits)

interpretation reconnect_not_needed: peer_closure reconnect_not_needed_peer
  by unfold_locales (erule reconnect_not_needed_cases, auto dest: set_state_sel)+

subsection \<open>The operations of the table keep the counters exact\<close>

interpretation on_live: peer_closure "on_live f"
  by unfold_locales
    (auto simp: on_live_def get_live_def ind_def split: option.splits prod.splits elim!: take_live_no_counters.elims)

lemma with_live_mut_keeps: "keeps ps (snd (with_live_mut ps a f))"
  using on_live.with_peer_mut_keeps [of ps a f] by (simp add: with_live_mut_def split_beta)

lemma bump_counters_keeps: "keeps ps (bump_counters ps a f)"
  unfolding bump_counters_def by (intro peer_closure.with_peer_mut_keeps pure_closure) simp

lemma reset_peer_backoff_keeps: "keeps ps (reset_peer_backoff b ps a)"
  unfolding reset_peer_backoff_def by (intro peer_closure.with_peer_mut_keeps pure_closure) simp

lemma steals_keeps: "keeps ps (both_stats inc_steals ps)"
  by (simp add: keeps_def peers_inv_def others_def peers_of_def)

lemma on_steal_keeps: "keeps ps (fst (on_steal ps a b i))"
proof -
  define ps1 where "ps1 = bump_counters ps b (\<lambda>c. c\<lparr>times_i_stole := times_i_stole c + 1\<rparr>)"
  define ps2 where "ps2 = bump_counters ps1 a (\<lambda>c. c\<lparr>times_stolen_from_me := times_stolen_from_me c + 1\<rparr>)"
  have "keeps ps ps1" unfolding ps1_def by (rule bump_counters_keeps)
  also have "keeps ps1 ps2" unfolding ps2_def by (rule bump_counters_keeps)
  also have "keeps ps2 (both_stats inc_steals ps2)" by (rule steals_keeps)
  also have "keeps (both_stats inc_steals ps2) (fst (on_steal ps a b i))"
    unfolding on_steal_def Let_def ps1_def [symmetric] ps2_def [symmetric]
    using with_live_mut_keeps [of "both_stats inc_steals ps2" a] by (simp add: split_beta)
  finally show ?thesis .
qed

lemma mark_peer_connecting_keeps: "keeps ps (snd (mark_peer_connecting tx ps h))"
proof -
  have "snd (mark_peer_connecting tx ps h) = snd (with_peer_mut ps h (idle_to_connecting tx))"
    by (auto simp: mark_peer_connecting_def split: prod.splits option.splits)
  then show ?thesis using idle_to_connecting.with_peer_mut_keeps by simp
qed

lemma add_if_not_seen_keeps: "keeps ps (snd (add_if_not_seen b ps a))"
proof (cases "map_of (states ps) a")
  case None
  let ?ps' = "snd (add_if_not_seen b ps a)"
  have st: "states ?ps' = AList.update a (new_with_outgoing_address b a) (states ps)"
    and c: "kcounter k (ps_stats ?ps') = kcounter k (ps_stats ps) + (if k = KQueued then 1 else 0)"
      "kcounter k (session_peers ?ps') = kcounter k (session_peers ps) + (if k = KQueued then 1 else 0)" for k
    using None by (cases k; simp add: add_if_not_seen_def)+
  have n: "peers_of k ?ps' = peers_of k ps + (if k = KQueued then 1 else 0)" for k
    unfolding peers_of_def st by (subst kcount_update_new [OF None]) (auto simp: new_with_outgoing_address_def)
  show ?thesis by (auto simp: keeps_def peers_inv_def others_def c n st)
qed (simp add: add_if_not_seen_def)

lemma drop_peer_keeps: "keeps ps (snd (drop_peer ps h))"
proof (cases "map_of (states ps) h")
  case (Some p)
  let ?ps' = "snd (drop_peer ps h)"
  have st: "states ?ps' = AList.delete h (states ps)"
    and c: "kcounter k (ps_stats ?ps') = kcounter k (ps_stats ps) - ind k p"
      "kcounter k (session_peers ?ps') = kcounter k (session_peers ps) - ind k p" for k
    using Some by (simp_all add: drop_peer_def kcounter_dec ind_def)
  have "of_nat (peers_of k ?ps') + ind k p = of_nat (peers_of k ps)" if "tbl_ok (states ps)" for k
    using arg_cong [OF kcount_delete [OF that Some, of "\<lambda>p. kind_of (p_state p) = k"], of "of_nat :: nat \<Rightarrow> 32 word"]
    by (simp add: peers_of_def st ind_def split: if_splits)
  then show ?thesis by (auto simp: keeps_def peers_inv_def others_def c st algebra_simps)
qed (simp add: drop_peer_def)

lemma destroy_sel:
  "states (destroy p ps) = states ps"
  "kcounter k (session_peers (destroy p ps)) = kcounter k (session_peers ps) - ind k p"
  "kcounter k (ps_stats (destroy p ps)) = kcounter k (ps_stats ps) - ind k p"
  by (auto simp: destroy_def Let_def kcounter_dec ind_def split: option.split)

lemma destroy_all_sel:
  "kcounter k (session_peers (fold (\<lambda>(_, p) ps. destroy p ps) al ps)) =
     kcounter k (session_peers ps) - of_nat (kcount (\<lambda>p. kind_of (p_state p) = k) al)"
proof (induction al arbitrary: ps)
  case Nil
  then show ?case by simp
next
  case (Cons e al)
  then show ?case by (cases e) (simp add: destroy_sel ind_def algebra_simps)
qed

text \<open>Dropping the table removes exactly this torrent's share from the session's counters.\<close>

lemma peer_states_drop_session:
  assumes "peers_inv ps"
  shows "kcounter k (session_peers (peer_states_drop ps)) = others k ps"
  using assms unfolding peer_states_drop_def destroy_all_sel
  by (simp add: others_def peers_inv_def peers_of_def)

subsection \<open>Addresses announced to other peers\<close>

text \<open>Every address in \<open>live_outgoing_peers\<close>, the set announced by peer exchange, is the outgoing address of
  a peer that is live.\<close>

definition announces :: "socket_addr \<Rightarrow> 'b peer \<Rightarrow> bool" where
  "announces a p \<longleftrightarrow> outgoing_address p = Some a \<and> is_live (p_state p)"

definition pex_inv :: "'b peer_states \<Rightarrow> bool" where
  "pex_inv ps \<longleftrightarrow> tbl_ok (states ps) \<and>
     (\<forall>a \<in> live_outgoing_peers ps. \<exists>h p. map_of (states ps) h = Some p \<and> announces a p)"

locale pex_closure = peer_closure +
  assumes closure_pex: "f p ps = (r, p', ps') \<Longrightarrow> a \<in> live_outgoing_peers ps' \<Longrightarrow>
    announces a p' \<or> a \<in> live_outgoing_peers ps \<and> \<not> announces a p"
begin

lemma with_peer_mut_pex:
  assumes inv: "pex_inv ps"
  shows "pex_inv (snd (with_peer_mut ps h f))"
proof (cases "map_of (states ps) h")
  case None
  then show ?thesis using inv by (simp add: with_peer_mut_def)
next
  case (Some p)
  obtain r p' ps' where f: "f p ps = (r, p', ps')" by (cases "f p ps") auto
  have w: "snd (with_peer_mut ps h f) = ps'\<lparr>states := AList.update h p' (states ps)\<rparr>"
    using with_peer_mut_this [OF Some f] by simp
  have "\<exists>k q. map_of (AList.update h p' (states ps)) k = Some q \<and> announces a q"
    if "a \<in> live_outgoing_peers ps'" for a
    using closure_pex [OF f that]
  proof
    assume "announces a p'"
    then show ?thesis by (intro exI [of _ h] exI [of _ p']) (simp add: update_conv')
  next
    assume a: "a \<in> live_outgoing_peers ps \<and> \<not> announces a p"
    then obtain k q where k: "map_of (states ps) k = Some q" "announces a q"
      using inv by (auto simp: pex_inv_def)
    then have "k \<noteq> h" using a Some by auto
    then show ?thesis using k by (intro exI [of _ k] exI [of _ q]) (simp add: update_conv')
  qed
  then show ?thesis using inv by (simp add: w pex_inv_def)
qed

end

lemma set_state_pex:
  assumes "set_state p new ps = (r, p', ps')" "a \<in> live_outgoing_peers ps'"
  shows "announces a p' \<or> a \<in> live_outgoing_peers ps \<and> \<not> announces a p"
  using assms by (auto simp: set_state_def Let_def announces_def split: option.splits if_splits)

lemma two_states_pex:
  assumes "set_state p Queued ps = (r1, p1, ps1)" "set_state p1 s2 ps1 = (r2, p2, ps2)"
    "a \<in> live_outgoing_peers ps2"
  shows "announces a p2 \<or> a \<in> live_outgoing_peers ps \<and> \<not> announces a p"
proof -
  have "\<not> announces a p1" using set_state_sel(2) [OF assms(1)] by (simp add: announces_def)
  then show ?thesis
    using set_state_pex [OF assms(2,3)] set_state_pex [OF assms(1), of a] by blast
qed

interpretation set_state: pex_closure "\<lambda>p. set_state p new"
  by unfold_locales (rule set_state_pex)

interpretation set_not_needed: pex_closure set_not_needed
  by unfold_locales (simp add: set_not_needed_def set_state_pex)

interpretation idle_to_connecting: pex_closure "idle_to_connecting tx"
  by unfold_locales (erule idle_to_connecting_cases, auto simp: announces_def dest: set_state_pex)

interpretation incoming_connection: pex_closure "incoming_connection pid tx"
  by unfold_locales (erule incoming_connection_cases; blast dest: two_states_pex)

interpretation connecting_to_live: pex_closure "connecting_to_live pid"
  by unfold_locales (erule connecting_to_live_cases; blast dest: two_states_pex)

interpretation reconnect_not_needed: pex_closure reconnect_not_needed_peer
  by unfold_locales (erule reconnect_not_needed_cases, auto simp: announces_def dest: set_state_pex)

interpretation on_live: pex_closure "on_live f"
  by unfold_locales
    (auto simp: on_live_def get_live_def announces_def split: option.splits prod.splits elim!: take_live_no_counters.elims)

lemma with_live_mut_pex: "pex_inv ps \<Longrightarrow> pex_inv (snd (with_live_mut ps a f))"
  using on_live.with_peer_mut_pex [of ps a f] by (simp add: with_live_mut_def split_beta)

lemma drop_peer_pex:
  assumes inv: "pex_inv ps" and p: "map_of (states ps) h = Some p" "\<not> is_live (p_state p)"
  shows "pex_inv (snd (drop_peer ps h))"
proof -
  have "\<exists>k q. map_of (AList.delete h (states ps)) k = Some q \<and> announces a q" if a: "a \<in> live_outgoing_peers ps" for a
  proof -
    obtain k q where k: "map_of (states ps) k = Some q" "announces a q" using inv a by (auto simp: pex_inv_def)
    then have "k \<noteq> h" using p by (auto simp: announces_def)
    then show ?thesis using k by (intro exI [of _ k] exI [of _ q]) (simp add: delete_conv')
  qed
  then show ?thesis using inv p by (simp add: pex_inv_def drop_peer_def)
qed

lemma add_if_not_seen_pex:
  assumes inv: "pex_inv ps"
  shows "pex_inv (snd (add_if_not_seen b ps a))"
proof (cases "map_of (states ps) a")
  case None
  have "\<exists>k q. map_of (AList.update a v (states ps)) k = Some q \<and> announces x q" if "x \<in> live_outgoing_peers ps" for x v
    using inv that None unfolding pex_inv_def by (metis fun_upd_other option.distinct(1) update_conv')
  then show ?thesis using inv None by (simp add: add_if_not_seen_def pex_inv_def)
qed (simp add: add_if_not_seen_def inv)

end
