(* ===== verification/Storage.thy ===== *)
theory Storage
  imports Metadata
begin

text \<open>
  Storage backends: the \<^verbatim>\<open>TorrentStorage\<close> trait (\<^verbatim>\<open>storage/mod.rs\<close>) as the locale \<open>torrent_storage\<close>, and two of
  its implementations: \<^verbatim>\<open>FilesystemStorage\<close> (\<^verbatim>\<open>storage/filesystem/fs.rs\<close>, the default, on a Unix
  system) and \<^verbatim>\<open>InMemoryExampleStorage\<close> (\<^verbatim>\<open>storage/examples/inmemory.rs\<close>).

  A storage is abstracted to the byte it holds at each position of the torrent (\<open>tb\<close>). The locale
  promises that a read inside one file and one piece returns those bytes and that a write changes
  exactly its range. Both interpretations discharge this for the code's own address computations.
  An opened file of the file system backend is its contents; errors of the operating system other
  than reading past the end are not modelled, callers see them as any other error of the trait.
\<close>

subsection \<open>The file system backend\<close>

text \<open>\<open>None\<close> is the dummy opened for a padding file, and what \<open>take\<close> leaves behind.\<close>

type_synonym opened_file = "nat list option"

record filesystem_storage =
  output_folder :: "string list"
  opened_files :: "opened_file list"

definition read_exact_at :: "nat list \<Rightarrow> nat \<Rightarrow> nat \<Rightarrow> nat list res" where
  "read_exact_at content offset n =
     (if n = 0 \<or> offset + n \<le> length content then Inr (take n (drop offset content))
      else Inl (Bail ''failed to fill whole buffer''))"

definition write_all_at :: "nat list \<Rightarrow> nat \<Rightarrow> nat list \<Rightarrow> nat list" where
  "write_all_at content offset buf =
     (if buf = [] then content
      else take offset content @ replicate (offset - length content) 0 @ buf @ drop (offset + length buf) content)"

definition get_opened :: "filesystem_storage \<Rightarrow> nat \<Rightarrow> nat list res" where
  "get_opened s file_id =
     (if file_id < length (opened_files s)
      then of_option (Bail ''file is None'') (opened_files s ! file_id)
      else Inl (Bail ''no such file''))"

definition fs_pread_exact :: "filesystem_storage \<Rightarrow> nat \<Rightarrow> nat \<Rightarrow> nat \<Rightarrow> nat list res" where
  "fs_pread_exact s file_id offset n =
     rbind (get_opened s file_id) (\<lambda>content. read_exact_at content offset n)"

definition fs_pwrite_all :: "filesystem_storage \<Rightarrow> nat \<Rightarrow> nat \<Rightarrow> nat list \<Rightarrow> filesystem_storage res" where
  "fs_pwrite_all s file_id offset buf =
     rbind (get_opened s file_id) (\<lambda>content.
       Inr (s\<lparr>opened_files := (opened_files s)[file_id := Some (write_all_at content offset buf)]\<rparr>))"

text \<open>\<^verbatim>\<open>opened_files[file_id]\<close> panics out of range; \<^verbatim>\<open>set_len\<close> truncates or pads with zeros.\<close>

definition fs_ensure_file_length :: "filesystem_storage \<Rightarrow> nat \<Rightarrow> nat \<Rightarrow> filesystem_storage res" where
  "fs_ensure_file_length s file_id len =
     (if file_id < length (opened_files s) then
        rbind (of_option (Bail ''file is None'') (opened_files s ! file_id)) (\<lambda>content.
          Inr (s\<lparr>opened_files := (opened_files s)
                   [file_id := Some (take len content @ replicate (len - length content) 0)]\<rparr>))
      else Inl Panic)"

text \<open>The storage returned by \<open>take\<close>, and the one left behind.\<close>

definition fs_take :: "filesystem_storage \<Rightarrow> filesystem_storage \<times> filesystem_storage" where
  "fs_take s = (s, s\<lparr>opened_files := map (\<lambda>_. None) (opened_files s)\<rparr>)"

text \<open>\<open>init\<close> opens every file; \<open>disk\<close> gives the contents of the files that already exist.\<close>

fun fs_open_files :: "(string list \<Rightarrow> nat list option) \<Rightarrow> bool \<Rightarrow> string list \<Rightarrow> file_info list \<Rightarrow> opened_file list res" where
  "fs_open_files disk allow_overwrite folder [] = Inr []"
| "fs_open_files disk allow_overwrite folder (fi # fis) =
     (let full_path = folder @ relative_filename fi
      in rbind (if padding (fi_attrs fi) then Inr None
                else if allow_overwrite then
                  Inr (Some (case disk full_path of Some c \<Rightarrow> c | None \<Rightarrow> []))
                else (case disk full_path of
                        Some _ \<Rightarrow> Inl (Bail ''error creating a new file (because allow_overwrite = false)'')
                      | None \<Rightarrow> Inr (Some []))) (\<lambda>f.
         rbind (fs_open_files disk allow_overwrite folder fis) (\<lambda>fs. Inr (f # fs))))"

definition fs_init ::
  "(string list \<Rightarrow> nat list option) \<Rightarrow> bool \<Rightarrow> filesystem_storage \<Rightarrow> torrent_metadata \<Rightarrow> filesystem_storage res" where
  "fs_init disk allow_overwrite s metadata =
     rbind (fs_open_files disk allow_overwrite (output_folder s) (tm_file_infos metadata)) (\<lambda>fs.
       Inr (s\<lparr>opened_files := fs\<rparr>))"

subsection \<open>The in-memory backend\<close>

record inmemory_storage =
  im_lengths :: lengths
  im_file_infos :: "file_info list"
  im_map :: "valid_piece_index \<Rightarrow> nat list option"

definition inmemory_new :: "lengths \<Rightarrow> file_info list \<Rightarrow> inmemory_storage res" where
  "inmemory_new l fis =
     (if default_piece_length l = 0 then Inl Panic
      else if (128 * 1024 * 1024) div default_piece_length l = 0 then Inl (Bail ''pieces too large'')
      else Inr \<lparr>im_lengths = l, im_file_infos = fis, im_map = (\<lambda>_. None)\<rparr>)"

definition inmemory_piece :: "lengths \<Rightarrow> nat list" where
  "inmemory_piece l = replicate (default_piece_length l) 0"

text \<open>The address computation both accesses share: the piece and the offset in it.\<close>

definition im_locate :: "inmemory_storage \<Rightarrow> nat \<Rightarrow> nat \<Rightarrow> (valid_piece_index \<times> nat) res" where
  "im_locate s file_id offset =
     (if file_id < length (im_file_infos s) then
        let abs_offset = add64 (offset_in_torrent (im_file_infos s ! file_id)) offset;
            d = default_piece_length (im_lengths s)
        in rbind (of_option (Bail ''out of range integral type conversion attempted'') (try_u32 (abs_offset div d))) (\<lambda>pid.
           rbind (of_option (Bail ''bug'') (validate_piece_index (im_lengths s) pid)) (\<lambda>pid.
             Inr (pid, abs_offset mod d)))
      else Inl Panic)"

definition im_pread_exact :: "inmemory_storage \<Rightarrow> nat \<Rightarrow> nat \<Rightarrow> nat \<Rightarrow> nat list res" where
  "im_pread_exact s file_id offset n =
     rbind (im_locate s file_id offset) (\<lambda>(pid, piece_off).
     rbind (of_option (Bail ''piece expired'') (im_map s pid)) (\<lambda>bytes.
       if piece_off + n \<le> length bytes then Inr (take n (drop piece_off bytes)) else Inl Panic))"

definition im_pwrite_all :: "inmemory_storage \<Rightarrow> nat \<Rightarrow> nat \<Rightarrow> nat list \<Rightarrow> inmemory_storage res" where
  "im_pwrite_all s file_id offset buf =
     rbind (im_locate s file_id offset) (\<lambda>(pid, piece_off).
       let bytes = (case im_map s pid of Some b \<Rightarrow> b | None \<Rightarrow> inmemory_piece (im_lengths s))
       in if piece_off + length buf \<le> length bytes then
            Inr (s\<lparr>im_map := (im_map s)(pid \<mapsto>
                  take piece_off bytes @ buf @ drop (piece_off + length buf) bytes)\<rparr>)
          else Inl Panic)"

definition im_take :: "inmemory_storage \<Rightarrow> inmemory_storage \<times> inmemory_storage" where
  "im_take s = (s, s\<lparr>im_map := (\<lambda>_. None)\<rparr>)"

subsection \<open>The interface\<close>

text \<open>An access of \<open>n\<close> bytes at offset \<open>off\<close> of a regular file, at position \<open>y\<close> of the torrent, that stays in the
  file and in one piece.\<close>

definition access :: "lengths \<Rightarrow> file_info list \<Rightarrow> nat \<Rightarrow> nat \<Rightarrow> nat \<Rightarrow> nat \<Rightarrow> bool" where
  "access l fis f off n y \<longleftrightarrow>
     wf_lengths l \<and> wf_file_infos l fis \<and> f < length fis \<and> \<not> padding (fi_attrs (fis ! f)) \<and>
     off + n \<le> fi_len (fis ! f) \<and> y = offset_in_torrent (fis ! f) + off \<and> y < total_length l \<and>
     y mod default_piece_length l + n \<le> default_piece_length l"

locale torrent_storage =
  fixes pread :: "'s \<Rightarrow> nat \<Rightarrow> nat \<Rightarrow> nat \<Rightarrow> nat list res"
    and pwrite :: "'s \<Rightarrow> nat \<Rightarrow> nat \<Rightarrow> nat list \<Rightarrow> 's res"
    and invar :: "lengths \<Rightarrow> file_info list \<Rightarrow> 's \<Rightarrow> bool"
    and tb :: "lengths \<Rightarrow> file_info list \<Rightarrow> 's \<Rightarrow> nat \<Rightarrow> nat option"
  assumes pread_law: "invar l fis s \<Longrightarrow> access l fis f off n y \<Longrightarrow> tb l fis s y \<noteq> None \<Longrightarrow>
      (\<And>i. i < n \<Longrightarrow> tb l fis s (y + i) \<noteq> None) \<Longrightarrow>
      pread s f off n = Inr (map (\<lambda>i. the (tb l fis s (y + i))) [0..<n])"
    and pwrite_law: "invar l fis s \<Longrightarrow> access l fis f off (length bs) y \<Longrightarrow>
      \<exists>s'. pwrite s f off bs = Inr s' \<and> invar l fis s' \<and>
        (\<forall>z. y \<le> z \<and> z < y + length bs \<longrightarrow> tb l fis s' z = Some (bs ! (z - y))) \<and>
        (\<forall>z. \<not> (y \<le> z \<and> z < y + length bs) \<and> tb l fis s z \<noteq> None \<longrightarrow> tb l fis s' z = tb l fis s z)"

subsection \<open>The in-memory backend implements it\<close>

definition im_inv :: "lengths \<Rightarrow> file_info list \<Rightarrow> inmemory_storage \<Rightarrow> bool" where
  "im_inv l fis s \<longleftrightarrow> im_lengths s = l \<and> im_file_infos s = fis \<and>
     (\<forall>p b. im_map s p = Some b \<longrightarrow> length b = default_piece_length l)"

definition im_tb :: "lengths \<Rightarrow> file_info list \<Rightarrow> inmemory_storage \<Rightarrow> nat \<Rightarrow> nat option" where
  "im_tb l fis s y = map_option (\<lambda>b. b ! (y mod default_piece_length l)) (im_map s (y div default_piece_length l))"

lemma im_locate_ok:
  assumes inv: "im_inv l fis s" and a: "access l fis f off n y"
  shows "im_locate s f off = Inr (y div default_piece_length l, y mod default_piece_length l)"
proof -
  have wf: "wf_lengths l" and y: "y < total_length l" and f: "f < length fis"
    and yo: "y = offset_in_torrent (fis ! f) + off"
    using a by (auto simp: access_def)
  have "y < 2 ^ 64" using y wf_total [OF wf] by linarith
  then have 1: "add64 (offset_in_torrent (fis ! f)) off = y" using yo by (simp add: add64_exact)
  have p: "y div default_piece_length l < total_pieces l"
    using pieces.owner_exists [OF wf y] compute_current_piece_Some [OF wf, of 0 y]
      compute_current_piece_bounds(1) [OF wf, of 0 y] y by auto
  then have "try_u32 (y div default_piece_length l) = Some (y div default_piece_length l)"
    using piece_index_u32 [OF wf p] by (simp add: try_u32_def)
  moreover have "validate_piece_index l (y div default_piece_length l) = Some (y div default_piece_length l)"
    by (simp add: validate_piece_index_Some [OF wf] p)
  ultimately show ?thesis using inv f 1 by (simp add: im_locate_def im_inv_def Let_def)
qed

lemma same_piece:
  fixes y d i :: nat
  assumes "i < n" "y mod d + n \<le> d"
  shows "(y + i) div d = y div d" "(y + i) mod d = y mod d + i"
proof -
  have "y mod d + i < d" using assms by simp
  moreover have "y + i = y div d * d + (y mod d + i)" by simp
  ultimately show "(y + i) div d = y div d" "(y + i) mod d = y mod d + i"
    by (metis add.right_neutral div_less div_mult_self3 gr_implies_not0 mod_less mod_mult_self3)+
qed

lemma im_pread_law:
  assumes inv: "im_inv l fis s" and a: "access l fis f off n y" and y: "im_tb l fis s y \<noteq> None"
  shows "im_pread_exact s f off n = Inr (map (\<lambda>i. the (im_tb l fis s (y + i))) [0..<n])"
proof -
  let ?d = "default_piece_length l"
  obtain b where b: "im_map s (y div ?d) = Some b" using y by (auto simp: im_tb_def)
  have len: "length b = ?d" using inv b by (auto simp: im_inv_def)
  have le: "y mod ?d + n \<le> ?d" using a unfolding access_def by blast
  have "the (im_tb l fis s (y + i)) = b ! (y mod ?d + i)" if "i < n" for i
    using same_piece [OF that le] b by (simp add: im_tb_def)
  then have "map (\<lambda>i. the (im_tb l fis s (y + i))) [0..<n] = take n (drop (y mod ?d) b)"
    using le len by (intro nth_equalityI) auto
  then show ?thesis using b len le by (simp add: im_pread_exact_def im_locate_ok [OF inv a])
qed

lemma im_pwrite_law:
  assumes inv: "im_inv l fis s" and a: "access l fis f off (length bs) y"
  shows "\<exists>s'. im_pwrite_all s f off bs = Inr s' \<and> im_inv l fis s' \<and>
        (\<forall>z. y \<le> z \<and> z < y + length bs \<longrightarrow> im_tb l fis s' z = Some (bs ! (z - y))) \<and>
        (\<forall>z. \<not> (y \<le> z \<and> z < y + length bs) \<and> im_tb l fis s z \<noteq> None \<longrightarrow> im_tb l fis s' z = im_tb l fis s z)"
proof -
  let ?d = "default_piece_length l"
  let ?p = "y div ?d" and ?o = "y mod ?d"
  define b where "b = (case im_map s ?p of Some b \<Rightarrow> b | None \<Rightarrow> inmemory_piece (im_lengths s))"
  have len: "length b = ?d" using inv by (auto simp: b_def im_inv_def inmemory_piece_def split: option.split)
  have le: "?o + length bs \<le> ?d" using a unfolding access_def by blast
  let ?b' = "take ?o b @ bs @ drop (?o + length bs) b"
  let ?s' = "s\<lparr>im_map := (im_map s)(?p \<mapsto> ?b')\<rparr>"
  have len': "length ?b' = ?d" using len le by simp
  have w: "im_pwrite_all s f off bs = Inr ?s'"
    using im_locate_ok [OF inv a] len le by (simp add: im_pwrite_all_def b_def Let_def)
  moreover have "im_inv l fis ?s'" using inv len' by (auto simp: im_inv_def split: if_splits)
  moreover have "im_tb l fis ?s' z = Some (bs ! (z - y))" if z: "y \<le> z" "z < y + length bs" for z
  proof -
    have i: "z - y < length bs" "z = y + (z - y)" using z by auto
    then have "z div ?d = ?p" "z mod ?d = ?o + (z - y)" using same_piece [OF i(1) le] by simp_all
    then show ?thesis using i(1) len le by (simp add: im_tb_def nth_append)
  qed
  moreover have "im_tb l fis ?s' z = im_tb l fis s z"
    if z: "\<not> (y \<le> z \<and> z < y + length bs)" and some: "im_tb l fis s z \<noteq> None" for z
  proof (cases "z div ?d = ?p")
    case True
    then obtain c where c: "im_map s ?p = Some c" using some by (auto simp: im_tb_def)
    have m: "z = ?p * ?d + z mod ?d" "y = ?p * ?d + ?o" using True by (metis div_mult_mod_eq)+
    then have o: "z mod ?d < ?o \<or> ?o + length bs \<le> z mod ?d" using z by linarith
    have "z mod ?d < ?d" using wf_dpl [of l] a by (simp add: access_def)
    then show ?thesis using o True c len le b_def by (auto simp: im_tb_def nth_append)
  next
    case False
    then show ?thesis by (simp add: im_tb_def)
  qed
  ultimately show ?thesis by (intro exI [of _ ?s']) blast
qed

interpretation inmemory: torrent_storage im_pread_exact im_pwrite_all im_inv im_tb
  by unfold_locales (erule (2) im_pread_law, erule (1) im_pwrite_law)

subsection \<open>The file system backend implements it\<close>

definition owner :: "file_info list \<Rightarrow> nat \<Rightarrow> nat option" where
  "owner fis y = List.find (\<lambda>i. offset_in_torrent (fis ! i) \<le> y \<and> y < offset_in_torrent (fis ! i) + fi_len (fis ! i))
     [0..<length fis]"

definition fs_inv :: "lengths \<Rightarrow> file_info list \<Rightarrow> filesystem_storage \<Rightarrow> bool" where
  "fs_inv l fis s \<longleftrightarrow> length (opened_files s) = length fis \<and>
     (\<forall>i < length fis. opened_files s ! i = None \<longleftrightarrow> padding (fi_attrs (fis ! i)))"

text \<open>A padding file reads as zeros.\<close>

definition fs_tb :: "lengths \<Rightarrow> file_info list \<Rightarrow> filesystem_storage \<Rightarrow> nat \<Rightarrow> nat option" where
  "fs_tb l fis s y =
     (case owner fis y of
        None \<Rightarrow> None
      | Some i \<Rightarrow>
          (case opened_files s ! i of
             None \<Rightarrow> Some 0
           | Some c \<Rightarrow> let j = y - offset_in_torrent (fis ! i) in if j < length c then Some (c ! j) else None))"

lemma owner_eq:
  assumes "wf_lengths l" "wf_file_infos l fis" "i < length fis"
    and "offset_in_torrent (fis ! i) \<le> y" "y < offset_in_torrent (fis ! i) + fi_len (fis ! i)"
  shows "owner fis y = Some i"
proof -
  let ?P = "\<lambda>i. offset_in_torrent (fis ! i) \<le> y \<and> y < offset_in_torrent (fis ! i) + fi_len (fis ! i)"
  have "j = i" if "j < length fis" "?P j" for j
    using files.owner_unique [of "(l, fis)" j i y] assms that by simp
  then have "\<not> ?P j" if "j < i" for j using that assms(3) by (metis less_trans less_irrefl)
  then have "find ?P [0..<length fis] = Some i"
    unfolding find_Some_iff using assms by (intro exI [of _ i]) simp
  then show ?thesis by (simp add: owner_def)
qed

lemma owner_Some: "owner fis y = Some i \<Longrightarrow> i < length fis \<and>
    offset_in_torrent (fis ! i) \<le> y \<and> y < offset_in_torrent (fis ! i) + fi_len (fis ! i)"
  by (auto simp: owner_def find_Some_iff)

lemma access_owner: "access l fis f off n y \<Longrightarrow> i < n \<Longrightarrow> owner fis (y + i) = Some f"
  by (rule owner_eq [of l]) (auto simp: access_def)

lemma fs_get_opened:
  assumes "fs_inv l fis s" "access l fis f off n y"
  obtains c where "opened_files s ! f = Some c" "get_opened s f = Inr c" "f < length (opened_files s)"
proof -
  have f: "f < length (opened_files s)" "opened_files s ! f \<noteq> None"
    using assms by (auto simp: fs_inv_def access_def)
  then obtain c where "opened_files s ! f = Some c" by blast
  then show ?thesis using that f by (simp add: get_opened_def)
qed

lemma fs_tb_access:
  assumes "access l fis f off n y" "i < n" "opened_files s ! f = Some c"
  shows "fs_tb l fis s (y + i) = (if off + i < length c then Some (c ! (off + i)) else None)"
  using access_owner [OF assms(1,2)] assms by (simp add: fs_tb_def access_def Let_def)

lemma fs_pread_law:
  assumes inv: "fs_inv l fis s" and a: "access l fis f off n y"
    and all: "\<And>i. i < n \<Longrightarrow> fs_tb l fis s (y + i) \<noteq> None"
  shows "fs_pread_exact s f off n = Inr (map (\<lambda>i. the (fs_tb l fis s (y + i))) [0..<n])"
proof -
  obtain c where c: "opened_files s ! f = Some c" "get_opened s f = Inr c" using fs_get_opened [OF inv a] .
  have le: "n = 0 \<or> off + n \<le> length c"
  proof (cases n)
    case (Suc m)
    then show ?thesis using all [of m] fs_tb_access [OF a, of m s c] c by (auto split: if_splits)
  qed simp
  then have "map (\<lambda>i. the (fs_tb l fis s (y + i))) [0..<n] = take n (drop off c)"
    using fs_tb_access [OF a _ c(1)] by (intro nth_equalityI) auto
  then show ?thesis using c le by (auto simp: fs_pread_exact_def read_exact_at_def)
qed

lemma write_all_at_nth:
  assumes "i < length bs"
  shows "write_all_at c off bs ! (off + i) = bs ! i" "off + i < length (write_all_at c off bs)"
  using assms by (auto simp: write_all_at_def nth_append min_def)

lemma write_all_at_other:
  assumes "j < length c" "\<not> (off \<le> j \<and> j < off + length bs)"
  shows "write_all_at c off bs ! j = c ! j" "j < length (write_all_at c off bs)"
  using assms by (auto simp: write_all_at_def nth_append)

lemma fs_pwrite_law:
  assumes inv: "fs_inv l fis s" and a: "access l fis f off (length bs) y"
  shows "\<exists>s'. fs_pwrite_all s f off bs = Inr s' \<and> fs_inv l fis s' \<and>
        (\<forall>z. y \<le> z \<and> z < y + length bs \<longrightarrow> fs_tb l fis s' z = Some (bs ! (z - y))) \<and>
        (\<forall>z. \<not> (y \<le> z \<and> z < y + length bs) \<and> fs_tb l fis s z \<noteq> None \<longrightarrow> fs_tb l fis s' z = fs_tb l fis s z)"
proof -
  obtain c where c: "opened_files s ! f = Some c" "get_opened s f = Inr c" "f < length (opened_files s)"
    using fs_get_opened [OF inv a] .
  let ?c' = "write_all_at c off bs"
  let ?s' = "s\<lparr>opened_files := (opened_files s)[f := Some ?c']\<rparr>"
  have c': "opened_files ?s' ! f = Some ?c'" using c by simp
  have "fs_pwrite_all s f off bs = Inr ?s'" using c by (simp add: fs_pwrite_all_def)
  moreover have "fs_inv l fis ?s'" using inv c by (auto simp: fs_inv_def nth_list_update)
  moreover have "fs_tb l fis ?s' z = Some (bs ! (z - y))" if z: "y \<le> z" "z < y + length bs" for z
  proof -
    obtain i where i: "z = y + i" "i < length bs" using z by (metis add_less_cancel_left le_Suc_ex)
    then show ?thesis using fs_tb_access [OF a i(2) c'] write_all_at_nth [OF i(2)] by simp
  qed
  moreover have "fs_tb l fis ?s' z = fs_tb l fis s z"
    if z: "\<not> (y \<le> z \<and> z < y + length bs)" and some: "fs_tb l fis s z \<noteq> None" for z
  proof -
    obtain i where i: "owner fis z = Some i" using some by (auto simp: fs_tb_def split: option.splits)
    show ?thesis
    proof (cases "i = f")
      case True
      let ?j = "z - offset_in_torrent (fis ! f)"
      have "?j < length c" using some i True c by (auto simp: fs_tb_def Let_def split: if_splits)
      moreover have "\<not> (off \<le> ?j \<and> ?j < off + length bs)"
        using z owner_Some [OF i] True a by (auto simp: access_def)
      ultimately show ?thesis using write_all_at_other [of ?j c off bs] i True c by (simp add: fs_tb_def Let_def)
    next
      case False
      then show ?thesis using i by (simp add: fs_tb_def)
    qed
  qed
  ultimately show ?thesis by (intro exI [of _ ?s']) blast
qed

interpretation filesystem: torrent_storage fs_pread_exact fs_pwrite_all fs_inv fs_tb
  by unfold_locales (rule fs_pread_law, assumption+, erule (1) fs_pwrite_law)

end
