(* ===== verification/File_Ops.thy ===== *)
theory File_Ops
  imports Storage Protocol
begin

text \<open>
  Reading, writing and checking pieces: \<^verbatim>\<open>file_ops.rs\<close>. The operations are functions of the storage's
  \<open>pread\<close> and \<open>pwrite\<close>, as the code takes a \<^verbatim>\<open>dyn TorrentStorage\<close>, and of the hash function \<open>sha1\<close>, which its
  crate computes incrementally: a hash state is the list of bytes fed to it.

  All of them walk the files from the first one to find the bytes of a chunk or a piece. The walk is
  verified once (\<open>segs_chain\<close>); the correctness of reading, writing and checking is proved in the
  locale \<open>torrent_storage\<close> and so holds for every backend that keeps its contract.
\<close>

subsection \<open>Operations\<close>

function update_hash_from_file ::
  "('s \<Rightarrow> nat \<Rightarrow> nat \<Rightarrow> nat \<Rightarrow> nat list res) \<Rightarrow> nat \<Rightarrow> file_info \<Rightarrow> nat \<Rightarrow> 's \<Rightarrow> nat list \<Rightarrow> nat \<Rightarrow> nat \<Rightarrow> nat list res" where
  "update_hash_from_file pread file_id fi pos files hash buf_len bytes_to_read =
     (if bytes_to_read = 0 then Inr hash
      else
        let chunk = min buf_len bytes_to_read in
        if chunk = 0 then Inl Diverge
        else
          rbind (if padding (fi_attrs fi) then Inr (replicate chunk 0) else pread files file_id pos chunk) (\<lambda>bs.
            update_hash_from_file pread file_id fi (add64 pos chunk) files (hash @ bs) buf_len (bytes_to_read - chunk)))"
  by pat_completeness auto
termination
  by (relation "measure (\<lambda>(_, _, _, _, _, _, _, n). n)") auto

declare update_hash_from_file.simps [simp del]

fun check_piece_files ::
  "('s \<Rightarrow> nat \<Rightarrow> nat \<Rightarrow> nat \<Rightarrow> nat list res) \<Rightarrow> 's \<Rightarrow> nat \<Rightarrow> (nat \<times> file_info) list \<Rightarrow> nat \<Rightarrow> nat \<Rightarrow> nat list \<Rightarrow> nat list res" where
  "check_piece_files pread files buf_len [] absolute_offset piece_remaining_bytes h = Inr h"
| "check_piece_files pread files buf_len ((file_idx, fi) # fs) absolute_offset piece_remaining_bytes h =
     (if absolute_offset > fi_len fi then
        check_piece_files pread files buf_len fs (absolute_offset - fi_len fi) piece_remaining_bytes h
      else
        let to_read_in_file = min (fi_len fi - absolute_offset) piece_remaining_bytes
        in rbind (update_hash_from_file pread file_idx fi absolute_offset files h buf_len to_read_in_file) (\<lambda>h.
             if piece_remaining_bytes - to_read_in_file = 0 then Inr h
             else check_piece_files pread files buf_len fs 0 (piece_remaining_bytes - to_read_in_file) h))"

definition check_piece ::
  "('s \<Rightarrow> nat \<Rightarrow> nat \<Rightarrow> nat \<Rightarrow> nat list res) \<Rightarrow> (nat list \<Rightarrow> nat list) \<Rightarrow> meta_info \<Rightarrow> file_info list \<Rightarrow> lengths \<Rightarrow> 's
   \<Rightarrow> valid_piece_index \<Rightarrow> bool res" where
  "check_piece pread sha1 info file_infos l files piece_index =
     (let plen = piece_length l piece_index in
      rbind (check_piece_files pread files (min 65536 plen) (List.enumerate 0 file_infos)
               (piece_offset l piece_index) plen []) (\<lambda>h.
        of_option (Bail ''compare_hash() did not find the piece'') (compare_hash info piece_index (sha1 h))))"

fun read_chunk_files ::
  "('s \<Rightarrow> nat \<Rightarrow> nat \<Rightarrow> nat \<Rightarrow> nat list res) \<Rightarrow> 's \<Rightarrow> (nat \<times> file_info) list \<Rightarrow> nat \<Rightarrow> nat list \<Rightarrow> nat list res" where
  "read_chunk_files pread files [] absolute_offset buf = Inr buf"
| "read_chunk_files pread files ((file_idx, fi) # fs) absolute_offset buf =
     (if absolute_offset > fi_len fi then
        read_chunk_files pread files fs (absolute_offset - fi_len fi) buf
      else
        let to_read_in_file = min (fi_len fi - absolute_offset) (length buf)
        in rbind (if padding (fi_attrs fi) then Inr (replicate to_read_in_file 0)
                  else pread files file_idx absolute_offset to_read_in_file) (\<lambda>bs.
             let buf = drop to_read_in_file buf
             in if buf = [] then Inr bs
                else rbind (read_chunk_files pread files fs 0 buf) (\<lambda>r. Inr (bs @ r))))"

definition read_chunk ::
  "('s \<Rightarrow> nat \<Rightarrow> nat \<Rightarrow> nat \<Rightarrow> nat list res) \<Rightarrow> file_info list \<Rightarrow> lengths \<Rightarrow> 's \<Rightarrow> chunk_info \<Rightarrow> nat list \<Rightarrow> nat list res" where
  "read_chunk pread file_infos l files chunk_info result_buf =
     (if length result_buf < ci_size chunk_info
      then Inl (Bail ''read_chunk(): not enough capacity in the provided buffer'')
      else read_chunk_files pread files (List.enumerate 0 file_infos) (chunk_absolute_offset l chunk_info) result_buf)"

fun write_chunk_files ::
  "('s \<Rightarrow> nat \<Rightarrow> nat \<Rightarrow> nat list \<Rightarrow> 's res) \<Rightarrow> 's \<Rightarrow> (nat \<times> file_info) list \<Rightarrow> nat \<Rightarrow> nat list \<Rightarrow> 's res" where
  "write_chunk_files pwrite files [] absolute_offset buf = Inr files"
| "write_chunk_files pwrite files ((file_idx, fi) # fs) absolute_offset buf =
     (if absolute_offset > fi_len fi then
        write_chunk_files pwrite files fs (absolute_offset - fi_len fi) buf
      else
        let to_write = min (length buf) (fi_len fi - absolute_offset)
        in rbind (if padding (fi_attrs fi) then Inr files
                  else pwrite files file_idx absolute_offset (take to_write buf)) (\<lambda>files.
             let buf = drop to_write buf
             in if buf = [] then Inr files else write_chunk_files pwrite files fs 0 buf))"

definition write_chunk ::
  "('s \<Rightarrow> nat \<Rightarrow> nat \<Rightarrow> nat list \<Rightarrow> 's res) \<Rightarrow> file_info list \<Rightarrow> lengths \<Rightarrow> 's \<Rightarrow> piece_msg \<Rightarrow> chunk_info \<Rightarrow> 's res" where
  "write_chunk pwrite file_infos l files data chunk_info =
     write_chunk_files pwrite files (List.enumerate 0 file_infos) (chunk_absolute_offset l chunk_info) (pm_block data)"

subsection \<open>The initial check\<close>

record current_file =
  cf_index :: nat
  cf_fi :: file_info
  processed_bytes :: nat
  is_broken :: bool

definition cf_remaining :: "current_file \<Rightarrow> nat" where
  "cf_remaining cf = sub64 (fi_len (cf_fi cf)) (processed_bytes cf)"

definition cf_of :: "nat \<times> file_info \<Rightarrow> current_file" where
  "cf_of e = \<lparr>cf_index = fst e, cf_fi = snd e, processed_bytes = 0, is_broken = False\<rparr>"

text \<open>The inner \<^verbatim>\<open>while to_read_in_file == 0\<close>: move to the first file with bytes left.\<close>

fun ic_seek :: "current_file \<Rightarrow> (nat \<times> file_info) list \<Rightarrow> nat \<Rightarrow> (current_file \<times> (nat \<times> file_info) list \<times> nat) res" where
  "ic_seek cf [] piece_remaining =
     (let n = min (cf_remaining cf) piece_remaining
      in if n = 0 then Inl (Bail ''broken torrent metadata'') else Inr (cf, [], n))"
| "ic_seek cf (e # es) piece_remaining =
     (let n = min (cf_remaining cf) piece_remaining
      in if n = 0 then ic_seek (cf_of e) es piece_remaining else Inr (cf, e # es, n))"

lemma ic_seek_pos: "ic_seek cf es r = Inr (cf', es', n) \<Longrightarrow> 0 < n \<and> n \<le> r"
  by (induction cf es r rule: ic_seek.induct) (auto simp: Let_def split: if_splits)

text \<open>The \<^verbatim>\<open>while piece_remaining > 0\<close> loop of one piece: the file cursor, the hash so far and whether a read
  failed. What a failed read has already fed to the hash is left out: the hash of a piece with a
  failed read is never looked at.\<close>

function ic_piece ::
  "('s \<Rightarrow> nat \<Rightarrow> nat \<Rightarrow> nat \<Rightarrow> nat list res) \<Rightarrow> 's \<Rightarrow> current_file \<Rightarrow> (nat \<times> file_info) list \<Rightarrow> nat \<Rightarrow> nat list \<Rightarrow> bool
   \<Rightarrow> (current_file \<times> (nat \<times> file_info) list \<times> nat list \<times> bool) res" where
  "ic_piece pread files cf es piece_remaining computed_hash some_files_broken =
     (if piece_remaining = 0 then Inr (cf, es, computed_hash, some_files_broken)
      else
        case ic_seek cf es piece_remaining of
          Inl e \<Rightarrow> Inl e
        | Inr (cf, es, n) \<Rightarrow>
            let pos = processed_bytes cf;
                piece_remaining = piece_remaining - n;
                cf = cf\<lparr>processed_bytes := add64 (processed_bytes cf) n\<rparr>
            in if is_broken cf then ic_piece pread files cf es piece_remaining computed_hash some_files_broken
               else
                 case update_hash_from_file pread (cf_index cf) (cf_fi cf) pos files computed_hash 65536 n of
                   Inl _ \<Rightarrow> ic_piece pread files (cf\<lparr>is_broken := True\<rparr>) es piece_remaining computed_hash True
                 | Inr h \<Rightarrow> ic_piece pread files cf es piece_remaining h some_files_broken)"
  by pat_completeness auto
termination
  by (relation "measure (\<lambda>(_, _, _, _, r, _, _). r)") (auto dest: ic_seek_pos)

declare ic_piece.simps [simp del]

fun ic_pieces ::
  "('s \<Rightarrow> nat \<Rightarrow> nat \<Rightarrow> nat \<Rightarrow> nat list res) \<Rightarrow> (nat list \<Rightarrow> nat list) \<Rightarrow> meta_info \<Rightarrow> 's \<Rightarrow> piece_info list \<Rightarrow> current_file
   \<Rightarrow> (nat \<times> file_info) list \<Rightarrow> bits \<Rightarrow> nat \<Rightarrow> (bits \<times> nat) res" where
  "ic_pieces pread sha1 info files [] cf es have_pieces progress = Inr (have_pieces, progress)"
| "ic_pieces pread sha1 info files (pi # pis) cf es have_pieces progress =
     rbind (ic_piece pread files cf es (pi_len pi) [] False) (\<lambda>(cf, es, h, broken).
       let progress = add64 progress (pi_len pi) in
       if broken then ic_pieces pread sha1 info files pis cf es have_pieces progress
       else
         rbind (of_option (Bail ''bug: either torrent info broken or we have a bug - piece index invalid'')
                  (compare_hash info (pi_index pi) (sha1 h))) (\<lambda>ok.
         rbind (if ok then bf_set have_pieces (pi_index pi) True else Inr have_pieces) (\<lambda>have_pieces.
           ic_pieces pread sha1 info files pis cf es have_pieces progress)))"

text \<open>The pieces found, and the number of bytes reported as checked.\<close>

definition initial_check ::
  "('s \<Rightarrow> nat \<Rightarrow> nat \<Rightarrow> nat \<Rightarrow> nat list res) \<Rightarrow> (nat list \<Rightarrow> nat list) \<Rightarrow> meta_info \<Rightarrow> file_info list \<Rightarrow> lengths \<Rightarrow> 's
   \<Rightarrow> nat \<Rightarrow> (bits \<times> nat) res" where
  "initial_check pread sha1 info file_infos l files progress =
     (case List.enumerate 0 file_infos of
        [] \<Rightarrow> Inl (Bail ''empty input file list'')
      | e # es \<Rightarrow>
          ic_pieces pread sha1 info files (iter_piece_infos l) (cf_of e) es
            (zero_bytes_bf (piece_bitfield_bytes l)) progress)"

subsection \<open>The walk over the files\<close>

text \<open>The parts of files that \<open>n\<close> bytes, \<open>off\<close> bytes into the remaining files, consist of.\<close>

fun segs :: "(nat \<times> file_info) list \<Rightarrow> nat \<Rightarrow> nat \<Rightarrow> (nat \<times> file_info \<times> nat \<times> nat) list" where
  "segs [] off n = []"
| "segs ((i, fi) # fs) off n =
     (if off > fi_len fi then segs fs (off - fi_len fi) n
      else let m = min (fi_len fi - off) n
           in (i, fi, off, m) # (if n - m = 0 then [] else segs fs 0 (n - m)))"

text \<open>Consecutive parts of files that start at position \<open>x\<close> of the torrent and have \<open>n\<close> bytes in all.\<close>

fun seg_chain :: "lengths \<Rightarrow> file_info list \<Rightarrow> nat \<Rightarrow> nat \<Rightarrow> (nat \<times> file_info \<times> nat \<times> nat) list \<Rightarrow> bool" where
  "seg_chain l fis x n [] \<longleftrightarrow> n = 0"
| "seg_chain l fis x n ((i, fi, off, m) # sg) \<longleftrightarrow>
     i < length fis \<and> fi = fis ! i \<and> off + m \<le> fi_len fi \<and> x = offset_in_torrent fi + off \<and> x < total_length l \<and>
     x mod default_piece_length l + m \<le> default_piece_length l \<and> m \<le> n \<and> 0 < n \<and>
     seg_chain l fis (x + m) (n - m) sg"

definition file_start :: "lengths \<Rightarrow> file_info list \<Rightarrow> nat \<Rightarrow> nat" where
  "file_start l fis i = (if i < length fis then offset_in_torrent (fis ! i) else total_length l)"

lemma file_start_Suc:
  assumes "wf_lengths l" "wf_file_infos l fis" "i < length fis"
  shows "file_start l fis (Suc i) = file_start l fis i + fi_len (fis ! i)"
proof (cases "Suc i < length fis")
  case True
  then show ?thesis
    using files.start_Suc [of "(l, fis)" i] assms by (simp add: file_start_def)
next
  case False
  then have "i = length fis - 1" using assms(3) by simp
  then show ?thesis using wf_file_last [OF assms(2)] assms(3) False by (simp add: file_start_def)
qed

lemma mod_shift: "m < n \<Longrightarrow> x mod d + n \<le> d \<Longrightarrow> (x + m) mod d + (n - m) \<le> d" for x d :: nat
  using same_piece(2) [of m n x d] by simp

lemma segs_chain:
  assumes wf: "wf_lengths l" "wf_file_infos l fis" and i: "i \<le> length fis" and n: "0 < n"
    and x: "x = file_start l fis i + off" "x + n \<le> total_length l"
      "x mod default_piece_length l + n \<le> default_piece_length l"
  shows "seg_chain l fis x n (segs (List.enumerate i (drop i fis)) off n)"
  using i n x
proof (induction "length fis - i" arbitrary: i off n x)
  case 0
  then show ?case by (simp add: file_start_def)
next
  case (Suc k)
  then have i: "i < length fis" and k: "k = length fis - Suc i" by auto
  let ?fi = "fis ! i"
  have e: "List.enumerate i (drop i fis) = (i, ?fi) # List.enumerate (Suc i) (drop (Suc i) fis)"
    using i by (metis Cons_nth_drop_Suc enumerate_simps(2))
  have st: "file_start l fis i = offset_in_torrent ?fi" using i by (simp add: file_start_def)
  note suc = file_start_Suc [OF wf i]
  show ?case
  proof (cases "off > fi_len ?fi")
    case True
    then have "x = file_start l fis (Suc i) + (off - fi_len ?fi)" using Suc.prems(3) suc by simp
    then show ?thesis
      using Suc.hyps(1) [OF k _ Suc.prems(2) _ Suc.prems(4,5), of "off - fi_len ?fi"] True i
      by (simp only: e segs.simps if_True Suc_leI)
  next
    case False
    define m where "m = min (fi_len ?fi - off) n"
    have m: "off + m \<le> fi_len ?fi" "m \<le> n" using False by (auto simp: m_def)
    have rest: "seg_chain l fis (x + m) (n - m)
        (if n - m = 0 then [] else segs (List.enumerate (Suc i) (drop (Suc i) fis)) 0 (n - m))"
    proof (cases "n - m = 0")
      case f: False
      then have mn: "m < n" "m = fi_len ?fi - off" by (auto simp: m_def)
      then have "x + m = file_start l fis (Suc i) + 0" using suc Suc.prems(3) False by simp
      then show ?thesis
        using Suc.hyps(1) [OF k, of "n - m" "x + m" 0] f i mn Suc.prems(4)
          mod_shift [OF mn(1) Suc.prems(5)] by simp
    qed simp
    have "x < total_length l" "x = offset_in_torrent ?fi + off" using Suc.prems st by auto
    then show ?thesis
      using rest m i False e Suc.prems(2,5) by (simp add: m_def [symmetric] Let_def)
  qed
qed

text \<open>Each operation is a fold over these parts.\<close>

fun read_segs ::
  "('s \<Rightarrow> nat \<Rightarrow> nat \<Rightarrow> nat \<Rightarrow> nat list res) \<Rightarrow> 's \<Rightarrow> (nat \<times> file_info \<times> nat \<times> nat) list \<Rightarrow> nat list \<Rightarrow> nat list res" where
  "read_segs pread s [] buf = Inr buf"
| "read_segs pread s ((i, fi, off, m) # sg) buf =
     rbind (if padding (fi_attrs fi) then Inr (replicate m 0) else pread s i off m) (\<lambda>bs.
     rbind (read_segs pread s sg (drop m buf)) (\<lambda>r. Inr (bs @ r)))"

fun write_segs :: "('s \<Rightarrow> nat \<Rightarrow> nat \<Rightarrow> nat list \<Rightarrow> 's res) \<Rightarrow> 's \<Rightarrow> (nat \<times> file_info \<times> nat \<times> nat) list \<Rightarrow> nat list \<Rightarrow> 's res" where
  "write_segs pwrite s [] buf = Inr s"
| "write_segs pwrite s ((i, fi, off, m) # sg) buf =
     rbind (if padding (fi_attrs fi) then Inr s else pwrite s i off (take m buf)) (\<lambda>s.
       write_segs pwrite s sg (drop m buf))"

fun hash_segs ::
  "('s \<Rightarrow> nat \<Rightarrow> nat \<Rightarrow> nat \<Rightarrow> nat list res) \<Rightarrow> 's \<Rightarrow> nat \<Rightarrow> (nat \<times> file_info \<times> nat \<times> nat) list \<Rightarrow> nat list \<Rightarrow> nat list res" where
  "hash_segs pread s b [] h = Inr h"
| "hash_segs pread s b ((i, fi, off, m) # sg) h =
     rbind (update_hash_from_file pread i fi off s h b m) (hash_segs pread s b sg)"

lemma read_chunk_files_segs:
  "read_chunk_files pread s fs off buf = read_segs pread s (segs fs off (length buf)) buf"
proof (induction fs arbitrary: off buf)
  case Nil
  then show ?case by simp
next
  case (Cons e fs)
  obtain i fi where e: "e = (i, fi)" by (cases e)
  define m where "m = min (fi_len fi - off) (length buf)"
  have "drop m buf = [] \<longleftrightarrow> length buf - m = 0" by auto
  then show ?case
    using Cons [of 0 "drop m buf"] Cons [of "off - fi_len fi" buf] e
    by (auto simp: Let_def m_def [symmetric] rbind_def split: sum.split)
qed

lemma write_chunk_files_segs:
  "write_chunk_files pwrite s fs off buf = write_segs pwrite s (segs fs off (length buf)) buf"
proof (induction fs arbitrary: off buf s)
  case Nil
  then show ?case by simp
next
  case (Cons e fs)
  obtain i fi where e: "e = (i, fi)" by (cases e)
  define m where "m = min (fi_len fi - off) (length buf)"
  have m': "min (length buf) (fi_len fi - off) = m" by (simp add: m_def min.commute)
  have "drop m buf = [] \<longleftrightarrow> length buf - m = 0" by auto
  then show ?case
    using Cons [of _ 0 "drop m buf"] Cons [of s "off - fi_len fi" buf] e
    by (auto simp: Let_def m_def [symmetric] m' rbind_def split: sum.split)
qed

lemma check_piece_files_segs:
  "check_piece_files pread s b fs off n h = hash_segs pread s b (segs fs off n) h"
proof (induction fs arbitrary: off n h)
  case Nil
  then show ?case by simp
next
  case (Cons e fs)
  then show ?case by (cases e) (auto simp: Let_def rbind_def split: sum.split)
qed

subsection \<open>What the operations do to the torrent's bytes\<close>

text \<open>The byte a reader sees at position \<open>x\<close>, where \<open>t\<close> gives the bytes of the storage: a padding file is
  all zeros.\<close>

definition seen :: "file_info list \<Rightarrow> (nat \<Rightarrow> nat option) \<Rightarrow> nat \<Rightarrow> nat" where
  "seen fis t x =
     (case owner fis x of Some i \<Rightarrow> if padding (fi_attrs (fis ! i)) then 0 else the (t x) | None \<Rightarrow> 0)"

definition seen_bytes :: "file_info list \<Rightarrow> (nat \<Rightarrow> nat option) \<Rightarrow> nat \<Rightarrow> nat \<Rightarrow> nat list" where
  "seen_bytes fis t x n = map (\<lambda>i. seen fis t (x + i)) [0..<n]"

definition regular :: "file_info list \<Rightarrow> nat \<Rightarrow> bool" where
  "regular fis x \<longleftrightarrow> (\<exists>i. owner fis x = Some i \<and> \<not> padding (fi_attrs (fis ! i)))"

lemma length_seen_bytes [simp]: "length (seen_bytes fis t x n) = n"
  by (simp add: seen_bytes_def)

lemma seen_bytes_append: "seen_bytes fis t x m @ seen_bytes fis t (x + m) n = seen_bytes fis t x (m + n)"
proof -
  have "[m..<m + n] = map (\<lambda>i. m + i) [0..<n]" using map_add_upt [of m n] by (simp add: add.commute)
  then have "map (\<lambda>i. seen fis t (x + m + i)) [0..<n] = map (\<lambda>i. seen fis t (x + i)) [m..<m + n]"
    by (simp add: comp_def add.assoc)
  then show ?thesis using upt_add_eq_append [of 0 m n] by (simp add: seen_bytes_def)
qed

lemma seg_owner:
  assumes wf: "wf_lengths l" "wf_file_infos l fis" and sg: "seg_chain l fis x n ((i, fi, off, m) # sg)" and j: "j < m"
  shows "owner fis (x + j) = Some i"
  by (rule owner_eq [OF wf]) (use sg j in auto)

context torrent_storage
begin

lemma segment_read:
  assumes wf: "wf_lengths l" "wf_file_infos l fis" and inv: "invar l fis s"
    and a: "i < length fis" "off + m \<le> fi_len (fis ! i)" "x = offset_in_torrent (fis ! i) + off" "x < total_length l"
      "x mod default_piece_length l + m \<le> default_piece_length l"
    and some: "tb l fis s x \<noteq> None" "\<And>j. j < m \<Longrightarrow> tb l fis s (x + j) \<noteq> None"
  shows "(if padding (fi_attrs (fis ! i)) then Inr (replicate m 0) else pread s i off m)
    = Inr (seen_bytes fis (tb l fis s) x m)"
proof -
  have o: "owner fis (x + j) = Some i" if "j < m" for j by (rule owner_eq [OF wf]) (use a that in auto)
  show ?thesis
  proof (cases "padding (fi_attrs (fis ! i))")
    case True
    then have "seen_bytes fis (tb l fis s) x m = replicate m 0"
      using o by (intro nth_equalityI) (simp_all add: seen_bytes_def seen_def)
    then show ?thesis using True by simp
  next
    case False
    then have "seen_bytes fis (tb l fis s) x m = map (\<lambda>j. the (tb l fis s (x + j))) [0..<m]"
      using o by (simp add: seen_bytes_def seen_def)
    moreover have "access l fis i off m x" using wf a False unfolding access_def by blast
    ultimately show ?thesis using pread_law [OF inv _ some(1)] some(2) False by simp
  qed
qed

lemma seg_first:
  assumes wf: "wf_lengths l" "wf_file_infos l fis" and inv: "invar l fis s"
    and c: "seg_chain l fis x n ((i, fi, off, m) # sg)"
    and some: "\<And>j. j < n \<Longrightarrow> tb l fis s (x + j) \<noteq> None"
  shows "(if padding (fi_attrs fi) then Inr (replicate m 0) else pread s i off m)
    = Inr (seen_bytes fis (tb l fis s) x m)"
    and "m \<le> n" "seg_chain l fis (x + m) (n - m) sg" "\<And>j. j < n - m \<Longrightarrow> tb l fis s (x + m + j) \<noteq> None"
    and "seen_bytes fis (tb l fis s) x m @ seen_bytes fis (tb l fis s) (x + m) (n - m) = seen_bytes fis (tb l fis s) x n"
proof -
  have a: "i < length fis" "fi = fis ! i" "off + m \<le> fi_len (fis ! i)" "x = offset_in_torrent (fis ! i) + off"
      "x < total_length l" "x mod default_piece_length l + m \<le> default_piece_length l" "0 < n"
    using c by auto
  show m: "m \<le> n" and "seg_chain l fis (x + m) (n - m) sg" using c by auto
  show "(if padding (fi_attrs fi) then Inr (replicate m 0) else pread s i off m)
      = Inr (seen_bytes fis (tb l fis s) x m)"
    unfolding a(2) using segment_read [OF wf inv a(1,3-6)] some [of 0] some a(7) m by simp
  show "tb l fis s (x + m + j) \<noteq> None" if "j < n - m" for j using some [of "m + j"] that by (simp add: add.assoc)
  show "seen_bytes fis (tb l fis s) x m @ seen_bytes fis (tb l fis s) (x + m) (n - m) = seen_bytes fis (tb l fis s) x n"
    using m by (simp add: seen_bytes_append)
qed

lemma read_segs_correct:
  assumes wf: "wf_lengths l" "wf_file_infos l fis" and inv: "invar l fis s"
    and sg: "seg_chain l fis x n sg" "length buf = n" "\<And>j. j < n \<Longrightarrow> tb l fis s (x + j) \<noteq> None"
  shows "read_segs pread s sg buf = Inr (seen_bytes fis (tb l fis s) x n)"
  using sg
proof (induction sg arbitrary: x n buf)
  case Nil
  then show ?case by (simp add: seen_bytes_def)
next
  case (Cons e sg)
  obtain i fi off m where e: "e = (i, fi, off, m)" by (cases e)
  note f = seg_first [OF wf inv Cons.prems(1) [unfolded e] Cons.prems(3)]
  have "read_segs pread s sg (drop m buf) = Inr (seen_bytes fis (tb l fis s) (x + m) (n - m))"
    by (rule Cons.IH) (use f Cons.prems(2) in auto)
  then show ?case using f(1,5) e by simp
qed

lemma update_hash_correct:
  assumes wf: "wf_lengths l" "wf_file_infos l fis" and inv: "invar l fis s" and b: "0 < b"
    and a: "i < length fis" "off + m \<le> fi_len (fis ! i)" "x = offset_in_torrent (fis ! i) + off" "0 < m \<Longrightarrow> x < total_length l"
      "x mod default_piece_length l + m \<le> default_piece_length l"
    and some: "\<And>j. j < m \<Longrightarrow> tb l fis s (x + j) \<noteq> None"
  shows "update_hash_from_file pread i (fis ! i) off s h b m = Inr (h @ seen_bytes fis (tb l fis s) x m)"
  using a some
proof (induction m arbitrary: off x h rule: less_induct)
  case (less m)
  show ?case
  proof (cases "m = 0")
    case True
    then show ?thesis by (simp add: update_hash_from_file.simps seen_bytes_def)
  next
    case False
    define c where "c = min b m"
    have c: "0 < c" "c \<le> m" using b False by (auto simp: c_def)
    have r: "(if padding (fi_attrs (fis ! i)) then Inr (replicate c 0) else pread s i off c)
        = Inr (seen_bytes fis (tb l fis s) x c)"
      using segment_read [OF wf inv less.prems(1), of off c x] less.prems(2-5) less.prems(6) [of 0] less.prems(6) c False
      by simp
    have fit: "x + m \<le> total_length l" using file_fits [OF wf less.prems(1)] less.prems(2,3) by simp
    then have "off + c < 2 ^ 64" using wf_total [OF wf(1)] less.prems(3) c by linarith
    then have off: "add64 off c = off + c" by (simp add: add64_exact)
    have "update_hash_from_file pread i (fis ! i) (off + c) s (h @ seen_bytes fis (tb l fis s) x c) b (m - c)
        = Inr ((h @ seen_bytes fis (tb l fis s) x c) @ seen_bytes fis (tb l fis s) (x + c) (m - c))"
    proof (rule less.IH)
      show "m - c < m" using c by simp
      show "i < length fis" "off + c + (m - c) \<le> fi_len (fis ! i)" "x + c = offset_in_torrent (fis ! i) + (off + c)"
        using less.prems(1-3) c by auto
      show "0 < m - c \<Longrightarrow> x + c < total_length l" using fit by simp
      show "(x + c) mod default_piece_length l + (m - c) \<le> default_piece_length l"
        using mod_shift [OF _ less.prems(5), of c] c wf_dpl [OF wf(1)] by (cases "c = m") (auto intro: less_imp_le)
      show "\<And>j. j < m - c \<Longrightarrow> tb l fis s (x + c + j) \<noteq> None"
        using less.prems(6) [of "c + _"] by (simp add: add.assoc)
    qed
    then show ?thesis
      using False c r off seen_bytes_append [of fis "tb l fis s" x c "m - c"]
      by (subst update_hash_from_file.simps) (simp add: Let_def c_def [symmetric])
  qed
qed

lemma hash_segs_correct:
  assumes wf: "wf_lengths l" "wf_file_infos l fis" and inv: "invar l fis s" and b: "0 < b"
    and sg: "seg_chain l fis x n sg" "\<And>j. j < n \<Longrightarrow> tb l fis s (x + j) \<noteq> None"
  shows "hash_segs pread s b sg h = Inr (h @ seen_bytes fis (tb l fis s) x n)"
  using sg
proof (induction sg arbitrary: x n h)
  case Nil
  then show ?case by (simp add: seen_bytes_def)
next
  case (Cons e sg)
  obtain i fi off m where e: "e = (i, fi, off, m)" by (cases e)
  note f = seg_first [OF wf inv Cons.prems(1) [unfolded e] Cons.prems(2)]
  have "update_hash_from_file pread i fi off s h b m = Inr (h @ seen_bytes fis (tb l fis s) x m)"
    using update_hash_correct [OF wf inv b, of i off m x h] Cons.prems e f(2) by auto
  moreover have "hash_segs pread s b sg (h @ seen_bytes fis (tb l fis s) x m)
      = Inr ((h @ seen_bytes fis (tb l fis s) x m) @ seen_bytes fis (tb l fis s) (x + m) (n - m))"
    by (rule Cons.IH) (use f in auto)
  ultimately show ?case using f(5) e by simp
qed

lemma write_segs_correct:
  assumes wf: "wf_lengths l" "wf_file_infos l fis" and inv: "invar l fis s"
    and sg: "seg_chain l fis x n sg" "length buf = n"
  shows "\<exists>s'. write_segs pwrite s sg buf = Inr s' \<and> invar l fis s' \<and>
    (\<forall>j < n. regular fis (x + j) \<longrightarrow> tb l fis s' (x + j) = Some (buf ! j)) \<and>
    (\<forall>z. \<not> (x \<le> z \<and> z < x + n \<and> regular fis z) \<and> tb l fis s z \<noteq> None \<longrightarrow> tb l fis s' z = tb l fis s z)"
  using inv sg
proof (induction sg arbitrary: s x n buf)
  case Nil
  then show ?case by simp
next
  case (Cons e sg)
  obtain i fi off m where e: "e = (i, fi, off, m)" by (cases e)
  note c = Cons.prems(2) [unfolded e]
  then have mn: "m \<le> n" and rest: "seg_chain l fis (x + m) (n - m) sg" by auto
  note ow = seg_owner [OF wf c]
  have lm: "length (take m buf) = m" using mn Cons.prems(3) by simp
  have a: "access l fis i off (length (take m buf)) x" if "\<not> padding (fi_attrs fi)"
    using c wf that unfolding access_def lm seg_chain.simps by blast
  obtain s1 where s1: "(if padding (fi_attrs fi) then Inr s else pwrite s i off (take m buf)) = Inr s1" "invar l fis s1"
    "\<And>j. j < m \<Longrightarrow> regular fis (x + j) \<Longrightarrow> tb l fis s1 (x + j) = Some (buf ! j)"
    "\<And>z. \<not> (x \<le> z \<and> z < x + m \<and> regular fis z) \<Longrightarrow> tb l fis s z \<noteq> None \<Longrightarrow> tb l fis s1 z = tb l fis s z"
  proof (cases "padding (fi_attrs fi)")
    case True
    then have "\<not> regular fis (x + j)" if "j < m" for j using ow [OF that] c by (simp add: regular_def)
    then show ?thesis using that [of s] True Cons.prems(1) by auto
  next
    case False
    then have reg: "regular fis (x + j)" if "j < m" for j using ow [OF that] c by (simp add: regular_def)
    obtain s1 where "pwrite s i off (take m buf) = Inr s1" "invar l fis s1"
      "\<And>z. x \<le> z \<Longrightarrow> z < x + m \<Longrightarrow> tb l fis s1 z = Some (take m buf ! (z - x))"
      "\<And>z. \<not> (x \<le> z \<and> z < x + m) \<Longrightarrow> tb l fis s z \<noteq> None \<Longrightarrow> tb l fis s1 z = tb l fis s z"
      using pwrite_law [OF Cons.prems(1) a [OF False]] mn Cons.prems(3) by auto
    then show ?thesis using that [of s1] False reg by (metis add_diff_cancel_left' le_add1 le_Suc_ex nat_add_left_cancel_less nth_take)
  qed
  obtain s2 where s2: "write_segs pwrite s1 sg (drop m buf) = Inr s2" "invar l fis s2"
    "\<And>j. j < n - m \<Longrightarrow> regular fis (x + m + j) \<Longrightarrow> tb l fis s2 (x + m + j) = Some (drop m buf ! j)"
    "\<And>z. \<not> (x + m \<le> z \<and> z < x + m + (n - m) \<and> regular fis z) \<Longrightarrow> tb l fis s1 z \<noteq> None \<Longrightarrow> tb l fis s2 z = tb l fis s1 z"
    using Cons.IH [OF s1(2) rest, of "drop m buf"] Cons.prems(3) by auto
  have new: "tb l fis s2 (x + j) = Some (buf ! j)" if j: "j < n" "regular fis (x + j)" for j
  proof (cases "j < m")
    case True
    then show ?thesis using s1(3) [OF True j(2)] s2(4) [of "x + j"] by simp
  next
    case False
    then obtain k where "j = m + k" using le_Suc_ex not_less by blast
    then show ?thesis using s2(3) [of k] j mn Cons.prems(3) by (simp add: add.assoc)
  qed
  have old: "tb l fis s2 z = tb l fis s z"
    if z: "\<not> (x \<le> z \<and> z < x + n \<and> regular fis z)" "tb l fis s z \<noteq> None" for z
  proof -
    have "tb l fis s1 z = tb l fis s z" using s1(4) [of z] z mn by auto
    then show ?thesis using s2(4) [of z] z mn by auto
  qed
  show ?case using s1(1) s2(1,2) new old e by (intro exI [of _ s2]) simp
qed

end

lemma chunk_span:
  assumes wf: "wf_lengths l" and p: "p < total_pieces l" and ci: "ci \<in> set (iter_chunk_infos l p)"
  shows "0 < ci_size ci" "chunk_absolute_offset l ci + ci_size ci \<le> total_length l"
    "chunk_absolute_offset l ci mod default_piece_length l + ci_size ci \<le> default_piece_length l"
    "chunk_absolute_offset l ci = piece_offset l p + ci_offset ci" "ci_offset ci + ci_size ci \<le> piece_length l p"
proof -
  let ?d = "default_piece_length l"
  obtain i where i: "i < chunks_per_piece l p" "ci = nth_chunk l p i"
    using ci by (auto simp: iter_chunk_infos_eq [OF wf p])
  note b = nth_chunk_size_bounds [OF wf i(1)]
  have po: "piece_offset l p = p * ?d" by (rule piece_offset_eq [OF wf piece_index_u32 [OF wf p]])
  have e: "p * ?d + piece_length l p \<le> total_length l" using pieces.end_le_total [OF wf p] po by simp
  show s: "0 < ci_size ci" and le: "ci_offset ci + ci_size ci \<le> piece_length l p"
    using b i by (simp_all add: nth_chunk_def)
  have "piece_offset l p + ci_offset ci < 2 ^ 64" using e le s po wf_total [OF wf] by linarith
  then show off: "chunk_absolute_offset l ci = piece_offset l p + ci_offset ci"
    using i by (simp add: chunk_absolute_offset_def add64_exact nth_chunk_def)
  show "chunk_absolute_offset l ci + ci_size ci \<le> total_length l" using off po e le by simp
  have "ci_offset ci < ?d" using le s piece_length_bounds(2) [OF wf, of p] by linarith
  then show "chunk_absolute_offset l ci mod ?d + ci_size ci \<le> ?d"
    using off po le piece_length_bounds(2) [OF wf, of p] by simp
qed

lemma piece_span:
  assumes wf: "wf_lengths l" and p: "p < total_pieces l"
  shows "piece_offset l p + piece_length l p \<le> total_length l"
    "piece_offset l p mod default_piece_length l + piece_length l p \<le> default_piece_length l"
  using pieces.end_le_total [OF wf p] piece_length_bounds(2) [OF wf, of p]
  by (simp_all add: piece_offset_eq [OF wf piece_index_u32 [OF wf p]])

text \<open>The file cursor of the initial check stands at position \<open>x\<close> of the torrent.\<close>

definition cursor :: "file_info list \<Rightarrow> nat \<Rightarrow> current_file \<Rightarrow> (nat \<times> file_info) list \<Rightarrow> bool" where
  "cursor fis x cf es \<longleftrightarrow> cf_index cf < length fis \<and> cf_fi cf = fis ! cf_index cf \<and>
     processed_bytes cf \<le> fi_len (cf_fi cf) \<and> \<not> is_broken cf \<and>
     x = offset_in_torrent (cf_fi cf) + processed_bytes cf \<and>
     es = List.enumerate (Suc (cf_index cf)) (drop (Suc (cf_index cf)) fis)"

lemma cursor_remaining:
  assumes "wf_lengths l" "wf_file_infos l fis" "cursor fis x cf es"
  shows "cf_remaining cf = fi_len (cf_fi cf) - processed_bytes cf"
proof -
  have c: "cf_index cf < length fis" "cf_fi cf = fis ! cf_index cf" "processed_bytes cf \<le> fi_len (cf_fi cf)"
    using assms(3) by (auto simp: cursor_def)
  have "fi_len (cf_fi cf) < 2 ^ 64" using file_fits [OF assms(1,2) c(1)] wf_total [OF assms(1)] c(2) by simp
  then show ?thesis using c(3) by (simp add: cf_remaining_def sub64_exact)
qed

lemma ic_seek_correct:
  assumes wf: "wf_lengths l" "wf_file_infos l fis" and x: "x < total_length l" and r: "0 < r"
    and cur: "cursor fis x cf es"
  shows "\<exists>cf' es' n. ic_seek cf es r = Inr (cf', es', n) \<and> cursor fis x cf' es' \<and>
    n = min (fi_len (cf_fi cf') - processed_bytes cf') r \<and> 0 < n"
  using cur
proof (induction es arbitrary: cf)
  case Nil
  let ?i = "cf_index cf"
  have "length (List.enumerate (Suc ?i) (drop (Suc ?i) fis)) = 0" "?i < length fis"
    using Nil unfolding cursor_def by (metis list.size(3), blast)
  then have "?i = length fis - 1" by simp
  then have "offset_in_torrent (fis ! ?i) + fi_len (fis ! ?i) = total_length l" using wf_file_last [OF wf(2)] by simp
  then have "0 < fi_len (cf_fi cf) - processed_bytes cf" using Nil x by (simp add: cursor_def)
  then show ?case using Nil r cursor_remaining [OF wf Nil] by (simp add: Let_def)
next
  case (Cons e es)
  let ?i = "cf_index cf"
  show ?case
  proof (cases "fi_len (cf_fi cf) - processed_bytes cf = 0")
    case False
    define n where "n = min (fi_len (cf_fi cf) - processed_bytes cf) r"
    have "0 < n" using False r by (simp add: n_def)
    moreover from this have "ic_seek cf (e # es) r = Inr (cf, e # es, n)"
      using cursor_remaining [OF wf Cons.prems] by (simp add: Let_def n_def [symmetric])
    ultimately show ?thesis using Cons.prems n_def by blast
  next
    case True
    have i: "Suc ?i < length fis" using Cons.prems by (cases "Suc ?i < length fis") (auto simp: cursor_def)
    have es: "e = (Suc ?i, fis ! Suc ?i)" "es = List.enumerate (Suc (Suc ?i)) (drop (Suc (Suc ?i)) fis)"
      using Cons.prems i unfolding cursor_def by (metis Cons_nth_drop_Suc enumerate_simps(2) list.inject)+
    have "offset_in_torrent (fis ! Suc ?i) = offset_in_torrent (fis ! ?i) + fi_len (fis ! ?i)"
      using files.start_Suc [of "(l, fis)" ?i] wf i by simp
    moreover have "processed_bytes cf = fi_len (fis ! ?i)" "x = offset_in_torrent (fis ! ?i) + processed_bytes cf"
      using Cons.prems True by (auto simp: cursor_def)
    ultimately have "cursor fis x (cf_of e) es" using i es by (simp add: cursor_def cf_of_def)
    then show ?thesis using Cons.IH True cursor_remaining [OF wf Cons.prems] by (simp add: Let_def)
  qed
qed

context torrent_storage
begin

lemma read_chunk_correct:
  assumes wf: "wf_lengths l" "wf_file_infos l fis" and inv: "invar l fis s"
    and p: "p < total_pieces l" and ci: "ci \<in> set (iter_chunk_infos l p)" and buf: "length buf = ci_size ci"
    and some: "\<And>j. j < ci_size ci \<Longrightarrow> tb l fis s (chunk_absolute_offset l ci + j) \<noteq> None"
  shows "read_chunk pread fis l s ci buf = Inr (seen_bytes fis (tb l fis s) (chunk_absolute_offset l ci) (ci_size ci))"
proof -
  note sp = chunk_span [OF wf(1) p ci]
  have "file_start l fis 0 = 0" using wf_file_offset [OF wf(2), of 0] wf(2) by (auto simp: file_start_def wf_file_infos_def)
  then have "seg_chain l fis (chunk_absolute_offset l ci) (ci_size ci)
      (segs (List.enumerate 0 fis) (chunk_absolute_offset l ci) (ci_size ci))"
    using segs_chain [OF wf, of 0 "ci_size ci" "chunk_absolute_offset l ci" "chunk_absolute_offset l ci"] sp by simp
  from read_segs_correct [OF wf inv this buf some]
  show ?thesis using buf by (simp add: read_chunk_def read_chunk_files_segs)
qed

lemma write_chunk_correct:
  assumes wf: "wf_lengths l" "wf_file_infos l fis" and inv: "invar l fis s"
    and p: "p < total_pieces l" and ci: "ci \<in> set (iter_chunk_infos l p)" and len: "length (pm_block m) = ci_size ci"
  defines "x \<equiv> chunk_absolute_offset l ci"
  shows "\<exists>s'. write_chunk pwrite fis l s m ci = Inr s' \<and> invar l fis s' \<and>
    (\<forall>j < ci_size ci. regular fis (x + j) \<longrightarrow> tb l fis s' (x + j) = Some (pm_block m ! j)) \<and>
    (\<forall>z. \<not> (x \<le> z \<and> z < x + ci_size ci \<and> regular fis z) \<and> tb l fis s z \<noteq> None \<longrightarrow> tb l fis s' z = tb l fis s z)"
proof -
  note sp = chunk_span [OF wf(1) p ci]
  have "file_start l fis 0 = 0" using wf_file_offset [OF wf(2), of 0] wf(2) by (auto simp: file_start_def wf_file_infos_def)
  then have "seg_chain l fis x (ci_size ci) (segs (List.enumerate 0 fis) x (ci_size ci))"
    using segs_chain [OF wf, of 0 "ci_size ci" x x] sp by (simp add: x_def)
  from write_segs_correct [OF wf inv this len]
  show ?thesis using len by (simp add: write_chunk_def write_chunk_files_segs x_def)
qed

lemma check_piece_correct:
  assumes wf: "wf_lengths l" "wf_file_infos l fis" and inv: "invar l fis s" and p: "p < total_pieces l"
    and some: "\<And>j. j < piece_length l p \<Longrightarrow> tb l fis s (piece_offset l p + j) \<noteq> None"
  shows "check_piece pread sha1 info fis l s p = of_option (Bail ''compare_hash() did not find the piece'')
    (compare_hash info p (sha1 (seen_bytes fis (tb l fis s) (piece_offset l p) (piece_length l p))))"
proof -
  note sp = piece_span [OF wf(1) p] and pos = piece_length_bounds(1) [OF wf(1), of p]
  have "file_start l fis 0 = 0" using wf_file_offset [OF wf(2), of 0] wf(2) by (auto simp: file_start_def wf_file_infos_def)
  then have "seg_chain l fis (piece_offset l p) (piece_length l p)
      (segs (List.enumerate 0 fis) (piece_offset l p) (piece_length l p))"
    using segs_chain [OF wf, of 0 "piece_length l p" "piece_offset l p" "piece_offset l p"] sp pos by simp
  from hash_segs_correct [OF wf inv _ this some, of "min 65536 (piece_length l p)" "[]"]
  show ?thesis using pos by (simp add: check_piece_def check_piece_files_segs Let_def)
qed

lemma ic_piece_correct:
  assumes wf: "wf_lengths l" "wf_file_infos l fis" and inv: "invar l fis s"
    and cur: "cursor fis x cf es" and x: "x + r \<le> total_length l"
      "x mod default_piece_length l + r \<le> default_piece_length l"
    and some: "\<And>j. j < r \<Longrightarrow> tb l fis s (x + j) \<noteq> None"
  shows "\<exists>cf' es'. ic_piece pread s cf es r h b = Inr (cf', es', h @ seen_bytes fis (tb l fis s) x r, b) \<and>
    cursor fis (x + r) cf' es'"
  using cur x some
proof (induction r arbitrary: x cf es h rule: less_induct)
  case (less r)
  show ?case
  proof (cases "r = 0")
    case True
    then show ?thesis using less.prems by (simp add: ic_piece.simps seen_bytes_def)
  next
    case False
    have xt: "x < total_length l" using less.prems(2) False by simp
    obtain c1 e1 n where sk: "ic_seek cf es r = Inr (c1, e1, n)" "cursor fis x c1 e1"
      "n = min (fi_len (cf_fi c1) - processed_bytes c1) r" "0 < n"
      using ic_seek_correct [OF wf xt _ less.prems(1), of r] False by auto
    have c1: "cf_index c1 < length fis" "cf_fi c1 = fis ! cf_index c1" "\<not> is_broken c1"
      "processed_bytes c1 + n \<le> fi_len (cf_fi c1)" "x = offset_in_torrent (cf_fi c1) + processed_bytes c1"
      using sk by (auto simp: cursor_def)
    have nr: "n \<le> r" using sk(3) by simp
    let ?t = "tb l fis s"
    let ?c2 = "c1\<lparr>processed_bytes := processed_bytes c1 + n\<rparr>"
    have "processed_bytes c1 + n < 2 ^ 64" using c1(5) xt less.prems(2) nr wf_total [OF wf(1)] by linarith
    then have add: "add64 (processed_bytes c1) n = processed_bytes c1 + n" by (simp add: add64_exact)
    have m: "x mod default_piece_length l + n \<le> default_piece_length l" using less.prems(3) nr by simp
    have h: "update_hash_from_file pread (cf_index c1) (fis ! cf_index c1) (processed_bytes c1) s h 65536 n
        = Inr (h @ seen_bytes fis ?t x n)"
      using update_hash_correct [OF wf inv _ c1(1), of 65536 "processed_bytes c1" n x h] c1 xt m less.prems(4) nr by simp
    have "\<exists>cf' es'. ic_piece pread s ?c2 e1 (r - n) (h @ seen_bytes fis ?t x n) b =
        Inr (cf', es', (h @ seen_bytes fis ?t x n) @ seen_bytes fis ?t (x + n) (r - n), b) \<and> cursor fis (x + n + (r - n)) cf' es'"
    proof (rule less.IH)
      show "r - n < r" using sk(4) False by simp
      show "cursor fis (x + n) ?c2 e1" using sk(2) c1 by (simp add: cursor_def)
      show "x + n + (r - n) \<le> total_length l" using less.prems(2) nr by simp
      show "(x + n) mod default_piece_length l + (r - n) \<le> default_piece_length l"
        using mod_shift [OF _ less.prems(3), of n] nr wf_dpl [OF wf(1)] by (cases "n = r") (auto intro: less_imp_le)
      show "\<And>j. j < r - n \<Longrightarrow> ?t (x + n + j) \<noteq> None" using less.prems(4) [of "n + _"] by (simp add: add.assoc)
    qed
    then show ?thesis
      using False sk(1) c1(2,3) add h nr seen_bytes_append [of fis ?t x n "r - n"]
      by (subst ic_piece.simps) (simp add: Let_def)
  qed
qed

lemma ic_pieces_correct:
  assumes wf: "wf_lengths l" "wf_file_infos l fis" and inv: "invar l fis s"
    and some: "\<And>j. j < total_length l \<Longrightarrow> tb l fis s j \<noteq> None"
    and hashes: "\<And>p. p < total_pieces l \<Longrightarrow> get_hash info p \<noteq> None"
    and k: "k \<le> total_pieces l" and bf: "length bf = 8 * piece_bitfield_bytes l"
    and cur: "cursor fis (if k < total_pieces l then piece_offset l k else total_length l) cf es"
    and done_: "\<And>p. p < length bf \<Longrightarrow> bf ! p \<longleftrightarrow> p < k \<and> check_piece pread sha1 info fis l s p = Inr True"
  shows "\<exists>bf' pr'. ic_pieces pread sha1 info s
      (map (\<lambda>i. \<lparr>pi_index = i, pi_len = piece_length l i\<rparr>) [k..<total_pieces l]) cf es bf pr = Inr (bf', pr') \<and>
    length bf' = 8 * piece_bitfield_bytes l \<and>
    (\<forall>p < length bf'. bf' ! p \<longleftrightarrow> p < total_pieces l \<and> check_piece pread sha1 info fis l s p = Inr True)"
  using k bf cur done_
proof (induction "total_pieces l - k" arbitrary: k bf cf es pr)
  case 0
  then have "k = total_pieces l" by simp
  then show ?case using 0 by simp
next
  case (Suc d)
  then have k: "k < total_pieces l" and d: "d = total_pieces l - Suc k" by auto
  let ?x = "piece_offset l k" and ?n = "piece_length l k"
  have fit: "?x + ?n \<le> total_length l" "?x mod default_piece_length l + ?n \<le> default_piece_length l"
    using piece_span [OF wf(1) k] by auto
  have sk: "\<And>j. j < ?n \<Longrightarrow> tb l fis s (?x + j) \<noteq> None" using some fit(1) by simp
  have cur: "cursor fis ?x cf es" using Suc.prems(3) k by simp
  obtain c1 e1 where ic: "ic_piece pread s cf es ?n [] False = Inr (c1, e1, seen_bytes fis (tb l fis s) ?x ?n, False)"
    "cursor fis (?x + ?n) c1 e1"
    using ic_piece_correct [OF wf inv cur fit sk, of "[]" False] by auto
  have next_: "(if Suc k < total_pieces l then piece_offset l (Suc k) else total_length l) = ?x + ?n"
    using pieces.start_Suc [OF wf(1), of k] pieces.total_eq [OF wf(1)] k
    by (cases "Suc k < total_pieces l") (auto simp: not_less dest: le_antisym [OF _ Suc_leI [OF k]])
  obtain ok where ok: "compare_hash info k (sha1 (seen_bytes fis (tb l fis s) ?x ?n)) = Some ok"
    using hashes [OF k] by (auto simp: compare_hash_def)
  then have ck: "check_piece pread sha1 info fis l s k = Inr ok"
    using check_piece_correct [OF wf inv k sk, of sha1 info] by simp
  let ?bf = "if ok then bf[k := True] else bf"
  have klen: "k < length bf" using k Suc.prems(2) total_pieces_le_bits [of l] by simp
  have upt: "[k..<total_pieces l] = k # [Suc k..<total_pieces l]" using k by (rule upt_conv_Cons)
  have "\<exists>bf' pr'. ic_pieces pread sha1 info s
      (map (\<lambda>i. \<lparr>pi_index = i, pi_len = piece_length l i\<rparr>) [Suc k..<total_pieces l]) c1 e1 ?bf (add64 pr ?n) = Inr (bf', pr') \<and>
    length bf' = 8 * piece_bitfield_bytes l \<and>
    (\<forall>p < length bf'. bf' ! p \<longleftrightarrow> p < total_pieces l \<and> check_piece pread sha1 info fis l s p = Inr True)"
  proof (rule Suc.hyps(1) [OF d])
    show "Suc k \<le> total_pieces l" "length ?bf = 8 * piece_bitfield_bytes l" using k Suc.prems(2) by auto
    show "cursor fis (if Suc k < total_pieces l then piece_offset l (Suc k) else total_length l) c1 e1"
      unfolding next_ by (rule ic(2))
    show "\<And>p. p < length ?bf \<Longrightarrow> ?bf ! p \<longleftrightarrow> p < Suc k \<and> check_piece pread sha1 info fis l s p = Inr True"
      using Suc.prems(4) ck klen by (cases ok) (auto simp: nth_list_update less_Suc_eq)
  qed
  then show ?case using ic(1) ok klen upt by (cases ok) (simp_all add: Let_def)
qed

lemma initial_check_correct:
  assumes wf: "wf_lengths l" "wf_file_infos l fis" and inv: "invar l fis s"
    and some: "\<And>j. j < total_length l \<Longrightarrow> tb l fis s j \<noteq> None"
    and hashes: "\<And>p. p < total_pieces l \<Longrightarrow> get_hash info p \<noteq> None"
  shows "\<exists>bf pr'. initial_check pread sha1 info fis l s pr = Inr (bf, pr') \<and> length bf = 8 * piece_bitfield_bytes l \<and>
    (\<forall>p < length bf. bf ! p \<longleftrightarrow> p < total_pieces l \<and> check_piece pread sha1 info fis l s p = Inr True)"
proof -
  obtain f fs where fis: "fis = f # fs" using wf(2) by (cases fis) (auto simp: wf_file_infos_def)
  have "piece_offset l 0 = 0" by (rule pieces.start_0 [OF wf(1)])
  moreover have "offset_in_torrent f = 0" using wf_file_offset [OF wf(2), of 0] fis by simp
  ultimately have "cursor fis (if 0 < total_pieces l then piece_offset l 0 else total_length l) (cf_of (0, f)) (List.enumerate (Suc 0) fs)"
    using total_pieces_pos [OF wf(1)] fis by (simp add: cursor_def cf_of_def)
  from ic_pieces_correct [OF wf inv some hashes _ _ this, of "zero_bytes_bf (piece_bitfield_bytes l)" sha1 pr]
  show ?thesis using fis by (simp add: initial_check_def iter_piece_infos_simp)
qed

end

subsection \<open>Properties\<close>

lemma fs_complete:
  assumes wf: "wf_lengths l" "wf_file_infos l fis" and inv: "fs_inv l fis s"
    and full: "\<And>i c. i < length fis \<Longrightarrow> opened_files s ! i = Some c \<Longrightarrow> fi_len (fis ! i) \<le> length c"
    and j: "j < total_length l"
  shows "fs_tb l fis s j \<noteq> None"
proof -
  obtain i where i: "i < length fis" "offset_in_torrent (fis ! i) \<le> j" "j < offset_in_torrent (fis ! i) + fi_len (fis ! i)"
    using files.owner_exists [of "(l, fis)" j] wf j by auto
  then show ?thesis
    using owner_eq [OF wf i] full [OF i(1)] by (fastforce simp: fs_tb_def Let_def split: option.splits)
qed


definition ex_storage :: filesystem_storage where
  "ex_storage = \<lparr>output_folder = [''out''],
     opened_files = [Some (replicate 30 1), Some [], Some (replicate 70 2)]\<rparr>"

lemma ex_storage_inv: "fs_inv ex_lengths ex_files ex_storage"
  by (simp add: fs_inv_def ex_storage_def ex_files_def default_attrs_def All_less_Suc numeral_3_eq_3)

lemma ex_storage_full: "j < 100 \<Longrightarrow> fs_tb ex_lengths ex_files ex_storage j \<noteq> None"
  by (rule fs_complete [OF ex_lengths_wf ex_files_wf ex_storage_inv])
    (auto simp: ex_storage_def ex_files_def less_Suc_eq nth_Cons' split: if_splits)

lemma ex_chunk_in: "nth_chunk ex_lengths 2 0 \<in> set (iter_chunk_infos ex_lengths 2)"
  using chunks_per_piece_pos [OF ex_lengths_wf, of 2] by (simp add: iter_chunk_infos_eq [OF ex_lengths_wf])

lemma ex_chunk_size: "ci_size (nth_chunk ex_lengths 2 0) = 20"
  by (simp add: nth_chunk_def nth_chunk_size_def piece_length_def CHUNK_SIZE_def)


text \<open>Checking a piece on the file system storage hashes exactly the bytes of the piece, in order and across
  file boundaries, and compares the result with the piece's entry in the torrent; the check fails
  with an error exactly when there is no such entry.\<close>

theorem fs_check_piece_exact:
  assumes wf: "wf_lengths l" "wf_file_infos l fis" and inv: "fs_inv l fis s" and p: "p < total_pieces l"
    and some: "\<forall>j < piece_length l p. fs_tb l fis s (piece_offset l p + j) \<noteq> None"
  shows "check_piece fs_pread_exact sha1 info fis l s p =
    (case get_hash info p of
       Some h \<Rightarrow> Inr (h = sha1 (seen_bytes fis (fs_tb l fis s) (piece_offset l p) (piece_length l p)))
     | None \<Rightarrow> Inl (Bail ''compare_hash() did not find the piece''))"
  using filesystem.check_piece_correct [OF wf inv p] some
  by (simp add: compare_hash_def split: option.split)

theorem fs_check_piece_exact_witness:
  "check_piece fs_pread_exact (\<lambda>_. replicate 20 0) ex_info ex_files ex_lengths ex_storage 1 = Inr True"
proof -
  have "piece_offset ex_lengths 1 = 40" "piece_length ex_lengths 1 = 40"
    by (simp_all add: piece_offset_def piece_length_def mul64_def as_u64_def)
  moreover have "get_hash ex_info 1 = Some (replicate 20 0)"
    by (simp add: get_hash_def ex_info_def)
  ultimately show ?thesis
    using fs_check_piece_exact [OF ex_lengths_wf ex_files_wf ex_storage_inv, of 1 "\<lambda>_. replicate 20 0" ex_info]
      ex_storage_full by simp
qed



end
