(* ===== verification/Streaming.thy ===== *)
theory Streaming
  imports Chunk_Tracker File_Ops
begin

text \<open>
  Streaming a file while it downloads: \<^verbatim>\<open>torrent_state/streaming.rs\<close>. A \<open>file_stream\<close> is the reader handed to
  the HTTP layer; \<open>torrent_streams\<close> is the registry the downloader consults for the pieces to fetch
  first and to wake readers. Wakers are numbers; waking a list of streams returns the wakers woken.

  Shown: a reader only ever delivers bytes of verified pieces, at its position, inside its file; a
  reader that has to wait is woken when its piece completes; the position in the registry is that of
  the reader; seeking stays inside the file; and the order of pieces handed to the downloader takes
  one piece per stream in turn.
\<close>

subsection \<open>The registry\<close>

definition PER_STREAM_BUF_DEFAULT :: nat where
  "PER_STREAM_BUF_DEFAULT = 32 * 1024 * 1024"

record stream_state =
  ss_file_id :: nat
  ss_file_len :: nat
  ss_file_abs_offset :: nat
  ss_position :: nat
  ss_waker :: "nat option"

record torrent_streams =
  next_stream_id :: nat
  streams :: "(nat \<times> stream_state) list"

definition torrent_streams_default :: torrent_streams where
  "torrent_streams_default = \<lparr>next_stream_id = 0, streams = []\<rparr>"

definition ss_current_piece :: "stream_state \<Rightarrow> lengths \<Rightarrow> current_piece option" where
  "ss_current_piece st l = compute_current_piece l (ss_position st) (ss_file_abs_offset st)"

text \<open>The ids that do not fit 32 bits panic in \<^verbatim>\<open>unwrap\<close>.\<close>

definition ss_queue :: "stream_state \<Rightarrow> lengths \<Rightarrow> valid_piece_index list res" where
  "ss_queue st l =
     (let start = add64 (ss_file_abs_offset st) (ss_position st);
          stop = min (add64 start PER_STREAM_BUF_DEFAULT) (add64 (ss_file_abs_offset st) (ss_file_len st));
          dpl = default_piece_length l
      in rbind (of_option Panic (try_u32 (start div dpl))) (\<lambda>start_id.
         rbind (of_option Panic (try_u32 (div_ceil stop dpl))) (\<lambda>end_id.
           Inr (List.map_filter (validate_piece_index l) [start_id..<end_id]))))"

definition next_id :: "torrent_streams \<Rightarrow> nat \<times> torrent_streams" where
  "next_id ts = (next_stream_id ts, ts\<lparr>next_stream_id := add64 (next_stream_id ts) 1\<rparr>)"

definition register_waker :: "torrent_streams \<Rightarrow> nat \<Rightarrow> nat \<Rightarrow> torrent_streams" where
  "register_waker ts stream_id waker =
     (case map_of (streams ts) stream_id of
        Some s \<Rightarrow> ts\<lparr>streams := AList.update stream_id (s\<lparr>ss_waker := Some waker\<rparr>) (streams ts)\<rparr>
      | None \<Rightarrow> ts)"

text \<open>\<^verbatim>\<open>Interleave::next\<close>: pop the front iterator; if it yields, push it to the back; else drop it.\<close>

function interleave :: "'a list list \<Rightarrow> 'a list" where
  "interleave [] = []"
| "interleave ([] # qs) = interleave qs"
| "interleave ((x # xs) # qs) = x # interleave (qs @ [xs])"
  by pat_completeness auto
termination
  by (relation "measure (\<lambda>qs. sum_list (map (\<lambda>q. Suc (length q)) qs))") auto

fun collect_queues :: "lengths \<Rightarrow> (nat \<times> stream_state) list \<Rightarrow> valid_piece_index list list res" where
  "collect_queues l [] = Inr []"
| "collect_queues l ((_, st) # sts) =
     rbind (ss_queue st l) (\<lambda>q. rbind (collect_queues l sts) (\<lambda>qs. Inr (q # qs)))"

text \<open>\<open>shuffle\<close> is the random permutation of the queues.\<close>

definition iter_next_pieces ::
  "(valid_piece_index list list \<Rightarrow> valid_piece_index list list) \<Rightarrow> torrent_streams \<Rightarrow> lengths \<Rightarrow> valid_piece_index list res" where
  "iter_next_pieces shuffle ts l =
     rbind (collect_queues l (streams ts)) (\<lambda>all. Inr (interleave (shuffle all)))"

text \<open>The registry afterwards and the wakers that were woken.\<close>

definition wake_one :: "lengths \<Rightarrow> valid_piece_index \<Rightarrow> nat \<times> stream_state \<Rightarrow> (nat \<times> stream_state) \<times> nat list" where
  "wake_one l piece_id e =
     (if map_option cp_id (ss_current_piece (snd e) l) = Some piece_id then
        case ss_waker (snd e) of
          Some w \<Rightarrow> ((fst e, (snd e)\<lparr>ss_waker := None\<rparr>), [w])
        | None \<Rightarrow> (e, [])
      else (e, []))"

definition wake_streams_on_piece_completed ::
  "torrent_streams \<Rightarrow> valid_piece_index \<Rightarrow> lengths \<Rightarrow> torrent_streams \<times> nat list" where
  "wake_streams_on_piece_completed ts piece_id l =
     (ts\<lparr>streams := map (fst \<circ> wake_one l piece_id) (streams ts)\<rparr>, concat (map (snd \<circ> wake_one l piece_id) (streams ts)))"

definition drop_stream :: "torrent_streams \<Rightarrow> nat \<Rightarrow> stream_state option \<times> torrent_streams" where
  "drop_stream ts stream_id =
     (map_of (streams ts) stream_id, ts\<lparr>streams := AList.delete stream_id (streams ts)\<rparr>)"

definition streamed_file_ids :: "torrent_streams \<Rightarrow> nat list" where
  "streamed_file_ids ts = map (ss_file_id \<circ> snd) (streams ts)"

subsection \<open>The reader\<close>

record file_stream =
  fs_stream_id :: nat
  fs_file_id :: nat
  fs_position :: nat
  fs_file_len :: nat
  fs_file_torrent_abs_offset :: nat

definition set_position :: "file_stream \<Rightarrow> torrent_streams \<Rightarrow> nat \<Rightarrow> (file_stream \<times> torrent_streams) res" where
  "set_position s ts new_pos =
     (case map_of (streams ts) (fs_stream_id s) of
        None \<Rightarrow> Inl Panic
      | Some st \<Rightarrow>
          Inr (s\<lparr>fs_position := new_pos\<rparr>,
               ts\<lparr>streams := AList.update (fs_stream_id s) (st\<lparr>ss_position := new_pos\<rparr>) (streams ts)\<rparr>))"

definition advance :: "file_stream \<Rightarrow> torrent_streams \<Rightarrow> nat \<Rightarrow> (file_stream \<times> torrent_streams) res" where
  "advance s ts diff = set_position s ts (add64 (fs_position s) diff)"

datatype poll = Pending | Ready "nat list res"

text \<open>\<open>chunks\<close> is the tracker \<^verbatim>\<open>with_chunk_tracker\<close> finds, \<open>read\<close> the read of the torrent's storage
  (both can fail, e.g.\ when the torrent is in an error state). \<open>Ready (Inr bs)\<close> fills \<open>bs\<close> into the
  caller's buffer of \<open>buf_len\<close> bytes.\<close>

definition poll_read ::
  "lengths \<Rightarrow> chunk_tracker res \<Rightarrow> (nat \<Rightarrow> nat \<Rightarrow> nat \<Rightarrow> nat list res) \<Rightarrow> file_stream \<Rightarrow> torrent_streams \<Rightarrow> nat \<Rightarrow> nat
   \<Rightarrow> (poll \<times> file_stream \<times> torrent_streams) res" where
  "poll_read l chunks read s ts waker buf_len =
     (if fs_position s = fs_file_len s then Inr (Ready (Inr []), s, ts)
      else
        case compute_current_piece l (fs_position s) (fs_file_torrent_abs_offset s) of
          None \<Rightarrow> Inr (Ready (Inl (Bail ''invalid position'')), s, ts)
        | Some current \<Rightarrow>
            case chunks of
              Inl e \<Rightarrow> Inr (Ready (Inl e), s, ts)
            | Inr ct \<Rightarrow>
                rbind (bf_index (ct_have ct) (cp_id current)) (\<lambda>have.
                  if \<not> have then Inr (Pending, s, register_waker ts (fs_stream_id s) waker)
                  else
                    let file_remaining = sub64 (fs_file_len s) (fs_position s);
                        bytes_to_read = min (min buf_len (cp_piece_remaining current)) file_remaining
                    in case read (fs_file_id s) (fs_position s) bytes_to_read of
                         Inl e \<Rightarrow> Inr (Ready (Inl e), s, ts)
                       | Inr bs \<Rightarrow>
                           rbind (advance s ts bytes_to_read) (\<lambda>(s, ts). Inr (Ready (Inr bs), s, ts))))"

datatype seek_from = SeekStart nat | SeekEnd int | SeekCurrent int

text \<open>Addition of signed 64 bit integers.\<close>

definition add_i64 :: "int \<Rightarrow> int \<Rightarrow> int" where
  "add_i64 a b = (a + b + 2 ^ 63) mod 2 ^ 64 - 2 ^ 63"

definition io_err :: "'a option \<Rightarrow> 'a res" where
  "io_err x = of_option (Bail ''out of range integral type conversion attempted'') x"

definition start_seek :: "file_stream \<Rightarrow> torrent_streams \<Rightarrow> seek_from \<Rightarrow> (file_stream \<times> torrent_streams) res" where
  "start_seek s ts position =
     rbind (io_err (try_i64 (fs_file_len s))) (\<lambda>end_i64.
     rbind (case position of
              SeekStart p \<Rightarrow> io_err (try_i64 p)
            | SeekEnd e \<Rightarrow> rbind (io_err (try_i64 (fs_file_len s))) (\<lambda>n. Inr (add_i64 n e))
            | SeekCurrent d \<Rightarrow> rbind (io_err (try_i64 (fs_position s))) (\<lambda>n. Inr (add_i64 n d))) (\<lambda>new_pos.
       if new_pos < 0 \<or> new_pos > end_i64 then Inl (Bail ''invalid seek'')
       else set_position s ts (nat new_pos)))"

definition poll_complete :: "file_stream \<Rightarrow> nat" where
  "poll_complete s = fs_position s"

text \<open>The registration of a new reader in \<^verbatim>\<open>ManagedTorrent::stream\<close>.\<close>

definition stream_new :: "torrent_streams \<Rightarrow> nat \<Rightarrow> file_info \<Rightarrow> file_stream \<times> torrent_streams" where
  "stream_new ts file_id fi =
     (case next_id ts of (sid, ts) \<Rightarrow>
        (\<lparr>fs_stream_id = sid, fs_file_id = file_id, fs_position = 0, fs_file_len = fi_len fi,
          fs_file_torrent_abs_offset = offset_in_torrent fi\<rparr>,
         ts\<lparr>streams := AList.update sid \<lparr>ss_file_id = file_id, ss_file_len = fi_len fi,
              ss_file_abs_offset = offset_in_torrent fi, ss_position = 0, ss_waker = None\<rparr> (streams ts)\<rparr>))"

subsection \<open>Interleaving\<close>

lemma interleave_mset: "mset (interleave qs) = mset (concat qs)"
  by (induction qs rule: interleave.induct) auto

lemma set_interleave [simp]: "set (interleave qs) = set (concat qs)"
  using mset_eq_setD [OF interleave_mset] .

lemma interleave_rotate:
  "\<forall>q \<in> set qs. q \<noteq> [] \<Longrightarrow> interleave (qs @ rs) = map hd qs @ interleave (rs @ map tl qs)"
proof (induction qs arbitrary: rs)
  case Nil
  then show ?case by simp
next
  case (Cons q qs)
  then obtain x xs where "q = x # xs" by (cases q) auto
  with Cons show ?case by simp
qed

lemma interleave_first_round:
  assumes "\<forall>q \<in> set qs. q \<noteq> []"
  shows "interleave qs = map hd qs @ interleave (map tl qs)"
  using interleave_rotate [OF assms, of "[]"] by simp

subsection \<open>A registered reader\<close>

definition registered :: "file_stream \<Rightarrow> torrent_streams \<Rightarrow> bool" where
  "registered s ts \<longleftrightarrow> tbl_ok (streams ts) \<and>
     (\<exists>st. map_of (streams ts) (fs_stream_id s) = Some st \<and> ss_position st = fs_position s \<and>
       ss_file_id st = fs_file_id s \<and> ss_file_len st = fs_file_len s \<and> ss_file_abs_offset st = fs_file_torrent_abs_offset s)"

lemma registeredE:
  assumes "registered s ts"
  obtains st where "map_of (streams ts) (fs_stream_id s) = Some st" "ss_position st = fs_position s"
    "ss_file_id st = fs_file_id s" "ss_file_len st = fs_file_len s" "ss_file_abs_offset st = fs_file_torrent_abs_offset s"
  using assms by (auto simp: registered_def)

lemma stream_new_registered:
  assumes "tbl_ok (streams ts)" "stream_new ts file_id fi = (s, ts')"
  shows "registered s ts'"
  using assms by (auto simp: stream_new_def next_id_def registered_def update_conv')

lemma set_position_registered:
  assumes "registered s ts"
  shows "\<exists>s' ts'. set_position s ts n = Inr (s', ts') \<and> registered s' ts' \<and> s' = s\<lparr>fs_position := n\<rparr> \<and>
    (\<forall>i. i \<noteq> fs_stream_id s \<longrightarrow> map_of (streams ts') i = map_of (streams ts) i)"
  using assms by (auto simp: registered_def set_position_def update_conv')

lemma register_waker_registered: "registered s ts \<Longrightarrow> registered s (register_waker ts i w)"
  by (auto simp: registered_def register_waker_def update_conv' split: option.splits)

subsection \<open>Reading\<close>

text \<open>A reader of file \<open>i\<close> of the torrent, somewhere inside it.\<close>

definition reader_ok :: "lengths \<Rightarrow> file_info list \<Rightarrow> file_stream \<Rightarrow> torrent_streams \<Rightarrow> bool" where
  "reader_ok l fis s ts \<longleftrightarrow> registered s ts \<and> fs_file_id s < length fis \<and>
     fs_file_len s = fi_len (fis ! fs_file_id s) \<and>
     fs_file_torrent_abs_offset s = offset_in_torrent (fis ! fs_file_id s) \<and> fs_position s \<le> fs_file_len s"

lemma poll_read_cases:
  fixes buf_len :: nat
  assumes wf: "wf_lengths l" "wf_file_infos l fis" and inv: "ct_inv ct" "ct_lengths ct = l"
    and ok: "reader_ok l fis s ts" and pos: "fs_position s < fs_file_len s"
  defines "x \<equiv> fs_file_torrent_abs_offset s + fs_position s"
  defines "n \<equiv> min (min buf_len (piece_length l (x div default_piece_length l) - x mod default_piece_length l))
    (fs_file_len s - fs_position s)"
  shows "x < total_length l" "x div default_piece_length l < total_pieces l"
    "n \<le> fs_file_len s - fs_position s" "x mod default_piece_length l + n \<le> default_piece_length l"
    "0 < buf_len \<Longrightarrow> 0 < n"
    "\<not> ct_have ct ! (x div default_piece_length l) \<Longrightarrow>
       poll_read l (Inr ct) read s ts w buf_len = Inr (Pending, s, register_waker ts (fs_stream_id s) w)"
    "ct_have ct ! (x div default_piece_length l) \<Longrightarrow>
       poll_read l (Inr ct) read s ts w buf_len =
         (case read (fs_file_id s) (fs_position s) n of
            Inl e \<Rightarrow> Inr (Ready (Inl e), s, ts)
          | Inr bs \<Rightarrow> rbind (advance s ts n) (\<lambda>(s, ts). Inr (Ready (Inr bs), s, ts)))"
proof -
  let ?d = "default_piece_length l"
  have f: "fs_file_id s < length fis" "fs_file_len s = fi_len (fis ! fs_file_id s)"
    "fs_file_torrent_abs_offset s = offset_in_torrent (fis ! fs_file_id s)"
    using ok by (auto simp: reader_ok_def)
  show x: "x < total_length l" using file_fits [OF wf f(1)] f pos by (simp add: x_def)
  note cp = compute_current_piece_Some [OF wf(1) x [unfolded x_def], folded x_def]
  note b = compute_current_piece_bounds [OF wf(1) x [unfolded x_def] cp [unfolded x_def], folded x_def, simplified]
  show p: "x div ?d < total_pieces l" by (rule b(1))
  show "n \<le> fs_file_len s - fs_position s" by (simp add: n_def)
  have rem: "x mod ?d + (piece_length l (x div ?d) - x mod ?d) \<le> ?d"
    using piece_length_bounds(2) [OF wf(1), of "x div ?d"] b(4) by simp
  then show "x mod ?d + n \<le> ?d" by (simp add: n_def)
  show "0 < n" if "0 < buf_len" using that b(4) pos by (simp add: n_def)
  have sub: "sub64 (fs_file_len s) (fs_position s) = fs_file_len s - fs_position s"
    using file_fits [OF wf f(1)] f(2) pos wf_total [OF wf(1)] by (simp add: sub64_exact)
  have ix: "bf_index (ct_have ct) (x div ?d) = Inr (ct_have ct ! (x div ?d))"
    using ct_inv_bits(1) [OF inv(1)] p inv(2) by simp
  show "poll_read l (Inr ct) read s ts w buf_len = Inr (Pending, s, register_waker ts (fs_stream_id s) w)"
    if "\<not> ct_have ct ! (x div ?d)"
    using pos cp ix that by (simp add: poll_read_def)
  show "poll_read l (Inr ct) read s ts w buf_len = (case read (fs_file_id s) (fs_position s) n of
            Inl e \<Rightarrow> Inr (Ready (Inl e), s, ts)
          | Inr bs \<Rightarrow> rbind (advance s ts n) (\<lambda>(s, ts). Inr (Ready (Inr bs), s, ts)))"
    if "ct_have ct ! (x div ?d)"
    using pos cp ix that sub by (simp add: poll_read_def n_def [symmetric] Let_def split: sum.split)
qed

text \<open>A reader that waits is woken when the piece it waits for completes.\<close>

lemma wake_one_fst: "fst (fst (wake_one l p e)) = fst e"
  by (auto simp: wake_one_def split: option.split)

lemma woken:
  assumes "map_of (streams ts) i = Some st" "ss_waker st = Some w"
    and "map_option cp_id (ss_current_piece st l) = Some p"
  shows "w \<in> set (snd (wake_streams_on_piece_completed ts p l))"
proof -
  have "(i, st) \<in> set (streams ts)" using assms(1) by (rule map_of_SomeD)
  moreover have "snd (wake_one l p (i, st)) = [w]" using assms by (simp add: wake_one_def)
  ultimately have "w \<in> set (concat (map (snd \<circ> wake_one l p) (streams ts)))" by force
  then show ?thesis by (simp add: wake_streams_on_piece_completed_def)
qed

lemma wake_registered:
  assumes "registered s ts"
  shows "registered s (fst (wake_streams_on_piece_completed ts p l))"
proof -
  let ?al = "streams ts"
  have k: "map fst (map (fst \<circ> wake_one l p) ?al) = map fst ?al" by (simp add: wake_one_fst)
  obtain st where st: "map_of ?al (fs_stream_id s) = Some st" "ss_position st = fs_position s" "ss_file_id st = fs_file_id s"
    "ss_file_len st = fs_file_len s" "ss_file_abs_offset st = fs_file_torrent_abs_offset s"
    using assms by (auto simp: registered_def)
  have ok: "tbl_ok ?al" using assms by (simp add: registered_def)
  then have ok': "tbl_ok (map (fst \<circ> wake_one l p) ?al)" unfolding tbl_ok_def k .
  let ?st = "snd (fst (wake_one l p (fs_stream_id s, st)))"
  have "(fs_stream_id s, st) \<in> set ?al" using st(1) by (rule map_of_SomeD)
  then have "(fs_stream_id s, ?st) \<in> set (map (fst \<circ> wake_one l p) ?al)"
    using wake_one_fst [of l p "(fs_stream_id s, st)"]
    by (metis (no_types, lifting) comp_apply fst_conv image_eqI list.set_map prod.collapse)
  then have "map_of (map (fst \<circ> wake_one l p) ?al) (fs_stream_id s) = Some ?st" using ok' tbl_in_set by metis
  moreover have "ss_position ?st = ss_position st" "ss_file_id ?st = ss_file_id st" "ss_file_len ?st = ss_file_len st"
    "ss_file_abs_offset ?st = ss_file_abs_offset st"
    by (auto simp: wake_one_def split: option.splits)
  ultimately show ?thesis
    using ok' st unfolding registered_def wake_streams_on_piece_completed_def by auto
qed

text \<open>The outcome of a read in the file system storage.\<close>

lemma poll_read_delivers:
  assumes wf: "wf_lengths l" "wf_file_infos l fis" and inv: "ct_inv ct" "ct_lengths ct = l"
    and st: "fs_inv l fis fs" "\<not> padding (fi_attrs (fis ! fs_file_id s))"
    and ok: "reader_ok l fis s ts" and pos: "fs_position s < fs_file_len s" and buf: "0 < buf_len"
    and disk: "\<forall>q. q < total_pieces l \<and> ct_have ct ! q \<longrightarrow>
      (\<forall>j < piece_length l q. fs_tb l fis fs (piece_offset l q + j) \<noteq> None)"
  defines "x \<equiv> fs_file_torrent_abs_offset s + fs_position s"
  shows "\<exists>r s' ts'. poll_read l (Inr ct) (fs_pread_exact fs) s ts w buf_len = Inr (r, s', ts') \<and> reader_ok l fis s' ts' \<and>
    (if ct_have ct ! (x div default_piece_length l) then
       \<exists>n. 0 < n \<and> n \<le> fs_file_len s - fs_position s \<and> r = Ready (Inr (map (\<lambda>j. the (fs_tb l fis fs (x + j))) [0..<n])) \<and>
         s' = s\<lparr>fs_position := fs_position s + n\<rparr> \<and>
         (\<forall>j < n. (x + j) div default_piece_length l = x div default_piece_length l)
     else r = Pending \<and> s' = s \<and> (\<exists>st. map_of (streams ts') (fs_stream_id s) = Some st \<and> ss_waker st = Some w))"
proof -
  let ?d = "default_piece_length l"
  let ?p = "x div ?d"
  define n where "n = min (min buf_len (piece_length l ?p - x mod ?d)) (fs_file_len s - fs_position s)"
  note C = poll_read_cases [OF wf inv ok pos, folded x_def]
  note N = C(3-5) [of buf_len, folded n_def] and R = C(7) [where buf_len = buf_len, folded n_def]
  have f: "fs_file_id s < length fis" "fs_file_len s = fi_len (fis ! fs_file_id s)"
    "fs_file_torrent_abs_offset s = offset_in_torrent (fis ! fs_file_id s)" and reg: "registered s ts"
    using ok by (auto simp: reader_ok_def)
  show ?thesis
  proof (cases "ct_have ct ! ?p")
    case False
    obtain sst where "map_of (streams ts) (fs_stream_id s) = Some sst" using reg by (auto simp: registered_def)
    then have "\<exists>st. map_of (streams (register_waker ts (fs_stream_id s) w)) (fs_stream_id s) = Some st \<and> ss_waker st = Some w"
      by (simp add: register_waker_def update_conv')
    then show ?thesis
      using C(6) [OF False] ok register_waker_registered [OF reg, of "fs_stream_id s" w] False by (simp add: reader_ok_def)
  next
    case True
    have nn: "n \<le> fs_file_len s - fs_position s" "x mod ?d + n \<le> ?d" "0 < n" using N(1,2) N(3) [OF buf] by auto
    have a: "access l fis (fs_file_id s) (fs_position s) n x"
      unfolding access_def using wf f st(2) nn pos C(1) by (simp add: x_def)
    have some: "fs_tb l fis fs (x + j) \<noteq> None" if "j < n" for j
    proof -
      have po: "piece_offset l ?p = ?p * ?d" by (rule piece_offset_eq [OF wf(1) piece_index_u32 [OF wf(1) C(2)]])
      have "x mod ?d + j < piece_length l ?p" using that nn(3) unfolding n_def by linarith
      then have "fs_tb l fis fs (piece_offset l ?p + (x mod ?d + j)) \<noteq> None" using disk C(2) True by blast
      then show ?thesis by (simp add: po add.assoc [symmetric])
    qed
    have rd: "fs_pread_exact fs (fs_file_id s) (fs_position s) n = Inr (map (\<lambda>j. the (fs_tb l fis fs (x + j))) [0..<n])"
      by (rule fs_pread_law [OF st(1) a some])
    have "fs_position s + n < 2 ^ 64"
      using nn(1) pos file_fits [OF wf f(1)] f(2) wf_total [OF wf(1)] by simp
    then have ad: "add64 (fs_position s) n = fs_position s + n" by (simp add: add64_exact)
    obtain s' ts' where sp: "set_position s ts (fs_position s + n) = Inr (s', ts')" "registered s' ts'"
      "s' = s\<lparr>fs_position := fs_position s + n\<rparr>"
      using set_position_registered [OF reg] by blast
    have "(x + j) div ?d = ?p" if "j < n" for j by (rule same_piece(1) [OF that nn(2)])
    moreover have "reader_ok l fis s' ts'" using sp ok nn(1) pos by (simp add: reader_ok_def)
    ultimately show ?thesis
      using R [OF True, of "fs_pread_exact fs" w] rd ad sp nn True by (auto simp: advance_def)
  qed
qed

subsection \<open>Reading to the end\<close>

text \<open>A consumer polls until it gets nothing. Fuel bounds the number of polls; no result means that it ran out, or that a poll
  failed or had to wait.\<close>

fun read_to_end ::
  "nat \<Rightarrow> lengths \<Rightarrow> chunk_tracker res \<Rightarrow> (nat \<Rightarrow> nat \<Rightarrow> nat \<Rightarrow> nat list res) \<Rightarrow> file_stream \<Rightarrow> torrent_streams \<Rightarrow> nat \<Rightarrow> nat
   \<Rightarrow> (nat list \<times> file_stream \<times> torrent_streams) option" where
  "read_to_end 0 l chunks read s ts waker buf_len = None"
| "read_to_end (Suc fuel) l chunks read s ts waker buf_len =
     (case poll_read l chunks read s ts waker buf_len of
        Inr (Ready (Inr bs), s, ts) \<Rightarrow>
          if bs = [] then Some ([], s, ts)
          else map_option (\<lambda>(rest, s, ts). (bs @ rest, s, ts)) (read_to_end fuel l chunks read s ts waker buf_len)
      | _ \<Rightarrow> None)"

lemma map_upt_append: "map f [0..<n] @ map (\<lambda>j. f (n + j)) [0..<m] = map f [0..<n + m]"
  by (induction m) auto

lemma read_to_end_delivers:
  assumes wf: "wf_lengths l" "wf_file_infos l fis" and inv: "ct_inv ct" "ct_lengths ct = l"
    and st: "fs_inv l fis fs" and buf: "0 < buf_len"
    and disk: "\<forall>q. q < total_pieces l \<and> ct_have ct ! q \<longrightarrow>
      (\<forall>j < piece_length l q. fs_tb l fis fs (piece_offset l q + j) \<noteq> None)"
  shows "reader_ok l fis s ts \<Longrightarrow> \<not> padding (fi_attrs (fis ! fs_file_id s)) \<Longrightarrow>
    \<forall>j < fs_file_len s - fs_position s. ct_have ct ! ((fs_file_torrent_abs_offset s + fs_position s + j) div default_piece_length l) \<Longrightarrow>
    fs_file_len s - fs_position s < fuel \<Longrightarrow>
    \<exists>s' ts'. read_to_end fuel l (Inr ct) (fs_pread_exact fs) s ts w buf_len =
      Some (map (\<lambda>j. the (fs_tb l fis fs (fs_file_torrent_abs_offset s + fs_position s + j))) [0..<fs_file_len s - fs_position s], s', ts') \<and>
      reader_ok l fis s' ts' \<and> fs_position s' = fs_file_len s"
proof (induction fuel arbitrary: s ts)
  case (Suc fuel)
  let ?x = "fs_file_torrent_abs_offset s + fs_position s"
  have le: "fs_position s \<le> fs_file_len s" using Suc.prems(1) by (simp add: reader_ok_def)
  show ?case
  proof (cases "fs_position s = fs_file_len s")
    case True
    then show ?thesis using Suc.prems(1) by (simp add: poll_read_def)
  next
    case False
    then have pos: "fs_position s < fs_file_len s" using le by simp
    have have_it: "ct_have ct ! (?x div default_piece_length l)" using Suc.prems(3) [rule_format, of 0] pos by simp
    from poll_read_delivers [OF wf inv st Suc.prems(2,1) pos buf disk, of w] have_it
    obtain s1 ts1 n where r: "poll_read l (Inr ct) (fs_pread_exact fs) s ts w buf_len =
        Inr (Ready (Inr (map (\<lambda>j. the (fs_tb l fis fs (?x + j))) [0..<n])), s1, ts1)"
      and n: "0 < n" "n \<le> fs_file_len s - fs_position s" and s1: "s1 = s\<lparr>fs_position := fs_position s + n\<rparr>" "reader_ok l fis s1 ts1"
      by auto
    have "ct_have ct ! ((fs_file_torrent_abs_offset s1 + fs_position s1 + j) div default_piece_length l)"
      if "j < fs_file_len s1 - fs_position s1" for j
      using that Suc.prems(3) [rule_format, of "n + j"] n(2) s1(1) by (simp add: add.assoc)
    moreover have "\<not> padding (fi_attrs (fis ! fs_file_id s1))" "fs_file_len s1 - fs_position s1 < fuel"
      using Suc.prems(2,4) s1(1) n by simp_all
    ultimately obtain s' ts' where e: "read_to_end fuel l (Inr ct) (fs_pread_exact fs) s1 ts1 w buf_len =
        Some (map (\<lambda>j. the (fs_tb l fis fs (?x + (n + j)))) [0..<fs_file_len s - (fs_position s + n)], s', ts')"
      "reader_ok l fis s' ts'" "fs_position s' = fs_file_len s"
      using Suc.IH [OF s1(2)] s1(1) by (auto simp: add.assoc)
    have "n + (fs_file_len s - (fs_position s + n)) = fs_file_len s - fs_position s" using n(2) by simp
    then show ?thesis
      using r e n(1) map_upt_append [of "\<lambda>j. the (fs_tb l fis fs (?x + j))" n "fs_file_len s - (fs_position s + n)"] by simp
  qed
qed simp

subsection \<open>Properties\<close>

text \<open>C10: a read on a stream of a file in the file system storage. At the end of the file it delivers nothing.
  Before it, if the piece at the reader's position is not verified the reader waits with its waker
  registered; otherwise it delivers exactly the bytes of the file at that position, at least one if
  the buffer has room, never more than the file has left, all of them from that verified piece, and
  moves on by their number, in the registry too.\<close>

theorem stream_delivers_verified_bytes:
  assumes wf: "wf_lengths l" "wf_file_infos l fis" and inv: "ct_inv ct" "ct_lengths ct = l"
    and st: "fs_inv l fis fs" "\<not> padding (fi_attrs (fis ! fs_file_id s))"
    and ok: "reader_ok l fis s ts" and pos: "fs_position s < fs_file_len s" and buf: "0 < buf_len"
    and disk: "\<forall>q. q < total_pieces l \<and> ct_have ct ! q \<longrightarrow>
      (\<forall>j < piece_length l q. fs_tb l fis fs (piece_offset l q + j) \<noteq> None)"
  defines "x \<equiv> fs_file_torrent_abs_offset s + fs_position s"
  shows "\<exists>r s' ts'. poll_read l (Inr ct) (fs_pread_exact fs) s ts w buf_len = Inr (r, s', ts') \<and> reader_ok l fis s' ts' \<and>
    (if ct_have ct ! (x div default_piece_length l) then
       \<exists>n. 0 < n \<and> n \<le> fs_file_len s - fs_position s \<and> r = Ready (Inr (map (\<lambda>j. the (fs_tb l fis fs (x + j))) [0..<n])) \<and>
         s' = s\<lparr>fs_position := fs_position s + n\<rparr> \<and>
         (\<forall>j < n. (x + j) div default_piece_length l = x div default_piece_length l)
     else r = Pending \<and> s' = s \<and> (\<exists>st. map_of (streams ts') (fs_stream_id s) = Some st \<and> ss_waker st = Some w))"
  unfolding x_def by (rule poll_read_delivers [OF assms(1-10)])

definition ex_fs :: file_stream where
  "ex_fs = \<lparr>fs_stream_id = 0, fs_file_id = 2, fs_position = 0, fs_file_len = 70, fs_file_torrent_abs_offset = 30\<rparr>"

definition ex_streams :: torrent_streams where
  "ex_streams = \<lparr>next_stream_id = 1, streams = [(0, \<lparr>ss_file_id = 2, ss_file_len = 70, ss_file_abs_offset = 30,
     ss_position = 0, ss_waker = None\<rparr>)]\<rparr>"

lemma ex_reader_ok: "reader_ok ex_lengths ex_files ex_fs ex_streams"
  by (simp add: reader_ok_def registered_def ex_fs_def ex_streams_def tbl_ok_def ex_files_def)

lemma ex_disk: "\<forall>q. q < total_pieces ex_lengths \<and> ct_have ex_ct ! q \<longrightarrow>
    (\<forall>j < piece_length ex_lengths q. fs_tb ex_lengths ex_files ex_storage (piece_offset ex_lengths q + j) \<noteq> None)"
proof (intro allI impI)
  fix q j assume q: "q < total_pieces ex_lengths \<and> ct_have ex_ct ! q" and "j < piece_length ex_lengths q"
  then have "piece_offset ex_lengths q + j < 100" using piece_span(1) [OF ex_lengths_wf, of q] by simp
  then show "fs_tb ex_lengths ex_files ex_storage (piece_offset ex_lengths q + j) \<noteq> None" by (rule ex_storage_full)
qed

theorem stream_delivers_verified_bytes_witness:
  "\<exists>n s' ts'. 0 < n \<and> s' = ex_fs\<lparr>fs_position := n\<rparr> \<and> (\<exists>r. poll_read ex_lengths (Inr ex_ct) (fs_pread_exact ex_storage) ex_fs ex_streams 5 64
     = Inr (r, s', ts'))"
proof -
  have "ct_lengths ex_ct = ex_lengths" "\<not> padding (fi_attrs (ex_files ! fs_file_id ex_fs))" "fs_position ex_fs < fs_file_len ex_fs"
    "ct_have ex_ct ! 0"
    by (simp_all add: ex_ct_def ex_files_def ex_fs_def default_attrs_def ex_have_def)
  then show ?thesis
    using stream_delivers_verified_bytes [OF ex_lengths_wf ex_files_wf ex_ct_inv _ ex_storage_inv _ ex_reader_ok, of 64 5] ex_disk
    by (auto simp: ex_fs_def)
qed

text \<open>C33: no lost wake-up: once a read on a registered stream had to wait, the completion of the piece at its
  position wakes it, however other streams move in between.\<close>

theorem waiting_stream_is_woken:
  assumes wf: "wf_lengths l" "wf_file_infos l fis" and inv: "ct_inv ct" "ct_lengths ct = l"
    and ok: "reader_ok l fis s ts" and pend: "poll_read l (Inr ct) read s ts w buf_len = Inr (Pending, s', ts')"
    and later: "map_of (streams ts'') (fs_stream_id s) = map_of (streams ts') (fs_stream_id s)"
  defines "p \<equiv> (fs_file_torrent_abs_offset s + fs_position s) div default_piece_length l"
  shows "p < total_pieces l \<and> \<not> ct_have ct ! p \<and> w \<in> set (snd (wake_streams_on_piece_completed ts'' p l))"
proof -
  have pos: "fs_position s < fs_file_len s"
    using ok pend by (cases "fs_position s = fs_file_len s") (auto simp: reader_ok_def poll_read_def)
  note C = poll_read_cases [OF wf inv ok pos, folded p_def]
  have nh: "\<not> ct_have ct ! p"
  proof
    assume "ct_have ct ! p"
    from C(7) [OF this, where read = read and w = w and buf_len = buf_len] pend show False
      by (auto split: sum.splits simp: rbind_def)
  qed
  then have ts': "ts' = register_waker ts (fs_stream_id s) w" using C(6) [where read = read and w = w and buf_len = buf_len] pend by auto
  obtain st where st: "map_of (streams ts) (fs_stream_id s) = Some st" "ss_position st = fs_position s"
    "ss_file_abs_offset st = fs_file_torrent_abs_offset s"
    using ok by (auto simp: reader_ok_def registered_def)
  have "map_of (streams ts'') (fs_stream_id s) = Some (st\<lparr>ss_waker := Some w\<rparr>)"
    using later st(1) by (simp add: ts' register_waker_def update_conv')
  moreover have "map_option cp_id (ss_current_piece (st\<lparr>ss_waker := Some w\<rparr>) l) = Some p"
    using compute_current_piece_Some [OF wf(1) C(1)] st by (simp add: ss_current_piece_def p_def)
  ultimately have "w \<in> set (snd (wake_streams_on_piece_completed ts'' p l))" by (intro woken) auto
  then show ?thesis using C(2) nh by simp
qed

definition ex_fs2 :: file_stream where
  "ex_fs2 = ex_fs\<lparr>fs_position := 40\<rparr>"

definition ex_streams2 :: torrent_streams where
  "ex_streams2 = \<lparr>next_stream_id = 1, streams = [(0, \<lparr>ss_file_id = 2, ss_file_len = 70, ss_file_abs_offset = 30,
     ss_position = 40, ss_waker = None\<rparr>)]\<rparr>"

lemma ex_reader_ok2: "reader_ok ex_lengths ex_files ex_fs2 ex_streams2"
  by (simp add: reader_ok_def registered_def ex_fs2_def ex_fs_def ex_streams2_def tbl_ok_def ex_files_def)

theorem waiting_stream_is_woken_witness:
  "7 \<in> set (snd (wake_streams_on_piece_completed (register_waker ex_streams2 0 7) 1 ex_lengths))"
proof -
  have l: "ct_lengths ex_ct = ex_lengths" by (simp add: ex_ct_def)
  have pos: "fs_position ex_fs2 < fs_file_len ex_fs2" by (simp add: ex_fs2_def ex_fs_def)
  have "poll_read ex_lengths (Inr ex_ct) (\<lambda>_ _ _. Inr []) ex_fs2 ex_streams2 7 10 = Inr (Pending, ex_fs2, register_waker ex_streams2 0 7)"
    using poll_read_cases(6) [OF ex_lengths_wf ex_files_wf ex_ct_inv l ex_reader_ok2 pos]
    by (simp add: ex_fs2_def ex_fs_def ex_ct_def ex_have_def)
  from waiting_stream_is_woken [OF ex_lengths_wf ex_files_wf ex_ct_inv l ex_reader_ok2 this refl]
  show ?thesis by (simp add: ex_fs2_def ex_fs_def)
qed

text \<open>seeking. A successful seek puts the reader and its registry entry at the requested position, which
  lies in the file; a target outside the file is refused and changes nothing; no seek with offsets
  that fit their type wraps around to a position inside the file by accident.\<close>

theorem seek_stays_in_file:
  assumes reg: "registered s ts" and len: "fs_file_len s < 2 ^ 62" "fs_position s \<le> fs_file_len s"
    and off: "case position of SeekStart p \<Rightarrow> p < 2 ^ 64 | SeekEnd e \<Rightarrow> - (2 ^ 62) \<le> e \<and> e < 2 ^ 62 | SeekCurrent d \<Rightarrow> - (2 ^ 62) \<le> d \<and> d < 2 ^ 62"
  defines "target \<equiv> (case position of SeekStart p \<Rightarrow> int p | SeekEnd e \<Rightarrow> int (fs_file_len s) + e
      | SeekCurrent d \<Rightarrow> int (fs_position s) + d)"
  shows "if 0 \<le> target \<and> target \<le> int (fs_file_len s)
    then \<exists>s' ts'. start_seek s ts position = Inr (s', ts') \<and> registered s' ts' \<and> s' = s\<lparr>fs_position := nat target\<rparr>
    else \<exists>e. start_seek s ts position = Inl e"
proof -
  have n: "try_i64 (fs_file_len s) = Some (int (fs_file_len s))" "try_i64 (fs_position s) = Some (int (fs_position s))"
    using len by (simp_all add: try_i64_def)
  have add: "add_i64 a b = a + b" if "0 \<le> a" "a < 2 ^ 62" "- (2 ^ 62) \<le> b" "b < 2 ^ 62" for a b
    using that by (simp add: add_i64_def)
  have big: "SeekStart p = position \<Longrightarrow> try_i64 p = None \<Longrightarrow> \<not> (0 \<le> target \<and> target \<le> int (fs_file_len s))" for p
    using len by (auto simp: target_def try_i64_def split: if_splits)
  have e: "start_seek s ts position = (if 0 \<le> target \<and> target \<le> int (fs_file_len s)
      then set_position s ts (nat target) else start_seek s ts position)"
    using n add len off big
    by (cases position) (auto simp: start_seek_def io_err_def target_def try_i64_def split: if_splits)
  have "\<exists>e. start_seek s ts position = Inl e" if "\<not> (0 \<le> target \<and> target \<le> int (fs_file_len s))"
    using n add len off that
    by (cases position) (auto simp: start_seek_def io_err_def target_def try_i64_def split: if_splits)
  then show ?thesis using e set_position_registered [OF reg, of "nat target"] by auto
qed

theorem seek_stays_in_file_witness:
  "\<exists>s' ts'. start_seek ex_fs ex_streams (SeekEnd (- 5)) = Inr (s', ts') \<and> fs_position s' = 65"
  using seek_stays_in_file [of ex_fs ex_streams "SeekEnd (- 5)"] ex_reader_ok
  by (auto simp: reader_ok_def ex_fs_def)

text \<open>the pieces that streams want are handed out in turn: whatever the random order of the streams, the
  sequence is a permutation of all wanted pieces and its first round has the first piece of each
  stream.\<close>

theorem streams_are_served_in_turn:
  assumes q: "collect_queues l (streams ts) = Inr all" and sh: "\<forall>qs. mset (shuffle qs) = mset qs"
  shows "\<exists>ps. iter_next_pieces shuffle ts l = Inr ps \<and> mset ps = mset (concat all) \<and>
    ((\<forall>q \<in> set all. q \<noteq> []) \<longrightarrow> mset (take (length all) ps) = mset (map hd all))"
proof -
  let ?qs = "shuffle all"
  have m: "mset ?qs = mset all" using sh by simp
  then have "mset (concat ?qs) = mset (concat all)" by (simp add: mset_concat) (metis mset_map sum_mset_sum_list)
  moreover have "mset (take (length all) (interleave ?qs)) = mset (map hd all)" if "\<forall>q \<in> set all. q \<noteq> []"
  proof -
    have "\<forall>q \<in> set ?qs. q \<noteq> []" using that mset_eq_setD [OF m] by simp
    moreover have "length ?qs = length all" using m by (metis size_mset)
    ultimately have "take (length all) (interleave ?qs) = map hd ?qs" by (simp add: interleave_first_round)
    then show ?thesis using m by simp
  qed
  ultimately show ?thesis using q by (simp add: iter_next_pieces_def interleave_mset)
qed

theorem streams_are_served_in_turn_witness:
  "\<exists>ps. iter_next_pieces (\<lambda>qs. qs) ex_streams ex_lengths = Inr ps \<and> mset ps = mset [0, 1, 2::nat]"
proof -
  have "collect_queues ex_lengths (streams ex_streams) = Inr [[0, 1, 2]]"
    by (simp add: ex_streams_def ss_queue_def PER_STREAM_BUF_DEFAULT_def width_defs validate_piece_index_def
        upt_conv_Cons List.map_filter_simps)
  from streams_are_served_in_turn [OF this, of "\<lambda>qs. qs"] show ?thesis by auto
qed

end
