(* ===== verification/Live.thy ===== *)
theory Live
  imports Selection Streaming Peer_State "HOL-Library.List_Lexorder" "HOL-Library.Char_ord"
begin

text \<open>
  The state of a running torrent and the operations on it that belong to no single peer:
  \<^verbatim>\<open>torrent_state/live/mod.rs\<close>, \<^verbatim>\<open>impl TorrentStateLocked\<close> and \<^verbatim>\<open>impl TorrentStateLive\<close>, and \<^verbatim>\<open>paused.rs\<close>.

  \<^item> Everything behind a lock or an atomic is a field of \<open>live_state\<close>; a handler is a function on it. What
    the code sends over channels is collected: requests to writers in \<open>lv_out\<close>, addresses for the peer
    adder in \<open>lv_peer_queue\<close>, uploads in \<open>lv_upload_queue\<close>, broadcast pieces in \<open>lv_haves\<close>. A channel whose
    receiver is gone makes a send fail (\<open>lv_queue_open\<close>, \<open>lv_upload_open\<close>).
  \<^item> \<open>env\<close> collects what other crates or the platform provide: the storage, the hash, the random order of
    streams, the back-off timer, the order of hash sets, and whether the bit field could be flushed.
  \<^item> Times are milliseconds. Notifications (\<^verbatim>\<open>Notify\<close>) leave no trace in the state: a task that waits for
    one re-examines the state when it runs again.
\<close>

subsection \<open>State\<close>

record inflight_piece =
  if_peer :: peer_handle
  if_started :: nat

record state_locked =
  chunks :: "chunk_tracker option"
  file_priorities :: "nat list"
  inflight_pieces :: "(valid_piece_index \<times> inflight_piece) list"
  fatal_errors_tx :: bool
  unflushed_bitv_bytes :: nat

record atomic_stats =
  st_have_bytes :: "64 word"
  st_downloaded_and_checked_bytes :: "64 word"
  st_downloaded_and_checked_pieces :: "64 word"
  st_uploaded_bytes :: "64 word"
  st_fetched_bytes :: "64 word"
  st_total_piece_download_ms :: "64 word"

record ('b, 's) live_state =
  lv_peers :: "'b peer_states"
  lv_metadata :: torrent_metadata
  lv_locked :: state_locked
  lv_files :: 's
  lv_writing :: "valid_piece_index list" \<comment> \<open>read holders of the per piece locks\<close>
  lv_stats :: atomic_stats
  lv_lengths :: lengths
  lv_permits :: nat \<comment> \<open>of the peer semaphore\<close>
  lv_peer_queue :: "socket_addr list"
  lv_queue_open :: bool
  lv_streams :: torrent_streams
  lv_haves :: "valid_piece_index list"
  lv_upload_queue :: "(peer_tx \<times> chunk_info) list"
  lv_upload_open :: bool
  lv_session_fetched :: "64 word"
  lv_session_uploaded :: "64 word"
  lv_out :: outbox
  lv_woken :: "nat list"
  lv_fatal :: "err list" \<comment> \<open>sent to the owner of the torrent\<close>
  lv_cancelled :: bool
  lv_disable_upload :: bool

record ('b, 's) env =
  e_pread :: "'s \<Rightarrow> nat \<Rightarrow> nat \<Rightarrow> nat \<Rightarrow> nat list res"
  e_pwrite :: "'s \<Rightarrow> nat \<Rightarrow> nat \<Rightarrow> nat list \<Rightarrow> 's res"
  e_take :: "'s \<Rightarrow> ('s \<times> 's) res"
  e_sha1 :: "nat list \<Rightarrow> nat list"
  e_shuffle :: "valid_piece_index list list \<Rightarrow> valid_piece_index list list"
  e_backoff0 :: 'b
  e_next_backoff :: "'b \<Rightarrow> nat option \<times> 'b"
  e_backoff_reset :: "'b \<Rightarrow> 'b"
  e_set_order :: "socket_addr set \<Rightarrow> socket_addr list"
  e_flush :: "bits \<Rightarrow> bool"

record 's paused_state =
  pa_metadata :: torrent_metadata
  pa_files :: 's
  pa_chunk_tracker :: chunk_tracker
  pa_streams :: torrent_streams
  pa_disable_upload :: bool

subsection \<open>The locked part\<close>

definition get_chunks :: "state_locked \<Rightarrow> chunk_tracker res" where
  "get_chunks g = of_option (Bail ''chunk tracker empty, torrent was paused'') (chunks g)"

text \<open>\<^verbatim>\<open>get_chunks_mut()?\<close> followed by an operation of the tracker.\<close>

definition with_chunks_mut ::
  "('b, 's) live_state \<Rightarrow> (chunk_tracker \<Rightarrow> ('a \<times> chunk_tracker) res) \<Rightarrow> 'a res \<times> ('b, 's) live_state" where
  "with_chunks_mut st f =
     (case get_chunks (lv_locked st) of
        Inl e \<Rightarrow> (Inl e, st)
      | Inr ct \<Rightarrow>
          (case f ct of
             Inl e \<Rightarrow> (Inl e, st)
           | Inr (a, ct) \<Rightarrow> (Inr a, st\<lparr>lv_locked := (lv_locked st)\<lparr>chunks := Some ct\<rparr>\<rparr>)))"

definition set_peers :: "('b, 's) live_state \<Rightarrow> 'b peer_states \<Rightarrow> ('b, 's) live_state" where
  "set_peers st ps = st\<lparr>lv_peers := ps\<rparr>"

definition mark_broken :: "('b, 's) live_state \<Rightarrow> valid_piece_index \<Rightarrow> unit res \<times> ('b, 's) live_state" where
  "mark_broken st p = with_chunks_mut st (\<lambda>ct. rbind (mark_piece_broken_if_not_have ct p) (\<lambda>ct. Inr ((), ct)))"

definition try_flush_bitv :: "(bits \<Rightarrow> bool) \<Rightarrow> state_locked \<Rightarrow> state_locked" where
  "try_flush_bitv flush g =
     (if unflushed_bitv_bytes g = 0 then g
      else case chunks g of
             Some ct \<Rightarrow> if flush (ct_have ct) then g\<lparr>unflushed_bitv_bytes := 0\<rparr> else g
           | None \<Rightarrow> g\<lparr>unflushed_bitv_bytes := 0\<rparr>)"

definition FLUSH_BITV_EVERY_BYTES :: nat where
  "FLUSH_BITV_EVERY_BYTES = 16 * 1024 * 1024"

subsection \<open>Starting and pausing\<close>

text \<open>The session is alive; files with equal names keep their order.\<close>

definition sorted_file_ids :: "file_info list \<Rightarrow> nat list" where
  "sorted_file_ids fis = sort_key (\<lambda>id. relative_filename (fis ! id)) [0..<length fis]"

definition live_new ::
  "aggregate_peer_stats \<Rightarrow> 64 word \<Rightarrow> 64 word \<Rightarrow> 's paused_state \<Rightarrow> ('b, 's) live_state" where
  "live_new ses_peers ses_fetched ses_uploaded paused =
     \<lparr>lv_peers = \<lparr>session_peers = ses_peers, live_outgoing_peers = {}, ps_stats = aggregate_default, states = []\<rparr>,
      lv_metadata = pa_metadata paused,
      lv_locked = \<lparr>chunks = Some (pa_chunk_tracker paused),
                   file_priorities = sorted_file_ids (tm_file_infos (pa_metadata paused)),
                   inflight_pieces = [], fatal_errors_tx = True, unflushed_bitv_bytes = 0\<rparr>,
      lv_files = pa_files paused, lv_writing = [],
      lv_stats = \<lparr>st_have_bytes = of_nat (have_bytes (hns (pa_chunk_tracker paused))),
                  st_downloaded_and_checked_bytes = 0, st_downloaded_and_checked_pieces = 0,
                  st_uploaded_bytes = 0, st_fetched_bytes = 0, st_total_piece_download_ms = 0\<rparr>,
      lv_lengths = ct_lengths (pa_chunk_tracker paused), lv_permits = 128, lv_peer_queue = [], lv_queue_open = True,
      lv_streams = pa_streams paused, lv_haves = [], lv_upload_queue = [], lv_upload_open = True,
      lv_session_fetched = ses_fetched, lv_session_uploaded = ses_uploaded, lv_out = [], lv_woken = [],
      lv_fatal = [], lv_cancelled = False, lv_disable_upload = pa_disable_upload paused\<rparr>"

fun mark_all_broken :: "valid_piece_index list \<Rightarrow> chunk_tracker \<Rightarrow> chunk_tracker res" where
  "mark_all_broken [] ct = Inr ct"
| "mark_all_broken (p # ps) ct = rbind (mark_piece_broken_if_not_have ct p) (mark_all_broken ps)"

definition pause :: "('b, 's) env \<Rightarrow> ('b, 's) live_state \<Rightarrow> 's paused_state res \<times> ('b, 's) live_state" where
  "pause E st =
     (let st = st\<lparr>lv_cancelled := True\<rparr>;
          st = st\<lparr>lv_locked := (lv_locked st)\<lparr>fatal_errors_tx := False\<rparr>\<rparr>
      in case chunks (lv_locked st) of
           None \<Rightarrow> (Inl (Bail ''bug: pausing already paused torrent''), st)
         | Some ct \<Rightarrow>
             let st = st\<lparr>lv_locked := (lv_locked st)\<lparr>chunks := None\<rparr>\<rparr>
             in case mark_all_broken (map fst (inflight_pieces (lv_locked st))) ct of
                  Inl e \<Rightarrow> (Inl e, st)
                | Inr ct \<Rightarrow>
                    (case e_take E (lv_files st) of
                       Inl e \<Rightarrow> (Inl e, st)
                     | Inr (taken, left) \<Rightarrow>
                         (Inr \<lparr>pa_metadata = lv_metadata st, pa_files = taken, pa_chunk_tracker = ct,
                               pa_streams = lv_streams st, pa_disable_upload = lv_disable_upload st\<rparr>,
                          st\<lparr>lv_files := left\<rparr>)))"

definition paused_update_only_files :: "'s paused_state \<Rightarrow> nat set \<Rightarrow> unit res \<times> 's paused_state" where
  "paused_update_only_files pa only_files =
     (case rbind (iter_file_lengths (tm_info (pa_metadata pa))) (\<lambda>lens. update_only_files (pa_chunk_tracker pa) lens only_files) of
        Inl e \<Rightarrow> (Inl e, pa)
      | Inr (ct, _) \<Rightarrow> (Inr (), pa\<lparr>pa_chunk_tracker := ct\<rparr>))"

definition on_fatal_error :: "('b, 's) live_state \<Rightarrow> err \<Rightarrow> unit res \<times> ('b, 's) live_state" where
  "on_fatal_error st e =
     (if fatal_errors_tx (lv_locked st) then
        (Inl (Bail ''fatal error''),
         st\<lparr>lv_locked := (lv_locked st)\<lparr>fatal_errors_tx := False\<rparr>, lv_fatal := lv_fatal st @ [e]\<rparr>)
      else (Inl (Bail ''fatal_errors_tx already taken''), st))"

subsection \<open>Progress\<close>

definition get_hns :: "('b, 's) live_state \<Rightarrow> have_needed_selected option" where
  "get_hns st = map_option hns (chunks (lv_locked st))"

definition live_is_finished :: "('b, 's) live_state \<Rightarrow> bool" where
  "live_is_finished st = (case get_hns st of Some h \<Rightarrow> hns_finished h | None \<Rightarrow> False)"

fun any_file_unfinished :: "chunk_tracker \<Rightarrow> file_info list \<Rightarrow> nat list \<Rightarrow> bool res" where
  "any_file_unfinished ct fis [] = Inr False"
| "any_file_unfinished ct fis (i # is) =
     (if i < length fis then
        if \<not> is_file_finished ct (fis ! i) then Inr True else any_file_unfinished ct fis is
      else Inl Panic)"

definition has_active_streams_unfinished_files :: "('b, 's) live_state \<Rightarrow> bool res" where
  "has_active_streams_unfinished_files st =
     (case get_chunks (lv_locked st) of
        Inl _ \<Rightarrow> Inr False
      | Inr ct \<Rightarrow> any_file_unfinished ct (tm_file_infos (lv_metadata st)) (streamed_file_ids (lv_streams st)))"

definition is_finished_and_no_active_streams :: "('b, 's) live_state \<Rightarrow> bool res" where
  "is_finished_and_no_active_streams st =
     (if live_is_finished st then rbind (has_active_streams_unfinished_files st) (\<lambda>b. Inr (\<not> b)) else Inr False)"

subsection \<open>Peers of a running torrent\<close>

definition add_peer_if_not_seen :: "('b, 's) env \<Rightarrow> ('b, 's) live_state \<Rightarrow> socket_addr \<Rightarrow> bool res \<times> ('b, 's) live_state" where
  "add_peer_if_not_seen E st addr =
     (case add_if_not_seen (e_backoff0 E) (lv_peers st) addr of
        (None, _) \<Rightarrow> (Inr False, st)
      | (Some _, ps) \<Rightarrow>
          let st = set_peers st ps
          in if lv_queue_open st then (Inr True, st\<lparr>lv_peer_queue := lv_peer_queue st @ [addr]\<rparr>)
             else (Inl (Bail ''channel closed''), st))"

text \<open>\<^verbatim>\<open>iter_mut\<close> visits every entry of the table once.\<close>

fun disconnect_full_peers :: "peer_handle list \<Rightarrow> nat \<Rightarrow> ('b, 's) live_state \<Rightarrow> ('b, 's) live_state" where
  "disconnect_full_peers [] tp st = st"
| "disconnect_full_peers (h # hs) tp st =
     disconnect_full_peers hs tp
       (case Option.bind (map_of (states (lv_peers st)) h) get_live of
          Some l \<Rightarrow>
            if has_full_torrent l tp then
              (set_peers st (snd (mark_peer_not_needed (lv_peers st) h)))
                \<lparr>lv_out := lv_out st @ [(lp_tx l, Disconnect (Inr ()))]\<rparr>
            else st
        | None \<Rightarrow> st)"

definition disconnect_all_peers_that_have_full_torrent :: "('b, 's) live_state \<Rightarrow> ('b, 's) live_state" where
  "disconnect_all_peers_that_have_full_torrent st =
     disconnect_full_peers (map fst (states (lv_peers st))) (total_pieces (lv_lengths st)) st"

text \<open>The chain stops after the first send that fails.\<close>

fun reconnect_peers :: "peer_handle list \<Rightarrow> ('b, 's) live_state \<Rightarrow> ('b, 's) live_state" where
  "reconnect_peers [] st = st"
| "reconnect_peers (h # hs) st =
     (case with_peer_mut (lv_peers st) h reconnect_not_needed_peer of
        (r, ps) \<Rightarrow>
          let st = set_peers st ps
          in case Option.bind r (\<lambda>r. r) of
               None \<Rightarrow> reconnect_peers hs st
             | Some addr \<Rightarrow>
                 if lv_queue_open st
                 then reconnect_peers hs (st\<lparr>lv_peer_queue := lv_peer_queue st @ [addr]\<rparr>)
                 else st)"

definition reconnect_all_not_needed_peers :: "('b, 's) live_state \<Rightarrow> ('b, 's) live_state" where
  "reconnect_all_not_needed_peers st = reconnect_peers (map fst (states (lv_peers st))) st"

definition live_update_only_files :: "('b, 's) live_state \<Rightarrow> nat set \<Rightarrow> unit res \<times> ('b, 's) live_state" where
  "live_update_only_files st only_files =
     abind (with_chunks_mut st (\<lambda>ct.
       rbind (update_only_files ct (map fi_len (tm_file_infos (lv_metadata st))) only_files) (\<lambda>(ct, h). Inr (h, ct))))
     (\<lambda>h st. (Inr (), if \<not> hns_finished h then reconnect_all_not_needed_peers st else st))"

subsection \<open>A completed piece\<close>

text \<open>\<^verbatim>\<open>skip_while\<close> and \<^verbatim>\<open>take_while\<close> over the files: the first run of files whose range has the piece.\<close>

definition completed_files :: "file_info list \<Rightarrow> valid_piece_index \<Rightarrow> (nat \<times> file_info) list" where
  "completed_files fis p =
     (let inr = (\<lambda>(i, fi). fst (piece_range fi) \<le> p \<and> p < snd (piece_range fi))
      in takeWhile inr (dropWhile (\<lambda>e. \<not> inr e) (List.enumerate 0 fis)))"

fun update_files_have :: "valid_piece_index \<Rightarrow> (nat \<times> file_info) list \<Rightarrow> chunk_tracker \<Rightarrow> chunk_tracker res" where
  "update_files_have p [] ct = Inr ct"
| "update_files_have p ((i, fi) # fs) ct =
     rbind (update_file_have_on_piece_completed ct p i fi) (\<lambda>(ct, _). update_files_have p fs ct)"

definition wake_and_flush :: "('b, 's) env \<Rightarrow> ('b, 's) live_state \<Rightarrow> valid_piece_index \<Rightarrow> ('b, 's) live_state" where
  "wake_and_flush E st pid =
     (let r = wake_streams_on_piece_completed (lv_streams st) pid (tm_lengths (lv_metadata st));
          g = (lv_locked st)\<lparr>unflushed_bitv_bytes :=
                 add64 (unflushed_bitv_bytes (lv_locked st)) (piece_length (tm_lengths (lv_metadata st)) pid)\<rparr>
      in st\<lparr>lv_streams := fst r, lv_woken := lv_woken st @ snd r,
            lv_locked := (if unflushed_bitv_bytes g \<ge> FLUSH_BITV_EVERY_BYTES then try_flush_bitv (e_flush E) g else g)\<rparr>)"

definition finish_if_complete :: "('b, 's) env \<Rightarrow> ('b, 's) live_state \<Rightarrow> valid_piece_index \<Rightarrow> unit res \<times> ('b, 's) live_state" where
  "finish_if_complete E st pid =
     (case get_chunks (lv_locked st) of
        Inl e \<Rightarrow> (Inl e, st)
      | Inr ct \<Rightarrow>
          if \<not> is_finished ct then (Inr (), st)
          else
            case bf_index (get_selected_pieces ct) pid of
              Inl e \<Rightarrow> (Inl e, st)
            | Inr sel \<Rightarrow>
                let st = (if sel then st\<lparr>lv_locked := try_flush_bitv (e_flush E) (lv_locked st)\<rparr> else st)
                in case has_active_streams_unfinished_files st of
                     Inl e \<Rightarrow> (Inl e, st)
                   | Inr True \<Rightarrow> (Inr (), st)
                   | Inr False \<Rightarrow> (Inr (), disconnect_all_peers_that_have_full_torrent st))"

text \<open>\<^verbatim>\<open>notify_waiters\<close> and the \<open>on_piece_completed\<close> hook of the storage, which the back ends leave empty, change nothing.\<close>

definition on_piece_completed :: "('b, 's) env \<Rightarrow> ('b, 's) live_state \<Rightarrow> valid_piece_index \<Rightarrow> unit res \<times> ('b, 's) live_state" where
  "on_piece_completed E st pid =
     abind (with_chunks_mut st (\<lambda>ct.
              rbind (update_files_have pid (completed_files (tm_file_infos (lv_metadata st)) pid) ct) (\<lambda>ct. Inr ((), ct))))
       (\<lambda>_ st. finish_if_complete E (wake_and_flush E st pid) pid)"

end
