(* ===== verification/Handler.thy ===== *)
theory Handler
  imports Live
begin

text \<open>
  What one connection does to a running torrent: \<^verbatim>\<open>impl PeerHandler\<close> of \<^verbatim>\<open>torrent_state/live/mod.rs\<close>, the
  tasks that create and end a connection, and the loop that requests chunks.

  Handlers that wait are cut at the points where they wait, so that other handlers can run in between:
  \<open>write_to_disk\<close> is the composition of the critical sections \<open>check_steal\<close>, \<open>write_block\<close>, \<open>mark_block\<close> and
  \<open>finish_piece\<close>; sending the requests of a piece stops where a permit is missing. The counters of a peer
  are shared between its handler and the table and are updated in the table.
\<close>

subsection \<open>State\<close>

record peer_handler =
  ph_addr :: peer_handle
  ph_incoming :: bool
  ph_tx :: peer_tx
  ph_tx_open :: bool
  i_am_choked :: bool
  requests_sem :: nat
  first_message_received :: bool
  ph_interest :: bool \<comment> \<open>what \<^verbatim>\<open>update_interest\<close> last announced\<close>

definition handler_new :: "peer_handle \<Rightarrow> bool \<Rightarrow> peer_tx \<Rightarrow> peer_handler" where
  "handler_new addr incoming tx =
     \<lparr>ph_addr = addr, ph_incoming = incoming, ph_tx = tx, ph_tx_open = True, i_am_choked = True, requests_sem = 0,
      first_message_received = False, ph_interest = False\<rparr>"

text \<open>A message put on the handler's own channel.\<close>

definition send :: "('b, 's) live_state \<Rightarrow> peer_handler \<Rightarrow> writer_request \<Rightarrow> unit res \<times> ('b, 's) live_state" where
  "send st h r =
     (if ph_tx_open h then (Inr (), st\<lparr>lv_out := lv_out st @ [(ph_tx h, r)]\<rparr>) else (Inl (Bail ''channel closed''), st))"

definition bump :: "('b, 's) live_state \<Rightarrow> peer_handle \<Rightarrow> (peer_counters \<Rightarrow> peer_counters) \<Rightarrow> ('b, 's) live_state" where
  "bump st a f = set_peers st (bump_counters (lv_peers st) a f)"

subsection \<open>The life of a connection\<close>

text \<open>\<open>Inr (Some h)\<close>: the connection is handed to the task with handler \<open>h\<close>.\<close>

definition add_incoming_peer ::
  "('b, 's) env \<Rightarrow> ('b, 's) live_state \<Rightarrow> socket_addr \<Rightarrow> id20 \<Rightarrow> peer_tx \<Rightarrow> peer_handler option res \<times> ('b, 's) live_state" where
  "add_incoming_peer E st addr pid tx =
     (let inc = (\<lambda>st. bump st addr (\<lambda>c. c\<lparr>incoming_connections := incoming_connections c + 1\<rparr>))
      in if lv_permits st = 0 then (Inr None, inc st)
         else
           let started = (\<lambda>st. (Inr (Some (handler_new addr True tx)), inc (st\<lparr>lv_permits := lv_permits st - 1\<rparr>)))
           in case map_of (states (lv_peers st)) addr of
                Some _ \<Rightarrow>
                  (case with_peer_mut (lv_peers st) addr (incoming_connection pid tx) of
                     (Some (Inl _), ps) \<Rightarrow> (Inl (Bail ''peer already existed''), set_peers st ps)
                   | (_, ps) \<Rightarrow> started (set_peers st ps))
              | None \<Rightarrow>
                  let ps = lv_peers st;
                      ps = ps\<lparr>ps_stats := (ps_stats ps)\<lparr>n_seen := n_seen (ps_stats ps) + 1\<rparr>\<rparr>
                  in case new_live_for_incoming_connection (e_backoff0 E) addr pid tx ps of
                       (p, ps) \<Rightarrow> started (set_peers st (ps\<lparr>states := AList.update addr p (states ps)\<rparr>)))"

text \<open>The first part of \<^verbatim>\<open>task_peer_adder\<close>: \<open>True\<close> if a task for the peer is spawned once there is a permit.\<close>

definition adder_decide ::
  "(ip_addr \<Rightarrow> bool) \<Rightarrow> ('b, 's) live_state \<Rightarrow> socket_addr \<Rightarrow> bool res \<times> ('b, 's) live_state" where
  "adder_decide is_blocked st addr =
     (case (if lv_disable_upload st then is_finished_and_no_active_streams st else Inr False) of
        Inl e \<Rightarrow> (Inl e, st)
      | Inr True \<Rightarrow> (Inr False, set_peers st (snd (mark_peer_not_needed (lv_peers st) addr)))
      | Inr False \<Rightarrow> (Inr (\<not> is_blocked (fst addr)), st))"

text \<open>The start of \<^verbatim>\<open>task_manage_outgoing_peer\<close>, with the permit taken; an early return gives it back.\<close>

definition manage_outgoing_start ::
  "('b, 's) live_state \<Rightarrow> socket_addr \<Rightarrow> peer_tx \<Rightarrow> peer_handler res \<times> ('b, 's) live_state" where
  "manage_outgoing_start st addr tx =
     (case mark_peer_connecting tx (lv_peers st) addr of
        (Inl e, ps) \<Rightarrow> (Inl e, set_peers st ps)
      | (Inr tx, ps) \<Rightarrow>
          let st = set_peers (st\<lparr>lv_permits := lv_permits st - 1\<rparr>) ps
          in case with_peer ps addr p_counters of
               None \<Rightarrow> (Inl (Bail ''bug: peer not found''), st\<lparr>lv_permits := lv_permits st + 1\<rparr>)
             | Some _ \<Rightarrow>
                 (Inr (handler_new addr False tx),
                  bump st addr (\<lambda>c. c\<lparr>outgoing_connection_attempts := outgoing_connection_attempts c + 1\<rparr>)))"

definition on_connected :: "('b, 's) live_state \<Rightarrow> peer_handler \<Rightarrow> nat \<Rightarrow> ('b, 's) live_state" where
  "on_connected st h connection_ms =
     bump st (ph_addr h) (\<lambda>c. c\<lparr>outgoing_connections := outgoing_connections c + 1,
       total_time_connecting_ms := total_time_connecting_ms c + of_nat connection_ms\<rparr>)"

definition on_handshake :: "('b, 's) live_state \<Rightarrow> peer_handler \<Rightarrow> id20 \<Rightarrow> ('b, 's) live_state" where
  "on_handshake st h pid = set_peers st (snd (with_peer_mut (lv_peers st) (ph_addr h) (connecting_to_live pid)))"

fun cancel_requests :: "chunk_info list \<Rightarrow> ('b, 's) live_state \<Rightarrow> unit res \<times> ('b, 's) live_state" where
  "cancel_requests [] st = (Inr (), st)"
| "cancel_requests (req # reqs) st =
     abind (mark_broken st (ci_piece_index req)) (\<lambda>_. cancel_requests reqs)"

definition put_state :: "('b, 's) live_state \<Rightarrow> peer_handle \<Rightarrow> peer_state \<Rightarrow> ('b, 's) live_state" where
  "put_state st a new = set_peers st (snd (with_peer_mut (lv_peers st) a (\<lambda>p. set_state p new)))"

definition next_backoff :: "('b, 's) env \<Rightarrow> ('b, 's) live_state \<Rightarrow> peer_handle \<Rightarrow> nat option \<times> ('b, 's) live_state" where
  "next_backoff E st a =
     (case with_peer_mut (lv_peers st) a (\<lambda>p ps.
         (fst (e_next_backoff E (p_backoff p)), p\<lparr>p_backoff := snd (e_next_backoff E (p_backoff p))\<rparr>, ps)) of
        (r, ps) \<Rightarrow> (Option.bind r (\<lambda>r. r), set_peers st ps))"

text \<open>After the error was counted: the peer is not needed any more, or dead and possibly retried.\<close>

definition retire_peer ::
  "('b, 's) env \<Rightarrow> ('b, 's) live_state \<Rightarrow> peer_handler \<Rightarrow> nat option res \<times> ('b, 's) live_state" where
  "retire_peer E st h =
     (let a = ph_addr h
      in case is_finished_and_no_active_streams st of
           Inl e \<Rightarrow> (Inl e, st)
         | Inr True \<Rightarrow> (Inr None, put_state st a NotNeeded)
         | Inr False \<Rightarrow>
             let st = put_state st a Dead
             in if ph_incoming h then (Inr None, st)
                else case next_backoff E st a of
                       (Some dur, st) \<Rightarrow> (Inr (Some dur), st)
                     | (None, st) \<Rightarrow> (Inr None, set_peers st (snd (drop_peer (lv_peers st) a))))"

text \<open>\<open>Inr (Some d)\<close>: a task is spawned that waits for \<open>d\<close> and then runs \<open>dead_to_queued\<close>.\<close>

definition on_peer_died ::
  "('b, 's) env \<Rightarrow> ('b, 's) live_state \<Rightarrow> peer_handler \<Rightarrow> err option \<Rightarrow> nat option res \<times> ('b, 's) live_state" where
  "on_peer_died E st h error =
     (let a = ph_addr h;
          ended = (\<lambda>st. case error of
             None \<Rightarrow> (Inr None, put_state st a NotNeeded)
           | Some _ \<Rightarrow> retire_peer E (bump st a (\<lambda>c. c\<lparr>errors := errors c + 1\<rparr>)) h)
      in case with_peer_mut (lv_peers st) a take_state of
           (None, _) \<Rightarrow> (Inr None, st)
         | (Some prev, ps) \<Rightarrow>
             let st = set_peers st ps
             in case prev of
                  Connecting _ \<Rightarrow> ended st
                | Live live \<Rightarrow> abind (cancel_requests (inflight_requests live) st) (\<lambda>_. ended)
                | NotNeeded \<Rightarrow> (Inr None, put_state st a NotNeeded)
                | _ \<Rightarrow> (Inr None, set_peers st (snd (drop_peer (lv_peers st) a))))"

text \<open>The end of both \<^verbatim>\<open>task_manage_\<close> tasks: the permit goes back on every path.\<close>

definition manage_peer_end ::
  "('b, 's) env \<Rightarrow> ('b, 's) live_state \<Rightarrow> peer_handler \<Rightarrow> unit res \<Rightarrow> nat option res \<times> ('b, 's) live_state" where
  "manage_peer_end E st h r =
     (case on_peer_died E st h (case r of Inr _ \<Rightarrow> None | Inl e \<Rightarrow> Some e) of
        (r, st) \<Rightarrow> (r, st\<lparr>lv_permits := lv_permits st + 1\<rparr>))"

definition dead_to_queued :: "('b, 's) live_state \<Rightarrow> peer_handle \<Rightarrow> unit res \<times> ('b, 's) live_state" where
  "dead_to_queued st a =
     (case with_peer_mut (lv_peers st) a (\<lambda>p ps.
         if p_state p = Dead then (case set_state p Queued ps of (_, p, ps) \<Rightarrow> (Inr (), p, ps))
         else (Inl (Bail ''peer is in unexpected state. Expected dead''), p, ps)) of
        (None, ps) \<Rightarrow> (Inl (Bail ''bug: peer disappeared''), set_peers st ps)
      | (Some (Inl e), ps) \<Rightarrow> (Inl e, set_peers st ps)
      | (Some (Inr _), ps) \<Rightarrow>
          let st = set_peers st ps
          in if lv_queue_open st then (Inr (), st\<lparr>lv_peer_queue := lv_peer_queue st @ [a]\<rparr>)
             else (Inl (Bail ''channel closed''), st))"

subsection \<open>Choosing a piece\<close>

fun first_available :: "bits \<Rightarrow> valid_piece_index res list \<Rightarrow> valid_piece_index option res" where
  "first_available bf [] = Inr None"
| "first_available bf (Inl e # ns) = Inl e"
| "first_available bf (Inr n # ns) = (if bf_get bf n = Some True then Inr (Some n) else first_available bf ns)"

definition priority_streamed_pieces ::
  "('b, 's) env \<Rightarrow> ('b, 's) live_state \<Rightarrow> chunk_tracker \<Rightarrow> valid_piece_index res list" where
  "priority_streamed_pieces E st ct =
     (case iter_next_pieces (e_shuffle E) (lv_streams st) (lv_lengths st) of
        Inl e \<Rightarrow> [Inl e]
      | Inr ps \<Rightarrow>
          List.map_filter (\<lambda>pid. case is_piece_have ct pid of
              Inl e \<Rightarrow> Some (Inl e)
            | Inr hv \<Rightarrow> if \<not> hv \<and> map_of (inflight_pieces (lv_locked st)) pid = None then Some (Inr pid) else None) ps)"

definition reserve_next_needed_piece ::
  "('b, 's) env \<Rightarrow> nat \<Rightarrow> ('b, 's) live_state \<Rightarrow> peer_handler \<Rightarrow> valid_piece_index option res \<times> ('b, 's) live_state" where
  "reserve_next_needed_piece E now st h =
     (case with_live (lv_peers st) (ph_addr h) lp_bitfield of
        None \<Rightarrow> (Inr None, st)
      | Some bf \<Rightarrow>
          if i_am_choked h then (Inr None, st)
          else
            case rbind (get_chunks (lv_locked st)) (\<lambda>ct.
                first_available bf (priority_streamed_pieces E st ct
                  @ iter_queued_pieces ct (file_priorities (lv_locked st)) (tm_file_infos (lv_metadata st)))) of
              Inl e \<Rightarrow> (Inl e, st)
            | Inr None \<Rightarrow> (Inr None, st)
            | Inr (Some n) \<Rightarrow>
                let g = lv_locked st;
                    st = st\<lparr>lv_locked := g\<lparr>inflight_pieces :=
                           AList.update n \<lparr>if_peer = ph_addr h, if_started = now\<rparr> (inflight_pieces g)\<rparr>\<rparr>
                in abind (with_chunks_mut st (\<lambda>ct. rbind (reserve_needed_piece ct n) (\<lambda>ct. Inr ((), ct))))
                     (\<lambda>_ st. (Inr (Some n), st)))"

text \<open>\<^verbatim>\<open>max_by_key\<close>: the last of the greatest.\<close>

fun max_by_key :: "('a \<Rightarrow> nat) \<Rightarrow> 'a list \<Rightarrow> 'a option" where
  "max_by_key f [] = None"
| "max_by_key f (x # xs) = (case max_by_key f xs of None \<Rightarrow> Some x | Some y \<Rightarrow> if f y < f x then Some x else Some y)"

text \<open>The comparison of seconds as floating point numbers is one of milliseconds.\<close>

definition try_steal_old_slow_piece ::
  "nat \<Rightarrow> nat \<Rightarrow> ('b, 's) live_state \<Rightarrow> peer_handler \<Rightarrow> valid_piece_index option res \<times> ('b, 's) live_state" where
  "try_steal_old_slow_piece now threshold st h =
     (let a = ph_addr h; g = lv_locked st
      in case Option.bind (with_peer (lv_peers st) a p_counters) average_piece_download_time of
           None \<Rightarrow> (Inr None, st)
         | Some my_avg_time \<Rightarrow>
             (case max_by_key (\<lambda>e. now - if_started (snd e)) (filter (\<lambda>e. if_peer (snd e) \<noteq> a) (inflight_pieces g)) of
                None \<Rightarrow> (Inr None, st)
              | Some (idx, r) \<Rightarrow>
                  if now - if_started r > my_avg_time * threshold then
                    if idx \<ge> total_pieces (lv_lengths st) then (Inl Panic, st)
                    else if idx \<in> set (lv_writing st) then (Inr None, st)
                    else
                      let st = st\<lparr>lv_locked := g\<lparr>inflight_pieces :=
                             AList.update idx \<lparr>if_peer = a, if_started = now\<rparr> (inflight_pieces g)\<rparr>\<rparr>;
                          (ps, out) = on_steal (lv_peers st) (if_peer r) a idx
                      in (Inr (Some idx), (set_peers st ps)\<lparr>lv_out := lv_out st @ out\<rparr>)
                  else (Inr None, st)))"

definition choose_next_piece ::
  "('b, 's) env \<Rightarrow> nat \<Rightarrow> ('b, 's) live_state \<Rightarrow> peer_handler \<Rightarrow> valid_piece_index option res \<times> ('b, 's) live_state" where
  "choose_next_piece E now st h =
     abind (try_steal_old_slow_piece now 10 st h) (\<lambda>r st.
       case r of
         Some v \<Rightarrow> (Inr (Some v), st)
       | None \<Rightarrow>
           abind (reserve_next_needed_piece E now st h) (\<lambda>r st.
             case r of
               Some v \<Rightarrow> (Inr (Some v), st)
             | None \<Rightarrow> try_steal_old_slow_piece now 3 st h))"

subsection \<open>Requesting chunks\<close>

text \<open>\<^verbatim>\<open>inflight_requests.insert\<close>: whether the request is new; \<open>None\<close> if the peer is not live.\<close>

definition add_chunk_request :: "('b, 's) live_state \<Rightarrow> peer_handler \<Rightarrow> chunk_info \<Rightarrow> bool option \<times> ('b, 's) live_state" where
  "add_chunk_request st h chunk =
     (case with_live_mut (lv_peers st) (ph_addr h) (\<lambda>live.
         (chunk \<notin> set (inflight_requests live),
          live\<lparr>inflight_requests := List.insert chunk (inflight_requests live)\<rparr>)) of
        (r, ps) \<Rightarrow> (r, set_peers st ps))"

datatype request_result = AllRequested | PeerGone | AwaitPermit "chunk_info list"

text \<open>The rate limiters only delay. \<open>AwaitPermit cs\<close>: the first of \<open>cs\<close> is recorded but not sent.\<close>

fun request_chunks ::
  "chunk_info list \<Rightarrow> ('b, 's) live_state \<Rightarrow> peer_handler \<Rightarrow> request_result res \<times> ('b, 's) live_state \<times> peer_handler" where
  "request_chunks [] st h = (Inr AllRequested, st, h)"
| "request_chunks (chunk # cs) st h =
     (case add_chunk_request st h chunk of
        (None, st) \<Rightarrow> (Inr PeerGone, st, h)
      | (Some False, st) \<Rightarrow> request_chunks cs st h
      | (Some True, st) \<Rightarrow>
          if ci_size chunk = 0 then (Inl Panic, st, h)
          else if requests_sem h = 0 then (Inr (AwaitPermit (chunk # cs)), st, h)
          else
            let h = h\<lparr>requests_sem := requests_sem h - 1\<rparr>
            in case send st h (WMessage (MRequest
                    \<lparr>rq_index = ci_piece_index chunk, rq_begin = ci_offset chunk, rq_length = ci_size chunk\<rparr>)) of
                 (Inl _, st) \<Rightarrow> (Inr PeerGone, st, h)
               | (Inr _, st) \<Rightarrow> request_chunks cs st h)"

definition update_interest ::
  "('b, 's) live_state \<Rightarrow> peer_handler \<Rightarrow> bool \<Rightarrow> unit res \<times> ('b, 's) live_state \<times> peer_handler" where
  "update_interest st h new_value =
     (if new_value \<noteq> ph_interest h then
        case send st h (WMessage (if new_value then MInterested else MNotInterested)) of
          (Inl e, st) \<Rightarrow> (Inl e, st, h)
        | (Inr _, st) \<Rightarrow> (Inr (), st, h\<lparr>ph_interest := new_value\<rparr>)
      else (Inr (), st, h))"

datatype requester_result = Leave | Again | Requesting valid_piece_index request_result

text \<open>One round of the loop of \<^verbatim>\<open>task_peer_chunk_requester\<close>, once the bit field has arrived: \<open>Leave\<close> ends the
  connection, \<open>Again\<close> waits and starts over.\<close>

definition requester_round ::
  "('b, 's) env \<Rightarrow> nat \<Rightarrow> ('b, 's) live_state \<Rightarrow> peer_handler \<Rightarrow> requester_result res \<times> ('b, 's) live_state \<times> peer_handler" where
  "requester_round E now st h =
     (case is_finished_and_no_active_streams st of
        Inl e \<Rightarrow> (Inl e, st, h)
      | Inr True \<Rightarrow>
          (case update_interest st h False of
             (Inl e, st, h) \<Rightarrow> (Inl e, st, h)
           | (Inr _, st, h) \<Rightarrow>
               if \<not> is_peer_interested (lv_peers st) (ph_addr h) then
                 (case send st h (Disconnect (Inr ())) of
                    (Inl e, st) \<Rightarrow> (Inl e, st, h)
                  | (Inr _, st) \<Rightarrow> (Inr Leave, st, h))
               else (Inr Again, st, h))
      | Inr False \<Rightarrow>
          (case update_interest st h True of
             (Inl e, st, h) \<Rightarrow> (Inl e, st, h)
           | (Inr _, st, h) \<Rightarrow>
               if i_am_choked h then (Inr Again, st, h)
               else
                 case choose_next_piece E now st h of
                   (Inl e, st) \<Rightarrow> (Inl e, st, h)
                 | (Inr None, st) \<Rightarrow> (Inr Again, st, h)
                 | (Inr (Some next), st) \<Rightarrow>
                     (case request_chunks (iter_chunk_infos (lv_lengths st) next) st h of
                        (Inl e, st, h) \<Rightarrow> (Inl e, st, h)
                      | (Inr PeerGone, st, h) \<Rightarrow> (Inr Leave, st, h)
                      | (Inr r, st, h) \<Rightarrow> (Inr (Requesting next r), st, h))))"

end
