(* ===== verification/Receive.thy ===== *)
theory Receive
  imports Handler
begin

text \<open>
  The messages of a peer and their effect on the torrent: \<^verbatim>\<open>impl PeerConnectionHandler for &PeerHandler\<close> and
  the handlers it calls in \<^verbatim>\<open>torrent_state/live/mod.rs\<close>, in particular \<open>on_received_piece\<close> and the way of a
  received block to the disk, and the exchange of peer addresses.
\<close>

subsection \<open>Bit fields on the wire\<close>

definition bits_of_byte :: "nat \<Rightarrow> bits" where
  "bits_of_byte b = map (\<lambda>i. bit b (7 - i)) [0..<8]"

definition bits_of_bytes :: "nat list \<Rightarrow> bits" where
  "bits_of_bytes bs = concat (map bits_of_byte bs)"

definition byte_of_bits :: "bits \<Rightarrow> nat" where
  "byte_of_bits bs = fold (\<lambda>b n. 2 * n + of_bool b) bs 0"

fun bytes_of_bits :: "bits \<Rightarrow> nat list" where
  "bytes_of_bits [] = []"
| "bytes_of_bits (b # bs) = byte_of_bits (take 8 (b # bs)) # bytes_of_bits (drop 7 bs)"

lemma byte_of_bits_snoc: "byte_of_bits (bs @ [b]) = 2 * byte_of_bits bs + of_bool b"
  by (simp add: byte_of_bits_def)

lemma bit_byte_of_bits: "bit (byte_of_bits bs) i \<longleftrightarrow> i < length bs \<and> bs ! (length bs - 1 - i)"
proof (induction bs arbitrary: i rule: rev_induct)
  case Nil
  then show ?case by (simp add: byte_of_bits_def)
next
  case (snoc b bs)
  show ?case
  proof (cases i)
    case 0
    then show ?thesis by (simp add: byte_of_bits_snoc bit_0)
  next
    case (Suc j)
    have "(2 * byte_of_bits bs + of_bool b) div 2 = byte_of_bits bs" by simp
    then have "bit (byte_of_bits (bs @ [b])) i = bit (byte_of_bits bs) j" by (simp add: Suc byte_of_bits_snoc bit_Suc)
    then show ?thesis unfolding snoc.IH using Suc by (auto simp: nth_append)
  qed
qed

lemma bits_of_byte_of_bits: "length bs = 8 \<Longrightarrow> bits_of_byte (byte_of_bits bs) = bs"
  by (rule nth_equalityI) (auto simp: bits_of_byte_def bit_byte_of_bits)

lemma bits_of_bytes_of_bits: "length bs mod 8 = 0 \<Longrightarrow> bits_of_bytes (bytes_of_bits bs) = bs"
proof (induction bs rule: bytes_of_bits.induct)
  case 1
  then show ?case by (simp add: bits_of_bytes_def)
next
  case (2 b bs)
  then have len: "7 \<le> length bs" by (cases "length bs < 7") auto
  then have "length (take 8 (b # bs)) = 8" "length (drop 7 bs) mod 8 = 0" using 2(2) mod_add_self2 [of "length bs - 7" 8] by simp_all
  then show ?case using 2(1) bits_of_byte_of_bits [of "take 8 (b # bs)"]
      append_take_drop_id [of 8 "b # bs"] by (simp add: bits_of_bytes_def)
qed

definition make_piece_bitfield :: "lengths \<Rightarrow> bits" where
  "make_piece_bitfield l = zero_bytes_bf (piece_bitfield_bytes l)"

definition serialize_bitfield_message :: "('b, 's) live_state \<Rightarrow> message res" where
  "serialize_bitfield_message st = rbind (get_chunks (lv_locked st)) (\<lambda>ct. Inr (MBitfield (bytes_of_bits (ct_have ct))))"

subsection \<open>Simple messages\<close>

definition on_i_am_choked :: "peer_handler \<Rightarrow> peer_handler" where
  "on_i_am_choked h = h\<lparr>i_am_choked := True\<rparr>"

definition on_i_am_unchoked :: "peer_handler \<Rightarrow> peer_handler" where
  "on_i_am_unchoked h = h\<lparr>i_am_choked := False, requests_sem := requests_sem h + 128\<rparr>"

definition on_peer_interested :: "('b, 's) live_state \<Rightarrow> peer_handler \<Rightarrow> ('b, 's) live_state" where
  "on_peer_interested st h = set_peers st (snd (mark_peer_interested (lv_peers st) (ph_addr h) True))"

definition on_have :: "('b, 's) live_state \<Rightarrow> peer_handler \<Rightarrow> nat \<Rightarrow> ('b, 's) live_state" where
  "on_have st h have =
     set_peers st (snd (with_live_mut (lv_peers st) (ph_addr h) (\<lambda>live.
       let bf = (if lp_bitfield live = [] then make_piece_bitfield (lv_lengths st) else lp_bitfield live)
       in ((), live\<lparr>lp_bitfield := (if have < length bf then bf[have := True] else bf)\<rparr>))))"

definition on_bitfield :: "('b, 's) live_state \<Rightarrow> peer_handler \<Rightarrow> nat list \<Rightarrow> unit res \<times> ('b, 's) live_state" where
  "on_bitfield st h bitfield =
     (if length bitfield \<noteq> piece_bitfield_bytes (lv_lengths st)
      then (Inl (Bail ''dropping peer as its bitfield has unexpected size''), st)
      else (Inr (), set_peers st (snd (update_bitfield (lv_peers st) (ph_addr h) (bits_of_bytes bitfield)))))"

definition on_download_request :: "('b, 's) live_state \<Rightarrow> peer_handler \<Rightarrow> request \<Rightarrow> unit res \<times> ('b, 's) live_state" where
  "on_download_request st h request =
     (if lv_disable_upload st then (Inl (Bail ''upload disabled, but peer requested a piece''), st)
      else
        case validate_piece_index (lv_lengths st) (rq_index request) of
          None \<Rightarrow> (Inl (Bail ''not a valid chunk request (piece index is invalid)''), st)
        | Some piece_index \<Rightarrow>
            case chunk_info_from_received_data (lv_lengths st) piece_index (rq_begin request) (rq_length request) of
              None \<Rightarrow> (Inl (Bail ''not a valid chunk request (chunk data is invalid)''), st)
            | Some chunk_info \<Rightarrow>
                case get_chunks (lv_locked st) of
                  Inl e \<Rightarrow> (Inl e, st)
                | Inr ct \<Rightarrow>
                    if \<not> is_chunk_ready_to_upload ct chunk_info
                    then (Inl (Bail ''got request for a chunk that is not ready to upload''), st)
                    else if lv_upload_open st
                    then (Inr (), st\<lparr>lv_upload_queue := lv_upload_queue st @ [(ph_tx h, chunk_info)]\<rparr>)
                    else (Inl (Bail ''channel closed''), st))"

text \<open>One round of \<^verbatim>\<open>task_upload_scheduler\<close>; the rate limiters only delay, a chunk of size zero panics there.\<close>

definition upload_scheduler_round :: "('b, 's) live_state \<Rightarrow> unit res \<times> ('b, 's) live_state" where
  "upload_scheduler_round st =
     (case lv_upload_queue st of
        [] \<Rightarrow> (Inr (), st)
      | (tx, ci) # q \<Rightarrow>
          let st = st\<lparr>lv_upload_queue := q\<rparr>
          in if ci_size ci = 0 then (Inl Panic, st)
             else (Inr (), st\<lparr>lv_out := lv_out st @ [(tx, ReadChunkRequest ci)]\<rparr>))"

definition on_uploaded_bytes :: "('b, 's) live_state \<Rightarrow> nat \<Rightarrow> ('b, 's) live_state" where
  "on_uploaded_bytes st bytes =
     st\<lparr>lv_stats := (lv_stats st)\<lparr>st_uploaded_bytes := st_uploaded_bytes (lv_stats st) + of_nat bytes\<rparr>,
        lv_session_uploaded := lv_session_uploaded st + of_nat bytes\<rparr>"

text \<open>The chunk a writer reads for an upload.\<close>

definition handler_read_chunk :: "('b, 's) env \<Rightarrow> ('b, 's) live_state \<Rightarrow> chunk_info \<Rightarrow> nat list \<Rightarrow> nat list res" where
  "handler_read_chunk E st chunk buf =
     read_chunk (e_pread E) (tm_file_infos (lv_metadata st)) (lv_lengths st) (lv_files st) chunk buf"

definition should_send_bitfield :: "('b, 's) live_state \<Rightarrow> bool" where
  "should_send_bitfield st = (if lv_disable_upload st then False else st_have_bytes (lv_stats st) > 0)"

definition should_transmit_have :: "('b, 's) live_state \<Rightarrow> peer_handler \<Rightarrow> valid_piece_index \<Rightarrow> bool" where
  "should_transmit_have st h pid =
     (if lv_disable_upload st then False
      else \<not> (case with_live (lv_peers st) (ph_addr h) (\<lambda>l. case bf_get (lp_bitfield l) pid of Some b \<Rightarrow> b | None \<Rightarrow> True) of
                Some b \<Rightarrow> b | None \<Rightarrow> True))"

subsection \<open>A received block\<close>

text \<open>\<open>True\<close> if the piece is still ours; then its lock is held until \<open>mark_block\<close>.\<close>

definition check_steal :: "('b, 's) live_state \<Rightarrow> peer_handle \<Rightarrow> chunk_info \<Rightarrow> bool \<times> ('b, 's) live_state" where
  "check_steal st addr ci =
     (case map_of (inflight_pieces (lv_locked st)) (ci_piece_index ci) of
        Some r \<Rightarrow>
          if if_peer r = addr then (True, st\<lparr>lv_writing := ci_piece_index ci # lv_writing st\<rparr>) else (False, st)
      | None \<Rightarrow> (False, st))"

definition release_piece_lock :: "('b, 's) live_state \<Rightarrow> chunk_info \<Rightarrow> ('b, 's) live_state" where
  "release_piece_lock st ci = st\<lparr>lv_writing := remove1 (ci_piece_index ci) (lv_writing st)\<rparr>"

text \<open>A write that fails is fatal; what it wrote before failing is not modelled.\<close>

definition write_block ::
  "('b, 's) env \<Rightarrow> ('b, 's) live_state \<Rightarrow> piece_msg \<Rightarrow> chunk_info \<Rightarrow> unit res \<times> ('b, 's) live_state" where
  "write_block E st piece ci =
     (case write_chunk (e_pwrite E) (tm_file_infos (lv_metadata st)) (lv_lengths st) (lv_files st) piece ci of
        Inr files \<Rightarrow> (Inr (), st\<lparr>lv_files := files\<rparr>)
      | Inl e \<Rightarrow> (case on_fatal_error st e of (r, st) \<Rightarrow> (r, release_piece_lock st ci)))"

text \<open>\<open>Inr (Some t)\<close>: the block completed its piece, whose download took \<open>t\<close> milliseconds.\<close>

definition mark_block ::
  "nat \<Rightarrow> ('b, 's) live_state \<Rightarrow> piece_msg \<Rightarrow> chunk_info \<Rightarrow> nat option res \<times> ('b, 's) live_state" where
  "mark_block now st piece ci =
     (case with_chunks_mut st (\<lambda>ct. rbind (mark_chunk_downloaded ct piece) (\<lambda>(ct, r). Inr (r, ct))) of
        (r, st) \<Rightarrow>
          let st = release_piece_lock st ci; g = lv_locked st
          in case r of
               Inl e \<Rightarrow> (Inl e, st)
             | Inr (Some Completed) \<Rightarrow>
                 (Inr (map_option (\<lambda>t. now - if_started t) (map_of (inflight_pieces g) (ci_piece_index ci))),
                  st\<lparr>lv_locked := g\<lparr>inflight_pieces := AList.delete (ci_piece_index ci) (inflight_pieces g)\<rparr>\<rparr>)
             | Inr (Some _) \<Rightarrow> (Inr None, st)
             | Inr None \<Rightarrow> (Inl (Bail ''bogus data received, cannot map this to a chunk, dropping peer''), st))"

definition count_piece :: "('b, 's) live_state \<Rightarrow> nat \<Rightarrow> nat \<Rightarrow> ('b, 's) live_state" where
  "count_piece st piece_len ms =
     (let s = lv_stats st
      in st\<lparr>lv_stats := s\<lparr>
           st_downloaded_and_checked_bytes := st_downloaded_and_checked_bytes s + of_nat piece_len,
           st_downloaded_and_checked_pieces := st_downloaded_and_checked_pieces s + 1,
           st_have_bytes := st_have_bytes s + of_nat piece_len,
           st_total_piece_download_ms := st_total_piece_download_ms s + of_nat ms\<rparr>\<rparr>)"

definition transmit_haves :: "('b, 's) live_state \<Rightarrow> valid_piece_index \<Rightarrow> ('b, 's) live_state" where
  "transmit_haves st idx = st\<lparr>lv_haves := lv_haves st @ [idx]\<rparr>"

definition count_verified_piece ::
  "('b, 's) env \<Rightarrow> ('b, 's) live_state \<Rightarrow> peer_handle \<Rightarrow> valid_piece_index \<Rightarrow> nat \<Rightarrow> unit res \<times> ('b, 's) live_state" where
  "count_verified_piece E st addr idx ms =
     (let piece_len = piece_length (lv_lengths st) idx;
          st = count_piece st piece_len ms;
          st = bump st addr (counters_on_piece_completed piece_len ms);
          st = set_peers st (reset_peer_backoff (e_backoff_reset E) (lv_peers st) addr)
      in abind (on_piece_completed E st idx) (\<lambda>_ st. (Inr (), transmit_haves st idx)))"

text \<open>The check of a completed piece, and what follows from it.\<close>

definition finish_piece ::
  "('b, 's) env \<Rightarrow> ('b, 's) live_state \<Rightarrow> peer_handle \<Rightarrow> valid_piece_index \<Rightarrow> nat \<Rightarrow> unit res \<times> ('b, 's) live_state" where
  "finish_piece E st addr idx ms =
     (case check_piece (e_pread E) (e_sha1 E) (tm_info (lv_metadata st)) (tm_file_infos (lv_metadata st)) (lv_lengths st)
             (lv_files st) idx of
        Inl e \<Rightarrow> (Inl e, st)
      | Inr True \<Rightarrow>
          abind (with_chunks_mut st (\<lambda>ct. rbind (mark_piece_downloaded ct idx) (\<lambda>ct. Inr ((), ct))))
            (\<lambda>_ st. count_verified_piece E st addr idx ms)
      | Inr False \<Rightarrow>
          abind (mark_broken st idx) (\<lambda>_ st. (Inl (Bail ''i am probably a bogus peer. dying.''), st)))"

definition write_to_disk ::
  "('b, 's) env \<Rightarrow> nat \<Rightarrow> ('b, 's) live_state \<Rightarrow> peer_handle \<Rightarrow> piece_msg \<Rightarrow> chunk_info \<Rightarrow> unit res \<times> ('b, 's) live_state" where
  "write_to_disk E now st addr piece ci =
     (case check_steal st addr ci of
        (False, st) \<Rightarrow> (Inr (), st)
      | (True, st) \<Rightarrow>
          abind (write_block E st piece ci) (\<lambda>_ st.
          abind (mark_block now st piece ci) (\<lambda>r st.
            case r of
              None \<Rightarrow> (Inr (), st)
            | Some ms \<Rightarrow> finish_piece E st addr (ci_piece_index ci) ms)))"

definition block_chunk_info :: "lengths \<Rightarrow> piece_msg \<Rightarrow> chunk_info res" where
  "block_chunk_info l piece =
     rbind (of_option (Bail ''peer sent an invalid piece'') (validate_piece_index l (pm_index piece))) (\<lambda>idx.
     rbind (of_option (Bail ''bug'') (try_u32 (length (pm_block piece)))) (\<lambda>len.
       of_option (Bail ''peer sent us an invalid piece'') (chunk_info_from_received_data l idx (pm_begin piece) len)))"

text \<open>The part of \<open>on_received_piece\<close> before the write: the request it answers is removed, or the peer is at fault.\<close>

definition accept_block ::
  "('b, 's) live_state \<Rightarrow> peer_handler \<Rightarrow> piece_msg \<Rightarrow> chunk_info res \<times> ('b, 's) live_state \<times> peer_handler" where
  "accept_block st h piece =
     (case block_chunk_info (lv_lengths st) piece of
        Inl e \<Rightarrow> (Inl e, st, h)
      | Inr ci \<Rightarrow>
          let h = h\<lparr>requests_sem := requests_sem h + 1\<rparr>;
              n = length (pm_block piece);
              st = bump st (ph_addr h) (\<lambda>c. c\<lparr>fetched_bytes := fetched_bytes c + of_nat n, fetched_chunks := fetched_chunks c + 1\<rparr>)
          in case with_live_mut (lv_peers st) (ph_addr h) (\<lambda>l.
                 (ci \<in> set (inflight_requests l), l\<lparr>inflight_requests := filter (\<lambda>c. c \<noteq> ci) (inflight_requests l)\<rparr>)) of
               (None, ps) \<Rightarrow> (Inl (Bail ''peer not found''), set_peers st ps, h)
             | (Some False, ps) \<Rightarrow> (Inl (Bail ''peer sent us a piece we did not ask''), set_peers st ps, h)
             | (Some True, ps) \<Rightarrow>
                 (Inr ci,
                  (set_peers st ps)\<lparr>lv_stats := (lv_stats st)\<lparr>st_fetched_bytes := st_fetched_bytes (lv_stats st) + of_nat n\<rparr>,
                                   lv_session_fetched := lv_session_fetched st + of_nat n\<rparr>, h))"

text \<open>Without a queue for disk work the block is written at once; with one the same \<open>write_to_disk\<close> runs
  later and an error is sent to the writer as \<open>Disconnect\<close> (\<open>deferred_write\<close>).\<close>

definition on_received_piece ::
  "('b, 's) env \<Rightarrow> nat \<Rightarrow> ('b, 's) live_state \<Rightarrow> peer_handler \<Rightarrow> piece_msg \<Rightarrow> unit res \<times> ('b, 's) live_state \<times> peer_handler" where
  "on_received_piece E now st h piece =
     (case accept_block st h piece of
        (Inl e, st, h) \<Rightarrow> (Inl e, st, h)
      | (Inr ci, st, h) \<Rightarrow> (case write_to_disk E now st (ph_addr h) piece ci of (r, st) \<Rightarrow> (r, st, h)))"

definition deferred_write ::
  "('b, 's) env \<Rightarrow> nat \<Rightarrow> ('b, 's) live_state \<Rightarrow> peer_handler \<Rightarrow> piece_msg \<Rightarrow> chunk_info \<Rightarrow> ('b, 's) live_state" where
  "deferred_write E now st h piece ci =
     (case write_to_disk E now st (ph_addr h) piece ci of
        (Inr _, st) \<Rightarrow> st
      | (Inl e, st) \<Rightarrow> snd (send st h (Disconnect (Inl e))))"

subsection \<open>Metadata and peer exchange\<close>

text \<open>\<^verbatim>\<open>Bytes::slice\<close> panics unless \<open>offset \<le> end \<le> len\<close>.\<close>

definition send_metadata_piece :: "('b, 's) live_state \<Rightarrow> peer_handler \<Rightarrow> nat \<Rightarrow> unit res \<times> ('b, 's) live_state" where
  "send_metadata_piece st h piece_id =
     (let data = tm_info_bytes (lv_metadata st); metadata_size = length data
      in if metadata_size = 0 then (Inl (Bail ''peer requested for info metadata but we dont have it''), st)
         else
           let total_pieces = div_ceil metadata_size CHUNK_SIZE
           in if piece_id > total_pieces then (Inl (Bail ''piece out of bounds''), st)
              else
                case try_u32 (length data) of
                  None \<Rightarrow> (Inl (Bail ''out of range integral type conversion attempted''), st)
                | Some len \<Rightarrow>
                    let offset = mul32 piece_id CHUNK_SIZE; stop = min (add32 offset CHUNK_SIZE) len
                    in if stop < offset \<or> stop > length data then (Inl Panic, st)
                       else send st h (WMessage (MExtended (UtMetadata
                              (UtData piece_id (stop - offset) (take (stop - offset) (drop offset data)))))))"

fun add_peers :: "('b, 's) env \<Rightarrow> socket_addr list \<Rightarrow> ('b, 's) live_state \<Rightarrow> ('b, 's) live_state" where
  "add_peers E [] st = st"
| "add_peers E (a # as) st = add_peers E as (snd (add_peer_if_not_seen E st a))"

definition on_pex_message :: "('b, 's) env \<Rightarrow> ('b, 's) live_state \<Rightarrow> ut_pex \<Rightarrow> ('b, 's) live_state" where
  "on_pex_message E st msg = add_peers E (pex_dropped msg @ pex_added msg) st"

definition MAX_SENT_PEERS :: nat where
  "MAX_SENT_PEERS = 50"

text \<open>One round of \<^verbatim>\<open>task_send_pex_to_peer\<close>: \<open>view\<close> is what the peer was told; \<open>None\<close> when it has disconnected.\<close>

definition pex_round ::
  "('b, 's) env \<Rightarrow> ('b, 's) live_state \<Rightarrow> peer_handler \<Rightarrow> socket_addr set \<Rightarrow> socket_addr set option \<times> ('b, 's) live_state" where
  "pex_round E st h view =
     (let live_peers = live_outgoing_peers (lv_peers st);
          connected = take MAX_SENT_PEERS (e_set_order E (live_peers - view));
          dropped = take MAX_SENT_PEERS (e_set_order E (view - live_peers))
      in if connected \<noteq> [] \<or> dropped \<noteq> [] then
           case send st h (WMessage (MExtended (UtPex \<lparr>pex_added = connected, pex_dropped = dropped\<rparr>))) of
             (Inl _, st) \<Rightarrow> (None, st)
           | (Inr _, st) \<Rightarrow> (Some ((view - set dropped) \<union> set connected), st)
         else (Some view, st))"

text \<open>Whether the exchange task is spawned for the peer, and the state.\<close>

definition on_extended_handshake :: "('b, 's) live_state \<Rightarrow> peer_handler \<Rightarrow> extended_handshake \<Rightarrow> bool \<times> ('b, 's) live_state" where
  "on_extended_handshake st h hs =
     (\<not> mi_private (tm_info (lv_metadata st)) \<and> eh_ut_pex hs \<noteq> None,
      if ph_incoming h then
        case eh_port hs of
          Some port \<Rightarrow>
            let peer_ip = (case eh_ip_addr hs of Some ip \<Rightarrow> ip | None \<Rightarrow> fst (ph_addr h))
            in set_peers st (snd (with_peer_mut (lv_peers st) (ph_addr h) (\<lambda>p ps.
                 ((), p\<lparr>outgoing_address := Some (peer_ip, port)\<rparr>, ps))))
        | None \<Rightarrow> st
      else st)"

definition update_my_extended_handshake :: "('b, 's) live_state \<Rightarrow> extended_handshake \<Rightarrow> extended_handshake" where
  "update_my_extended_handshake st hs =
     (let info_bytes = tm_info_bytes (lv_metadata st)
      in if info_bytes \<noteq> [] then
           case try_u32 (length info_bytes) of Some len \<Rightarrow> hs\<lparr>eh_metadata_size := Some len\<rparr> | None \<Rightarrow> hs
         else hs)"

subsection \<open>Dispatch\<close>

definition on_received_message ::
  "('b, 's) env \<Rightarrow> nat \<Rightarrow> ('b, 's) live_state \<Rightarrow> peer_handler \<Rightarrow> message \<Rightarrow> unit res \<times> ('b, 's) live_state \<times> peer_handler" where
  "on_received_message E now st h message =
     (let h = (case message of MBitfield _ \<Rightarrow> h | _ \<Rightarrow> h\<lparr>first_message_received := True\<rparr>);
          with_h = (\<lambda>(r, st). (r, st, h))
      in case message of
           MRequest request \<Rightarrow> with_h (on_download_request st h request)
         | MBitfield b \<Rightarrow> with_h (on_bitfield st h b)
         | MChoke \<Rightarrow> (Inr (), st, on_i_am_choked h)
         | MUnchoke \<Rightarrow> (Inr (), st, on_i_am_unchoked h)
         | MInterested \<Rightarrow> (Inr (), on_peer_interested st h, h)
         | MPiece piece \<Rightarrow> on_received_piece E now st h piece
         | MHave n \<Rightarrow> (Inr (), on_have st h n, h)
         | MExtended (UtMetadata (UtRequest metadata_piece_id)) \<Rightarrow>
             if mi_private (tm_info (lv_metadata st)) then (Inr (), st, h)
             else with_h (send_metadata_piece st h metadata_piece_id)
         | MExtended (UtPex pex) \<Rightarrow>
             if mi_private (tm_info (lv_metadata st)) then (Inr (), st, h)
             else (Inr (), on_pex_message E st pex, h)
         | _ \<Rightarrow> (Inr (), st, h))"

end
