(* ===== verification/Live_Inv.thy ===== *)
theory Live_Inv
  imports Receive
begin

text \<open>
  The invariant of a running torrent and its preservation by every handler. \<open>live_inv\<close> ties the parts of
  the state together: the tracker is consistent and belongs to this torrent, pieces in flight and requests
  in flight exist, the peer counters are exact, streams read files of the torrent. Handlers are compared
  with \<open>evolves\<close>, a transitive relation between the states before and after, so that a handler's lemma is
  the chain of the lemmas of the operations it calls.
\<close>

named_theorems evolve \<open>what the operations do to a running torrent\<close>

subsection \<open>Requests in flight\<close>

definition requests_ok :: "(chunk_info \<Rightarrow> bool) \<Rightarrow> 'b peer_states \<Rightarrow> bool" where
  "requests_ok V ps \<longleftrightarrow> (\<forall>h p l c. map_of (states ps) h = Some p \<longrightarrow> get_live p = Some l \<longrightarrow>
     c \<in> set (inflight_requests l) \<longrightarrow> V c)"

lemma requests_okD:
  "requests_ok V ps \<Longrightarrow> map_of (states ps) h = Some p \<Longrightarrow> get_live p = Some l \<Longrightarrow> c \<in> set (inflight_requests l) \<Longrightarrow> V c"
  unfolding requests_ok_def by blast

lemma requests_ok_update:
  assumes "requests_ok V ps" "\<And>l c. get_live p = Some l \<Longrightarrow> c \<in> set (inflight_requests l) \<Longrightarrow> V c"
    and "states ps' = AList.update a p (states ps)"
  shows "requests_ok V ps'"
  unfolding requests_ok_def assms(3) update_conv'
proof (intro allI impI)
  fix h q l c
  assume q: "((map_of (states ps))(a \<mapsto> p)) h = Some q" "get_live q = Some l" "c \<in> set (inflight_requests l)"
  show "V c"
  proof (cases "h = a")
    case True
    then show ?thesis using q assms(2) by simp
  next
    case False
    then show ?thesis using q requests_okD [OF assms(1), of h q l] by simp
  qed
qed

text \<open>A step of the table that keeps the counters exact and adds only valid requests.\<close>

definition peers_step :: "(chunk_info \<Rightarrow> bool) \<Rightarrow> 'b peer_states \<Rightarrow> 'b peer_states \<Rightarrow> bool" where
  "peers_step V ps ps' \<longleftrightarrow> keeps ps ps' \<and> (requests_ok V ps \<longrightarrow> requests_ok V ps')"

lemma peers_step_refl [simp, intro]: "peers_step V ps ps"
  by (simp add: peers_step_def)

lemma peers_step_trans [trans]: "peers_step V a b \<Longrightarrow> peers_step V b c \<Longrightarrow> peers_step V a c"
  unfolding peers_step_def using keeps_trans by blast

text \<open>What a closure on a peer may do to its requests.\<close>

definition adds_valid :: "(chunk_info \<Rightarrow> bool) \<Rightarrow> 'b peer \<Rightarrow> 'b peer \<Rightarrow> bool" where
  "adds_valid V p p' \<longleftrightarrow> (\<forall>l' c. get_live p' = Some l' \<longrightarrow> c \<in> set (inflight_requests l') \<longrightarrow>
     V c \<or> (\<exists>l. get_live p = Some l \<and> c \<in> set (inflight_requests l)))"

locale request_closure = peer_closure +
  fixes V :: "chunk_info \<Rightarrow> bool"
  assumes closure_requests: "f p ps = (r, p', ps') \<Longrightarrow> adds_valid V p p'"
begin

lemma with_peer_mut_step: "peers_step V ps (snd (with_peer_mut ps a f))"
proof (cases "map_of (states ps) a")
  case None
  then show ?thesis by (simp add: with_peer_mut_def)
next
  case (Some p)
  obtain r p' ps' where f: "f p ps = (r, p', ps')" by (cases "f p ps") auto
  have w: "states (snd (with_peer_mut ps a f)) = AList.update a p' (states ps)"
    using with_peer_mut_this [OF Some f] by simp
  have "requests_ok V (snd (with_peer_mut ps a f))" if ok: "requests_ok V ps"
    by (rule requests_ok_update [OF ok _ w])
      (use closure_requests [OF f] requests_okD [OF ok Some] in \<open>auto simp: adds_valid_def\<close>)
  then show ?thesis using with_peer_mut_keeps by (simp add: peers_step_def)
qed

end

lemma get_live_simps [simp]: "get_live (p\<lparr>p_state := s\<rparr>) = take_live_no_counters s"
  by (simp add: get_live_def)

lemma adds_valid_refl [simp]: "adds_valid V p p"
  by (auto simp: adds_valid_def)

lemma adds_valid_no_requests [simp]:
  "\<not> is_live s \<Longrightarrow> adds_valid V p (p\<lparr>p_state := s\<rparr>)"
  "adds_valid V p (p\<lparr>p_state := Live (live_peer_new pid tx b)\<rparr>)"
  by (cases s) (auto simp: adds_valid_def live_peer_new_def)

lemma set_state_idle_closure: "\<not> is_live new \<Longrightarrow> request_closure (\<lambda>p. set_state p new) V"
  by unfold_locales (auto dest: set_state_sel(2))

interpretation set_not_needed: request_closure set_not_needed V
  unfolding set_not_needed_def by unfold_locales (auto dest: set_state_sel(2))

interpretation take_state: request_closure take_state V
  unfolding take_state_def by (rule set_state_idle_closure) simp

interpretation idle_to_connecting: request_closure "idle_to_connecting tx" V
  by unfold_locales (erule idle_to_connecting_cases, auto dest: set_state_sel(2))

interpretation incoming_connection: request_closure "incoming_connection pid tx" V
  by unfold_locales (erule incoming_connection_cases, auto dest: two_states(1))

interpretation connecting_to_live: request_closure "connecting_to_live pid" V
  by unfold_locales (erule connecting_to_live_cases, auto dest: two_states(1))

interpretation reconnect_not_needed: request_closure reconnect_not_needed_peer V
  by unfold_locales (erule reconnect_not_needed_cases, auto dest: set_state_sel(2))

text \<open>A closure that leaves the state of the peer alone.\<close>

lemma same_state_closure:
  assumes "\<And>p. p_state (g p) = p_state p"
  shows "request_closure (\<lambda>p ps. (h p, g p, ps)) V"
proof -
  have pc: "peer_closure (\<lambda>p ps. (h p, g p, ps))" by (rule pure_closure) (simp add: assms)
  show ?thesis
    by (intro request_closure.intro request_closure_axioms.intro pc)
      (auto simp: adds_valid_def get_live_def assms)
qed

text \<open>A change of the state of a live peer that adds only valid requests.\<close>

lemma on_live_closure:
  assumes "\<And>l c. c \<in> set (inflight_requests (snd (f l))) \<Longrightarrow> V c \<or> c \<in> set (inflight_requests l)"
  shows "request_closure (on_live f) V"
proof (intro request_closure.intro request_closure_axioms.intro on_live.peer_closure_axioms)
  fix p ps r p' ps'
  assume "on_live f p ps = (r, p', ps')"
  then show "adds_valid V p p'"
  proof (cases "get_live p")
    case None
    then show ?thesis using \<open>on_live f p ps = (r, p', ps')\<close> by (simp add: on_live_def)
  next
    case (Some l)
    then have "get_live p' = Some (snd (f l))"
      using \<open>on_live f p ps = (r, p', ps')\<close> by (auto simp: on_live_def split: prod.splits)
    then show ?thesis using assms Some by (auto simp: adds_valid_def)
  qed
qed

lemma with_live_mut_step:
  assumes "\<And>l c. c \<in> set (inflight_requests (snd (f l))) \<Longrightarrow> V c \<or> c \<in> set (inflight_requests l)"
  shows "peers_step V ps (snd (with_live_mut ps a f))"
  using request_closure.with_peer_mut_step [OF on_live_closure [of f V, OF assms], of ps a]
  by (simp add: with_live_mut_def split_beta)

lemma bump_counters_step: "peers_step V ps (bump_counters ps a f)"
  unfolding bump_counters_def by (intro request_closure.with_peer_mut_step same_state_closure) simp

lemma reset_peer_backoff_step: "peers_step V ps (reset_peer_backoff b ps a)"
  unfolding reset_peer_backoff_def by (intro request_closure.with_peer_mut_step same_state_closure) simp

lemma states_step: "keeps ps ps' \<Longrightarrow> states ps' = states ps \<Longrightarrow> peers_step V ps ps'"
  by (simp add: peers_step_def requests_ok_def)

lemma on_steal_step: "peers_step V ps (fst (on_steal ps a b i))"
proof -
  define ps1 where "ps1 = bump_counters ps b (\<lambda>c. c\<lparr>times_i_stole := times_i_stole c + 1\<rparr>)"
  define ps2 where "ps2 = bump_counters ps1 a (\<lambda>c. c\<lparr>times_stolen_from_me := times_stolen_from_me c + 1\<rparr>)"
  have "peers_step V ps ps1" unfolding ps1_def by (rule bump_counters_step)
  also have "peers_step V ps1 ps2" unfolding ps2_def by (rule bump_counters_step)
  also have "peers_step V ps2 (both_stats inc_steals ps2)" by (intro states_step steals_keeps) simp
  also have "peers_step V (both_stats inc_steals ps2) (fst (on_steal ps a b i))"
    unfolding on_steal_def Let_def ps1_def [symmetric] ps2_def [symmetric]
    by (simp add: split_beta) (rule with_live_mut_step, simp)
  finally show ?thesis .
qed

lemma mark_peer_not_needed_step: "peers_step V ps (snd (mark_peer_not_needed ps a))"
  unfolding mark_peer_not_needed_def by (rule set_not_needed.with_peer_mut_step)

lemma mark_peer_connecting_step: "peers_step V ps (snd (mark_peer_connecting tx ps h))"
proof -
  have "snd (mark_peer_connecting tx ps h) = snd (with_peer_mut ps h (idle_to_connecting tx))"
    by (auto simp: mark_peer_connecting_def split: prod.splits option.splits)
  then show ?thesis using idle_to_connecting.with_peer_mut_step by simp
qed

lemma drop_peer_step: "peers_step V ps (snd (drop_peer ps h))"
  using drop_peer_keeps [of ps h]
  by (auto simp: peers_step_def requests_ok_def drop_peer_def delete_conv' split: option.split)

lemma add_if_not_seen_step: "peers_step V ps (snd (add_if_not_seen b ps a))"
  using add_if_not_seen_keeps [of ps b a]
  by (auto simp: peers_step_def requests_ok_def add_if_not_seen_def update_conv' new_with_outgoing_address_def get_live_def
      split: option.splits if_splits)

subsection \<open>The invariant\<close>

definition valid_chunk :: "lengths \<Rightarrow> chunk_info \<Rightarrow> bool" where
  "valid_chunk l c \<longleftrightarrow> ci_piece_index c < total_pieces l \<and> c \<in> set (iter_chunk_infos l (ci_piece_index c))"

definition tracker_ok :: "lengths \<Rightarrow> file_info list \<Rightarrow> chunk_tracker \<Rightarrow> bool" where
  "tracker_ok l fis ct \<longleftrightarrow> ct_inv ct \<and> ct_lengths ct = l \<and> length (per_file_bytes ct) = length fis"

definition locked_ok :: "lengths \<Rightarrow> file_info list \<Rightarrow> state_locked \<Rightarrow> bool" where
  "locked_ok l fis g \<longleftrightarrow> (\<forall>ct. chunks g = Some ct \<longrightarrow> tracker_ok l fis ct) \<and> tbl_ok (inflight_pieces g) \<and>
     (\<forall>p \<in> fst ` set (inflight_pieces g). p < total_pieces l) \<and> set (file_priorities g) = {..<length fis}"

definition live_inv :: "('b, 's) live_state \<Rightarrow> bool" where
  "live_inv st \<longleftrightarrow>
     (let l = lv_lengths st; fis = tm_file_infos (lv_metadata st) in
      wf_lengths l \<and> wf_file_infos l fis \<and> tm_lengths (lv_metadata st) = l \<and> locked_ok l fis (lv_locked st) \<and>
      peers_inv (lv_peers st) \<and> requests_ok (valid_chunk l) (lv_peers st) \<and>
      (\<forall>i \<in> set (streamed_file_ids (lv_streams st)). i < length fis))"

abbreviation lv_fis :: "('b, 's) live_state \<Rightarrow> file_info list" where
  "lv_fis st \<equiv> tm_file_infos (lv_metadata st)"

lemma live_invD:
  assumes "live_inv st"
  shows "wf_lengths (lv_lengths st)" "wf_file_infos (lv_lengths st) (lv_fis st)" "tm_lengths (lv_metadata st) = lv_lengths st"
    "locked_ok (lv_lengths st) (lv_fis st) (lv_locked st)" "peers_inv (lv_peers st)"
    "requests_ok (valid_chunk (lv_lengths st)) (lv_peers st)"
    "i \<in> set (streamed_file_ids (lv_streams st)) \<Longrightarrow> i < length (lv_fis st)"
  using assms by (auto simp: live_inv_def Let_def)

lemma live_inv_tracker:
  assumes "live_inv st" "chunks (lv_locked st) = Some ct"
  shows "ct_inv ct" "ct_lengths ct = lv_lengths st" "length (per_file_bytes ct) = length (lv_fis st)"
  using live_invD(4) [OF assms(1)] assms(2) by (auto simp: locked_ok_def tracker_ok_def)

text \<open>The verified pieces of a torrent that is not paused.\<close>

definition lv_have :: "('b, 's) live_state \<Rightarrow> bits option" where
  "lv_have st = map_option ct_have (chunks (lv_locked st))"

text \<open>What every operation keeps: the torrent stays the same, the invariant is preserved, and the counters of
  the session move with those of the torrent.\<close>

definition evolves :: "('b, 's) live_state \<Rightarrow> ('b, 's) live_state \<Rightarrow> bool" where
  "evolves st st' \<longleftrightarrow> (live_inv st \<longrightarrow> live_inv st' \<and> lv_metadata st' = lv_metadata st \<and>
     lv_lengths st' = lv_lengths st \<and> (\<forall>k. others k (lv_peers st') = others k (lv_peers st)))"

text \<open>Operations that neither touch the storage nor the verified pieces.\<close>

definition quiet :: "('b, 's) live_state \<Rightarrow> ('b, 's) live_state \<Rightarrow> bool" where
  "quiet st st' \<longleftrightarrow> evolves st st' \<and> (live_inv st \<longrightarrow> lv_files st' = lv_files st \<and> lv_have st' = lv_have st)"

lemma evolves_refl [simp, intro]: "evolves st st"
  by (simp add: evolves_def)

lemma evolves_trans [trans]: "evolves a b \<Longrightarrow> evolves b c \<Longrightarrow> evolves a c"
  by (simp add: evolves_def)

lemma quiet_refl [simp, intro]: "quiet st st"
  by (simp add: quiet_def)

lemma quiet_trans [trans]: "quiet a b \<Longrightarrow> quiet b c \<Longrightarrow> quiet a c"
  unfolding quiet_def evolves_def by auto

lemma evolvesD:
  assumes "evolves st st'"
  shows "live_inv st \<Longrightarrow> live_inv st'" "live_inv st \<Longrightarrow> lv_metadata st' = lv_metadata st"
    "live_inv st \<Longrightarrow> lv_lengths st' = lv_lengths st"
  using assms by (auto simp: evolves_def)

lemma quietD: "quiet st st' \<Longrightarrow> evolves st st'" "quiet st st' \<Longrightarrow> live_inv st \<Longrightarrow> live_inv st'"
  by (simp_all add: quiet_def evolves_def)

lemma quietI: "(live_inv st \<Longrightarrow> quiet st st') \<Longrightarrow> quiet st st'"
  by (auto simp: quiet_def evolves_def)

lemma evolvesI: "(live_inv st \<Longrightarrow> evolves st st') \<Longrightarrow> evolves st st'"
  by (auto simp: evolves_def)

lemma quiet_abind:
  assumes "quiet st (snd m)" "\<And>x. live_inv st \<Longrightarrow> fst m = Inr x \<Longrightarrow> quiet (snd m) (snd (k x (snd m)))"
  shows "quiet st (snd (abind m k))"
  using assms by (cases "live_inv st") (auto simp: abind_def quiet_def evolves_def split: sum.split)

lemma evolves_abind:
  assumes "evolves st (snd m)" "\<And>x. live_inv st \<Longrightarrow> fst m = Inr x \<Longrightarrow> evolves (snd m) (snd (k x (snd m)))"
  shows "evolves st (snd (abind m k))"
  using assms by (cases "live_inv st") (auto simp: abind_def evolves_def split: sum.split)

subsection \<open>Elementary updates\<close>

text \<open>Fields the invariant does not mention.\<close>

lemma quiet_fields [evolve]:
  "quiet st (st\<lparr>lv_out := a\<rparr>)" "quiet st (st\<lparr>lv_peer_queue := b\<rparr>)" "quiet st (st\<lparr>lv_permits := c\<rparr>)"
  "quiet st (st\<lparr>lv_upload_queue := d\<rparr>)" "quiet st (st\<lparr>lv_stats := e\<rparr>)" "quiet st (st\<lparr>lv_haves := f\<rparr>)"
  "quiet st (st\<lparr>lv_writing := g\<rparr>)" "quiet st (st\<lparr>lv_session_fetched := w\<rparr>)" "quiet st (st\<lparr>lv_session_uploaded := w\<rparr>)"
  "quiet st (st\<lparr>lv_fatal := x\<rparr>)" "quiet st (st\<lparr>lv_woken := y\<rparr>)"
  by (simp_all add: quiet_def evolves_def live_inv_def lv_have_def)

lemma quiet_set_peers:
  assumes "peers_step (valid_chunk (lv_lengths st)) (lv_peers st) ps"
  shows "quiet st (set_peers st ps)"
  using assms by (auto simp: quiet_def evolves_def live_inv_def lv_have_def set_peers_def peers_step_def keeps_def Let_def)

lemma quiet_locked:
  assumes "locked_ok (lv_lengths st) (lv_fis st) (lv_locked st) \<Longrightarrow> locked_ok (lv_lengths st) (lv_fis st) g"
    and "map_option ct_have (chunks g) = map_option ct_have (chunks (lv_locked st))"
  shows "quiet st (st\<lparr>lv_locked := g\<rparr>)"
  using assms by (auto simp: quiet_def evolves_def live_inv_def lv_have_def Let_def)

lemma with_chunks_mut_cases:
  obtains (fail) e where "with_chunks_mut st f = (Inl e, st)"
  | (ok) ct a ct' where "chunks (lv_locked st) = Some ct" "f ct = Inr (a, ct')"
      "with_chunks_mut st f = (Inr a, st\<lparr>lv_locked := (lv_locked st)\<lparr>chunks := Some ct'\<rparr>\<rparr>)"
  by (cases "chunks (lv_locked st)"; cases "f (the (chunks (lv_locked st)))")
    (auto simp: with_chunks_mut_def get_chunks_def)

lemma with_chunks_mut_evolves:
  assumes "\<And>ct a ct'. live_inv st \<Longrightarrow> chunks (lv_locked st) = Some ct \<Longrightarrow> f ct = Inr (a, ct') \<Longrightarrow>
    tracker_ok (lv_lengths st) (lv_fis st) ct'"
  shows "evolves st (snd (with_chunks_mut st f))"
proof (cases rule: with_chunks_mut_cases [of st f])
  case (ok ct a ct')
  then show ?thesis using assms [OF _ ok(1,2)] by (auto simp: evolves_def live_inv_def locked_ok_def Let_def)
qed simp

lemma with_chunks_mut_quiet:
  assumes "\<And>ct a ct'. live_inv st \<Longrightarrow> chunks (lv_locked st) = Some ct \<Longrightarrow> f ct = Inr (a, ct') \<Longrightarrow>
      tracker_ok (lv_lengths st) (lv_fis st) ct'"
    and "\<And>ct a ct'. live_inv st \<Longrightarrow> chunks (lv_locked st) = Some ct \<Longrightarrow> f ct = Inr (a, ct') \<Longrightarrow> ct_have ct' = ct_have ct"
  shows "quiet st (snd (with_chunks_mut st f))"
proof (cases rule: with_chunks_mut_cases [of st f])
  case (ok ct a ct')
  then show ?thesis using assms(2) [OF _ ok(1,2)] with_chunks_mut_evolves [of st f, OF assms(1)]
    by (simp add: quiet_def lv_have_def)
qed simp

subsection \<open>Operations of the torrent\<close>

lemma mark_broken_quiet:
  assumes "live_inv st \<Longrightarrow> p < total_pieces (lv_lengths st)"
  shows "quiet st (snd (mark_broken st p))"
  unfolding mark_broken_def
proof (rule with_chunks_mut_quiet)
  fix ct a ct'
  assume *: "live_inv st" "chunks (lv_locked st) = Some ct"
    "rbind (mark_piece_broken_if_not_have ct p) (\<lambda>ct. Inr ((), ct)) = Inr (a, ct')"
  then have "mark_piece_broken_if_not_have ct p = Inr ct'" by (simp add: res_simps)
  from mark_piece_broken_inv [OF live_inv_tracker(1) [OF *(1,2)] _ this] *
  show "tracker_ok (lv_lengths st) (lv_fis st) ct'"
    using assms live_inv_tracker [OF *(1,2)] by (simp add: tracker_ok_def)
next
  fix ct a ct'
  assume "rbind (mark_piece_broken_if_not_have ct p) (\<lambda>ct. Inr ((), ct)) = Inr (a, ct')"
  then show "ct_have ct' = ct_have ct"
    by (auto simp: res_simps mark_piece_broken_if_not_have_def Let_def split: if_splits)
qed

lemma on_fatal_error_quiet: "quiet st (snd (on_fatal_error st e))"
proof (cases "fatal_errors_tx (lv_locked st)")
  case True
  let ?g = "(lv_locked st)\<lparr>fatal_errors_tx := False\<rparr>"
  have "quiet st (st\<lparr>lv_locked := ?g\<rparr>)" by (rule quiet_locked) (simp_all add: locked_ok_def)
  then show ?thesis
    using True quiet_trans [OF _ quiet_fields(10), of st "st\<lparr>lv_locked := ?g\<rparr>"] by (simp add: on_fatal_error_def)
qed (simp add: on_fatal_error_def)

lemma add_peer_if_not_seen_quiet: "quiet st (snd (add_peer_if_not_seen E st a))"
proof (cases "add_if_not_seen (e_backoff0 E) (lv_peers st) a")
  case (Pair r ps)
  then have "peers_step (valid_chunk (lv_lengths st)) (lv_peers st) ps"
    using add_if_not_seen_step [of "valid_chunk (lv_lengths st)" "lv_peers st" "e_backoff0 E" a] by simp
  note q = quiet_set_peers [OF this]
  show ?thesis
    using q quiet_trans [OF q quiet_fields(2)] Pair
    by (auto simp: add_peer_if_not_seen_def Let_def split: option.split)
qed

lemma add_peers_quiet: "quiet st (add_peers E as st)"
  by (induction as arbitrary: st) (auto intro: quiet_trans add_peer_if_not_seen_quiet)

lemma disconnect_full_peers_quiet: "quiet st (disconnect_full_peers hs tp st)"
proof (induction hs arbitrary: st)
  case (Cons h hs)
  let ?ps = "snd (mark_peer_not_needed (lv_peers st) h)"
  have "quiet st ((set_peers st ?ps)\<lparr>lv_out := x\<rparr>)" for x
    using quiet_trans [OF quiet_set_peers [OF mark_peer_not_needed_step] quiet_fields(1)] .
  then show ?case using quiet_trans [OF _ Cons.IH] by (auto split: option.split)
qed simp

lemma reconnect_peers_quiet: "quiet st (reconnect_peers hs st)"
proof (induction hs arbitrary: st)
  case (Cons h hs)
  have "quiet st (set_peers st (snd (with_peer_mut (lv_peers st) h reconnect_not_needed_peer)))"
    by (rule quiet_set_peers) (rule reconnect_not_needed.with_peer_mut_step)
  then show ?case
    using quiet_trans [OF _ Cons.IH] quiet_trans [OF quiet_trans [OF _ quiet_fields(2)] Cons.IH]
    by (auto simp: Let_def split: prod.split option.split)
qed simp

lemma update_only_files_quiet: "quiet st (snd (live_update_only_files st only))"
  unfolding live_update_only_files_def
proof (rule quiet_abind)
  show "quiet st (snd (with_chunks_mut st (\<lambda>ct.
       rbind (update_only_files ct (map fi_len (lv_fis st)) only) (\<lambda>(ct, h). Inr (h, ct)))))" (is "quiet _ (snd (with_chunks_mut _ ?f))")
  proof -
    have *: "tracker_ok (lv_lengths st) (lv_fis st) ct' \<and> ct_have ct' = ct_have ct"
      if "live_inv st" "chunks (lv_locked st) = Some ct" "?f ct = Inr (a, ct')" for ct a ct'
    proof -
      note ct = live_inv_tracker [OF that(1,2)]
      have "sum_list (map fi_len (lv_fis st)) = total_length (ct_lengths ct)"
        using live_invD(2) [OF that(1)] ct by (simp add: wf_file_infos_def)
      from update_only_files_ok [OF ct(1) this, of only] that(3) ct
      show ?thesis by (auto simp: tracker_ok_def)
    qed
    show ?thesis by (rule with_chunks_mut_quiet) (use * in blast)+
  qed
qed (auto simp: reconnect_all_not_needed_peers_def reconnect_peers_quiet)

lemma try_flush_bitv_sel [simp]:
  "chunks (try_flush_bitv f g) = chunks g" "inflight_pieces (try_flush_bitv f g) = inflight_pieces g"
  "file_priorities (try_flush_bitv f g) = file_priorities g"
  by (simp_all add: try_flush_bitv_def split: option.split)

lemma streamed_file_ids_wake [simp]:
  "streamed_file_ids (fst (wake_streams_on_piece_completed ts p l)) = streamed_file_ids ts"
  by (auto simp: streamed_file_ids_def wake_streams_on_piece_completed_def wake_one_def split: option.split)

lemma update_files_have_pfb:
  "update_files_have p fs ct = Inr ct' \<Longrightarrow>
   \<exists>b. ct' = ct\<lparr>per_file_bytes := b\<rparr> \<and> length b = length (per_file_bytes ct)"
proof (induction fs arbitrary: ct)
  case Nil
  then show ?case by (intro exI [of _ "per_file_bytes ct"]) simp
next
  case (Cons e fs)
  obtain i fi where e: "e = (i, fi)" by (cases e)
  obtain n where "update_files_have p fs (ct\<lparr>per_file_bytes := (per_file_bytes ct)[i := n]\<rparr>) = Inr ct'"
    using Cons.prems by (auto simp: e res_simps update_file_have_on_piece_completed_def Let_def split: if_splits)
  from Cons.IH [OF this] show ?case by auto
qed

lemma update_files_have_sel:
  assumes "update_files_have p fs ct = Inr ct'"
  shows "ct_inv ct \<Longrightarrow> ct_inv ct'" "ct_lengths ct' = ct_lengths ct" "ct_have ct' = ct_have ct"
    "length (per_file_bytes ct') = length (per_file_bytes ct)" "selected ct' = selected ct" "queue_pieces ct' = queue_pieces ct"
    "chunk_status ct' = chunk_status ct" "hns ct' = hns ct"
  using update_files_have_pfb [OF assms] by (auto simp: ct_inv_pfb)

lemma wake_and_flush_quiet: "quiet st (wake_and_flush E st pid)"
  by (auto simp: wake_and_flush_def Let_def quiet_def evolves_def live_inv_def lv_have_def locked_ok_def)

lemma flush_quiet: "quiet st (st\<lparr>lv_locked := try_flush_bitv f (lv_locked st)\<rparr>)"
  by (rule quiet_locked) (simp_all add: locked_ok_def)

lemma finish_if_complete_quiet: "quiet st (snd (finish_if_complete E st pid))"
proof -
  let ?s = "\<lambda>sel. if sel then st\<lparr>lv_locked := try_flush_bitv (e_flush E) (lv_locked st)\<rparr> else st"
  have s: "quiet st (?s sel)" for sel by (simp add: flush_quiet)
  have d: "quiet st (disconnect_all_peers_that_have_full_torrent (?s sel))" for sel
    unfolding disconnect_all_peers_that_have_full_torrent_def by (rule quiet_trans [OF s disconnect_full_peers_quiet])
  show ?thesis unfolding finish_if_complete_def Let_def using s [of True] d [of True] d [of False]
    by (auto split: sum.split bool.split)
qed

lemma on_piece_completed_quiet: "quiet st (snd (on_piece_completed E st pid))"
  unfolding on_piece_completed_def
proof (rule quiet_abind)
  show "quiet st (snd (with_chunks_mut st (\<lambda>ct.
      rbind (update_files_have pid (completed_files (lv_fis st) pid) ct) (\<lambda>ct. Inr ((), ct)))))"
    by (rule with_chunks_mut_quiet)
      (auto simp: tracker_ok_def res_simps update_files_have_sel live_inv_tracker)
qed (rule quiet_trans [OF wake_and_flush_quiet finish_if_complete_quiet])

subsection \<open>Handlers of a connection\<close>

lemma send_quiet: "quiet st (snd (send st h r))"
  by (simp add: send_def quiet_fields)

lemma bump_quiet: "quiet st (bump st a f)"
  unfolding bump_def by (rule quiet_set_peers) (rule bump_counters_step)

lemma put_state_quiet: "\<not> is_live new \<Longrightarrow> quiet st (put_state st a new)"
  unfolding put_state_def by (rule quiet_set_peers) (rule request_closure.with_peer_mut_step [OF set_state_idle_closure])

lemma drop_quiet: "quiet st (set_peers st (snd (drop_peer (lv_peers st) a)))"
  by (rule quiet_set_peers) (rule drop_peer_step)

lemma next_backoff_quiet: "quiet st (snd (next_backoff E st a))"
proof -
  have "quiet st (set_peers st (snd (with_peer_mut (lv_peers st) a (\<lambda>p ps.
      (fst (e_next_backoff E (p_backoff p)), p\<lparr>p_backoff := snd (e_next_backoff E (p_backoff p))\<rparr>, ps)))))"
    by (rule quiet_set_peers, rule request_closure.with_peer_mut_step, rule same_state_closure) simp
  then show ?thesis by (simp add: next_backoff_def split_beta)
qed

lemma cancel_requests_quiet:
  assumes "live_inv st \<Longrightarrow> \<forall>c \<in> set reqs. ci_piece_index c < total_pieces (lv_lengths st)"
  shows "quiet st (snd (cancel_requests reqs st))"
  using assms
proof (induction reqs arbitrary: st)
  case (Cons c reqs)
  let ?st = "snd (mark_broken st (ci_piece_index c))"
  have q: "quiet st ?st" using Cons.prems by (intro mark_broken_quiet) auto
  show ?case unfolding cancel_requests.simps
  proof (rule quiet_abind [OF q])
    assume "live_inv st"
    then show "quiet ?st (snd (cancel_requests reqs ?st))"
      using Cons.prems q by (intro Cons.IH) (auto simp: quiet_def evolves_def)
  qed
qed simp

lemma with_peer_mut_fst: "fst (with_peer_mut ps a f) = map_option (\<lambda>p. fst (f p ps)) (map_of (states ps) a)"
  by (simp add: with_peer_mut_def split: option.split prod.split)

lemma retire_peer_quiet: "quiet st (snd (retire_peer E st h))"
proof -
  let ?a = "ph_addr h"
  let ?d = "put_state st ?a Dead" and ?b = "snd (next_backoff E (put_state st ?a Dead) ?a)"
  have d: "quiet st ?d" "quiet st (put_state st ?a NotNeeded)" by (simp_all add: put_state_quiet)
  have b: "quiet st ?b" by (rule quiet_trans [OF d(1) next_backoff_quiet])
  have "quiet st (set_peers ?b (snd (drop_peer (lv_peers ?b) ?a)))" by (rule quiet_trans [OF b drop_quiet])
  then show ?thesis
    using d b by (auto simp: retire_peer_def Let_def split: sum.split bool.split prod.split option.split)
qed

lemma on_peer_died_quiet: "quiet st (snd (on_peer_died E st h e))"
proof (cases "map_of (states (lv_peers st)) (ph_addr h)")
  case None
  then show ?thesis by (simp add: on_peer_died_def with_peer_mut_def Let_def)
next
  case (Some p)
  define ps' where "ps' = snd (with_peer_mut (lv_peers st) (ph_addr h) take_state)"
  let ?ended = "\<lambda>st. case e of None \<Rightarrow> (Inr None, put_state st (ph_addr h) NotNeeded)
    | Some _ \<Rightarrow> retire_peer E (bump st (ph_addr h) (\<lambda>c. c\<lparr>errors := errors c + 1\<rparr>)) h"
  have w: "with_peer_mut (lv_peers st) (ph_addr h) take_state = (Some (p_state p), ps')"
    using with_peer_mut_fst [of "lv_peers st" "ph_addr h" take_state] Some set_state_fst [of p Queued "lv_peers st"]
    unfolding ps'_def by (intro prod_eqI) (simp_all add: take_state_def)
  have q: "quiet st (set_peers st ps')" unfolding ps'_def by (rule quiet_set_peers) (rule take_state.with_peer_mut_step)
  have ended: "quiet s (snd (?ended s))" for s :: "('a, 'b) live_state"
    by (simp add: put_state_quiet quiet_trans [OF bump_quiet retire_peer_quiet] split: option.split)
  have live: "quiet (set_peers st ps') (snd (abind (cancel_requests (inflight_requests l) (set_peers st ps')) (\<lambda>_. ?ended)))"
    if l: "p_state p = Live l" and inv: "live_inv st" for l
  proof (rule quiet_abind)
    have "\<forall>c \<in> set (inflight_requests l). ci_piece_index c < total_pieces (lv_lengths st)"
      using requests_okD [OF live_invD(6) [OF inv] Some, of l] l by (simp add: get_live_def valid_chunk_def)
    then show "quiet (set_peers st ps') (snd (cancel_requests (inflight_requests l) (set_peers st ps')))"
      by (intro cancel_requests_quiet) (simp add: set_peers_def)
  qed (rule ended)
  show ?thesis
  proof (cases "live_inv st")
    case True
    have "quiet (set_peers st ps') (snd (on_peer_died E st h e))"
      using ended live [OF _ True] put_state_quiet [of NotNeeded "set_peers st ps'" "ph_addr h"]
        drop_quiet [of "set_peers st ps'" "ph_addr h"]
      by (cases "p_state p") (simp_all add: on_peer_died_def w Let_def)
    then show ?thesis by (rule quiet_trans [OF q])
  qed (simp add: quiet_def evolves_def)
qed

lemma manage_peer_end_quiet: "quiet st (snd (manage_peer_end E st h r))"
  using quiet_trans [OF on_peer_died_quiet quiet_fields(3)] by (simp add: manage_peer_end_def split_beta)

lemma dead_to_queued_quiet: "quiet st (snd (dead_to_queued st a))"
proof -
  let ?f = "\<lambda>p ps. if p_state p = Dead then (case set_state p Queued ps of (_, p, ps) \<Rightarrow> (Inr (), p, ps))
         else (Inl (Bail ''peer is in unexpected state. Expected dead''), p, ps)"
  have f: "f p ps = (r, p', ps') \<Longrightarrow> f = ?f \<Longrightarrow> (p' = p \<and> ps' = ps) \<or> (\<exists>q. set_state p Queued ps = (q, p', ps'))" for f p ps r p' ps'
    by (auto split: if_splits prod.splits)
  have "request_closure ?f V" for V
    by unfold_locales (drule f, rule refl, auto dest: set_state_sel)+
  from request_closure.with_peer_mut_step [OF this]
  have q: "quiet st (set_peers st (snd (with_peer_mut (lv_peers st) a ?f)))" by (rule quiet_set_peers)
  then show ?thesis
    using quiet_trans [OF q quiet_fields(2)]
    by (auto simp: dead_to_queued_def Let_def split: prod.split option.split sum.split)
qed

text \<open>A connection from an unknown address: one live peer more, seen or not.\<close>

lemma kcounter_seen [simp]: "kcounter k (s\<lparr>n_seen := n\<rparr>) = kcounter k s"
  by (cases k) simp_all

lemma new_incoming_step:
  assumes "map_of (states ps) a = None"
    and "new_live_for_incoming_connection b a pid tx (ps\<lparr>ps_stats := (ps_stats ps)\<lparr>n_seen := n\<rparr>\<rparr>) = (p, ps')"
  shows "peers_step V ps (ps'\<lparr>states := AList.update a p (states ps')\<rparr>)"
proof -
  let ?n = "ps'\<lparr>states := AList.update a p (states ps')\<rparr>"
  have eq: "p_state p = Live (live_peer_new pid tx True)"
    "ps' = both_stats (stats_inc (Live (live_peer_new pid tx True))) (ps\<lparr>ps_stats := (ps_stats ps)\<lparr>n_seen := n\<rparr>\<rparr>)"
    using assms(2) by (auto simp: new_live_for_incoming_connection_def Let_def)
  have st: "states ps' = states ps" by (simp add: eq)
  have c: "kcounter k (ps_stats ps') = kcounter k (ps_stats ps) + (if k = KLive then 1 else 0)"
    "kcounter k (session_peers ps') = kcounter k (session_peers ps) + (if k = KLive then 1 else 0)" for k
    using eq by (cases k; simp add: stats_inc_def)+
  note p = eq(1)
  have n: "peers_of k ?n = peers_of k ps + (if k = KLive then 1 else 0)" for k
    unfolding peers_of_def using kcount_update_new [OF assms(1), of "\<lambda>p. kind_of (p_state p) = k" p] by (auto simp: st p)
  have "keeps ps ?n" using n by (auto simp: keeps_def peers_inv_def others_def c st)
  moreover have "requests_ok V ?n" if "requests_ok V ps"
    by (rule requests_ok_update [OF that, of p _ a]) (auto simp: st get_live_def p live_peer_new_def)
  ultimately show ?thesis by (simp add: peers_step_def)
qed

lemma add_incoming_peer_quiet: "quiet st (snd (add_incoming_peer E st a pid tx))"
proof -
  have started: "quiet st (bump ((set_peers st ps)\<lparr>lv_permits := m\<rparr>) a f)"
    if "peers_step (valid_chunk (lv_lengths st)) (lv_peers st) ps" for ps m f
    by (rule quiet_trans [OF quiet_trans [OF quiet_set_peers [OF that] quiet_fields(3)] bump_quiet])
  show ?thesis
  proof (cases "map_of (states (lv_peers st)) a")
    case None
    then show ?thesis
      using started [OF new_incoming_step [OF None]]
      by (auto simp: add_incoming_peer_def Let_def bump_quiet split: prod.split)
  next
    case (Some p)
    have "peers_step (valid_chunk (lv_lengths st)) (lv_peers st) (snd (with_peer_mut (lv_peers st) a (incoming_connection pid tx)))"
      by (rule incoming_connection.with_peer_mut_step)
    from this quiet_set_peers [OF this] started [OF this] show ?thesis using Some
      by (auto simp: add_incoming_peer_def Let_def bump_quiet split: prod.split option.split sum.split)
  qed
qed

lemma adder_decide_quiet: "quiet st (snd (adder_decide b st a))"
  by (simp add: adder_decide_def quiet_set_peers mark_peer_not_needed_step split: sum.split bool.split)

lemma manage_outgoing_start_quiet: "quiet st (snd (manage_outgoing_start st a tx))"
proof -
  let ?ps = "snd (mark_peer_connecting tx (lv_peers st) a)"
  have s: "quiet st' (set_peers st' ?ps)" if "lv_peers st' = lv_peers st" for st' :: "('a, 'b) live_state"
    using quiet_set_peers [OF mark_peer_connecting_step, of st' tx a] that by simp
  have p: "quiet st (set_peers (st\<lparr>lv_permits := n\<rparr>) ?ps)" for n
    by (rule quiet_trans [OF quiet_fields(3)]) (rule s, simp)
  show ?thesis
    using s [of st] quiet_trans [OF p bump_quiet, of _ a] quiet_trans [OF p quiet_fields(3)]
    by (auto simp: manage_outgoing_start_def Let_def split: prod.split sum.split option.split)
qed

subsection \<open>Choosing and requesting\<close>

lemma first_available_Some:
  "first_available bf ns = Inr (Some n) \<Longrightarrow> Inr n \<in> set ns \<and> bf_get bf n = Some True"
  by (induction bf ns rule: first_available.induct) (auto split: if_splits)

lemma in_set_map_filter: "y \<in> set (List.map_filter f xs) \<longleftrightarrow> (\<exists>x \<in> set xs. f x = Some y)"
  by (induction xs) (auto simp: List.map_filter_simps split: option.split)

lemma collect_queues_valid:
  assumes "wf_lengths l" "collect_queues l sts = Inr qs" "q \<in> set qs" "p \<in> set q"
  shows "p < total_pieces l"
  using assms(2-)
proof (induction sts arbitrary: qs)
  case (Cons e sts)
  then show ?case
    by (cases e) (auto simp: res_simps ss_queue_def Let_def in_set_map_filter validate_piece_index_Some [OF assms(1)])
qed simp

lemma iter_next_pieces_valid:
  assumes "wf_lengths l" "iter_next_pieces sh ts l = Inr ps" "p \<in> set ps" "\<forall>qs. mset (sh qs) = mset qs"
  shows "p < total_pieces l"
proof -
  obtain all where all: "collect_queues l (streams ts) = Inr all" "ps = interleave (sh all)"
    using assms(2) by (auto simp: iter_next_pieces_def res_simps)
  have "set (sh all) = set all" using assms(4) mset_eq_setD by metis
  then show ?thesis using all assms(3) collect_queues_valid [OF assms(1) all(1)] by auto
qed

lemma priority_streamed_pieces_in:
  assumes "Inr p \<in> set (priority_streamed_pieces E st ct)"
  shows "\<exists>ps. iter_next_pieces (e_shuffle E) (lv_streams st) (lv_lengths st) = Inr ps \<and> p \<in> set ps \<and>
    p < length (ct_have ct) \<and> \<not> ct_have ct ! p \<and> map_of (inflight_pieces (lv_locked st)) p = None"
  using assms
  by (auto simp: priority_streamed_pieces_def in_set_map_filter is_piece_have_def bf_index_def split: sum.splits if_splits)

lemma iter_queued_pieces_in:
  assumes "Inr p \<in> set (iter_queued_pieces ct ids fis)"
  shows "p < length (queue_pieces ct) \<and> queue_pieces ct ! p \<and> validate_piece_index (ct_lengths ct) p = Some p"
  using assms
proof (induction ct ids fis rule: iter_queued_pieces.induct)
  case (2 ct i js fis)
  show ?case
  proof (cases "Inr p \<in> set (iter_queued_pieces ct js fis)")
    case True
    then show ?thesis using 2 by (cases "queued_file_pieces ct fis i") auto
  next
    case False
    then show ?thesis using 2(2)
      by (auto simp: in_set_map_filter bf_index_def try_u32_def validate_piece_index_def bind_eq_Some_conv
          split: sum.splits if_splits)
  qed
qed simp

text \<open>The random order of the streams is a permutation of them.\<close>

definition env_ok :: "('b, 's) env \<Rightarrow> bool" where
  "env_ok E \<longleftrightarrow> (\<forall>qs. mset (e_shuffle E qs) = mset qs) \<and> (\<forall>S. finite S \<longrightarrow> set (e_set_order E S) = S \<and> distinct (e_set_order E S))"

lemma candidate_valid:
  assumes inv: "live_inv st" and E: "env_ok E" and ct: "chunks (lv_locked st) = Some ct"
    and p: "Inr p \<in> set (priority_streamed_pieces E st ct @ iter_queued_pieces ct (file_priorities (lv_locked st)) (lv_fis st))"
  shows "p < total_pieces (lv_lengths st)"
proof -
  note wf = live_invD(1) [OF inv] and t = live_inv_tracker [OF inv ct]
  from p consider "Inr p \<in> set (priority_streamed_pieces E st ct)"
    | "Inr p \<in> set (iter_queued_pieces ct (file_priorities (lv_locked st)) (lv_fis st))" by auto
  then show ?thesis
  proof cases
    case 1
    then show ?thesis using priority_streamed_pieces_in [OF 1] iter_next_pieces_valid [OF wf] E by (auto simp: env_ok_def)
  next
    case 2
    then show ?thesis using iter_queued_pieces_in [OF 2] t validate_piece_index_Some [OF wf] by simp
  qed
qed

text \<open>A piece taken in flight.\<close>

lemma inflight_quiet:
  assumes "live_inv st \<Longrightarrow> n < total_pieces (lv_lengths st)"
  shows "quiet st (st\<lparr>lv_locked := (lv_locked st)\<lparr>inflight_pieces := AList.update n r (inflight_pieces (lv_locked st))\<rparr>\<rparr>)"
proof (cases "live_inv st")
  case True
  then show ?thesis using assms by (intro quiet_locked) (auto simp: locked_ok_def dom_update)
qed (simp add: quiet_def evolves_def)

lemma reserve_cases:
  obtains (none) r where "reserve_next_needed_piece E now st h = (r, st)" "r = Inr None \<or> (\<exists>e. r = Inl e)"
  | (some) bf ct n st1 where "with_live (lv_peers st) (ph_addr h) lp_bitfield = Some bf" "\<not> i_am_choked h"
      "chunks (lv_locked st) = Some ct"
      "first_available bf (priority_streamed_pieces E st ct @
         iter_queued_pieces ct (file_priorities (lv_locked st)) (lv_fis st)) = Inr (Some n)"
      "st1 = st\<lparr>lv_locked := (lv_locked st)\<lparr>inflight_pieces :=
         AList.update n \<lparr>if_peer = ph_addr h, if_started = now\<rparr> (inflight_pieces (lv_locked st))\<rparr>\<rparr>"
      "reserve_next_needed_piece E now st h =
         abind (with_chunks_mut st1 (\<lambda>ct. rbind (reserve_needed_piece ct n) (\<lambda>ct. Inr ((), ct)))) (\<lambda>_ st. (Inr (Some n), st))"
proof (cases "with_live (lv_peers st) (ph_addr h) lp_bitfield")
  case (Some bf)
  show ?thesis
  proof (cases "i_am_choked h")
    case False
    show ?thesis
    proof (cases "rbind (get_chunks (lv_locked st)) (\<lambda>ct. first_available bf (priority_streamed_pieces E st ct @
         iter_queued_pieces ct (file_priorities (lv_locked st)) (lv_fis st)))")
      case (Inr r)
      then obtain ct where ct: "chunks (lv_locked st) = Some ct" by (auto simp: get_chunks_def res_simps)
      show ?thesis
      proof (cases r)
        case (Some n)
        then show ?thesis using \<open>with_live _ _ _ = Some bf\<close> False Inr ct
          by (intro some [of bf ct n]) (auto simp: reserve_next_needed_piece_def Let_def get_chunks_def)
      qed (use Some False Inr in \<open>intro none [of "Inr None"], auto simp: reserve_next_needed_piece_def\<close>)
    next
      case (Inl e)
      then show ?thesis using Some False by (intro none [of "Inl e"]) (auto simp: reserve_next_needed_piece_def)
    qed
  qed (use Some in \<open>intro none [of "Inr None"], auto simp: reserve_next_needed_piece_def\<close>)
qed (intro none [of "Inr None"], auto simp: reserve_next_needed_piece_def)

lemma reserve_needed_quiet:
  assumes "live_inv st \<Longrightarrow> n < total_pieces (lv_lengths st)"
  shows "quiet st (snd (with_chunks_mut st (\<lambda>ct. rbind (reserve_needed_piece ct n) (\<lambda>ct. Inr ((), ct)))))"
proof (rule with_chunks_mut_quiet)
  fix ct a ct'
  assume *: "live_inv st" "chunks (lv_locked st) = Some ct" "rbind (reserve_needed_piece ct n) (\<lambda>ct. Inr ((), ct)) = Inr (a, ct')"
  note t = live_inv_tracker [OF *(1,2)]
  show "tracker_ok (lv_lengths st) (lv_fis st) ct'" "ct_have ct' = ct_have ct"
    using reserve_needed_piece_ok [OF t(1)] assms [OF *(1)] t *(3) by (auto simp: tracker_ok_def)
qed

lemma reserve_next_needed_piece_quiet:
  assumes E: "env_ok E"
  shows "quiet st (snd (reserve_next_needed_piece E now st h))"
proof (rule quietI, cases rule: reserve_cases [of E now st h])
  assume inv: "live_inv st"
  case (some bf ct n st1)
  have n: "n < total_pieces (lv_lengths st)"
    using candidate_valid [OF inv E some(3)] first_available_Some [OF some(4)] by blast
  have "quiet st st1" unfolding some(5) by (rule inflight_quiet) (rule n)
  also have "quiet st1 (snd (reserve_next_needed_piece E now st h))" unfolding some(6)
    by (rule quiet_abind, rule reserve_needed_quiet) (simp_all add: some(5) n)
  finally show ?thesis .
qed simp

lemma max_by_key_in: "max_by_key f xs = Some x \<Longrightarrow> x \<in> set xs"
  by (induction xs arbitrary: x) (auto split: option.splits if_splits)

lemma steal_cases:
  obtains (none) r where "try_steal_old_slow_piece now k st h = (r, st)" "r = Inr None \<or> r = Inl Panic"
  | (some) avg idx r st1 where
      "Option.bind (with_peer (lv_peers st) (ph_addr h) p_counters) average_piece_download_time = Some avg"
      "max_by_key (\<lambda>e. now - if_started (snd e)) (filter (\<lambda>e. if_peer (snd e) \<noteq> ph_addr h) (inflight_pieces (lv_locked st)))
         = Some (idx, r)"
      "avg * k < now - if_started r" "idx < total_pieces (lv_lengths st)" "idx \<notin> set (lv_writing st)"
      "st1 = st\<lparr>lv_locked := (lv_locked st)\<lparr>inflight_pieces :=
         AList.update idx \<lparr>if_peer = ph_addr h, if_started = now\<rparr> (inflight_pieces (lv_locked st))\<rparr>\<rparr>"
      "try_steal_old_slow_piece now k st h = (Inr (Some idx),
         (set_peers st1 (fst (on_steal (lv_peers st) (if_peer r) (ph_addr h) idx)))
           \<lparr>lv_out := lv_out st @ snd (on_steal (lv_peers st) (if_peer r) (ph_addr h) idx)\<rparr>)"
proof (cases "Option.bind (with_peer (lv_peers st) (ph_addr h) p_counters) average_piece_download_time")
  case None
  then show ?thesis by (intro none [of "Inr None"]) (simp_all add: try_steal_old_slow_piece_def)
next
  case (Some avg)
  note avg = this
  show ?thesis
  proof (cases "max_by_key (\<lambda>e. now - if_started (snd e))
      (filter (\<lambda>e. if_peer (snd e) \<noteq> ph_addr h) (inflight_pieces (lv_locked st)))")
    case None
    then show ?thesis using avg by (intro none [of "Inr None"]) (simp_all add: try_steal_old_slow_piece_def Let_def)
  next
    case (Some e)
    obtain idx r where e: "e = (idx, r)" by (cases e)
    consider "\<not> avg * k < now - if_started r" | "idx \<ge> total_pieces (lv_lengths st)" | "idx \<in> set (lv_writing st)"
      | "avg * k < now - if_started r" "idx < total_pieces (lv_lengths st)" "idx \<notin> set (lv_writing st)" by linarith
    then show ?thesis
    proof cases
      case 4
      then show ?thesis using avg Some e
        by (intro some [of avg idx r]) (simp_all add: try_steal_old_slow_piece_def Let_def split_beta)
    qed (rule none [of "fst (try_steal_old_slow_piece now k st h)"];
      use avg Some e in \<open>simp add: try_steal_old_slow_piece_def Let_def\<close>)+
  qed
qed

lemma try_steal_quiet: "quiet st (snd (try_steal_old_slow_piece now k st h))"
proof (cases rule: steal_cases [of now k st h])
  case (some avg idx r st1)
  have "quiet st st1" unfolding some(6) by (rule inflight_quiet) (rule some(4))
  also have "quiet st1 (set_peers st1 (fst (on_steal (lv_peers st) (if_peer r) (ph_addr h) idx)))"
    by (rule quiet_set_peers) (simp add: some(6) on_steal_step)
  also have "quiet \<dots> (snd (try_steal_old_slow_piece now k st h))" unfolding some(7) by (simp add: quiet_fields)
  finally show ?thesis .
qed simp

lemma choose_next_piece_quiet: "env_ok E \<Longrightarrow> quiet st (snd (choose_next_piece E now st h))"
  unfolding choose_next_piece_def
  by (auto intro!: quiet_abind try_steal_quiet reserve_next_needed_piece_quiet split: option.split)

text \<open>Recording a request for a chunk of the torrent.\<close>

lemma add_chunk_request_quiet:
  assumes "live_inv st \<Longrightarrow> valid_chunk (lv_lengths st) c"
  shows "quiet st (snd (add_chunk_request st h c))"
proof (rule quietI)
  assume "live_inv st"
  then have "peers_step (valid_chunk (lv_lengths st)) (lv_peers st) (snd (with_live_mut (lv_peers st) (ph_addr h) (\<lambda>live.
         (c \<notin> set (inflight_requests live), live\<lparr>inflight_requests := List.insert c (inflight_requests live)\<rparr>))))"
    using assms by (intro with_live_mut_step) auto
  then show "quiet st (snd (add_chunk_request st h c))"
    by (simp add: add_chunk_request_def split_beta quiet_set_peers)
qed

lemma request_chunks_quiet:
  assumes "live_inv st \<Longrightarrow> \<forall>c \<in> set cs. valid_chunk (lv_lengths st) c"
  shows "quiet st (fst (snd (request_chunks cs st h)))"
  using assms
proof (induction cs arbitrary: st h)
  case (Cons c cs)
  show ?case
  proof (rule quietI)
    assume inv: "live_inv st"
    obtain r st1 where r: "add_chunk_request st h c = (r, st1)" by (cases "add_chunk_request st h c")
    have q: "quiet st st1" using add_chunk_request_quiet [of st c h] Cons.prems r by auto
    define h1 where "h1 = h\<lparr>requests_sem := requests_sem h - Suc 0\<rparr>"
    define m where "m = WMessage (MRequest \<lparr>rq_index = ci_piece_index c, rq_begin = ci_offset c, rq_length = ci_size c\<rparr>)"
    obtain r' st2 where s: "send st1 h1 m = (r', st2)" by (cases "send st1 h1 m")
    have q2: "quiet st st2" using quiet_trans [OF q send_quiet [of st1 h1 m]] s by simp
    have more: "quiet st (fst (snd (request_chunks cs s' h')))" if "quiet st s'" for s' h'
      using that Cons.IH [of s' h'] Cons.prems [OF inv] inv by (auto simp: quiet_def evolves_def)
    show "quiet st (fst (snd (request_chunks (c # cs) st h)))"
      using q q2 more [OF q] more [OF q2] r s
      by (auto simp: h1_def [symmetric] m_def [symmetric] Let_def split: option.split bool.split sum.split)
  qed
qed simp

lemma update_interest_quiet: "quiet st (fst (snd (update_interest st h b)))"
  using send_quiet [of st h] by (auto simp: update_interest_def split: prod.split sum.split) (metis snd_conv)+

end
