(* ===== verification/Live_Steps.thy ===== *)
theory Live_Steps
  imports Live_Inv
begin

text \<open>
  The way of a received block, the remaining messages, and the running torrent as a state machine:
  \<open>lstep\<close> has one rule per handler, in any order and for any connection. By rule induction every reachable
  state satisfies \<open>live_inv\<close>, and a step sets the bit of a piece only when the stored piece has passed the
  check.

  A step is one handler from beginning to end. The code releases its locks inside \<open>write_to_disk\<close>; what can go
  wrong there when another connection runs in between is shown at the end.
\<close>

subsection \<open>A received block\<close>

definition verified :: "('b, 's) env \<Rightarrow> ('b, 's) live_state \<Rightarrow> valid_piece_index \<Rightarrow> bool" where
  "verified E st p \<longleftrightarrow> check_piece (e_pread E) (e_sha1 E) (tm_info (lv_metadata st)) (lv_fis st) (lv_lengths st)
     (lv_files st) p = Inr True"

lemma chunk_piece_index: "wf_lengths l \<Longrightarrow> p < total_pieces l \<Longrightarrow> c \<in> set (iter_chunk_infos l p) \<Longrightarrow> ci_piece_index c = p"
  by (auto simp: iter_chunk_infos_eq nth_chunk_def)

lemma valid_chunkI: "wf_lengths l \<Longrightarrow> p < total_pieces l \<Longrightarrow> c \<in> set (iter_chunk_infos l p) \<Longrightarrow> valid_chunk l c"
  by (simp add: valid_chunk_def chunk_piece_index)

lemma check_steal_quiet: "quiet st (snd (check_steal st a ci))"
  by (auto simp: check_steal_def quiet_fields split: option.split)

lemma release_quiet: "quiet st (release_piece_lock st ci)"
  by (simp add: release_piece_lock_def quiet_fields)

lemma write_block_evolves:
  "evolves st (snd (write_block E st m ci))" "lv_have (snd (write_block E st m ci)) = lv_have st"
proof -
  have "evolves st (st\<lparr>lv_files := f\<rparr>)" for f by (simp add: evolves_def live_inv_def)
  then show "evolves st (snd (write_block E st m ci))"
    by (simp add: write_block_def split_beta quietD(1) [OF quiet_trans [OF on_fatal_error_quiet release_quiet]] split: sum.split)
  show "lv_have (snd (write_block E st m ci)) = lv_have st"
    by (simp add: write_block_def on_fatal_error_def release_piece_lock_def lv_have_def split: sum.split)
qed

lemma delete_keys_subset: "fst ` set (AList.delete k al) \<subseteq> fst ` set al"
  by (induction al) auto

text \<open>The tracker after the block was marked, and what completion means.\<close>

lemma mark_block_cases:
  assumes inv: "live_inv st" and blk: "length (pm_block m) < 2 ^ 32"
  shows "quiet st (snd (mark_block now st m ci))"
    and "fst (mark_block now st m ci) = Inr (Some ms) \<Longrightarrow>
      \<exists>ct. chunks (lv_locked (snd (mark_block now st m ci))) = Some ct \<and> pm_index m < total_pieces (lv_lengths st) \<and>
        chunks_marked (lv_lengths st) (chunk_status ct) (pm_index m)"
proof -
  let ?f = "\<lambda>ct. rbind (mark_chunk_downloaded ct m) (\<lambda>(ct, r). Inr (r, ct))"
  obtain r st1 where w: "with_chunks_mut st ?f = (r, st1)" by (cases "with_chunks_mut st ?f")
  have t: "tracker_ok (lv_lengths st) (lv_fis st) ct' \<and> ct_have ct' = ct_have ct \<and>
      (a = Some Completed \<longrightarrow> pm_index m < total_pieces (lv_lengths st) \<and>
         chunks_marked (lv_lengths st) (chunk_status ct') (pm_index m))"
    if "chunks (lv_locked st) = Some ct" "?f ct = Inr (a, ct')" for ct a ct'
    using mark_chunk_downloaded_inv [OF live_inv_tracker(1) [OF inv that(1)] blk, of ct' a] that(2)
      live_inv_tracker [OF inv that(1)] by (auto simp: tracker_ok_def res_simps)
  have "quiet st (snd (with_chunks_mut st ?f))" by (rule with_chunks_mut_quiet) (use t in blast)+
  then have q: "quiet st (release_piece_lock st1 ci)" using quiet_trans [OF _ release_quiet] w by simp
  let ?st2 = "release_piece_lock st1 ci"
  have d: "quiet ?st2 (?st2\<lparr>lv_locked := (lv_locked ?st2)\<lparr>inflight_pieces := AList.delete p (inflight_pieces (lv_locked ?st2))\<rparr>\<rparr>)" for p
    by (rule quiet_locked) (use delete_keys_subset in \<open>fastforce simp: locked_ok_def\<close>)+
  show "quiet st (snd (mark_block now st m ci))"
    using q quiet_trans [OF q d] w
    by (auto simp: mark_block_def Let_def split: sum.split option.split chunk_marking_result.split)
  show "\<exists>ct. chunks (lv_locked (snd (mark_block now st m ci))) = Some ct \<and> pm_index m < total_pieces (lv_lengths st) \<and>
        chunks_marked (lv_lengths st) (chunk_status ct) (pm_index m)"
    if "fst (mark_block now st m ci) = Inr (Some ms)"
  proof -
    have r: "r = Inr (Some Completed)"
    proof (cases r)
      case (Inr x)
      then show ?thesis using that w by (cases x; cases "the x") (simp_all add: mark_block_def Let_def)
    qed (use that w in \<open>simp add: mark_block_def Let_def\<close>)
    show ?thesis
    proof (cases rule: with_chunks_mut_cases [of st ?f])
      case (ok ct u ct')
      then have "u = Some Completed" "st1 = st\<lparr>lv_locked := (lv_locked st)\<lparr>chunks := Some ct'\<rparr>\<rparr>" using w r by auto
      then show ?thesis using w r t [OF ok(1,2)] by (simp add: mark_block_def release_piece_lock_def Let_def)
    qed (use w r in simp)
  qed
qed

lemma count_verified_piece_quiet: "quiet s (snd (count_verified_piece E s a idx ms))"
proof -
  define s1 where "s1 = bump (count_piece s (piece_length (lv_lengths s) idx) ms) a
    (counters_on_piece_completed (piece_length (lv_lengths s) idx) ms)"
  have "quiet s (count_piece s (piece_length (lv_lengths s) idx) ms)" by (simp add: count_piece_def Let_def quiet_fields)
  also have "quiet \<dots> s1" unfolding s1_def by (rule bump_quiet)
  also have "quiet s1 (set_peers s1 (reset_peer_backoff (e_backoff_reset E) (lv_peers s1) a))"
    by (rule quiet_set_peers) (rule reset_peer_backoff_step)
  also have "quiet \<dots> (snd (count_verified_piece E s a idx ms))" unfolding count_verified_piece_def Let_def s1_def [symmetric]
    by (intro quiet_abind on_piece_completed_quiet) (simp add: transmit_haves_def quiet_fields)
  finally show ?thesis .
qed

lemma finish_piece_cases:
  obtains (failed) e where "finish_piece E st a idx ms = (Inl e, st)"
  | (good) "verified E st idx" "finish_piece E st a idx ms =
      abind (with_chunks_mut st (\<lambda>ct. rbind (mark_piece_downloaded ct idx) (\<lambda>ct. Inr ((), ct))))
        (\<lambda>_ st. count_verified_piece E st a idx ms)"
  | (bad) "check_piece (e_pread E) (e_sha1 E) (tm_info (lv_metadata st)) (lv_fis st) (lv_lengths st) (lv_files st) idx = Inr False"
      "finish_piece E st a idx ms =
      abind (mark_broken st idx) (\<lambda>_ st. (Inl (Bail ''i am probably a bogus peer. dying.''), st))"
proof (cases "check_piece (e_pread E) (e_sha1 E) (tm_info (lv_metadata st)) (lv_fis st) (lv_lengths st) (lv_files st) idx")
  case (Inl e)
  then show ?thesis by (intro failed [of e]) (simp add: finish_piece_def)
next
  case (Inr b)
  then show ?thesis by (cases b) (auto intro: good bad simp: finish_piece_def verified_def)
qed

text \<open>Nothing is verified that was not, except possibly the piece itself, and that only after a successful check.\<close>

lemma finish_piece_evolves:
  assumes "live_inv st \<Longrightarrow> idx < total_pieces (lv_lengths st) \<and>
      (\<forall>ct. chunks (lv_locked st) = Some ct \<longrightarrow> chunks_marked (lv_lengths st) (chunk_status ct) idx)"
  shows "evolves st (snd (finish_piece E st a idx ms))"
    and "live_inv st \<Longrightarrow> lv_files (snd (finish_piece E st a idx ms)) = lv_files st \<and>
      (lv_have (snd (finish_piece E st a idx ms)) = lv_have st \<or>
       verified E st idx \<and> lv_have (snd (finish_piece E st a idx ms)) = map_option (\<lambda>hv. hv[idx := True]) (lv_have st))"
proof -
  define f where "f = (\<lambda>ct. rbind (mark_piece_downloaded ct idx) (\<lambda>ct. Inr ((), ct)))"
  have t: "tracker_ok (lv_lengths st) (lv_fis st) ct' \<and> ct_have ct' = (ct_have ct)[idx := True]"
    if inv: "live_inv st" and ct: "chunks (lv_locked st) = Some ct" "f ct = Inr (a, ct')" for ct a ct'
  proof -
    note i = live_inv_tracker [OF inv ct(1)]
    from assms [OF inv] ct(1) i have "idx < total_pieces (ct_lengths ct)"
      "chunks_marked (ct_lengths ct) (chunk_status ct) idx" by auto
    from mark_piece_downloaded_eq [OF i(1) this] ct(2) i show ?thesis by (auto simp: tracker_ok_def f_def)
  qed
  let ?w = "snd (with_chunks_mut st f)"
  have e: "evolves st ?w" by (rule with_chunks_mut_evolves) (use t in blast)
  have h: "lv_have ?w = (if is_ok (fst (with_chunks_mut st f)) then map_option (\<lambda>hv. hv[idx := True]) (lv_have st) else lv_have st)"
    "lv_files ?w = lv_files st" if "live_inv st"
  proof -
    have "lv_have ?w = (if is_ok (fst (with_chunks_mut st f)) then map_option (\<lambda>hv. hv[idx := True]) (lv_have st) else lv_have st) \<and>
      lv_files ?w = lv_files st"
    proof (cases rule: with_chunks_mut_cases [of st f])
      case (ok ct u ct')
      then show ?thesis using t [OF that ok(1,2)] by (simp add: lv_have_def)
    qed simp
    then show "lv_have ?w = (if is_ok (fst (with_chunks_mut st f)) then map_option (\<lambda>hv. hv[idx := True]) (lv_have st) else lv_have st)"
      "lv_files ?w = lv_files st" by simp_all
  qed
  let ?b = "abind (mark_broken st idx) (\<lambda>_ st. (Inl (Bail ''i am probably a bogus peer. dying.'') :: unit res, st))"
  have b: "quiet st (snd ?b)" using assms by (intro quiet_abind mark_broken_quiet) auto
  define rest where "rest = (\<lambda>st. count_verified_piece E st a idx ms)"
  have rest: "quiet s (snd (rest s))" for s unfolding rest_def by (rule count_verified_piece_quiet)
  show "evolves st (snd (finish_piece E st a idx ms))"
    by (cases rule: finish_piece_cases [of E st a idx ms])
      (use evolves_abind [OF e, of "\<lambda>_. rest"] quietD(1) [OF rest] quietD(1) [OF b] in \<open>simp_all add: rest_def f_def\<close>)
  assume inv: "live_inv st"
  have q: "lv_files (snd (rest ?w)) = lv_files ?w \<and> lv_have (snd (rest ?w)) = lv_have ?w"
    using rest [of ?w] evolvesD(1) [OF e inv] by (simp add: quiet_def)
  show "lv_files (snd (finish_piece E st a idx ms)) = lv_files st \<and>
      (lv_have (snd (finish_piece E st a idx ms)) = lv_have st \<or>
       verified E st idx \<and> lv_have (snd (finish_piece E st a idx ms)) = map_option (\<lambda>hv. hv[idx := True]) (lv_have st))"
  proof (cases rule: finish_piece_cases [of E st a idx ms])
    case good
    then show ?thesis using h [OF inv] q by (cases "fst (with_chunks_mut st f)") (simp_all add: abind_def f_def rest_def)
  qed (use b inv in \<open>simp_all add: quiet_def\<close>)
qed

text \<open>What a step may do to the verified pieces: none is lost, and a new one is stored correctly.\<close>

definition grows :: "('b, 's) env \<Rightarrow> ('b, 's) live_state \<Rightarrow> ('b, 's) live_state \<Rightarrow> bool" where
  "grows E st st' \<longleftrightarrow> evolves st st' \<and> (live_inv st \<longrightarrow>
     (\<forall>hv'. lv_have st' = Some hv' \<longrightarrow> (\<exists>hv. lv_have st = Some hv \<and> length hv' = length hv \<and>
        (\<forall>p < length hv. (hv ! p \<longrightarrow> hv' ! p) \<and> (hv' ! p \<longrightarrow> hv ! p \<or> verified E st' p)))))"

lemma quiet_grows: "quiet st st' \<Longrightarrow> grows E st st'"
  by (auto simp: grows_def quiet_def)

lemma nth_update_True: "p < length z \<Longrightarrow> z[i := True] ! p \<longleftrightarrow> z ! p \<or> i = p"
  by (cases "i = p") auto

lemma write_to_disk_grows:
  assumes ci: "ci_piece_index ci = pm_index m" and blk: "length (pm_block m) < 2 ^ 32"
  shows "grows E st (snd (write_to_disk E now st a m ci))"
proof (cases "live_inv st")
  case inv: True
  define st1 where "st1 = snd (check_steal st a ci)"
  define st2 where "st2 = snd (write_block E st1 m ci)"
  define st3 where "st3 = snd (mark_block now st2 m ci)"
  have 1: "quiet st st1" unfolding st1_def by (rule check_steal_quiet)
  have 2: "evolves st1 st2" "lv_have st2 = lv_have st1" unfolding st2_def by (rule write_block_evolves)+
  have i2: "live_inv st2" using 1 2 inv by (simp add: quiet_def evolves_def)
  have 3: "quiet st2 st3" unfolding st3_def by (rule mark_block_cases(1) [OF i2 blk])
  have i3: "live_inv st3" and h3: "lv_have st3 = lv_have st" and l3: "lv_lengths st3 = lv_lengths st2"
    and e3: "evolves st st3"
    using 1 2 3 inv i2 evolves_trans by (auto simp: quiet_def evolves_def)
  have h2: "lv_have st2 = lv_have st" "evolves st st2" using 1 2 inv by (auto simp: quiet_def evolves_def)
  consider "snd (write_to_disk E now st a m ci) \<in> {st1, st2, st3}"
    | ms where "fst (mark_block now st2 m ci) = Inr (Some ms)"
        "write_to_disk E now st a m ci = finish_piece E st3 a (ci_piece_index ci) ms"
  proof (cases "fst (check_steal st a ci)")
    case False
    then show ?thesis using that(1) by (simp add: write_to_disk_def st1_def split_beta)
  next
    case True
    then have w: "write_to_disk E now st a m ci = abind (write_block E st1 m ci) (\<lambda>_ st.
          abind (mark_block now st m ci) (\<lambda>r st. case r of None \<Rightarrow> (Inr (), st)
            | Some ms \<Rightarrow> finish_piece E st a (ci_piece_index ci) ms))"
      by (simp add: write_to_disk_def st1_def split_beta)
    show ?thesis
      by (cases "fst (write_block E st1 m ci)"; cases "fst (mark_block now st2 m ci)"; cases "projr (fst (mark_block now st2 m ci))")
        (use that w in \<open>auto simp: abind_def st2_def st3_def\<close>)
  qed
  then show ?thesis
  proof cases
    case 1
    then have "evolves st (snd (write_to_disk E now st a m ci))" "lv_have (snd (write_to_disk E now st a m ci)) = lv_have st"
      using \<open>quiet st st1\<close> h2 h3 e3 inv by (auto simp: quiet_def)
    then show ?thesis by (simp add: grows_def)
  next
    case (2 ms)
    let ?p = "ci_piece_index ci" and ?st = "snd (finish_piece E st3 a (ci_piece_index ci) ms)"
    obtain ct where ct: "chunks (lv_locked st3) = Some ct" "?p < total_pieces (lv_lengths st2)"
        "chunks_marked (lv_lengths st2) (chunk_status ct) ?p"
      using mark_block_cases(2) [OF i2 blk 2(1)] by (auto simp: st3_def ci)
    note f = finish_piece_evolves [of st3 ?p E a ms]
    have e: "evolves st3 ?st" and v: "lv_files ?st = lv_files st3" "lv_have ?st = lv_have st3 \<or>
        verified E st3 ?p \<and> lv_have ?st = map_option (\<lambda>hv. hv[?p := True]) (lv_have st3)"
      using f ct l3 i3 by simp_all
    have ver: "verified E ?st q = verified E st3 q" for q
      using evolvesD(2,3) [OF e i3] v(1) by (simp add: verified_def)
    show ?thesis unfolding 2(2) grows_def
      using evolves_trans [OF e3 e] v(2) h3 ver by (auto simp: nth_update_True)
  qed
qed (simp add: grows_def evolves_def)

lemma block_chunk_info_ok:
  assumes "wf_lengths l" "block_chunk_info l m = Inr ci"
  shows "length (pm_block m) < 2 ^ 32" "pm_index m < total_pieces l" "ci \<in> set (iter_chunk_infos l (pm_index m))"
    "ci_offset ci = pm_begin m" "ci_size ci = length (pm_block m)" "ci_piece_index ci = pm_index m"
proof -
  from assms(2) obtain idx where v: "validate_piece_index l (pm_index m) = Some idx" and len: "length (pm_block m) < 2 ^ 32"
    and c: "chunk_info_from_received_data l idx (pm_begin m) (length (pm_block m)) = Some ci"
    by (auto simp: block_chunk_info_def res_simps try_u32_def split: if_splits)
  have i: "idx = pm_index m" "pm_index m < total_pieces l" using v validate_piece_index_Some [OF assms(1)] by auto
  then show "length (pm_block m) < 2 ^ 32" "pm_index m < total_pieces l" "ci \<in> set (iter_chunk_infos l (pm_index m))"
    "ci_offset ci = pm_begin m" "ci_size ci = length (pm_block m)"
    using c len chunk_info_from_received_data_iff [OF assms(1) i(2)] by auto
  then show "ci_piece_index ci = pm_index m" using chunk_piece_index [OF assms(1) i(2)] by simp
qed

lemma accept_block_quiet: "quiet st (fst (snd (accept_block st h m)))"
proof (cases "block_chunk_info (lv_lengths st) m")
  case (Inr ci)
  define st1 where "st1 = bump st (ph_addr h) (\<lambda>c. c\<lparr>fetched_bytes := fetched_bytes c + of_nat (length (pm_block m)),
    fetched_chunks := fetched_chunks c + 1\<rparr>)"
  define w where "w = with_live_mut (lv_peers st1) (ph_addr h) (\<lambda>l.
    (ci \<in> set (inflight_requests l), l\<lparr>inflight_requests := filter (\<lambda>c. c \<noteq> ci) (inflight_requests l)\<rparr>))"
  have "quiet st st1" unfolding st1_def by (rule bump_quiet)
  also have "quiet st1 (set_peers st1 (snd w))" unfolding w_def by (rule quiet_set_peers, rule with_live_mut_step) auto
  finally have q: "quiet st (set_peers st1 (snd w))" .
  have "quiet st ((set_peers st1 (snd w))\<lparr>lv_stats := x, lv_session_fetched := y\<rparr>)" for x y
    using quiet_trans [OF quiet_trans [OF q quiet_fields(5)] quiet_fields(8)] .
  then show ?thesis using q Inr
    by (cases w) (auto simp: accept_block_def Let_def st1_def [symmetric] w_def [symmetric] split: option.split bool.split)
qed (simp add: accept_block_def)

lemma accept_block_ok:
  assumes "accept_block st h m = (Inr ci, st', h')"
  shows "block_chunk_info (lv_lengths st) m = Inr ci" "ph_addr h' = ph_addr h"
  using assms by (auto simp: accept_block_def Let_def split: sum.splits prod.splits option.splits bool.splits)

lemma grows_after_quiet: "quiet a b \<Longrightarrow> grows E b c \<Longrightarrow> grows E a c"
  unfolding grows_def quiet_def evolves_def by auto

lemma on_received_piece_grows: "grows E st (fst (snd (on_received_piece E now st h m)))"
proof (cases "live_inv st")
  case True
  obtain r st1 h1 where a: "accept_block st h m = (r, st1, h1)" by (cases "accept_block st h m")
  have q: "quiet st st1" using accept_block_quiet [of st h m] a by simp
  show ?thesis
  proof (cases r)
    case (Inl e)
    then show ?thesis using a quiet_grows [OF q] by (simp add: on_received_piece_def)
  next
    case (Inr ci)
    note b = block_chunk_info_ok [OF live_invD(1) [OF True] accept_block_ok(1) [OF a [unfolded Inr]]]
    have "grows E st1 (snd (write_to_disk E now st1 (ph_addr h1) m ci))" by (rule write_to_disk_grows [OF b(6,1)])
    then show ?thesis using a Inr grows_after_quiet [OF q] by (simp add: on_received_piece_def split_beta)
  qed
qed (simp add: grows_def evolves_def)

subsection \<open>The other messages\<close>

lemma on_download_request_quiet: "quiet st (snd (on_download_request st h r))"
  by (simp add: on_download_request_def quiet_fields split: option.split sum.split)

lemma on_bitfield_quiet: "quiet st (snd (on_bitfield st h b))"
  by (simp add: on_bitfield_def update_bitfield_def) (intro impI quiet_set_peers with_live_mut_step, simp)

lemma on_peer_interested_quiet: "quiet st (on_peer_interested st h)"
  unfolding on_peer_interested_def mark_peer_interested_def by (intro quiet_set_peers with_live_mut_step) simp

lemma on_have_quiet: "quiet st (on_have st h n)"
  unfolding on_have_def by (intro quiet_set_peers with_live_mut_step) (simp add: Let_def)

lemma send_metadata_piece_quiet: "quiet st (snd (send_metadata_piece st h n))"
  by (simp add: send_metadata_piece_def Let_def send_quiet split: option.split)

lemma on_handshake_quiet: "quiet st (on_handshake st h pid)"
  unfolding on_handshake_def by (intro quiet_set_peers connecting_to_live.with_peer_mut_step)

lemma on_extended_handshake_quiet: "quiet st (snd (on_extended_handshake st h hs))"
proof -
  have "quiet st (set_peers st (snd (with_peer_mut (lv_peers st) a (\<lambda>p ps. ((), p\<lparr>outgoing_address := x\<rparr>, ps)))))" for a x
    by (intro quiet_set_peers request_closure.with_peer_mut_step same_state_closure) simp
  then show ?thesis by (simp add: on_extended_handshake_def Let_def split: option.split)
qed

lemma pex_round_quiet: "quiet st (snd (pex_round E st h v))"
  by (simp add: pex_round_def Let_def split_beta send_quiet split: sum.split)

lemma on_received_message_grows: "grows E st (fst (snd (on_received_message E now st h msg)))"
proof (cases msg)
  case (MPiece m)
  then show ?thesis using on_received_piece_grows by (simp add: on_received_message_def Let_def)
next
  case (MExtended x)
  then show ?thesis
    using quiet_grows [OF send_metadata_piece_quiet] quiet_grows [OF add_peers_quiet]
    by (cases x; cases "case x of UtMetadata u \<Rightarrow> u")
      (auto simp: on_received_message_def Let_def split_beta on_pex_message_def quiet_grows split: ut_metadata.split)
qed (simp_all add: on_received_message_def Let_def split_beta quiet_grows on_download_request_quiet on_bitfield_quiet
    on_peer_interested_quiet on_have_quiet)

lemma choose_next_valid:
  assumes inv: "live_inv st" and E: "env_ok E" and r: "choose_next_piece E now st h = (Inr (Some n), st')"
  shows "n < total_pieces (lv_lengths st)"
proof -
  have steal: "n < total_pieces (lv_lengths s)" if "try_steal_old_slow_piece now k s h = (Inr (Some n), s')" for k s s'
    using that by (cases rule: steal_cases [of now k s h]) auto
  have reserve: "n < total_pieces (lv_lengths s)"
    if "live_inv s" "reserve_next_needed_piece E now s h = (Inr (Some n), s')" for s s'
  proof (cases rule: reserve_cases [of E now s h])
    case (none x)
    then show ?thesis using that by auto
  next
    case (some bf ct k st1)
    then have "k = n" using that by (auto simp: abind_def split: sum.splits)
    then show ?thesis using candidate_valid [OF that(1) E some(3)] first_available_Some [OF some(4)] by blast
  qed
  obtain r1 st1 where 1: "try_steal_old_slow_piece now 10 st h = (r1, st1)" by fastforce
  obtain r2 st2 where 2: "reserve_next_needed_piece E now st1 h = (r2, st2)" by fastforce
  have l1: "live_inv st1" "lv_lengths st1 = lv_lengths st"
    using try_steal_quiet [of st now 10 h] 1 inv by (auto simp: quiet_def evolves_def)
  have l2: "lv_lengths st2 = lv_lengths st"
    using reserve_next_needed_piece_quiet [OF E, of st1 now h] 2 l1 by (auto simp: quiet_def evolves_def)
  show ?thesis
    using r 1 2 steal [of 10 st st1] reserve [OF l1(1), of st2] steal [of 3 st2 st'] l1 l2
    by (auto simp: choose_next_piece_def abind_def split: sum.splits option.splits)
qed

lemma requester_round_quiet:
  assumes E: "env_ok E"
  shows "quiet st (fst (snd (requester_round E now st h)))"
proof (rule quietI)
  assume inv: "live_inv st"
  define r where "r = (\<lambda>b. fst (update_interest st h b))"
  define st1 where "st1 = (\<lambda>b. fst (snd (update_interest st h b)))"
  define h1 where "h1 = (\<lambda>b. snd (snd (update_interest st h b)))"
  have u: "update_interest st h b = (r b, st1 b, h1 b)" for b by (simp add: r_def st1_def h1_def)
  have q1: "quiet st (st1 b)" for b using update_interest_quiet [of st h b] u by simp
  have l1: "live_inv (st1 b)" "lv_lengths (st1 b) = lv_lengths st" for b using q1 [of b] inv by (auto simp: quiet_def evolves_def)
  obtain r2 st2 where c: "choose_next_piece E now (st1 True) (h1 True) = (r2, st2)" by fastforce
  have q2: "quiet (st1 True) st2" using choose_next_piece_quiet [OF E, of "st1 True" now "h1 True"] c by simp
  have l2: "lv_lengths st2 = lv_lengths st" using q2 l1 by (simp add: quiet_def evolves_def)
  have q3: "quiet st2 (fst (snd (request_chunks (iter_chunk_infos (lv_lengths st2) n) st2 (h1 True))))" if "r2 = Inr (Some n)" for n
  proof (rule request_chunks_quiet, intro ballI)
    have n: "n < total_pieces (lv_lengths st2)" using choose_next_valid [OF l1(1) E] c that l1 l2 by auto
    fix ch assume ch: "ch \<in> set (iter_chunk_infos (lv_lengths st2) n)"
    then show "valid_chunk (lv_lengths st2) ch"
      using n live_invD(1) [OF inv] l2 by (simp add: valid_chunkI)
  qed
  have qs: "quiet st (snd (send (st1 False) (h1 False) x))" for x by (rule quiet_trans [OF q1 send_quiet])
  have q12: "quiet st st2" by (rule quiet_trans [OF q1 q2])
  show "quiet st (fst (snd (requester_round E now st h)))"
    using q1 q12 quiet_trans [OF q12 q3] qs
    by (auto simp: requester_round_def u c split_beta split: sum.split bool.split option.split request_result.split)
qed

lemma pause_evolves: "evolves st (snd (pause E st))"
  by (auto simp: pause_def Let_def evolves_def live_inv_def locked_ok_def split: option.split sum.split)

lemma pause_have: "lv_have (snd (pause E st)) = None"
  by (auto simp: pause_def Let_def lv_have_def split: option.split sum.split)

subsection \<open>The running torrent as a state machine\<close>

text \<open>One rule per handler. Connections, their messages, the clock and the order of all of it are arbitrary.\<close>

inductive lstep :: "('b, 's) env \<Rightarrow> ('b, 's) live_state \<Rightarrow> ('b, 's) live_state \<Rightarrow> bool" for E where
  found_peer: "lstep E st (snd (add_peer_if_not_seen E st a))"
| connect_in: "lstep E st (snd (add_incoming_peer E st a pid tx))"
| adder: "lstep E st (snd (adder_decide blocked st a))"
| connect_out: "0 < lv_permits st \<Longrightarrow> lstep E st (snd (manage_outgoing_start st a tx))"
| connected: "lstep E st (on_connected st h ms)"
| handshake: "lstep E st (on_handshake st h pid)"
| extended_handshake: "lstep E st (snd (on_extended_handshake st h hs))"
| message: "lstep E st (fst (snd (on_received_message E now st h msg)))"
| accept_deferred: "lstep E st (fst (snd (accept_block st h m)))"
| deferred: "block_chunk_info (lv_lengths st) m = Inr ci \<Longrightarrow> lstep E st (deferred_write E now st h m ci)"
| round: "lstep E st (fst (snd (requester_round E now st h)))"
| resume_send: "lstep E st (snd (send st h (WMessage (MRequest rq))))"
| resume: "p < total_pieces (lv_lengths st) \<Longrightarrow> set cs \<subseteq> set (iter_chunk_infos (lv_lengths st) p) \<Longrightarrow>
    lstep E st (fst (snd (request_chunks cs st h)))"
| pex: "lstep E st (snd (pex_round E st h view))"
| upload: "lstep E st (snd (upload_scheduler_round st))"
| uploaded: "lstep E st (on_uploaded_bytes st n)"
| ended: "lstep E st (snd (manage_peer_end E st h r))"
| retry: "lstep E st (snd (dead_to_queued st a))"
| select: "lstep E st (snd (live_update_only_files st only))"
| streaming: "\<forall>i \<in> set (streamed_file_ids ts). i < length (lv_fis st) \<Longrightarrow> lstep E st (st\<lparr>lv_streams := ts\<rparr>)"
| paused: "lstep E st (snd (pause E st))"

inductive lreach :: "('b, 's) env \<Rightarrow> ('b, 's) live_state \<Rightarrow> ('b, 's) live_state \<Rightarrow> bool" for E st0 where
  start: "lreach E st0 st0"
| step: "lreach E st0 st \<Longrightarrow> lstep E st st' \<Longrightarrow> lreach E st0 st'"

lemma deferred_write_grows:
  assumes "block_chunk_info (lv_lengths st) m = Inr ci"
  shows "grows E st (deferred_write E now st h m ci)"
proof (cases "live_inv st")
  case True
  note b = block_chunk_info_ok [OF live_invD(1) [OF True] assms]
  let ?w = "snd (write_to_disk E now st (ph_addr h) m ci)"
  have w: "grows E st ?w" by (rule write_to_disk_grows [OF b(6,1)])
  have s: "grows E st (snd (send ?w h x))" for x
    using w evolvesD [OF quietD(1) [OF send_quiet [of ?w h x]]] send_quiet [of ?w h x]
    unfolding grows_def by (auto simp: quiet_def verified_def intro: evolves_trans dest: evolvesD)
  show ?thesis using w s by (simp add: deferred_write_def split_beta split: sum.split)
qed (simp add: grows_def evolves_def)

lemma upload_quiet: "quiet st (snd (upload_scheduler_round st))"
proof -
  have "quiet st (st\<lparr>lv_upload_queue := q, lv_out := o'\<rparr>)" for q o'
    by (rule quiet_trans [OF quiet_fields(4) quiet_fields(1)])
  then show ?thesis by (simp add: upload_scheduler_round_def Let_def quiet_fields split: list.split prod.split)
qed

lemma uploaded_quiet: "quiet st (on_uploaded_bytes st n)"
proof -
  have "quiet st (st\<lparr>lv_stats := s, lv_session_uploaded := u\<rparr>)" for s u
    by (rule quiet_trans [OF quiet_fields(5) quiet_fields(9)])
  then show ?thesis by (simp add: on_uploaded_bytes_def)
qed

lemma on_connected_quiet: "quiet st (on_connected st h ms)"
  unfolding on_connected_def by (rule bump_quiet)

lemma lstep_grows:
  assumes "lstep E st st'" and E: "env_ok E"
  shows "grows E st st'"
  using assms(1)
proof cases
  case (resume p cs h)
  show ?thesis unfolding resume(1)
  proof (rule quiet_grows, rule request_chunks_quiet, intro ballI)
    fix c assume "live_inv st" "c \<in> set cs"
    then show "valid_chunk (lv_lengths st) c"
      using resume(2,3) by (intro valid_chunkI [OF live_invD(1)]) auto
  qed
next
  case (deferred m ci now h)
  then show ?thesis using deferred_write_grows by simp
next
  case (message now h msg)
  then show ?thesis using on_received_message_grows by simp
next
  case (streaming ts)
  then show ?thesis by (auto simp: grows_def evolves_def live_inv_def lv_have_def Let_def)
next
  case paused
  then show ?thesis by (simp add: grows_def pause_evolves pause_have)
qed (simp_all add: quiet_grows add_peer_if_not_seen_quiet add_incoming_peer_quiet adder_decide_quiet manage_outgoing_start_quiet
    on_connected_quiet on_handshake_quiet on_extended_handshake_quiet accept_block_quiet requester_round_quiet [OF E] send_quiet
    pex_round_quiet upload_quiet uploaded_quiet manage_peer_end_quiet dead_to_queued_quiet update_only_files_quiet)

lemma lreach_inv: "lreach E st0 st \<Longrightarrow> env_ok E \<Longrightarrow> live_inv st0 \<Longrightarrow> evolves st0 st \<and> live_inv st"
proof (induction rule: lreach.induct)
  case (step st st')
  then have "evolves st st'" using lstep_grows by (auto simp: grows_def)
  then show ?case using step evolves_trans evolvesD(1) by metis
qed simp

text \<open>A torrent that is started from a consistent paused state.\<close>

definition paused_ok :: "'s paused_state \<Rightarrow> bool" where
  "paused_ok pa \<longleftrightarrow>
     (let l = tm_lengths (pa_metadata pa); fis = tm_file_infos (pa_metadata pa) in
      wf_lengths l \<and> wf_file_infos l fis \<and> tracker_ok l fis (pa_chunk_tracker pa) \<and>
      (\<forall>i \<in> set (streamed_file_ids (pa_streams pa)). i < length fis))"

lemma live_new_inv: "paused_ok pa \<Longrightarrow> live_inv (live_new sp sf su pa)"
proof -
  assume ok: "paused_ok pa"
  have "kcounter k aggregate_default = 0" for k by (cases k) (simp_all add: aggregate_default_def)
  then show ?thesis using ok
    by (auto simp: paused_ok_def live_inv_def live_new_def Let_def tracker_ok_def locked_ok_def peers_inv_def peers_of_def
        requests_ok_def sorted_file_ids_def)
qed

end
