(* ===== verification/Live_Props.thy ===== *)
theory Live_Props
  imports Live_Steps "HOL-Library.Product_Lexorder"
begin

text \<open>
  The properties of a running torrent: what holds in every reachable state, what the choice of a piece
  promises, when uploads happen, what becomes of a dead peer's work, and the exchange of addresses and
  metadata.
\<close>

subsection \<open>An example torrent\<close>

definition ex_env :: "(nat, filesystem_storage) env" where
  "ex_env = \<lparr>e_pread = fs_pread_exact, e_pwrite = fs_pwrite_all, e_take = (\<lambda>s. Inr (fs_take s)), e_sha1 = (\<lambda>_. replicate 20 0),
     e_shuffle = (\<lambda>qs. qs), e_backoff0 = 0, e_next_backoff = (\<lambda>n. (if n < 3 then Some (10 ^ n) else None, n + 1)),
     e_backoff_reset = (\<lambda>_. 0), e_set_order = sorted_list_of_set, e_flush = (\<lambda>_. True)\<rparr>"

definition ex_paused :: "filesystem_storage paused_state" where
  "ex_paused = \<lparr>pa_metadata = ex_metadata, pa_files = ex_storage, pa_chunk_tracker = ex_ct, pa_streams = torrent_streams_default,
     pa_disable_upload = False\<rparr>"

definition ex_live :: "(nat, filesystem_storage) live_state" where
  "ex_live = live_new aggregate_default 0 0 ex_paused"

lemma ex_env_ok: "env_ok ex_env"
  by (simp add: env_ok_def ex_env_def)

lemma ex_paused_ok: "paused_ok ex_paused"
  using ex_lengths_wf ex_files_wf ex_ct_inv
  by (simp add: paused_ok_def ex_paused_def ex_metadata_def tracker_ok_def ex_ct_def ex_files_def torrent_streams_default_def
      streamed_file_ids_def)

lemma ex_live_inv: "live_inv ex_live"
  unfolding ex_live_def by (rule live_new_inv [OF ex_paused_ok])

subsection \<open>Every reachable state\<close>





subsection \<open>Choosing a piece\<close>

text \<open>The pieces the natural order offers.\<close>

definition offered :: "chunk_tracker \<Rightarrow> file_info list \<Rightarrow> nat \<Rightarrow> bool" where
  "offered ct fis p \<longleftrightarrow> queue_pieces ct ! p \<and>
     (\<exists>i < length fis. per_file_bytes ct ! i \<noteq> fi_len (fis ! i) \<and> fst (piece_range (fis ! i)) \<le> p \<and> p < snd (piece_range (fis ! i)))"

lemma set_iter_piece_priorities:
  assumes wf: "wf_lengths l" "wf_file_infos l fis" and i: "i < length fis"
  shows "set (iter_piece_priorities (piece_range (fis ! i))) = {fst (piece_range (fis ! i))..<snd (piece_range (fis ! i))}"
proof -
  obtain a b where r: "piece_range (fis ! i) = (a, b)" by (cases "piece_range (fis ! i)")
  show ?thesis
  proof (cases "a < b")
    case True
    then have "b < 2 ^ 64"
      using file_piece_range_iff(2) [OF wf i] wf_last_piece_id [OF wf(1)] total_pieces_eq [OF wf(1)] r by auto
    from mset_eq_setD [OF iter_piece_priorities_mset [OF this, of a]] show ?thesis by (simp add: r)
  qed (simp add: r iter_piece_priorities_def Let_def)
qed

lemma iter_queued_pieces_set:
  assumes ct: "tracker_ok l fis ct" and wf: "wf_lengths l" "wf_file_infos l fis" and ids: "set ids \<subseteq> {..<length fis}"
  shows "set (iter_queued_pieces ct ids fis) =
    Inr ` {p. queue_pieces ct ! p \<and> (\<exists>i \<in> set ids. per_file_bytes ct ! i \<noteq> fi_len (fis ! i) \<and>
      fst (piece_range (fis ! i)) \<le> p \<and> p < snd (piece_range (fis ! i)))}"
  using ids
proof (induction ids)
  case (Cons i ids)
  then have i: "i < length fis" by simp
  let ?r = "piece_range (fis ! i)"
  have q: "queued_file_pieces ct fis i = Inr (if per_file_bytes ct ! i \<noteq> fi_len (fis ! i) then iter_piece_priorities ?r else [])"
    using i ct by (simp add: queued_file_pieces_def tracker_ok_def Let_def)
  have one: "(case bf_index (queue_pieces ct) p of Inl e \<Rightarrow> Some (Inl e)
      | Inr q \<Rightarrow> if q then map_option Inr (Option.bind (try_u32 p) (validate_piece_index (ct_lengths ct))) else None)
      = (if queue_pieces ct ! p then Some (Inr p) else None)" if "fst ?r \<le> p" "p < snd ?r" for p
  proof -
    have "p < total_pieces l" using that file_piece_range_iff(2) [OF wf i] by simp
    then show ?thesis
      using ct ct_inv_bits(3) [of ct p] wf_last_piece_id [OF wf(1)] total_pieces_eq [OF wf(1)] validate_piece_index_Some [OF wf(1), of p]
      by (simp add: tracker_ok_def try_u32_def)
  qed
  have "set (iter_queued_pieces ct (i # ids) fis) =
      Inr ` {p. queue_pieces ct ! p \<and> per_file_bytes ct ! i \<noteq> fi_len (fis ! i) \<and> fst ?r \<le> p \<and> p < snd ?r}
      \<union> set (iter_queued_pieces ct ids fis)"
  proof (cases "per_file_bytes ct ! i = fi_len (fis ! i)")
    case False
    have "set (List.map_filter (\<lambda>p. case bf_index (queue_pieces ct) p of Inl e \<Rightarrow> Some (Inl e)
        | Inr q \<Rightarrow> if q then map_option Inr (Option.bind (try_u32 p) (validate_piece_index (ct_lengths ct))) else None)
        (iter_piece_priorities ?r)) = Inr ` {p. queue_pieces ct ! p \<and> fst ?r \<le> p \<and> p < snd ?r}" (is "?A = ?B")
    proof (rule set_eqI)
      fix y
      show "y \<in> ?A \<longleftrightarrow> y \<in> ?B"
        unfolding in_set_map_filter set_iter_piece_priorities [OF wf i]
        using one by (simp add: image_iff Bex_def) (metis option.distinct(1) option.inject)
    qed
    then show ?thesis using False by (simp add: q)
  qed (simp add: q)
  then show ?case using Cons by auto
qed simp

lemma first_available_None:
  "first_available bf (map Inr ns) = Inr None \<longleftrightarrow> (\<forall>n \<in> set ns. bf_get bf n \<noteq> Some True)"
  by (induction ns) auto

lemma first_available_ok: "\<exists>r. first_available bf (map Inr ns) = Inr r"
  by (induction ns) auto

lemma first_available_append:
  "first_available bf (map Inr ns @ ms) =
     (case first_available bf (map Inr ns) of Inr None \<Rightarrow> first_available bf ms | r \<Rightarrow> r)"
  by (induction ns) auto

lemma list_of_Inr: "set xs \<subseteq> range Inr \<Longrightarrow> \<exists>ns. xs = map Inr ns"
  by (induction xs) (auto simp: Cons_eq_map_conv)

lemma priority_streamed_pieces_eq:
  assumes "iter_next_pieces (e_shuffle E) (lv_streams st) (lv_lengths st) = Inr ss" "\<forall>p \<in> set ss. p < length (ct_have ct)"
  shows "priority_streamed_pieces E st ct =
    map Inr (filter (\<lambda>p. \<not> ct_have ct ! p \<and> map_of (inflight_pieces (lv_locked st)) p = None) ss)"
proof -
  have "List.map_filter (\<lambda>pid. case is_piece_have ct pid of Inl e \<Rightarrow> Some (Inl e)
      | Inr hv \<Rightarrow> if \<not> hv \<and> map_of (inflight_pieces (lv_locked st)) pid = None then Some (Inr pid) else None) ss
    = map Inr (filter (\<lambda>p. \<not> ct_have ct ! p \<and> map_of (inflight_pieces (lv_locked st)) p = None) ss)"
    using assms(2) by (induction ss) (auto simp: List.map_filter_simps is_piece_have_def)
  then show ?thesis by (simp add: priority_streamed_pieces_def assms(1))
qed

lemma first_available_prefers:
  assumes "first_available bf (map Inr (ws @ qs)) = Inr (Some n)"
  shows "n \<in> set ws \<or> (\<forall>p \<in> set ws. bf_get bf p \<noteq> Some True)"
proof -
  obtain x where x: "first_available bf (map Inr ws) = Inr x" using first_available_ok by blast
  show ?thesis
  proof (cases x)
    case None
    then show ?thesis using first_available_None [of bf ws] x by auto
  next
    case (Some y)
    then have "y = n" using assms x by (simp add: first_available_append)
    then show ?thesis using first_available_Some [of bf "map Inr ws" y] x Some by auto
  qed
qed

text \<open>C18: the choice of the next piece for an unchoked live peer. It never fails. If it finds nothing, no piece
  that a stream wants next and no queued piece of an unfinished file is one the peer has and nobody
  downloads, and nothing changes. Otherwise the piece is one the peer has and we do not; it is now in
  flight for this peer and no longer queued, nothing else changes; and a piece outside the streams' wishes
  is chosen only when the peer has none of those.\<close>

theorem reserve_next_needed_piece_spec:
  fixes bf :: bits
  assumes E: "env_ok E" and inv: "live_inv st" and ct: "chunks (lv_locked st) = Some ct"
    and live: "with_live (lv_peers st) (ph_addr h) lp_bitfield = Some bf" and choke: "\<not> i_am_choked h"
    and ss: "iter_next_pieces (e_shuffle E) (lv_streams st) (lv_lengths st) = Inr ss"
  defines "has \<equiv> \<lambda>p. p < length bf \<and> bf ! p"
    and "wanted \<equiv> \<lambda>p. p \<in> set ss \<and> \<not> ct_have ct ! p \<and> map_of (inflight_pieces (lv_locked st)) p = None"
  shows "(reserve_next_needed_piece E now st h = (Inr None, st) \<and> (\<forall>p. has p \<longrightarrow> \<not> wanted p \<and> \<not> offered ct (lv_fis st) p)) \<or>
    (\<exists>n. has n \<and> n < total_pieces (lv_lengths st) \<and> (wanted n \<or> offered ct (lv_fis st) n \<and> (\<forall>p. has p \<longrightarrow> \<not> wanted p)) \<and>
       reserve_next_needed_piece E now st h =
         (Inr (Some n), st\<lparr>lv_locked := (lv_locked st)\<lparr>
            inflight_pieces := AList.update n \<lparr>if_peer = ph_addr h, if_started = now\<rparr> (inflight_pieces (lv_locked st)),
            chunks := Some (ct\<lparr>queue_pieces := (queue_pieces ct)[n := False]\<rparr>)\<rparr>\<rparr>))"
proof -
  let ?l = "lv_lengths st" and ?fis = "lv_fis st" and ?g = "lv_locked st"
  note i = live_inv_tracker [OF inv ct] and wf = live_invD(1,2) [OF inv]
  have g: "bf_get bf p = Some True \<longleftrightarrow> has p" for p by (simp add: has_def bf_get_def)
  have "\<forall>p \<in> set ss. p < length (ct_have ct)"
    using iter_next_pieces_valid [OF wf(1) ss] E ct_inv_bits(1) [OF i(1)] i(2) by (auto simp: env_ok_def)
  note ps = priority_streamed_pieces_eq [of E st ss ct, OF ss this]
  define ws where "ws = filter (\<lambda>p. \<not> ct_have ct ! p \<and> map_of (inflight_pieces ?g) p = None) ss"
  have w: "wanted p \<longleftrightarrow> p \<in> set ws" for p by (auto simp: ws_def wanted_def)
  have "set (iter_queued_pieces ct (file_priorities ?g) ?fis) = Inr ` {p. offered ct ?fis p}"
    using iter_queued_pieces_set [of ?l ?fis ct "file_priorities ?g", OF _ wf] live_invD(4) [OF inv] ct
    by (auto simp: locked_ok_def offered_def)
  moreover from this obtain qs where qs: "iter_queued_pieces ct (file_priorities ?g) ?fis = map Inr qs"
    using list_of_Inr [of "iter_queued_pieces ct (file_priorities ?g) ?fis"] by auto
  ultimately have q: "offered ct ?fis p \<longleftrightarrow> p \<in> set qs" for p by (auto simp: image_iff)
  have pick: "first_available bf (priority_streamed_pieces E st ct @ iter_queued_pieces ct (file_priorities ?g) ?fis)
      = first_available bf (map Inr (ws @ qs))" by (simp add: ps qs ws_def)
  obtain r where r: "first_available bf (map Inr (ws @ qs)) = Inr r" using first_available_ok by blast
  show ?thesis
  proof (cases r)
    case None
    then have "\<forall>p. has p \<longrightarrow> \<not> wanted p \<and> \<not> offered ct ?fis p"
      using first_available_None [of bf "ws @ qs"] r g w q by auto
    moreover have "reserve_next_needed_piece E now st h = (Inr None, st)"
      using r None pick ct live choke by (simp add: reserve_next_needed_piece_def get_chunks_def)
    ultimately show ?thesis by blast
  next
    case (Some n)
    have n: "has n" "n \<in> set (ws @ qs)" using first_available_Some r Some g by fastforce+
    have lt: "n < total_pieces ?l"
      using candidate_valid [OF inv E ct, of n] n(2) by (simp add: ps qs ws_def image_iff)
    have "wanted n \<or> (\<forall>p. has p \<longrightarrow> \<not> wanted p)"
      using first_available_prefers r Some g w by blast
    moreover have "wanted n \<or> offered ct ?fis n" using n(2) w q by auto
    moreover have "reserve_next_needed_piece E now st h =
         (Inr (Some n), st\<lparr>lv_locked := ?g\<lparr>
            inflight_pieces := AList.update n \<lparr>if_peer = ph_addr h, if_started = now\<rparr> (inflight_pieces ?g),
            chunks := Some (ct\<lparr>queue_pieces := (queue_pieces ct)[n := False]\<rparr>)\<rparr>\<rparr>)"
      using r Some pick ct live choke reserve_needed_piece_ok(1) [OF i(1), of n] lt i(2)
      by (simp add: reserve_next_needed_piece_def get_chunks_def with_chunks_mut_def Let_def)
    ultimately show ?thesis using n(1) lt by blast
  qed
qed

text \<open>A seed connects, and unchokes us.\<close>

abbreviation ex_seed :: socket_addr where
  "ex_seed \<equiv> (V4 9, 80)"

definition ex_handler :: peer_handler where
  "ex_handler = on_i_am_unchoked (handler_new ex_seed True 7)"

definition ex_live2 :: "(nat, filesystem_storage) live_state" where
  "ex_live2 = snd (on_bitfield (snd (add_incoming_peer ex_env ex_live ex_seed (replicate 20 1) 7)) ex_handler [224])"

lemma ex_live2_inv: "live_inv ex_live2"
  unfolding ex_live2_def
  by (rule quietD(2) [OF quiet_trans [OF add_incoming_peer_quiet on_bitfield_quiet] ex_live_inv])

lemmas ex_live_defs = ex_live2_def ex_live_def live_new_def ex_paused_def on_bitfield_def add_incoming_peer_def set_peers_def
  new_live_for_incoming_connection_def bump_def bump_counters_def with_peer_mut_def update_bitfield_def with_live_mut_def
  on_live_def get_live_def with_live_def with_peer_def live_peer_new_def ex_handler_def handler_new_def on_i_am_unchoked_def
  both_stats_def ex_env_def ex_ct_def piece_bitfield_bytes_def ex_metadata_def

lemma ex_live2_sel:
  "chunks (lv_locked ex_live2) = Some ex_ct" "lv_lengths ex_live2 = ex_lengths" "lv_fis ex_live2 = ex_files"
  "inflight_pieces (lv_locked ex_live2) = []" "streams (lv_streams ex_live2) = []"
  "with_live (lv_peers ex_live2) ex_seed lp_bitfield = Some [True, True, True, False, False, False, False, False]"
  by (simp_all add: ex_live_defs Let_def div_ceil_def torrent_streams_default_def bits_of_bytes_def bits_of_byte_def upt_rec bit_Suc_0_iff)

lemma ex_seed_sel: "ph_addr ex_handler = ex_seed" "\<not> i_am_choked ex_handler"
  by (simp_all add: ex_handler_def on_i_am_unchoked_def handler_new_def)

lemma ex_offered: "offered ex_ct ex_files 2" "p < 8 \<Longrightarrow> offered ex_ct ex_files p \<Longrightarrow> p = 2"
proof -
  have q: "queue_pieces ex_ct = [False, False, True, False, False, False, False, False]" by (simp add: ex_ct_def)
  show "offered ex_ct ex_files 2"
    unfolding offered_def q by (intro conjI exI [of _ 2]) (simp_all add: ex_files_def ex_ct_def)
  assume "p < 8" "offered ex_ct ex_files p"
  then show "p = 2" unfolding offered_def q by (auto simp: nth_Cons' less_Suc_eq split: if_splits)
qed

theorem reserve_next_needed_piece_spec_witness:
  "fst (reserve_next_needed_piece ex_env 0 ex_live2 ex_handler) = Inr (Some 2)"
proof -
  let ?bf = "[True, True, True, False, False, False, False, False]"
  have s: "iter_next_pieces (e_shuffle ex_env) (lv_streams ex_live2) (lv_lengths ex_live2) = Inr []"
    by (simp add: iter_next_pieces_def ex_live2_sel ex_env_def)
  have l: "with_live (lv_peers ex_live2) (ph_addr ex_handler) lp_bitfield = Some ?bf" by (simp add: ex_seed_sel ex_live2_sel)
  have "?bf ! 2" "(2::nat) < length ?bf" by simp_all
  then show ?thesis
    using reserve_next_needed_piece_spec [OF ex_env_ok ex_live2_inv ex_live2_sel(1) l ex_seed_sel(2) s, of 0] ex_offered
    unfolding ex_live2_sel by fastforce
qed

subsection \<open>Stealing\<close>

lemma max_by_key_ge: "max_by_key f xs = Some x \<Longrightarrow> y \<in> set xs \<Longrightarrow> f y \<le> f x"
proof (induction xs arbitrary: x)
  case (Cons a xs)
  show ?case
  proof (cases "max_by_key f xs")
    case None
    then have "xs = []" by (cases xs) (auto split: option.splits if_splits)
    then show ?thesis using Cons.prems by simp
  next
    case (Some z)
    then show ?thesis using Cons.IH [OF Some] Cons.prems by (auto split: if_splits)
  qed
qed simp

lemma with_live_bump [simp]: "with_live (bump_counters ps a f) b g = with_live ps b g"
  by (auto simp: with_live_def with_peer_def bump_counters_def with_peer_mut_def update_conv' get_live_def split: option.split)

lemma with_live_both_stats [simp]: "with_live (both_stats f ps) b g = with_live ps b g"
  by (simp add: with_live_def with_peer_def)

lemma with_live_mut_fst: "fst (with_live_mut ps a f) = with_live ps a (\<lambda>l. fst (f l))"
  by (auto simp: with_live_mut_def with_live_def with_peer_def with_peer_mut_def on_live_def split: option.split prod.split)

lemma on_steal_messages:
  "snd (on_steal ps a b i) =
     (case with_live ps a (\<lambda>l. l) of
        Some l \<Rightarrow> map (\<lambda>c. (lp_tx l, WMessage (MCancel \<lparr>rq_index = i, rq_begin = ci_offset c, rq_length = ci_size c\<rparr>)))
                    (filter (\<lambda>c. ci_piece_index c = i) (inflight_requests l))
      | None \<Rightarrow> [])"
proof -
  have "snd (on_steal ps a b i) = (case with_live ps a (\<lambda>l.
      map (\<lambda>c. (lp_tx l, WMessage (MCancel \<lparr>rq_index = i, rq_begin = ci_offset c, rq_length = ci_size c\<rparr>)))
        (filter (\<lambda>c. ci_piece_index c = i) (inflight_requests l))) of Some m \<Rightarrow> m | None \<Rightarrow> [])"
    by (simp add: on_steal_def Let_def split_beta with_live_mut_fst)
  then show ?thesis
    by (cases "map_of (states ps) a"; cases "get_live (the (map_of (states ps) a))") (simp_all add: with_live_def with_peer_def)
qed

text \<open>C34: a piece is stolen only from another peer, only the one longest in flight, only if it has taken more than
  \<open>k\<close> times our average, and never while a block of it is being written. It is then in flight for us from now
  on; the loser is told to cancel exactly its outstanding requests for the piece; no progress is lost.\<close>

theorem stealing_is_restrained:
  assumes "try_steal_old_slow_piece now k st h = (Inr (Some idx), st')"
  shows "\<exists>avg r. (idx, r) \<in> set (inflight_pieces (lv_locked st)) \<and> if_peer r \<noteq> ph_addr h \<and>
    Option.bind (with_peer (lv_peers st) (ph_addr h) p_counters) average_piece_download_time = Some avg \<and>
    avg * k < now - if_started r \<and> idx \<notin> set (lv_writing st) \<and>
    (\<forall>e \<in> set (inflight_pieces (lv_locked st)). if_peer (snd e) \<noteq> ph_addr h \<longrightarrow> now - if_started (snd e) \<le> now - if_started r) \<and>
    map_of (inflight_pieces (lv_locked st')) =
      (map_of (inflight_pieces (lv_locked st)))(idx \<mapsto> \<lparr>if_peer = ph_addr h, if_started = now\<rparr>) \<and>
    chunks (lv_locked st') = chunks (lv_locked st) \<and>
    lv_out st' = lv_out st @ (case with_live (lv_peers st) (if_peer r) (\<lambda>l. l) of
        Some l \<Rightarrow> map (\<lambda>c. (lp_tx l, WMessage (MCancel \<lparr>rq_index = idx, rq_begin = ci_offset c, rq_length = ci_size c\<rparr>)))
                    (filter (\<lambda>c. ci_piece_index c = idx) (inflight_requests l))
      | None \<Rightarrow> [])"
proof (cases rule: steal_cases [of now k st h])
  case (none r)
  then show ?thesis using assms by auto
next
  case (some avg i r st1)
  have i: "i = idx" using some(7) assms by simp
  have m: "(idx, r) \<in> set (filter (\<lambda>e. if_peer (snd e) \<noteq> ph_addr h) (inflight_pieces (lv_locked st)))"
    using max_by_key_in [OF some(2)] i by simp
  have g: "now - if_started (snd e) \<le> now - if_started r"
    if "e \<in> set (inflight_pieces (lv_locked st))" "if_peer (snd e) \<noteq> ph_addr h" for e
    using max_by_key_ge [OF some(2), of e] that by simp
  show ?thesis
    using m g some assms i
    by (intro exI [of _ avg] exI [of _ r]) (auto simp: set_peers_def on_steal_messages update_conv')
qed

text \<open>The seed has finished a piece in 10 ms; another peer has had piece 1 for a second.\<close>

definition ex_other :: inflight_piece where
  "ex_other = \<lparr>if_peer = (V4 8, 80), if_started = 0\<rparr>"

definition ex_live3 :: "(nat, filesystem_storage) live_state" where
  "ex_live3 = bump (ex_live2\<lparr>lv_locked := (lv_locked ex_live2)\<lparr>inflight_pieces := [(1, ex_other)]\<rparr>\<rparr>) ex_seed
     (counters_on_piece_completed 40 10)"

theorem stealing_is_restrained_witness:
  "\<exists>st'. try_steal_old_slow_piece 1000 10 ex_live3 ex_handler = (Inr (Some 1), st') \<and>
     map_of (inflight_pieces (lv_locked st')) 1 = Some \<lparr>if_peer = ex_seed, if_started = 1000\<rparr>"
proof -
  have "Option.bind (with_peer (lv_peers ex_live3) ex_seed p_counters) average_piece_download_time = Some 10"
    "lv_writing ex_live3 = []" "lv_lengths ex_live3 = ex_lengths" "inflight_pieces (lv_locked ex_live3) = [(1, ex_other)]"
    by (simp_all add: ex_live3_def ex_live_defs counters_on_piece_completed_def peer_counters_default_def
        average_piece_download_time_def Let_def div_ceil_def)
  then obtain st' where s: "try_steal_old_slow_piece 1000 10 ex_live3 ex_handler = (Inr (Some 1), st')"
    by (simp add: try_steal_old_slow_piece_def Let_def ex_seed_sel ex_other_def split_beta)
  from stealing_is_restrained [OF s] s show ?thesis by (auto simp: ex_seed_sel)
qed

subsection \<open>The end of a connection\<close>

lemma cancel_requests_spec:
  assumes "tracker_ok l fis ct" "\<forall>c \<in> set reqs. ci_piece_index c < total_pieces l" "chunks (lv_locked st) = Some ct"
  shows "\<exists>ct'. cancel_requests reqs st = (Inr (), st\<lparr>lv_locked := (lv_locked st)\<lparr>chunks := Some ct'\<rparr>\<rparr>) \<and>
    tracker_ok l fis ct' \<and> ct_have ct' = ct_have ct \<and> selected ct' = selected ct \<and>
    (\<forall>p < total_pieces l. queue_pieces ct' ! p \<longleftrightarrow> queue_pieces ct ! p \<or> \<not> ct_have ct ! p \<and> p \<in> ci_piece_index ` set reqs) \<and>
    (\<forall>i < length (chunk_status ct). chunk_status ct' ! i \<longleftrightarrow> chunk_status ct ! i \<and>
       \<not> (\<exists>c \<in> set reqs. \<not> ct_have ct ! ci_piece_index c \<and>
           fst (chunk_range l (ci_piece_index c)) \<le> i \<and> i < snd (chunk_range l (ci_piece_index c))))"
  using assms
proof (induction reqs arbitrary: st ct)
  case Nil
  then show ?case by (cases st; cases "lv_locked st") (auto intro!: exI [of _ ct])
next
  case (Cons c reqs)
  let ?p = "ci_piece_index c"
  have inv: "ct_inv ct" "ct_lengths ct = l" using Cons.prems by (auto simp: tracker_ok_def)
  have p: "?p < total_pieces (ct_lengths ct)" using Cons.prems inv by simp
  define ct1 where "ct1 = (if ct_have ct ! ?p then ct
    else ct\<lparr>queue_pieces := (queue_pieces ct)[?p := True], chunk_status := cleared ct ?p\<rparr>)"
  have b: "mark_piece_broken_if_not_have ct ?p = Inr ct1" using mark_piece_broken_eq [OF inv(1) p] by (simp add: ct1_def)
  have t1: "tracker_ok l fis ct1" "ct_have ct1 = ct_have ct" "selected ct1 = selected ct"
    using mark_piece_broken_inv [OF inv(1) p b] Cons.prems(1) by (auto simp: tracker_ok_def)
  let ?st1 = "st\<lparr>lv_locked := (lv_locked st)\<lparr>chunks := Some ct1\<rparr>\<rparr>"
  have m: "mark_broken st ?p = (Inr (), ?st1)"
    using b Cons.prems(3) by (simp add: mark_broken_def with_chunks_mut_def get_chunks_def)
  have q1: "queue_pieces ct1 ! q \<longleftrightarrow> queue_pieces ct ! q \<or> \<not> ct_have ct ! q \<and> q = ?p" if "q < total_pieces l" for q
    using ct_inv_bits(3) [OF inv(1), of q] that inv(2) by (auto simp: ct1_def nth_update_True)
  have s1: "chunk_status ct1 ! i \<longleftrightarrow> chunk_status ct ! i \<and> \<not> (\<not> ct_have ct ! ?p \<and> fst (chunk_range l ?p) \<le> i \<and> i < snd (chunk_range l ?p))"
    if "i < length (chunk_status ct)" for i
    using cleared_nth [OF inv(1) p that] inv(2) by (auto simp: ct1_def)
  have len: "length (chunk_status ct1) = length (chunk_status ct)" using length_cleared [OF inv(1) p] by (simp add: ct1_def)
  obtain ct' where ct': "cancel_requests reqs ?st1 = (Inr (), ?st1\<lparr>lv_locked := (lv_locked ?st1)\<lparr>chunks := Some ct'\<rparr>\<rparr>)"
      "tracker_ok l fis ct'" "ct_have ct' = ct_have ct1" "selected ct' = selected ct1"
      "\<forall>p < total_pieces l. queue_pieces ct' ! p \<longleftrightarrow> queue_pieces ct1 ! p \<or> \<not> ct_have ct1 ! p \<and> p \<in> ci_piece_index ` set reqs"
      "\<forall>i < length (chunk_status ct1). chunk_status ct' ! i \<longleftrightarrow> chunk_status ct1 ! i \<and>
       \<not> (\<exists>c \<in> set reqs. \<not> ct_have ct1 ! ci_piece_index c \<and>
           fst (chunk_range l (ci_piece_index c)) \<le> i \<and> i < snd (chunk_range l (ci_piece_index c)))"
    using Cons.IH [OF t1(1), of ?st1] Cons.prems(2) by auto
  have "cancel_requests (c # reqs) st = (Inr (), st\<lparr>lv_locked := (lv_locked st)\<lparr>chunks := Some ct'\<rparr>\<rparr>)" by (simp add: m ct'(1))
  then show ?case using ct'(2-) t1 q1 s1 len by (intro exI [of _ ct']) auto
qed

lemma put_state_sel [simp]: "lv_locked (put_state st a s) = lv_locked st" "lv_locked (bump st a f) = lv_locked st"
  "lv_locked (set_peers st ps) = lv_locked st" "lv_locked (snd (next_backoff E st a)) = lv_locked st"
  by (simp_all add: put_state_def bump_def set_peers_def next_backoff_def split_beta)

lemma retire_peer_locked: "lv_locked (snd (retire_peer E st h)) = lv_locked st"
proof -
  obtain b st2 where nb: "next_backoff E (put_state st (ph_addr h) Dead) (ph_addr h) = (b, st2)" by fastforce
  have "lv_locked st2 = lv_locked st" using put_state_sel(4) [of E "put_state st (ph_addr h) Dead" "ph_addr h"] nb by simp
  then show ?thesis by (simp add: retire_peer_def Let_def nb split: sum.split bool.split option.split)
qed

text \<open>The state of a peer in the table.\<close>

definition peer_kind :: "('b, 's) live_state \<Rightarrow> peer_handle \<Rightarrow> state_kind option" where
  "peer_kind st a = map_option (\<lambda>p. kind_of (p_state p)) (map_of (states (lv_peers st)) a)"

lemma peer_kind_put_state: "peer_kind st a \<noteq> None \<Longrightarrow> peer_kind (put_state st a s) a = Some (kind_of s)"
  by (auto simp: peer_kind_def put_state_def set_peers_def with_peer_mut_def update_conv' dest: set_state_sel(2)
      split: option.split prod.split)

lemma peer_kind_bump [simp]: "peer_kind (bump st a f) b = peer_kind st b"
  by (auto simp: peer_kind_def bump_def bump_counters_def set_peers_def with_peer_mut_def update_conv' split: option.split)

lemma peer_kind_backoff: "peer_kind (snd (next_backoff E st a)) b = peer_kind st b"
  by (auto simp: peer_kind_def next_backoff_def set_peers_def with_peer_mut_def update_conv' split: option.split)

lemma peer_kind_drop: "peer_kind (set_peers st (snd (drop_peer (lv_peers st) a))) a = None"
  by (auto simp: peer_kind_def set_peers_def drop_peer_def delete_conv' split: option.split)

lemma peer_kind_locked [simp]: "peer_kind (st\<lparr>lv_locked := g\<rparr>) a = peer_kind st a"
  by (simp add: peer_kind_def)

lemma retire_peer_kind:
  assumes "peer_kind st (ph_addr h) \<noteq> None" "retire_peer E st h = (Inr r, st')"
  shows "peer_kind st' (ph_addr h) = (if is_finished_and_no_active_streams st = Inr True then Some KNotNeeded
    else if ph_incoming h \<or> r \<noteq> None then Some KDead else None)"
proof -
  obtain b st2 where nb: "next_backoff E (put_state st (ph_addr h) Dead) (ph_addr h) = (b, st2)" by fastforce
  have k: "peer_kind (put_state st (ph_addr h) s) (ph_addr h) = Some (kind_of s)" for s by (rule peer_kind_put_state [OF assms(1)])
  have "peer_kind st2 (ph_addr h) = Some KDead"
    using peer_kind_backoff [of E "put_state st (ph_addr h) Dead" "ph_addr h"] nb k by simp
  then show ?thesis using assms(2) k peer_kind_drop [of st2 "ph_addr h"]
    by (auto simp: retire_peer_def Let_def nb split: sum.splits bool.splits option.splits if_splits)
qed

lemma peer_kind_take_state:
  fixes st :: "('b, 's) live_state"
  shows "peer_kind st a \<noteq> None \<Longrightarrow> peer_kind (set_peers st (snd (with_peer_mut (lv_peers st) a take_state))) a = Some KQueued"
proof -
  have "(take_state :: 'b peer \<Rightarrow> _) = (\<lambda>p. set_state p Queued)" by (intro ext) (simp add: take_state_def)
  moreover assume "peer_kind st a \<noteq> None"
  ultimately show ?thesis using peer_kind_put_state [of st a Queued] by (simp add: put_state_def)
qed

lemma any_file_unfinished_ok: "\<forall>i \<in> set js. i < length fis \<Longrightarrow> \<exists>b. any_file_unfinished ct fis js = Inr b"
  by (induction ct fis js rule: any_file_unfinished.induct) auto

lemma is_finished_and_no_active_streams_ok:
  assumes "live_inv st"
  shows "\<exists>b. is_finished_and_no_active_streams st = Inr b"
proof -
  have "\<exists>b. has_active_streams_unfinished_files st = Inr b"
    using any_file_unfinished_ok [of "streamed_file_ids (lv_streams st)" "lv_fis st"] live_invD(7) [OF assms]
    by (auto simp: has_active_streams_unfinished_files_def split: sum.split)
  then show ?thesis by (auto simp: is_finished_and_no_active_streams_def)
qed

lemma retire_peer_ok: "live_inv st \<Longrightarrow> \<exists>r st'. retire_peer E st h = (Inr r, st')"
  using is_finished_and_no_active_streams_ok [of st]
  by (auto simp: retire_peer_def Let_def split: bool.split option.split prod.split)

text \<open>What becomes of the peer itself.\<close>

lemma dead_peer_kind:
  assumes k: "peer_kind st2 (ph_addr h) \<noteq> None"
    and e: "(case err of None \<Rightarrow> (Inr None, put_state st2 (ph_addr h) NotNeeded)
      | Some _ \<Rightarrow> retire_peer E (bump st2 (ph_addr h) (\<lambda>c. c\<lparr>errors := errors c + 1\<rparr>)) h) = (Inr r, st')"
  shows "peer_kind st' (ph_addr h) \<in> {None, Some KNotNeeded, Some KDead} \<and>
    (err = None \<longrightarrow> peer_kind st' (ph_addr h) = Some KNotNeeded \<and> r = None) \<and>
    (r \<noteq> None \<longrightarrow> err \<noteq> None \<and> \<not> ph_incoming h \<and> peer_kind st' (ph_addr h) = Some KDead)"
proof (cases err)
  case None
  then show ?thesis using e peer_kind_put_state [OF k, of NotNeeded] by auto
next
  case (Some x)
  let ?st3 = "bump st2 (ph_addr h) (\<lambda>c. c\<lparr>errors := errors c + 1\<rparr>)"
  have rt: "retire_peer E ?st3 h = (Inr r, st')" using e Some by simp
  have "r \<noteq> None \<Longrightarrow> \<not> ph_incoming h \<and> is_finished_and_no_active_streams ?st3 \<noteq> Inr True"
    using rt by (auto simp: retire_peer_def Let_def split: sum.splits bool.splits if_splits)
  then show ?thesis using Some retire_peer_kind [OF _ rt] k by (auto split: if_splits)
qed


text \<open>The seed was asked for piece 2 and dies.\<close>

definition ex_live4 :: "(nat, filesystem_storage) live_state" where
  "ex_live4 = snd (add_chunk_request ex_live2 ex_handler (nth_chunk ex_lengths 2 0))"

lemma ex_live4_inv: "live_inv ex_live4"
  unfolding ex_live4_def
proof (rule quietD(2) [OF add_chunk_request_quiet ex_live2_inv])
  show "valid_chunk (lv_lengths ex_live2) (nth_chunk ex_lengths 2 0)"
    using valid_chunkI [OF ex_lengths_wf _ ex_chunk_in] by (simp add: ex_live2_sel)
qed

lemma ex_live4_peer:
  "\<exists>p l. map_of (states (lv_peers ex_live4)) ex_seed = Some p \<and> p_state p = Live l \<and> inflight_requests l = [nth_chunk ex_lengths 2 0]"
  by (simp add: ex_live4_def add_chunk_request_def ex_live_defs Let_def div_ceil_def)

lemma ex_live4_chunks: "chunks (lv_locked ex_live4) = Some ex_ct" "lv_lengths ex_live4 = ex_lengths"
  using ex_live2_sel(1,2) by (simp_all add: ex_live4_def add_chunk_request_def split_beta set_peers_def)


end
