(* ===== verification/Initializing.thy ===== *)
theory Initializing
  imports Live_Props
begin

text \<open>
  A torrent on its way to its first paused state: the bitfield a previous run left behind and whether it
  is believed (fast resume), the check of all the data otherwise, and the tracker and the storage the
  paused torrent gets. Stored bitfields are kept behind the interface \<^verbatim>\<open>BitVFactory\<close>; this theory holds the
  interface and the implementation that keeps nothing, the one on disk is in \<^verbatim>\<open>Json_Store\<close>.

  Sources: \<^verbatim>\<open>torrent_state/initializing.rs\<close>, \<^verbatim>\<open>bitv_factory.rs\<close>.
\<close>

subsection \<open>Stored bitfields\<close>

datatype torrent_id_or_hash = Id nat | Hash id20

record 'f bitv_factory =
  bv_load :: "'f \<Rightarrow> torrent_id_or_hash \<Rightarrow> bits option res"
  bv_clear :: "'f \<Rightarrow> torrent_id_or_hash \<Rightarrow> unit res \<times> 'f"
  bv_store_initial_check :: "'f \<Rightarrow> torrent_id_or_hash \<Rightarrow> bits \<Rightarrow> bits res \<times> 'f"

definition NonPersistentBitVFactory :: "unit bitv_factory" where
  "NonPersistentBitVFactory =
     \<lparr>bv_load = \<lambda>_ _. Inr None,
      bv_clear = \<lambda>f _. (Inr (), f),
      bv_store_initial_check = \<lambda>f _ b. (Inr b, f)\<rparr>"

text \<open>What the engine relies on: a stored bitfield of whole bytes comes back unchanged, now and on the next load
  (or is not kept at all), and none is left after a successful clear.\<close>

locale bitv_laws =
  fixes F :: "'f bitv_factory"
  assumes store_same: "bv_store_initial_check F f i b = (Inr b', f') \<Longrightarrow> length b mod 8 = 0 \<Longrightarrow> b' = b"
    and store_load: "bv_store_initial_check F f i b = (Inr b', f') \<Longrightarrow> length b mod 8 = 0 \<Longrightarrow>
      bv_load F f' i = Inr (Some b) \<or> bv_load F f' i = Inr None"
    and clear_load: "bv_clear F f i = (Inr (), f') \<Longrightarrow> bv_load F f' i = Inr None"

interpretation non_persistent: bitv_laws NonPersistentBitVFactory
  by unfold_locales (simp_all add: NonPersistentBitVFactory_def)

subsection \<open>The state\<close>

record 's initializing =
  in_files :: 's
  in_metadata :: torrent_metadata
  in_only_files :: "nat list option"
  in_checked_bytes :: nat
  previously_errored :: bool
  in_id :: nat \<comment> \<open>this and the next two from the shared part of the torrent\<close>
  in_info_hash :: id20
  in_disable_upload :: bool

definition initializing_new ::
  "nat \<Rightarrow> id20 \<Rightarrow> bool \<Rightarrow> torrent_metadata \<Rightarrow> nat list option \<Rightarrow> 's \<Rightarrow> bool \<Rightarrow> 's initializing" where
  "initializing_new tid info_hash disable_upload metadata only_files files errored =
     \<lparr>in_files = files, in_metadata = metadata, in_only_files = only_files, in_checked_bytes = 0,
      previously_errored = errored, in_id = tid, in_info_hash = info_hash, in_disable_upload = disable_upload\<rparr>"

text \<open>What the check uses of its surroundings: the storage back end and SHA-1, the shuffle of the pieces, the
  draws of \<^verbatim>\<open>random_ratio(1, denom)\<close> by their position, the floating point expression of the progress (from
  the total length, the number of pieces to validate and the position) and whether the session is still there.\<close>

record 's init_env =
  ie_pread :: "'s \<Rightarrow> nat \<Rightarrow> nat \<Rightarrow> nat \<Rightarrow> nat list res"
  ie_ensure_file_length :: "'s \<Rightarrow> nat \<Rightarrow> nat \<Rightarrow> 's res"
  ie_take :: "'s \<Rightarrow> ('s \<times> 's) res"
  ie_sha1 :: "nat list \<Rightarrow> nat list"
  ie_shuffle :: "nat list \<Rightarrow> nat list"
  ie_random_ratio :: "nat \<Rightarrow> nat \<Rightarrow> bool"
  ie_progress :: "nat \<Rightarrow> nat \<Rightarrow> nat \<Rightarrow> nat"
  ie_session_alive :: bool

subsection \<open>Fast resume\<close>

definition iter_ones :: "bits \<Rightarrow> nat list" where
  "iter_ones bs = filter (\<lambda>i. bs ! i) [0..<length bs]"

text \<open>One claimed piece of each file: marked to be validated and taken out of the queue of the others.\<close>

fun one_per_file :: "bits \<Rightarrow> file_info list \<Rightarrow> bits \<Rightarrow> bits \<Rightarrow> (bits \<times> bits) res" where
  "one_per_file hp [] to_validate queue = Inr (to_validate, queue)"
| "one_per_file hp (fi # fis) to_validate queue =
     (case bf_get_range hp (fst (piece_range fi)) (snd (piece_range fi)) of
        None \<Rightarrow> one_per_file hp fis to_validate queue
      | Some s \<Rightarrow>
          (case iter_ones s of
             [] \<Rightarrow> one_per_file hp fis to_validate queue
           | pid # _ \<Rightarrow>
               rbind (bf_set to_validate (pid + fst (piece_range fi)) True) (\<lambda>to_validate.
               rbind (bf_set queue (pid + fst (piece_range fi)) False) (\<lambda>queue.
                 one_per_file hp fis to_validate queue))))"

text \<open>The others, with decreasing probability.\<close>

fun sample_rest :: "(nat \<Rightarrow> nat \<Rightarrow> bool) \<Rightarrow> nat \<Rightarrow> nat list \<Rightarrow> bits \<Rightarrow> bits res" where
  "sample_rest random_ratio tmp_id [] to_validate = Inr to_validate"
| "sample_rest random_ratio tmp_id (piece_id # queue) to_validate =
     (if random_ratio tmp_id (min (tmp_id + 1) 50)
      then rbind (bf_set to_validate piece_id True) (sample_rest random_ratio (tmp_id + 1) queue)
      else sample_rest random_ratio (tmp_id + 1) queue to_validate)"

definition pieces_to_validate :: "'s init_env \<Rightarrow> lengths \<Rightarrow> file_info list \<Rightarrow> bits \<Rightarrow> bits res" where
  "pieces_to_validate E l fis hp =
     rbind (one_per_file hp fis (zero_bytes_bf (piece_bitfield_bytes l)) hp) (\<lambda>(to_validate, queue).
       sample_rest (ie_random_ratio E) 0 (ie_shuffle E (iter_ones queue)) to_validate)"

text \<open>The loop that checks them: whether one is broken, and the progress it leaves.\<close>

fun validate_pieces ::
  "(valid_piece_index \<Rightarrow> bool res) \<Rightarrow> (nat \<Rightarrow> nat) \<Rightarrow> nat \<Rightarrow> nat \<Rightarrow> valid_piece_index list \<Rightarrow> nat \<Rightarrow> (bool \<times> nat) res" where
  "validate_pieces check progress total_len i [] checked = Inr (False, checked)"
| "validate_pieces check progress total_len i (p # ps) checked =
     (case check p of
        Inl (Bail _) \<Rightarrow> Inr (True, checked)
      | Inl e \<Rightarrow> Inl e
      | Inr _ \<Rightarrow> validate_pieces check progress total_len (i + 1) ps (min (progress i) total_len))"

definition validate_index :: "lengths \<Rightarrow> nat \<Rightarrow> valid_piece_index option" where
  "validate_index l i = Option.bind (try_u32 i) (validate_piece_index l)"

definition validate_fastresume ::
  "'s init_env \<Rightarrow> 'f bitv_factory \<Rightarrow> 's initializing \<Rightarrow> 'f \<Rightarrow> bits option \<Rightarrow> bits option res \<times> 's initializing \<times> 'f" where
  "validate_fastresume E F st f have_pieces =
     (let l = tm_lengths (in_metadata st); fis = tm_file_infos (in_metadata st)
      in case have_pieces of
           None \<Rightarrow> (Inr None, st, f)
         | Some hp \<Rightarrow>
             if length hp \<noteq> 8 * piece_bitfield_bytes l then \<comment> \<open>a bitfield is whole bytes\<close>
             (Inr None, st, f)
             else
               case rbind (pieces_to_validate E l fis hp) (\<lambda>to_validate.
                      validate_pieces (check_piece (ie_pread E) (ie_sha1 E) (tm_info (in_metadata st)) fis l (in_files st))
                        (ie_progress E (total_length l) (length (iter_ones to_validate))) (total_length l) 0
                        (List.map_filter (validate_index l) (iter_ones to_validate)) (in_checked_bytes st)) of
                 Inl e \<Rightarrow> (Inl e, st, f)
               | Inr (True, _) \<Rightarrow> (Inr None, st\<lparr>in_checked_bytes := 0\<rparr>, snd (bv_clear F f (Id (in_id st))))
               | Inr (False, checked) \<Rightarrow> (Inr (Some hp), st\<lparr>in_checked_bytes := checked\<rparr>, f))"

subsection \<open>The check\<close>

text \<open>The files the torrent wants are brought to their length; a failure is only logged.\<close>

fun ensure_file_lengths ::
  "('s \<Rightarrow> nat \<Rightarrow> nat \<Rightarrow> 's res) \<Rightarrow> nat list option \<Rightarrow> (nat \<times> file_info) list \<Rightarrow> 's \<Rightarrow> 's res" where
  "ensure_file_lengths ensure only_files [] files = Inr files"
| "ensure_file_lengths ensure only_files ((idx, fi) # es) files =
     (if (case only_files of Some v \<Rightarrow> idx \<in> set v | None \<Rightarrow> True) \<and> \<not> padding (fi_attrs fi) then
        case ensure files idx (fi_len fi) of
          Inr files \<Rightarrow> ensure_file_lengths ensure only_files es files
        | Inl (Bail _) \<Rightarrow> ensure_file_lengths ensure only_files es files
        | Inl e \<Rightarrow> Inl e
      else ensure_file_lengths ensure only_files es files)"

text \<open>The stored bitfield, if it is to be looked at.\<close>

definition load_have_pieces ::
  "'f bitv_factory \<Rightarrow> 's initializing \<Rightarrow> 'f \<Rightarrow> bits option res \<times> 'f" where
  "load_have_pieces F st f =
     (if previously_errored st then (Inr None, snd (bv_clear F f (Hash (in_info_hash st))))
      else (bv_load F f (Hash (in_info_hash st)), f))"

definition full_check ::
  "'s init_env \<Rightarrow> 'f bitv_factory \<Rightarrow> 's initializing \<Rightarrow> 'f \<Rightarrow> bits res \<times> 's initializing \<times> 'f" where
  "full_check E F st f =
     (case initial_check (ie_pread E) (ie_sha1 E) (tm_info (in_metadata st)) (tm_file_infos (in_metadata st))
             (tm_lengths (in_metadata st)) (in_files st) (in_checked_bytes st) of
        Inl e \<Rightarrow> (Inl e, st, f)
      | Inr (bf, checked) \<Rightarrow>
          (let r = bv_store_initial_check F f (Hash (in_info_hash st)) bf
           in (fst r, st\<lparr>in_checked_bytes := checked\<rparr>, snd r)))"

definition paused_from ::
  "'s init_env \<Rightarrow> 's initializing \<Rightarrow> bits \<Rightarrow> 's paused_state res \<times> 's initializing" where
  "paused_from E st have_pieces =
     (let l = tm_lengths (in_metadata st); fis = tm_file_infos (in_metadata st)
      in case chunk_tracker_new have_pieces (compute_selected_pieces l (in_only_files st) fis) l fis of
           Inl e \<Rightarrow> (Inl e, st)
         | Inr ct \<Rightarrow>
             (case ensure_file_lengths (ie_ensure_file_length E) (in_only_files st) (List.enumerate 0 fis) (in_files st) of
                Inl e \<Rightarrow> (Inl e, st)
              | Inr files \<Rightarrow>
                  (case ie_take E files of
                     Inl e \<Rightarrow> (Inl e, st\<lparr>in_files := files\<rparr>)
                   | Inr (taken, left) \<Rightarrow>
                       (Inr \<lparr>pa_metadata = in_metadata st, pa_files = taken, pa_chunk_tracker = ct,
                             pa_streams = torrent_streams_default, pa_disable_upload = in_disable_upload st\<rparr>,
                        st\<lparr>in_files := left\<rparr>))))"

definition check_torrent ::
  "'s init_env \<Rightarrow> 'f bitv_factory \<Rightarrow> 's initializing \<Rightarrow> 'f \<Rightarrow> 's paused_state res \<times> 's initializing \<times> 'f" where
  "check_torrent E F st f =
     (if \<not> ie_session_alive E then (Inl (Bail ''session is dead''), st, f)
      else
        case load_have_pieces F st f of
          (Inl e, f) \<Rightarrow> (Inl e, st, f)
        | (Inr have_pieces, f) \<Rightarrow>
            abind (abind (validate_fastresume E F st f have_pieces) (\<lambda>have_pieces (st, f).
                     case have_pieces of
                       Some h \<Rightarrow> (Inr h, st, f)
                     | None \<Rightarrow> full_check E F st f))
              (\<lambda>h (st, f). case paused_from E st h of (r, st) \<Rightarrow> (r, st, f)))"

subsection \<open>What is sampled\<close>

lemma iter_ones_iff [simp]: "i \<in> set (iter_ones bs) \<longleftrightarrow> i < length bs \<and> bs ! i"
  by (auto simp: iter_ones_def)

text \<open>Of every file that claims a piece, a claimed piece is to be validated.\<close>

definition samples_files :: "bits \<Rightarrow> bits \<Rightarrow> file_info list \<Rightarrow> bool" where
  "samples_files hp tv fis \<longleftrightarrow> (\<forall>fi \<in> set fis. \<forall>p.
     fst (piece_range fi) \<le> p \<and> p < snd (piece_range fi) \<and> snd (piece_range fi) \<le> length hp \<and> hp ! p \<longrightarrow>
       (\<exists>p'. fst (piece_range fi) \<le> p' \<and> p' < snd (piece_range fi) \<and> hp ! p' \<and> tv ! p'))"

lemma samples_files_mono:
  "samples_files hp tv fis \<Longrightarrow> (\<And>i. i < length hp \<Longrightarrow> tv ! i \<Longrightarrow> tv' ! i) \<Longrightarrow> samples_files hp tv' fis"
  unfolding samples_files_def by (meson less_le_trans)

lemma one_per_file_ok:
  assumes "length tv = length hp" "length q = length hp"
  shows "\<exists>tv' q'. one_per_file hp fis tv q = Inr (tv', q') \<and> length tv' = length hp \<and> length q' = length hp \<and>
    (\<forall>i < length hp. (tv ! i \<longrightarrow> tv' ! i) \<and> (tv' ! i \<longrightarrow> tv ! i \<or> hp ! i) \<and> (q' ! i \<longrightarrow> q ! i)) \<and>
    samples_files hp tv' fis"
  using assms
proof (induction fis arbitrary: tv q)
  case Nil
  then show ?case by (simp add: samples_files_def)
next
  case (Cons fi fis)
  let ?a = "fst (piece_range fi)" and ?b = "snd (piece_range fi)"
  show ?case
  proof (cases "?a \<le> ?b \<and> ?b \<le> length hp \<and> iter_ones (take (?b - ?a) (drop ?a hp)) \<noteq> []")
    case True
    then obtain x xs where x: "iter_ones (take (?b - ?a) (drop ?a hp)) = x # xs" by (cases "iter_ones (take (?b - ?a) (drop ?a hp))") auto
    then have "x \<in> set (iter_ones (take (?b - ?a) (drop ?a hp)))" by simp
    then have xb: "x + ?a < ?b" "hp ! (x + ?a)" using True by (auto simp: add.commute)
    then have xl: "x + ?a < length hp" using True by linarith
    obtain tv' q' where IH: "one_per_file hp fis (tv[x + ?a := True]) (q[x + ?a := False]) = Inr (tv', q')"
        "length tv' = length hp" "length q' = length hp"
        "\<forall>i < length hp. (tv[x + ?a := True] ! i \<longrightarrow> tv' ! i) \<and> (tv' ! i \<longrightarrow> tv[x + ?a := True] ! i \<or> hp ! i) \<and> (q' ! i \<longrightarrow> q[x + ?a := False] ! i)"
        "samples_files hp tv' fis"
      using Cons.IH [of "tv[x + ?a := True]" "q[x + ?a := False]"] Cons.prems by auto
    have "tv' ! (x + ?a)" using IH(4) xl Cons.prems by simp
    moreover have "one_per_file hp (fi # fis) tv q = Inr (tv', q')"
      using True x xl IH(1) Cons.prems by (simp add: bf_get_range_def bf_set_def)
    moreover have "\<forall>i < length hp. (tv ! i \<longrightarrow> tv' ! i) \<and> (tv' ! i \<longrightarrow> tv ! i \<or> hp ! i) \<and> (q' ! i \<longrightarrow> q ! i)"
    proof (intro allI impI)
      fix i
      assume "i < length hp"
      then show "(tv ! i \<longrightarrow> tv' ! i) \<and> (tv' ! i \<longrightarrow> tv ! i \<or> hp ! i) \<and> (q' ! i \<longrightarrow> q ! i)"
        using IH(4) [rule_format, of i] xb Cons.prems by (cases "i = x + ?a") auto
    qed
    moreover have "\<exists>p'. ?a \<le> p' \<and> p' < ?b \<and> hp ! p' \<and> tv' ! p'"
      using \<open>tv' ! (x + ?a)\<close> xb by (intro exI [of _ "x + ?a"]) simp
    then have "samples_files hp tv' (fi # fis)" using IH(5) unfolding samples_files_def by auto
    ultimately show ?thesis using IH(2,3) by blast
  next
    case False
    have none: "\<not> (?a \<le> p \<and> p < ?b \<and> ?b \<le> length hp \<and> hp ! p)" for p
    proof
      assume p: "?a \<le> p \<and> p < ?b \<and> ?b \<le> length hp \<and> hp ! p"
      then have "p - ?a \<in> set (iter_ones (take (?b - ?a) (drop ?a hp)))" by (auto simp: less_diff_conv2)
      moreover have "iter_ones (take (?b - ?a) (drop ?a hp)) = []" using False p by auto
      ultimately show False by (simp del: iter_ones_iff)
    qed
    have "one_per_file hp (fi # fis) tv q = one_per_file hp fis tv q"
      using False by (auto simp: bf_get_range_def split: option.split list.split)
    moreover have "samples_files hp tv' (fi # fis) = samples_files hp tv' fis" for tv'
      unfolding samples_files_def using none by auto
    ultimately show ?thesis using Cons.IH [OF Cons.prems] by simp
  qed
qed

lemma sample_rest_ok:
  "\<forall>p \<in> set q. p < length tv \<Longrightarrow> \<exists>tv'. sample_rest R k q tv = Inr tv' \<and> length tv' = length tv \<and>
     (\<forall>i < length tv. (tv ! i \<longrightarrow> tv' ! i) \<and> (tv' ! i \<longrightarrow> tv ! i \<or> i \<in> set q))"
proof (induction q arbitrary: k tv)
  case Nil
  then show ?case by simp
next
  case (Cons p q)
  show ?case
  proof (cases "R k (min (k + 1) 50)")
    case True
    then obtain tv' where "sample_rest R (k + 1) q (tv[p := True]) = Inr tv'" "length tv' = length tv"
        "\<forall>i < length tv. (tv[p := True] ! i \<longrightarrow> tv' ! i) \<and> (tv' ! i \<longrightarrow> tv[p := True] ! i \<or> i \<in> set q)"
      using Cons.IH [of "tv[p := True]" "k + 1"] Cons.prems by auto
    then show ?thesis using True Cons.prems
      by (intro exI [of _ tv']) (auto simp: bf_set_def nth_list_update split: if_splits)
  next
    case False
    then show ?thesis using Cons.IH [of tv "k + 1"] Cons.prems by auto
  qed
qed

text \<open>The pieces that are looked at: claimed ones only, and one at least of every file that claims any.\<close>

lemma pieces_to_validate_ok:
  assumes "length hp = 8 * piece_bitfield_bytes l" "\<And>xs. mset (ie_shuffle E xs) = mset xs"
  shows "\<exists>tv. pieces_to_validate E l fis hp = Inr tv \<and> length tv = length hp \<and> (\<forall>i < length hp. tv ! i \<longrightarrow> hp ! i) \<and>
    samples_files hp tv fis"
proof -
  let ?z = "zero_bytes_bf (piece_bitfield_bytes l)"
  have z: "length ?z = length hp" "\<And>i. i < length hp \<Longrightarrow> \<not> ?z ! i" using assms(1) by (simp_all add: zero_bytes_bf_def)
  obtain tv q where o: "one_per_file hp fis ?z hp = Inr (tv, q)" "length tv = length hp" "length q = length hp"
      "\<forall>i < length hp. (tv ! i \<longrightarrow> ?z ! i \<or> hp ! i) \<and> (q ! i \<longrightarrow> hp ! i)"
      "samples_files hp tv fis"
    using one_per_file_ok [OF z(1), of hp fis] by blast
  have sh: "set (ie_shuffle E xs) = set xs" for xs using assms(2) by (rule mset_eq_setD)
  obtain tv' where s: "sample_rest (ie_random_ratio E) 0 (ie_shuffle E (iter_ones q)) tv = Inr tv'" "length tv' = length tv"
      "\<forall>i < length tv. (tv ! i \<longrightarrow> tv' ! i) \<and> (tv' ! i \<longrightarrow> tv ! i \<or> i \<in> set (iter_ones q))"
    using sample_rest_ok [of "ie_shuffle E (iter_ones q)" tv "ie_random_ratio E" 0] o(2,3) by (auto simp: sh)
  have "\<forall>i < length hp. tv' ! i \<longrightarrow> hp ! i" using s(3) o(2-4) z(2) by (auto simp: sh)
  moreover have "pieces_to_validate E l fis hp = Inr tv'" using o(1) s(1) by (simp add: pieces_to_validate_def)
  moreover have "samples_files hp tv' fis" using samples_files_mono [OF o(5)] s(3) o(2) by simp
  ultimately show ?thesis using s(2) o(2) by auto
qed

subsection \<open>The verdict on a stored bitfield\<close>

definition fails_softly :: "nat \<Rightarrow> (valid_piece_index \<Rightarrow> bool res) \<Rightarrow> bool" where
  "fails_softly m check \<longleftrightarrow> (\<forall>p < m. \<forall>e. check p = Inl e \<longrightarrow> (\<exists>s. e = Bail s))"

lemma validate_pieces_ok:
  assumes "fails_softly m check" "checked \<le> n" "\<forall>p \<in> set ps. p < m"
  shows "\<exists>c \<le> n. validate_pieces check pr n i ps checked = Inr (\<exists>p \<in> set ps. \<not> is_ok (check p), c)"
  using assms(2,3)
proof (induction ps arbitrary: i checked)
  case Nil
  then show ?case by simp
next
  case (Cons p ps)
  then show ?case
  proof (cases "check p")
    case (Inl e)
    then obtain s where "e = Bail s" using assms(1) Cons.prems(2) by (auto simp: fails_softly_def)
    then show ?thesis using Inl Cons.prems by (auto simp: is_ok_def)
  next
    case (Inr b)
    then show ?thesis using Cons.IH [of "min (pr i) n" "i + 1"] Cons.prems(2) by (auto simp: is_ok_def)
  qed
qed

lemma validate_index_Some: "wf_lengths l \<Longrightarrow> validate_index l i = Some p \<longleftrightarrow> i = p \<and> i < total_pieces l"
  using piece_index_u32 [of l p]
  by (auto simp: validate_index_def validate_piece_index_def try_u32_def bind_eq_Some_conv less_total_pieces_iff split: if_splits)

lemma map_filter_iff: "y \<in> set (List.map_filter g xs) \<longleftrightarrow> (\<exists>x \<in> set xs. g x = Some y)"
  by (induction xs) (auto simp: List.map_filter_simps split: option.splits)

text \<open>C39: a bitfield stored by an earlier run is ignored when it has the wrong length. Otherwise pieces are
  sampled, claimed ones only and at least one of every file that claims any; the stored bitfield is
  believed exactly when every sampled piece can be read, and cleared if one cannot. The progress never
  exceeds the length of the torrent.\<close>

theorem validate_fastresume_spec:
  fixes E :: "'s init_env" and st :: "'s initializing"
  defines "l \<equiv> tm_lengths (in_metadata st)" and "fis \<equiv> tm_file_infos (in_metadata st)"
  defines "chk \<equiv> check_piece (ie_pread E) (ie_sha1 E) (tm_info (in_metadata st)) fis l (in_files st)"
  assumes wf: "wf_lengths l" and sh: "\<And>xs. mset (ie_shuffle E xs) = mset xs" and soft: "fails_softly (total_pieces l) chk"
    and c: "in_checked_bytes st \<le> total_length l"
  shows "if length hp \<noteq> 8 * piece_bitfield_bytes l then validate_fastresume E F st f (Some hp) = (Inr None, st, f)
    else \<exists>sampled checked. (\<forall>p < length hp. sampled ! p \<longrightarrow> hp ! p) \<and> samples_files hp sampled fis \<and> checked \<le> total_length l \<and>
      validate_fastresume E F st f (Some hp) =
        (if \<forall>p < total_pieces l. sampled ! p \<longrightarrow> is_ok (chk p) then (Inr (Some hp), st\<lparr>in_checked_bytes := checked\<rparr>, f)
         else (Inr None, st\<lparr>in_checked_bytes := 0\<rparr>, snd (bv_clear F f (Id (in_id st)))))"
proof (cases "length hp = 8 * piece_bitfield_bytes l")
  case False
  then show ?thesis by (simp add: validate_fastresume_def l_def Let_def)
next
  case True
  obtain tv where tv: "pieces_to_validate E l fis hp = Inr tv" "length tv = length hp" "\<forall>i < length hp. tv ! i \<longrightarrow> hp ! i"
      "samples_files hp tv fis" using pieces_to_validate_ok [OF True sh] by blast
  let ?ps = "List.map_filter (validate_index l) (iter_ones tv)"
  have "total_pieces l \<le> length tv" using total_pieces_le_bits [of l] True tv(2) by simp
  then have ps: "p \<in> set ?ps \<longleftrightarrow> p < total_pieces l \<and> tv ! p" for p
    by (auto simp: map_filter_iff validate_index_Some [OF wf])
  obtain ch where ch: "ch \<le> total_length l" "validate_pieces chk (ie_progress E (total_length l) (length (iter_ones tv))) (total_length l) 0 ?ps
      (in_checked_bytes st) = Inr (\<exists>p \<in> set ?ps. \<not> is_ok (chk p), ch)"
    using validate_pieces_ok [OF soft c, of ?ps] ps by blast
  have "(\<exists>p \<in> set ?ps. \<not> is_ok (chk p)) = (\<not> (\<forall>p < total_pieces l. tv ! p \<longrightarrow> is_ok (chk p)))" using ps by auto
  then have "validate_fastresume E F st f (Some hp) =
        (if \<forall>p < total_pieces l. tv ! p \<longrightarrow> is_ok (chk p) then (Inr (Some hp), st\<lparr>in_checked_bytes := ch\<rparr>, f)
         else (Inr None, st\<lparr>in_checked_bytes := 0\<rparr>, snd (bv_clear F f (Id (in_id st)))))"
    using True tv(1) ch(2) unfolding validate_fastresume_def Let_def l_def fis_def chk_def
    by (cases "\<forall>p < total_pieces (tm_lengths (in_metadata st)). tv ! p \<longrightarrow> is_ok (check_piece (ie_pread E) (ie_sha1 E) (tm_info (in_metadata st))
          (tm_file_infos (in_metadata st)) (tm_lengths (in_metadata st)) (in_files st) p)") simp_all
  then show ?thesis using True tv(3,4) ch(1) by auto
qed

text \<open>Example: the data on disk does not have the hashes of the torrent, but a stored bitfield claims all of it.
  Its sampled pieces can be read, so it is believed.\<close>

definition ex_init_env :: "filesystem_storage init_env" where
  "ex_init_env = \<lparr>ie_pread = fs_pread_exact, ie_ensure_file_length = fs_ensure_file_length, ie_take = (\<lambda>s. Inr (fs_take s)),
     ie_sha1 = (\<lambda>_. replicate 20 1), ie_shuffle = (\<lambda>xs. xs), ie_random_ratio = (\<lambda>_ d. d = 1),
     ie_progress = (\<lambda>t n i. t div n * (i + 1)), ie_session_alive = True\<rparr>"

definition ex_initializing :: "filesystem_storage initializing" where
  "ex_initializing = initializing_new 1 (replicate 20 7) False ex_metadata (Some [2]) ex_storage False"

lemma ex_check_piece:
  assumes "p < 3"
  shows "check_piece fs_pread_exact (\<lambda>_. h) ex_info ex_files ex_lengths ex_storage p = Inr (h = replicate 20 0)"
proof -
  have "\<And>j. j < piece_length ex_lengths p \<Longrightarrow> fs_tb ex_lengths ex_files ex_storage (piece_offset ex_lengths p + j) \<noteq> None"
    using piece_span(1) [OF ex_lengths_wf, of p] assms ex_storage_full by simp
  moreover have "get_hash ex_info p = Some (replicate 20 0)" using assms by (auto simp: get_hash_def ex_info_def less_Suc_eq numeral_3_eq_3)
  ultimately show ?thesis
    using filesystem.check_piece_correct [OF ex_lengths_wf ex_files_wf ex_storage_inv, of p "\<lambda>_. h" ex_info] assms
    by (auto simp: compare_hash_def of_option_def)
qed

theorem validate_fastresume_spec_witness:
  "\<exists>st. validate_fastresume ex_init_env NonPersistentBitVFactory ex_initializing () (Some [True, True, True, False, False, False, False, False]) =
      (Inr (Some [True, True, True, False, False, False, False, False]), st, ()) \<and>
    check_piece fs_pread_exact (ie_sha1 ex_init_env) ex_info ex_files ex_lengths ex_storage 0 = Inr False"
proof -
  let ?hp = "[True, True, True, False, False, False, False, False]"
  let ?chk = "check_piece fs_pread_exact (\<lambda>_. replicate 20 1) ex_info ex_files ex_lengths ex_storage"
  have r: "?chk p = Inr False" if "p < 3" for p
    using ex_check_piece [OF that, of "replicate 20 1"] by (simp add: numeral_eq_Suc)
  have s: "in_metadata ex_initializing = ex_metadata" "in_files ex_initializing = ex_storage" "in_checked_bytes ex_initializing = 0"
    "tm_lengths ex_metadata = ex_lengths" "tm_file_infos ex_metadata = ex_files" "tm_info ex_metadata = ex_info"
    "ie_pread ex_init_env = fs_pread_exact" "ie_sha1 ex_init_env = (\<lambda>_. replicate 20 1)"
    by (simp_all add: ex_initializing_def initializing_new_def ex_metadata_def ex_init_env_def)
  have "fails_softly (total_pieces ex_lengths) ?chk" using r by (simp add: fails_softly_def)
  moreover have "\<And>xs. mset (ie_shuffle ex_init_env xs) = mset xs" by (simp add: ex_init_env_def)
  moreover have "length ?hp = 8 * piece_bitfield_bytes ex_lengths" by (simp add: ex_bits)
  moreover have "\<forall>p < total_pieces ex_lengths. sampled ! p \<longrightarrow> is_ok (?chk p)" for sampled using r by (simp add: is_ok_def)
  ultimately show ?thesis
    using validate_fastresume_spec [of ex_initializing ex_init_env ?hp NonPersistentBitVFactory "()"] ex_lengths_wf r
    unfolding s by auto
qed

subsection \<open>The files are brought to their length\<close>

definition resized :: "nat \<Rightarrow> opened_file \<Rightarrow> opened_file" where
  "resized n c = map_option (\<lambda>c. take n c @ replicate (n - length c) 0) c"

lemma resized_resized [simp]: "resized n (resized n c) = resized n c"
  by (cases c) (auto simp: resized_def)

lemma resized_None [simp]: "resized n c = None \<longleftrightarrow> c = None"
  by (simp add: resized_def)

abbreviation wants_file :: "nat list option \<Rightarrow> nat \<Rightarrow> bool" where
  "wants_file only i \<equiv> case only of Some v \<Rightarrow> i \<in> set v | None \<Rightarrow> True"

lemma fs_ensure_file_lengths:
  assumes "fs_inv l fis s" "\<forall>(i, fi) \<in> set es. i < length fis \<and> fi = fis ! i"
  shows "\<exists>s'. ensure_file_lengths fs_ensure_file_length only es s = Inr s' \<and> fs_inv l fis s' \<and>
    (\<forall>i < length fis. opened_files s' ! i =
       (if i \<in> fst ` set es \<and> wants_file only i then resized (fi_len (fis ! i)) (opened_files s ! i) else opened_files s ! i))"
  using assms
proof (induction es arbitrary: s)
  case Nil
  then show ?case by simp
next
  case (Cons e es)
  obtain i fi where e: "e = (i, fi)" "i < length fis" "fi = fis ! i" using Cons.prems by (cases e) auto
  have es: "\<forall>(i, fi) \<in> set es. i < length fis \<and> fi = fis ! i" using Cons.prems(2) by simp
  show ?case
  proof (cases "wants_file only i \<and> \<not> padding (fi_attrs fi)")
    case True
    obtain c where c: "opened_files s ! i = Some c" using Cons.prems(1) e True by (auto simp: fs_inv_def)
    let ?s1 = "s\<lparr>opened_files := (opened_files s)[i := resized (fi_len fi) (Some c)]\<rparr>"
    have inv: "fs_inv l fis ?s1" using Cons.prems(1) c e by (auto simp: fs_inv_def nth_list_update split: if_splits)
    have len: "length (opened_files s) = length fis" using Cons.prems(1) by (simp add: fs_inv_def)
    obtain s' where s': "ensure_file_lengths fs_ensure_file_length only es ?s1 = Inr s'" "fs_inv l fis s'"
      "\<forall>j < length fis. opened_files s' ! j =
         (if j \<in> fst ` set es \<and> wants_file only j then resized (fi_len (fis ! j)) (opened_files ?s1 ! j) else opened_files ?s1 ! j)"
      using Cons.IH [OF inv es] by blast
    have "fs_ensure_file_length s i (fi_len fi) = Inr ?s1"
      using e c len by (simp add: fs_ensure_file_length_def of_option_def resized_def)
    then have "ensure_file_lengths fs_ensure_file_length only (e # es) s = Inr s'" using True e s'(1) by simp
    moreover have "opened_files s' ! j = (if j \<in> fst ` set (e # es) \<and> wants_file only j
        then resized (fi_len (fis ! j)) (opened_files s ! j) else opened_files s ! j)" if "j < length fis" for j
      using s'(3) that e c len True by (cases "j = i") auto
    ultimately show ?thesis using s'(2) by blast
  next
    case False
    have "opened_files s ! i = None" if "wants_file only i" using that False Cons.prems(1) e by (auto simp: fs_inv_def)
    moreover have "ensure_file_lengths fs_ensure_file_length only (e # es) s = ensure_file_lengths fs_ensure_file_length only es s"
      by (simp only: e(1) ensure_file_lengths.simps False if_False)
    ultimately show ?thesis using Cons.IH [OF Cons.prems(1) es] e by (auto simp: resized_def)
  qed
qed

text \<open>A byte that could be read before reads the same.\<close>

lemma fs_tb_resized:
  assumes wf: "wf_lengths l" "wf_file_infos l fis" and y: "fs_tb l fis s y \<noteq> None"
    and s': "\<And>i. i < length fis \<Longrightarrow> opened_files s' ! i = opened_files s ! i \<or> opened_files s' ! i = resized (fi_len (fis ! i)) (opened_files s ! i)"
  shows "fs_tb l fis s' y = fs_tb l fis s y"
proof -
  obtain i where o: "owner fis y = Some i" using y by (auto simp: fs_tb_def split: option.splits)
  then have i: "i < length fis" "offset_in_torrent (fis ! i) \<le> y" "y < offset_in_torrent (fis ! i) + fi_len (fis ! i)"
    by (auto simp: owner_def find_Some_iff)
  show ?thesis
  proof (cases "opened_files s ! i")
    case None
    then have "opened_files s' ! i = None" using s' [OF i(1)] by auto
    then show ?thesis using None o by (simp add: fs_tb_def)
  next
    case (Some c)
    then have "y - offset_in_torrent (fis ! i) < length c" using y o by (auto simp: fs_tb_def Let_def split: if_splits)
    then show ?thesis using s' [OF i(1)] Some o i by (auto simp: fs_tb_def Let_def resized_def nth_append)
  qed
qed

subsection \<open>The paused torrent\<close>

lemma paused_from_fs:
  fixes E :: "filesystem_storage init_env" and st :: "filesystem_storage initializing"
  defines "l \<equiv> tm_lengths (in_metadata st)" and "fis \<equiv> tm_file_infos (in_metadata st)"
  assumes wf: "wf_lengths l" "wf_file_infos l fis" and inv: "fs_inv l fis (in_files st)"
    and E: "ie_ensure_file_length E = fs_ensure_file_length" "ie_take E = (\<lambda>s. Inr (fs_take s))"
    and hv: "length hv = 8 * piece_bitfield_bytes l"
  shows "\<exists>pa st'. paused_from E st hv = (Inr pa, st') \<and> paused_ok pa \<and> pa_metadata pa = in_metadata st \<and>
    pa_streams pa = torrent_streams_default \<and> ct_have (pa_chunk_tracker pa) = hv \<and>
    selected (pa_chunk_tracker pa) = compute_selected_pieces l (in_only_files st) fis \<and>
    (\<forall>p < total_pieces l. queue_pieces (pa_chunk_tracker pa) ! p \<longleftrightarrow> selected (pa_chunk_tracker pa) ! p \<and> \<not> hv ! p) \<and>
    fs_inv l fis (pa_files pa) \<and>
    (\<forall>i < length fis. opened_files (pa_files pa) ! i =
       (if wants_file (in_only_files st) i then resized (fi_len (fis ! i)) (opened_files (in_files st) ! i) else opened_files (in_files st) ! i))"
proof -
  have sel: "length (compute_selected_pieces l (in_only_files st) fis) = 8 * piece_bitfield_bytes l"
    by (rule compute_selected_pieces_nth(1) [OF wf])
  obtain ct where ct: "chunk_tracker_new hv (compute_selected_pieces l (in_only_files st) fis) l fis = Inr ct" "ct_inv ct" "pfb_inv ct fis"
      "ct_have ct = hv" "selected ct = compute_selected_pieces l (in_only_files st) fis" "ct_lengths ct = l"
      "\<forall>p < total_pieces l. queue_pieces ct ! p \<longleftrightarrow> selected ct ! p \<and> \<not> hv ! p"
    using chunk_tracker_new_ok [OF wf hv sel] by auto
  have en: "\<forall>(i, fi) \<in> set (List.enumerate 0 fis). i < length fis \<and> fi = fis ! i" by (auto simp: in_set_enumerate_eq)
  have dom: "i \<in> fst ` set (List.enumerate 0 fis) \<longleftrightarrow> i < length fis" for i by (simp flip: set_map)
  obtain s' where s': "ensure_file_lengths fs_ensure_file_length (in_only_files st) (List.enumerate 0 fis) (in_files st) = Inr s'"
      "fs_inv l fis s'" "\<forall>i < length fis. opened_files s' ! i =
       (if wants_file (in_only_files st) i then resized (fi_len (fis ! i)) (opened_files (in_files st) ! i) else opened_files (in_files st) ! i)"
    using fs_ensure_file_lengths [OF inv en, of "in_only_files st"] dom by auto
  let ?pa = "\<lparr>pa_metadata = in_metadata st, pa_files = s', pa_chunk_tracker = ct, pa_streams = torrent_streams_default,
      pa_disable_upload = in_disable_upload st\<rparr>"
  have "paused_from E st hv = (Inr ?pa, st\<lparr>in_files := snd (fs_take s')\<rparr>)"
    using ct(1) s'(1) E unfolding l_def fis_def by (simp add: paused_from_def Let_def fs_take_def)
  moreover have "length (per_file_bytes ct) = length fis" using ct(3) by (simp add: pfb_inv_def)
  then have "paused_ok ?pa" using wf ct(2,6)
    by (simp add: paused_ok_def Let_def tracker_ok_def l_def fis_def streamed_file_ids_def torrent_streams_default_def)
  ultimately show ?thesis using ct s' by simp
qed

text \<open>The paths on which nothing stored is believed.\<close>

definition nothing_stored :: "'f bitv_factory \<Rightarrow> 's initializing \<Rightarrow> 'f \<Rightarrow> bool" where
  "nothing_stored F st f \<longleftrightarrow> previously_errored st \<or>
     (case bv_load F f (Hash (in_info_hash st)) of
        Inl _ \<Rightarrow> False
      | Inr None \<Rightarrow> True
      | Inr (Some hp) \<Rightarrow> length hp \<noteq> 8 * piece_bitfield_bytes (tm_lengths (in_metadata st)))"

lemma check_torrent_unstored:
  assumes "ie_session_alive E" "nothing_stored F st f"
  shows "\<exists>f'. check_torrent E F st f =
    abind (full_check E F st f') (\<lambda>h (st, f). case paused_from E st h of (r, st) \<Rightarrow> (r, st, f))"
proof (cases "previously_errored st")
  case True
  then show ?thesis using assms(1)
    by (auto simp: check_torrent_def load_have_pieces_def validate_fastresume_def Let_def abind_def)
next
  case False
  then obtain hp where "bv_load F f (Hash (in_info_hash st)) = Inr hp"
    "hp = None \<or> (\<exists>h. hp = Some h \<and> length h \<noteq> 8 * piece_bitfield_bytes (tm_lengths (in_metadata st)))"
    using assms(2) by (auto simp: nothing_stored_def split: sum.splits option.splits)
  then have "validate_fastresume E F st f hp = (Inr None, st, f)" "load_have_pieces F st f = (Inr hp, f)"
    using False by (auto simp: validate_fastresume_def load_have_pieces_def Let_def)
  then show ?thesis using assms(1) by (intro exI [of _ f]) (simp add: check_torrent_def)
qed

text \<open>The check of a piece depends on the stored bytes only.\<close>

lemma check_piece_same_bytes:
  assumes wf: "wf_lengths l" "wf_file_infos l fis" and inv: "fs_inv l fis s" "fs_inv l fis s'" and p: "p < total_pieces l"
    and some: "\<forall>y < total_length l. fs_tb l fis s y \<noteq> None" and same: "\<And>y. y < total_length l \<Longrightarrow> fs_tb l fis s' y = fs_tb l fis s y"
  shows "check_piece fs_pread_exact sha1 info fis l s' p = check_piece fs_pread_exact sha1 info fis l s p"
proof -
  have y: "piece_offset l p + j < total_length l" if "j < piece_length l p" for j
    using piece_span(1) [OF wf(1) p] that by linarith
  then have "seen_bytes fis (fs_tb l fis s') (piece_offset l p) (piece_length l p) =
      seen_bytes fis (fs_tb l fis s) (piece_offset l p) (piece_length l p)"
    by (auto simp: seen_bytes_def seen_def same split: option.split)
  then show ?thesis
    using filesystem.check_piece_correct [OF wf inv(1) p] filesystem.check_piece_correct [OF wf inv(2) p] some y same by simp
qed

text \<open>C16: when no stored bitfield is believed, because the torrent failed before, nothing is stored, or what is
  stored has the wrong length, all the data is checked, and the check of a torrent in the file system whose
  files can be read ends in a consistent paused torrent: it has exactly the pieces whose data passes the
  hash check (and still does in the files it is handed), selects the pieces of the wanted files, queues the
  selected pieces it lacks, has every wanted file at its length and no streams.\<close>

theorem check_torrent_exact:
  fixes E :: "filesystem_storage init_env" and st :: "filesystem_storage initializing" and F :: "'f bitv_factory"
  defines "l \<equiv> tm_lengths (in_metadata st)" and "fis \<equiv> tm_file_infos (in_metadata st)" and "info \<equiv> tm_info (in_metadata st)"
  assumes wf: "wf_lengths l" "wf_file_infos l fis" and inv: "fs_inv l fis (in_files st)"
    and some: "\<forall>j < total_length l. fs_tb l fis (in_files st) j \<noteq> None" and hashes: "\<forall>p < total_pieces l. get_hash info p \<noteq> None"
    and E: "ie_pread E = fs_pread_exact" "ie_ensure_file_length E = fs_ensure_file_length" "ie_take E = (\<lambda>s. Inr (fs_take s))"
    and alive: "ie_session_alive E" and stored: "nothing_stored F st f"
    and store: "\<forall>f b. \<exists>f'. bv_store_initial_check F f (Hash (in_info_hash st)) b = (Inr b, f')"
  shows "\<exists>pa st' f'. check_torrent E F st f = (Inr pa, st', f') \<and> paused_ok pa \<and> pa_streams pa = torrent_streams_default \<and>
    (\<forall>p < total_pieces l.
       (ct_have (pa_chunk_tracker pa) ! p \<longleftrightarrow> check_piece fs_pread_exact (ie_sha1 E) info fis l (pa_files pa) p = Inr True) \<and>
       (selected (pa_chunk_tracker pa) ! p \<longleftrightarrow>
          (\<exists>i < length fis. wants_file (in_only_files st) i \<and> fst (piece_range (fis ! i)) \<le> p \<and> p < snd (piece_range (fis ! i)))) \<and>
       (queue_pieces (pa_chunk_tracker pa) ! p \<longleftrightarrow> selected (pa_chunk_tracker pa) ! p \<and> \<not> ct_have (pa_chunk_tracker pa) ! p)) \<and>
    (\<forall>i < length fis. wants_file (in_only_files st) i \<and> \<not> padding (fi_attrs (fis ! i)) \<longrightarrow>
       map_option length (opened_files (pa_files pa) ! i) = Some (fi_len (fis ! i)))"
proof -
  obtain f1 where c: "check_torrent E F st f =
      abind (full_check E F st f1) (\<lambda>h (st, f). case paused_from E st h of (r, st) \<Rightarrow> (r, st, f))"
    using check_torrent_unstored [OF alive stored] by blast
  obtain bf pr where bf: "initial_check fs_pread_exact (ie_sha1 E) info fis l (in_files st) (in_checked_bytes st) = Inr (bf, pr)"
      "length bf = 8 * piece_bitfield_bytes l"
      "\<forall>p < length bf. bf ! p \<longleftrightarrow> p < total_pieces l \<and> check_piece fs_pread_exact (ie_sha1 E) info fis l (in_files st) p = Inr True"
    using filesystem.initial_check_correct [OF wf inv, of info "ie_sha1 E" "in_checked_bytes st"] some hashes by blast
  let ?st1 = "st\<lparr>in_checked_bytes := pr\<rparr>"
  obtain f2 where "bv_store_initial_check F f1 (Hash (in_info_hash st)) bf = (Inr bf, f2)" using store by blast
  then have fc: "full_check E F st f1 = (Inr bf, ?st1, f2)"
    using bf(1) E(1) unfolding l_def fis_def info_def by (simp add: full_check_def Let_def)
  obtain pa st' where pa: "paused_from E ?st1 bf = (Inr pa, st')" "paused_ok pa" "pa_streams pa = torrent_streams_default"
      "ct_have (pa_chunk_tracker pa) = bf" "selected (pa_chunk_tracker pa) = compute_selected_pieces l (in_only_files st) fis"
      "\<forall>p < total_pieces l. queue_pieces (pa_chunk_tracker pa) ! p \<longleftrightarrow> selected (pa_chunk_tracker pa) ! p \<and> \<not> bf ! p"
      "fs_inv l fis (pa_files pa)"
      "\<forall>i < length fis. opened_files (pa_files pa) ! i = (if wants_file (in_only_files st) i
         then resized (fi_len (fis ! i)) (opened_files (in_files st) ! i) else opened_files (in_files st) ! i)"
    using paused_from_fs [of ?st1 E bf] wf inv E bf(2) unfolding l_def fis_def by auto
  have tb: "fs_tb l fis (pa_files pa) y = fs_tb l fis (in_files st) y" if "y < total_length l" for y
    using fs_tb_resized [OF wf, of "in_files st" y "pa_files pa"] some that pa(8) by auto
  have same: "check_piece fs_pread_exact (ie_sha1 E) info fis l (pa_files pa) p = check_piece fs_pread_exact (ie_sha1 E) info fis l (in_files st) p"
    if p: "p < total_pieces l" for p
    using check_piece_same_bytes [OF wf inv pa(7) p some] tb by blast
  have sel: "compute_selected_pieces l (in_only_files st) fis ! p \<longleftrightarrow>
      (\<exists>i < length fis. wants_file (in_only_files st) i \<and> fst (piece_range (fis ! i)) \<le> p \<and> p < snd (piece_range (fis ! i)))"
    if "p < total_pieces l" for p
    using compute_selected_pieces_nth(2) [OF wf, of p "in_only_files st"] that total_pieces_le_bits [of l] by simp
  have "map_option length (opened_files (pa_files pa) ! i) = Some (fi_len (fis ! i))"
    if "i < length fis" "wants_file (in_only_files st) i" "\<not> padding (fi_attrs (fis ! i))" for i
  proof -
    have "opened_files (in_files st) ! i \<noteq> None" using inv that by (simp add: fs_inv_def)
    then show ?thesis using pa(8) that by (auto simp: resized_def)
  qed
  then show ?thesis
    using c fc pa(1-6) same sel bf(2,3) total_pieces_le_bits [of l]
    by (intro exI [of _ pa] exI [of _ st'] exI [of _ f2]) auto
qed

text \<open>The example torrent, of which only the last file is wanted, with data that has the right hashes.\<close>

theorem check_torrent_exact_witness:
  "\<exists>pa st'. check_torrent (ex_init_env\<lparr>ie_sha1 := \<lambda>_. replicate 20 0\<rparr>) NonPersistentBitVFactory ex_initializing () = (Inr pa, st', ()) \<and>
     paused_ok pa \<and> selected (pa_chunk_tracker pa) ! 2 \<and> (queue_pieces (pa_chunk_tracker pa) ! 2 \<longleftrightarrow> \<not> ct_have (pa_chunk_tracker pa) ! 2)"
proof -
  let ?E = "ex_init_env\<lparr>ie_sha1 := \<lambda>_. replicate 20 0\<rparr>"
  have s: "in_metadata ex_initializing = ex_metadata" "in_files ex_initializing = ex_storage" "in_only_files ex_initializing = Some [2]"
    "tm_lengths ex_metadata = ex_lengths" "tm_file_infos ex_metadata = ex_files" "tm_info ex_metadata = ex_info"
    "ie_sha1 ?E = (\<lambda>_. replicate 20 0)"
    by (simp_all add: ex_initializing_def initializing_new_def ex_metadata_def)
  have "nothing_stored NonPersistentBitVFactory ex_initializing ()" by (simp add: nothing_stored_def NonPersistentBitVFactory_def)
  moreover have "\<forall>p < total_pieces ex_lengths. get_hash ex_info p \<noteq> None" by (auto simp: get_hash_def ex_info_def Let_def)
  moreover have "\<forall>f b. \<exists>f'. bv_store_initial_check NonPersistentBitVFactory f (Hash (in_info_hash ex_initializing)) b = (Inr b, f')"
    by (simp add: NonPersistentBitVFactory_def)
  moreover have "ie_pread ?E = fs_pread_exact" "ie_ensure_file_length ?E = fs_ensure_file_length" "ie_take ?E = (\<lambda>s. Inr (fs_take s))"
    "ie_session_alive ?E" by (simp_all add: ex_init_env_def)
  moreover have "\<forall>j < total_length ex_lengths. fs_tb ex_lengths ex_files ex_storage j \<noteq> None" using ex_storage_full by simp
  ultimately obtain pa st' f' where c: "check_torrent ?E NonPersistentBitVFactory ex_initializing () = (Inr pa, st', f')" "paused_ok pa"
     "\<forall>p < 3. queue_pieces (pa_chunk_tracker pa) ! p \<longleftrightarrow> selected (pa_chunk_tracker pa) ! p \<and> \<not> ct_have (pa_chunk_tracker pa) ! p"
     "\<forall>p < 3. selected (pa_chunk_tracker pa) ! p \<longleftrightarrow>
          (\<exists>i < length ex_files. i \<in> set [2] \<and> fst (piece_range (ex_files ! i)) \<le> p \<and> p < snd (piece_range (ex_files ! i)))"
    using check_torrent_exact [of ex_initializing ?E NonPersistentBitVFactory "()"] ex_lengths_wf ex_files_wf ex_storage_inv
    unfolding s by auto
  show ?thesis using c by (auto simp: ex_files_def)
qed

subsection \<open>Any storage, any store of bitfields\<close>

lemma ic_pieces_length: "ic_pieces pread sha1 info s pis cf es bf pr = Inr (bf', pr') \<Longrightarrow> length bf' = length bf"
proof (induction pis arbitrary: cf es bf pr)
  case Nil
  then show ?case by simp
next
  case (Cons pi pis)
  then show ?case
    by (auto simp: Let_def bf_set_def rbind_def of_option_def split: sum.splits option.splits if_splits prod.splits dest!: Cons.IH)
qed

lemma initial_check_length:
  "initial_check pread sha1 info fis l s pr = Inr (bf, pr') \<Longrightarrow> length bf = 8 * piece_bitfield_bytes l"
  by (auto simp: initial_check_def zero_bytes_bf_def dest!: ic_pieces_length split: list.splits)

lemma validate_fastresume_Some:
  "validate_fastresume E F st f hp = (Inr (Some h), st', f') \<Longrightarrow>
     hp = Some h \<and> length h = 8 * piece_bitfield_bytes (tm_lengths (in_metadata st)) \<and> f' = f"
  by (auto simp: validate_fastresume_def Let_def split: option.splits if_splits sum.splits prod.splits bool.splits)

lemma validate_fastresume_metadata: "in_metadata (fst (snd (validate_fastresume E F st f hp))) = in_metadata st"
  by (simp add: validate_fastresume_def Let_def split: option.split sum.split prod.split bool.split)

lemma full_check_metadata: "in_metadata (fst (snd (full_check E F st f))) = in_metadata st"
  by (simp add: full_check_def Let_def split: sum.split prod.split)

lemma paused_from_metadata: "in_metadata (snd (paused_from E st h)) = in_metadata st"
  by (simp add: paused_from_def Let_def split: sum.split prod.split)

text \<open>The bits a check settles on.\<close>

definition settled_have :: "'s init_env \<Rightarrow> 'f bitv_factory \<Rightarrow> 's initializing \<Rightarrow> 'f \<Rightarrow> bits res \<times> 's initializing \<times> 'f" where
  "settled_have E F st f =
     (case load_have_pieces F st f of
        (Inl e, f) \<Rightarrow> (Inl e, st, f)
      | (Inr have_pieces, f) \<Rightarrow> abind (validate_fastresume E F st f have_pieces) (\<lambda>have_pieces (st, f).
          case have_pieces of Some h \<Rightarrow> (Inr h, st, f) | None \<Rightarrow> full_check E F st f))"

lemma check_torrent_eq: "ie_session_alive E \<Longrightarrow> check_torrent E F st f =
  abind (settled_have E F st f) (\<lambda>h (st, f). case paused_from E st h of (r, st) \<Rightarrow> (r, st, f))"
  by (simp add: check_torrent_def settled_have_def split: prod.split sum.split)

lemma settled_have_metadata: "in_metadata (fst (snd (settled_have E F st f))) = in_metadata st"
proof -
  obtain r f1 where l: "load_have_pieces F st f = (r, f1)" by fastforce
  show ?thesis
  proof (cases r)
    case (Inr hp)
    obtain v st1 f2 where v: "validate_fastresume E F st f1 hp = (v, st1, f2)" by (metis prod_cases3)
    then have "in_metadata st1 = in_metadata st" using validate_fastresume_metadata [of E F st f1 hp] by simp
    then show ?thesis using l Inr v full_check_metadata [of E F st1 f2]
      by (simp add: settled_have_def abind_def split: sum.split option.split)
  qed (simp add: settled_have_def l)
qed

lemma check_torrent_metadata: "in_metadata (fst (snd (check_torrent E F st f))) = in_metadata st"
proof (cases "ie_session_alive E")
  case True
  obtain v st1 f1 where v: "settled_have E F st f = (v, st1, f1)" by (metis prod_cases3)
  then have "in_metadata st1 = in_metadata st" using settled_have_metadata [of E F st f] by simp
  then show ?thesis using True v paused_from_metadata [of E st1]
    by (auto simp: check_torrent_eq abind_def split_beta split: sum.split)
qed (simp add: check_torrent_def)

lemma paused_from_ok:
  assumes "paused_from E st hv = (Inr pa, st')" "l = tm_lengths (in_metadata st)" "fis = tm_file_infos (in_metadata st)"
    and wf: "wf_lengths l" "wf_file_infos l fis" and hv: "length hv = 8 * piece_bitfield_bytes l"
  shows "paused_ok pa \<and> pa_metadata pa = in_metadata st \<and> ct_have (pa_chunk_tracker pa) = hv"
proof -
  obtain ct where ct: "chunk_tracker_new hv (compute_selected_pieces l (in_only_files st) fis) l fis = Inr ct" "ct_inv ct" "pfb_inv ct fis"
      "ct_have ct = hv" "ct_lengths ct = l"
    using chunk_tracker_new_ok [OF wf hv compute_selected_pieces_nth(1) [OF wf]] by blast
  then show ?thesis using assms(1) wf unfolding assms(2,3)
    by (auto simp: paused_from_def Let_def paused_ok_def tracker_ok_def pfb_inv_def streamed_file_ids_def torrent_streams_default_def
        split: sum.splits prod.splits)
qed

context bitv_laws
begin

lemma settled_have_length:
  assumes "settled_have E F st f = (Inr h, st', f')"
  shows "length h = 8 * piece_bitfield_bytes (tm_lengths (in_metadata st))"
proof -
  obtain hp f1 where l: "load_have_pieces F st f = (Inr hp, f1)" using assms by (auto simp: settled_have_def split: prod.splits sum.splits)
  obtain o1 st1 f2 where v: "validate_fastresume E F st f1 hp = (Inr o1, st1, f2)"
    using assms l by (cases "validate_fastresume E F st f1 hp") (auto simp: settled_have_def abind_def split: sum.splits)
  show ?thesis
  proof (cases o1)
    case (Some h')
    then show ?thesis using validate_fastresume_Some [of E F st f1 hp h' st1 f2] v assms l by (simp add: settled_have_def)
  next
    case None
    then have fc: "full_check E F st1 f2 = (Inr h, st', f')" using assms l v by (simp add: settled_have_def)
    then obtain bf pr where bf: "initial_check (ie_pread E) (ie_sha1 E) (tm_info (in_metadata st1)) (tm_file_infos (in_metadata st1))
        (tm_lengths (in_metadata st1)) (in_files st1) (in_checked_bytes st1) = Inr (bf, pr)"
      by (auto simp: full_check_def split: sum.splits)
    then have "bv_store_initial_check F f2 (Hash (in_info_hash st1)) bf = (Inr h, f')" using fc by (auto simp: full_check_def Let_def prod_eq_iff)
    then have "h = bf" using store_same initial_check_length [OF bf] by simp
    then show ?thesis using initial_check_length [OF bf] validate_fastresume_metadata [of E F st f1 hp] v by simp
  qed
qed

lemma check_torrent_ok:
  assumes "check_torrent E F st f = (Inr pa, st', f')"
    and "wf_lengths (tm_lengths (in_metadata st))" "wf_file_infos (tm_lengths (in_metadata st)) (tm_file_infos (in_metadata st))"
  shows "paused_ok pa \<and> pa_metadata pa = in_metadata st"
proof -
  have alive: "ie_session_alive E" using assms(1) by (auto simp: check_torrent_def split: if_splits)
  obtain h st1 f1 where h: "settled_have E F st f = (Inr h, st1, f1)" "paused_from E st1 h = (Inr pa, st')"
    using assms(1) check_torrent_eq [OF alive, of F st f]
    by (cases "settled_have E F st f") (auto simp: abind_def split: sum.splits prod.splits)
  have m: "in_metadata st1 = in_metadata st" using settled_have_metadata [of E F st f] h(1) by simp
  show ?thesis using paused_from_ok [OF h(2) refl refl] assms(2,3) settled_have_length [OF h(1)] m by simp
qed

end

end
