(* ===== verification/Managed.thy ===== *)
theory Managed
  imports Initializing
begin

text \<open>
  A torrent as the session holds it: its fixed part, and the state that moves between initializing,
  paused, live and error. Starting an initializing torrent spawns a task that runs the check and then
  goes on; several such tasks may be under way, and the object they check is shared, so the initializing
  states live in a table and are referred to by their position.

  Source: \<^verbatim>\<open>torrent_state/mod.rs\<close>.
\<close>

subsection \<open>The state\<close>

datatype ('b, 's) managed_state =
    Initializing nat \<comment> \<open>a reference into the table of initializing states\<close>
  | PausedSt "'s paused_state"
  | LiveSt "('b, 's) live_state"
  | ErrorSt err
  | NoneSt

record ('b, 's) managed_torrent =
  mt_id :: nat \<comment> \<open>the fixed part\<close>
  mt_info_hash :: id20
  mt_trackers :: "string list"
  mt_output_folder :: "string list"
  mt_fs_factory :: bool \<comment> \<open>the storage factory is the one of the file system\<close>
  mt_disable_upload :: bool
  mt_magnet_name :: "string option"
  mt_metadata :: "torrent_metadata option"
  mt_paused :: bool \<comment> \<open>the part behind the lock\<close>
  mt_state :: "('b, 's) managed_state"
  mt_only_files :: "nat list option"
  mt_inits :: "'s initializing list" \<comment> \<open>shared initializing states\<close>
  mt_tasks :: "(nat \<times> bool) list" \<comment> \<open>spawned initializations: which state, and whether to stay paused\<close>
  mt_detached :: "('b, 's) live_state list" \<comment> \<open>running torrents that were replaced; their own tasks may still hold them\<close>

text \<open>The surroundings: those of a running torrent and of a check, where bitfields are stored, the storage
  factory and the order in which a hash set is iterated.\<close>

record ('b, 's, 'f) managed_env =
  me_env :: "('b, 's) env"
  me_init :: "'s init_env"
  me_bitv :: "'f bitv_factory"
  me_create_and_init :: "torrent_metadata \<Rightarrow> 's res"
  me_set_order :: "nat set \<Rightarrow> nat list"

text \<open>The counters of the session a new running torrent is attached to.\<close>

record session_counters =
  sc_peers :: aggregate_peer_stats
  sc_fetched :: "64 word"
  sc_uploaded :: "64 word"

fun state_name :: "('b, 's) managed_state \<Rightarrow> string" where
  "state_name (Initializing _) = ''initializing''"
| "state_name (PausedSt _) = ''paused''"
| "state_name (LiveSt _) = ''live''"
| "state_name (ErrorSt _) = ''error''"
| "state_name NoneSt = ''<invalid: none>''"

definition mt_name :: "('b, 's) managed_torrent \<Rightarrow> string option" where
  "mt_name mt =
     (case mt_metadata mt of
        Some m \<Rightarrow> (case tm_name m of Some n \<Rightarrow> Some n | None \<Rightarrow> mt_magnet_name mt)
      | None \<Rightarrow> mt_magnet_name mt)"

definition with_chunk_tracker :: "('b, 's) managed_torrent \<Rightarrow> (chunk_tracker \<Rightarrow> 'a) \<Rightarrow> 'a res" where
  "with_chunk_tracker mt f =
     (case mt_state mt of
        PausedSt p \<Rightarrow> Inr (f (pa_chunk_tracker p))
      | LiveSt l \<Rightarrow> rbind (get_chunks (lv_locked l)) (\<lambda>ct. Inr (f ct))
      | _ \<Rightarrow> Inl (Bail ''no chunk tracker, torrent neither paused nor live''))"

definition mt_live :: "('b, 's) managed_torrent \<Rightarrow> ('b, 's) live_state option" where
  "mt_live mt = (case mt_state mt of LiveSt l \<Rightarrow> Some l | _ \<Rightarrow> None)"

subsection \<open>Stopping\<close>

definition stop_with_error :: "('b, 's, 'f) managed_env \<Rightarrow> ('b, 's) managed_torrent \<Rightarrow> err \<Rightarrow> ('b, 's) managed_torrent" where
  "stop_with_error E mt error =
     (case mt_state mt of
        LiveSt live \<Rightarrow> mt\<lparr>mt_state := ErrorSt error, mt_detached := mt_detached mt @ [snd (pause (me_env E) live)]\<rparr>
      | _ \<Rightarrow> mt\<lparr>mt_state := ErrorSt error\<rparr>)"

definition mt_pause :: "('b, 's, 'f) managed_env \<Rightarrow> ('b, 's) managed_torrent \<Rightarrow> unit res \<times> ('b, 's) managed_torrent" where
  "mt_pause E mt =
     (case mt_state mt of
        LiveSt live \<Rightarrow>
          (case pause (me_env E) live of
             (Inl e, live) \<Rightarrow> (Inl e, mt\<lparr>mt_state := LiveSt live\<rparr>)
           | (Inr paused, live) \<Rightarrow>
               (Inr (), mt\<lparr>mt_state := PausedSt paused, mt_paused := True, mt_detached := mt_detached mt @ [live]\<rparr>))
      | Initializing _ \<Rightarrow> (Inl (Bail ''torrent is initializing, can't pause''), mt)
      | PausedSt _ \<Rightarrow> (Inl (Bail ''torrent is already paused''), mt)
      | ErrorSt _ \<Rightarrow> (Inl (Bail ''can't pause torrent in error state''), mt)
      | NoneSt \<Rightarrow> (Inl (Bail ''bug: torrent is in empty state''), mt))"

subsection \<open>Starting\<close>

definition spawn_init :: "('b, 's) managed_torrent \<Rightarrow> nat \<Rightarrow> bool \<Rightarrow> ('b, 's) managed_torrent" where
  "spawn_init mt r start_paused = mt\<lparr>mt_tasks := mt_tasks mt @ [(r, start_paused)]\<rparr>"

text \<open>The inner function \<^verbatim>\<open>_start\<close>. From the error state it makes a new initializing state and recurses once, into
  the branch that spawns the task.\<close>

definition start_inner ::
  "('b, 's, 'f) managed_env \<Rightarrow> session_counters \<Rightarrow> bool \<Rightarrow> ('b, 's) managed_torrent \<Rightarrow> unit res \<times> ('b, 's) managed_torrent" where
  "start_inner E S start_paused mt =
     (case mt_state mt of
        LiveSt _ \<Rightarrow> (Inl (Bail ''torrent is already live''), mt)
      | Initializing r \<Rightarrow> (Inr (), spawn_init mt r start_paused)
      | PausedSt paused \<Rightarrow>
          (if start_paused then (Inr (), mt)
           else (Inr (), mt\<lparr>mt_state := LiveSt (live_new (sc_peers S) (sc_fetched S) (sc_uploaded S) paused)\<rparr>))
      | ErrorSt _ \<Rightarrow>
          (case mt_metadata mt of
             None \<Rightarrow> (Inl Panic, mt)
           | Some metadata \<Rightarrow>
               (case me_create_and_init E metadata of
                  Inl e \<Rightarrow> (Inl e, mt)
                | Inr files \<Rightarrow>
                    let r = length (mt_inits mt);
                        i = initializing_new (mt_id mt) (mt_info_hash mt) (mt_disable_upload mt) metadata (mt_only_files mt) files True
                    in (Inr (), spawn_init (mt\<lparr>mt_inits := mt_inits mt @ [i], mt_state := Initializing r\<rparr>) r start_paused)))
      | NoneSt \<Rightarrow> (Inl (Bail ''bug: torrent is in empty state''), mt))"

definition mt_start ::
  "('b, 's, 'f) managed_env \<Rightarrow> session_counters \<Rightarrow> bool \<Rightarrow> ('b, 's) managed_torrent \<Rightarrow> unit res \<times> ('b, 's) managed_torrent" where
  "mt_start E S start_paused mt =
     (if \<not> ie_session_alive (me_init E) then (Inl (Bail ''session is dead, cannot start torrent''), mt)
      else start_inner E S start_paused (mt\<lparr>mt_paused := start_paused\<rparr>))"

text \<open>The spawned task, once its check is through. A panic ends the task and changes nothing.\<close>

definition finish_init ::
  "('b, 's, 'f) managed_env \<Rightarrow> session_counters \<Rightarrow> nat \<times> bool \<Rightarrow> ('b, 's) managed_torrent \<Rightarrow> 'f
   \<Rightarrow> unit res \<times> ('b, 's) managed_torrent \<times> 'f" where
  "finish_init E S task mt f =
     (case check_torrent (me_init E) (me_bitv E) (mt_inits mt ! fst task) f of
        (Inr paused, i, f) \<Rightarrow>
          let mt = mt\<lparr>mt_inits := (mt_inits mt)[fst task := i]\<rparr>
          in (case mt_state mt of
                Initializing _ \<Rightarrow>
                  let r = start_inner E S (snd task) (mt\<lparr>mt_state := PausedSt paused\<rparr>) in (fst r, snd r, f)
              | _ \<Rightarrow> (Inr (), mt, f))
      | (Inl (Bail s), i, f) \<Rightarrow>
          (Inl (Bail s), mt\<lparr>mt_inits := (mt_inits mt)[fst task := i], mt_state := ErrorSt (Bail s),
             mt_detached := mt_detached mt @ (case mt_state mt of LiveSt live \<Rightarrow> [live] | _ \<Rightarrow> [])\<rparr>, f)
      | (Inl e, i, f) \<Rightarrow> (Inl e, mt\<lparr>mt_inits := (mt_inits mt)[fst task := i]\<rparr>, f))"

subsection \<open>Selection\<close>

definition mt_update_only_files ::
  "('b, 's, 'f) managed_env \<Rightarrow> ('b, 's) managed_torrent \<Rightarrow> nat set \<Rightarrow> unit res \<times> ('b, 's) managed_torrent" where
  "mt_update_only_files E mt only_files =
     (case mt_metadata mt of
        None \<Rightarrow> (Inl (Bail ''torrent is not resolved''), mt)
      | Some metadata \<Rightarrow>
          if list_ex (\<lambda>f. f \<ge> length (tm_file_infos metadata)) (me_set_order E only_files)
          then (Inl (Bail ''only_files contains invalid value''), mt)
          else
            abind
              (case mt_state mt of
                 Initializing _ \<Rightarrow> (Inl (Bail ''can't update initializing torrent''), mt)
               | ErrorSt _ \<Rightarrow> (Inr (), mt)
               | NoneSt \<Rightarrow> (Inr (), mt)
               | PausedSt p \<Rightarrow> let r = paused_update_only_files p only_files in (fst r, mt\<lparr>mt_state := PausedSt (snd r)\<rparr>)
               | LiveSt l \<Rightarrow> let r = live_update_only_files l only_files in (fst r, mt\<lparr>mt_state := LiveSt (snd r)\<rparr>))
              (\<lambda>_ mt. (Inr (), mt\<lparr>mt_only_files := Some (me_set_order E only_files)\<rparr>)))"

subsection \<open>What the outside sees\<close>

datatype stats_state = SInitializing | SLive | SPaused | SError

record torrent_stats =
  ts_state :: stats_state
  ts_file_progress :: "nat list"
  ts_error :: "err option"
  ts_progress_bytes :: nat
  ts_uploaded_bytes :: "64 word"
  ts_total_bytes :: nat
  ts_finished :: bool

definition mt_stats :: "('b, 's) managed_torrent \<Rightarrow> torrent_stats" where
  "mt_stats mt =
     (let resp = \<lparr>ts_state = SError, ts_file_progress = [], ts_error = None, ts_progress_bytes = 0, ts_uploaded_bytes = 0,
          ts_total_bytes = (case mt_metadata mt of Some m \<Rightarrow> total_length (tm_lengths m) | None \<Rightarrow> 0), ts_finished = False\<rparr>
      in case mt_state mt of
           Initializing r \<Rightarrow> resp\<lparr>ts_state := SInitializing, ts_progress_bytes := in_checked_bytes (mt_inits mt ! r)\<rparr>
         | PausedSt p \<Rightarrow>
             let h = hns (pa_chunk_tracker p)
             in resp\<lparr>ts_state := SPaused, ts_total_bytes := hns_total h, ts_progress_bytes := hns_progress h,
                     ts_finished := hns_finished h, ts_file_progress := per_file_bytes (pa_chunk_tracker p)\<rparr>
         | LiveSt l \<Rightarrow>
             let h = (case get_hns l of Some h \<Rightarrow> h | None \<Rightarrow> \<lparr>have_bytes = 0, needed_bytes = 0, selected_bytes = 0\<rparr>)
             in resp\<lparr>ts_state := SLive, ts_total_bytes := hns_total h, ts_progress_bytes := hns_progress h,
                     ts_finished := hns_finished h, ts_uploaded_bytes := st_uploaded_bytes (lv_stats l),
                     ts_file_progress := (case chunks (lv_locked l) of Some ct \<Rightarrow> per_file_bytes ct | None \<Rightarrow> [])\<rparr>
         | ErrorSt e \<Rightarrow> resp\<lparr>ts_state := SError, ts_error := Some e\<rparr>
         | NoneSt \<Rightarrow> resp\<lparr>ts_state := SError, ts_error := Some (Bail ''bug: torrent in broken None state'')\<rparr>)"

text \<open>One round of the loops that wait: an error, done (with the running torrent), or wait for a change.\<close>

definition poll_initialized :: "('b, 's) managed_torrent \<Rightarrow> bool res" where
  "poll_initialized mt =
     (case mt_state mt of
        Initializing _ \<Rightarrow> Inr False
      | ErrorSt e \<Rightarrow> Inl e
      | NoneSt \<Rightarrow> Inl (Bail ''bug: torrent state is None'')
      | _ \<Rightarrow> Inr True)"

definition poll_live :: "('b, 's) managed_torrent \<Rightarrow> ('b, 's) live_state option res" where
  "poll_live mt =
     (case mt_state mt of
        Initializing _ \<Rightarrow> Inr None
      | PausedSt _ \<Rightarrow> Inr None
      | LiveSt l \<Rightarrow> Inr (Some l)
      | ErrorSt e \<Rightarrow> Inl e
      | NoneSt \<Rightarrow> Inl (Bail ''bug: torrent state is None''))"

subsection \<open>What can happen to a torrent\<close>

inductive mstep ::
  "('b, 's, 'f) managed_env \<Rightarrow> ('b, 's) managed_torrent \<times> 'f \<Rightarrow> ('b, 's) managed_torrent \<times> 'f \<Rightarrow> bool" for E where
  started: "mstep E (mt, f) (snd (mt_start E S sp mt), f)"
| paused: "mstep E (mt, f) (snd (mt_pause E mt), f)"
| initialized: "mt_tasks mt = ts1 @ task # ts2 \<Longrightarrow> mstep E (mt, f) (snd (finish_init E S task (mt\<lparr>mt_tasks := ts1 @ ts2\<rparr>) f))"
| failed: "mstep E (mt, f) (stop_with_error E mt e, f)"
| selected: "mstep E (mt, f) (snd (mt_update_only_files E mt only), f)"
| ran: "mt_state mt = LiveSt l \<Longrightarrow> lstep (me_env E) l l' \<Longrightarrow> mstep E (mt, f) (mt\<lparr>mt_state := LiveSt l'\<rparr>, f)"

inductive mreach ::
  "('b, 's, 'f) managed_env \<Rightarrow> ('b, 's) managed_torrent \<times> 'f \<Rightarrow> ('b, 's) managed_torrent \<times> 'f \<Rightarrow> bool" for E s0 where
  start: "mreach E s0 s0"
| step: "mreach E s0 s \<Longrightarrow> mstep E s s' \<Longrightarrow> mreach E s0 s'"

text \<open>The metadata every state of a torrent shares, as the session accepts it.\<close>

definition meta_ok :: "torrent_metadata \<Rightarrow> bool" where
  "meta_ok m \<longleftrightarrow> wf_lengths (tm_lengths m) \<and> wf_file_infos (tm_lengths m) (tm_file_infos m) \<and>
     (\<forall>lens. iter_file_lengths (tm_info m) = Inr lens \<longrightarrow> sum_list lens = total_length (tm_lengths m))"

fun state_ok :: "torrent_metadata \<Rightarrow> nat \<Rightarrow> ('b, 's) managed_state \<Rightarrow> bool" where
  "state_ok m n (Initializing r) \<longleftrightarrow> r < n"
| "state_ok m n (PausedSt pa) \<longleftrightarrow> paused_ok pa \<and> pa_metadata pa = m"
| "state_ok m n (LiveSt l) \<longleftrightarrow> live_inv l \<and> lv_metadata l = m"
| "state_ok m n (ErrorSt e) \<longleftrightarrow> True"
| "state_ok m n NoneSt \<longleftrightarrow> False"

definition mt_inv :: "torrent_metadata \<Rightarrow> ('b, 's) managed_torrent \<Rightarrow> bool" where
  "mt_inv m mt \<longleftrightarrow> mt_metadata mt = Some m \<and> (\<forall>i \<in> set (mt_inits mt). in_metadata i = m) \<and>
     (\<forall>task \<in> set (mt_tasks mt). fst task < length (mt_inits mt)) \<and> state_ok m (length (mt_inits mt)) (mt_state mt)"

lemma mt_invD:
  assumes "mt_inv m mt"
  shows "mt_metadata mt = Some m" "\<forall>i \<in> set (mt_inits mt). in_metadata i = m"
    "\<forall>task \<in> set (mt_tasks mt). fst task < length (mt_inits mt)" "state_ok m (length (mt_inits mt)) (mt_state mt)"
  using assms by (simp_all add: mt_inv_def)

subsection \<open>Pausing a running torrent\<close>

lemma mark_all_broken_ok:
  assumes "tracker_ok l fis ct" "\<forall>p \<in> set ps. p < total_pieces l"
  shows "\<exists>ct'. mark_all_broken ps ct = Inr ct' \<and> tracker_ok l fis ct' \<and> ct_have ct' = ct_have ct \<and> selected ct' = selected ct \<and>
    (\<forall>q < total_pieces l. queue_pieces ct' ! q \<longleftrightarrow> queue_pieces ct ! q \<or> \<not> ct_have ct ! q \<and> q \<in> set ps)"
  using assms
proof (induction ps arbitrary: ct)
  case Nil
  then show ?case by simp
next
  case (Cons p ps)
  have inv: "ct_inv ct" "ct_lengths ct = l" and p: "p < total_pieces (ct_lengths ct)" using Cons.prems by (auto simp: tracker_ok_def)
  define ct1 where "ct1 = (if ct_have ct ! p then ct else ct\<lparr>queue_pieces := (queue_pieces ct)[p := True], chunk_status := cleared ct p\<rparr>)"
  have b: "mark_piece_broken_if_not_have ct p = Inr ct1" using mark_piece_broken_eq [OF inv(1) p] by (simp add: ct1_def)
  have t1: "tracker_ok l fis ct1" "ct_have ct1 = ct_have ct" "selected ct1 = selected ct"
    using mark_piece_broken_inv [OF inv(1) p b] Cons.prems(1) by (auto simp: tracker_ok_def)
  have q1: "queue_pieces ct1 ! q \<longleftrightarrow> queue_pieces ct ! q \<or> \<not> ct_have ct ! q \<and> q = p" if "q < total_pieces l" for q
    using ct_inv_bits(3) [OF inv(1), of q] that inv(2) by (auto simp: ct1_def nth_update_True)
  show ?case using Cons.IH [OF t1(1)] Cons.prems(2) b t1 q1 by auto
qed

lemma pause_paused_ok:
  assumes "live_inv l" "pause E l = (Inr pa, l')"
  shows "paused_ok pa \<and> pa_metadata pa = lv_metadata l"
proof -
  obtain ct where ct: "chunks (lv_locked l) = Some ct" using assms(2) by (auto simp: pause_def Let_def split: option.splits)
  have t: "tracker_ok (lv_lengths l) (lv_fis l) ct" using live_inv_tracker [OF assms(1) ct] by (simp add: tracker_ok_def)
  have ps: "\<forall>p \<in> set (map fst (inflight_pieces (lv_locked l))). p < total_pieces (lv_lengths l)"
    using live_invD(4) [OF assms(1)] by (simp add: locked_ok_def)
  obtain ct' where "mark_all_broken (map fst (inflight_pieces (lv_locked l))) ct = Inr ct'" "tracker_ok (lv_lengths l) (lv_fis l) ct'"
    using mark_all_broken_ok [OF t ps] by blast
  then show ?thesis using assms(2) ct live_invD [OF assms(1)]
    by (auto simp: pause_def Let_def paused_ok_def split: sum.splits prod.splits)
qed

subsection \<open>Every step keeps the torrent consistent\<close>

lemma start_inner_inv:
  fixes mt :: "('b, 's) managed_torrent"
  assumes "mt_inv m mt"
  shows "mt_inv m (snd (start_inner E S sp mt))"
proof (cases "mt_state mt")
  case (PausedSt pa)
  then have "live_inv (live_new a b c pa :: ('b, 's) live_state)" "lv_metadata (live_new a b c pa :: ('b, 's) live_state) = m" for a b c
    using mt_invD(4) [OF assms] live_new_inv [of pa] by (simp_all add: live_new_def)
  then show ?thesis using assms PausedSt by (simp add: start_inner_def mt_inv_def)
next
  case (ErrorSt e)
  then show ?thesis using assms
    by (auto simp: start_inner_def mt_inv_def spawn_init_def initializing_new_def Let_def less_Suc_eq split: sum.split)
qed (use assms in \<open>simp_all add: start_inner_def mt_inv_def spawn_init_def\<close>)

lemma finish_init_inv:
  fixes mt :: "('b, 's) managed_torrent"
  assumes F: "bitv_laws (me_bitv E)" and m: "meta_ok m" and inv: "mt_inv m mt" and r: "fst task < length (mt_inits mt)"
  shows "mt_inv m (fst (snd (finish_init E S task mt f)))"
proof -
  let ?i0 = "mt_inits mt ! fst task"
  obtain c i f' where c: "check_torrent (me_init E) (me_bitv E) ?i0 f = (c, i, f')" by (metis prod_cases3)
  have m0: "in_metadata ?i0 = m" using mt_invD(2) [OF inv] r by simp
  then have i: "in_metadata i = m" using check_torrent_metadata [of "me_init E" "me_bitv E" ?i0 f] c by simp
  let ?mt = "mt\<lparr>mt_inits := (mt_inits mt)[fst task := i]\<rparr>"
  have upd: "mt_inv m ?mt"
    using inv i by (auto simp: mt_inv_def dest!: set_update_subset_insert [THEN subsetD])
  show ?thesis
  proof (cases c)
    case (Inl e)
    then show ?thesis using c upd by (cases e) (simp_all add: finish_init_def mt_inv_def)
  next
    case (Inr pa)
    have ok: "paused_ok pa \<and> pa_metadata pa = m"
      using bitv_laws.check_torrent_ok [OF F, of "me_init E" ?i0 f pa i f'] c Inr m0 m by (simp add: meta_ok_def)
    then have "mt_inv m (?mt\<lparr>mt_state := PausedSt pa\<rparr>)" using upd by (simp add: mt_inv_def)
    then show ?thesis using c Inr upd start_inner_inv [of m "?mt\<lparr>mt_state := PausedSt pa\<rparr>" E S "snd task"]
      by (simp add: finish_init_def Let_def split: managed_state.split)
  qed
qed

lemma paused_update_only_files_ok:
  assumes "paused_ok pa" "meta_ok (pa_metadata pa)"
  shows "paused_ok (snd (paused_update_only_files pa only)) \<and> pa_metadata (snd (paused_update_only_files pa only)) = pa_metadata pa"
proof (cases "iter_file_lengths (tm_info (pa_metadata pa))")
  case (Inl e)
  then show ?thesis using assms(1) by (simp add: paused_update_only_files_def)
next
  case (Inr lens)
  let ?ct = "pa_chunk_tracker pa"
  have t: "ct_inv ?ct" "ct_lengths ?ct = tm_lengths (pa_metadata pa)" using assms(1) by (auto simp: paused_ok_def Let_def tracker_ok_def)
  then have "sum_list lens = total_length (ct_lengths ?ct)" using assms(2) Inr by (simp add: meta_ok_def)
  then obtain ct' where "update_only_files ?ct lens only = Inr (ct', hns ct')" "ct_inv ct'" "ct_lengths ct' = ct_lengths ?ct"
      "per_file_bytes ct' = per_file_bytes ?ct" using update_only_files_ok [OF t(1), of lens only] by blast
  then show ?thesis using assms(1) Inr by (auto simp: paused_update_only_files_def paused_ok_def Let_def tracker_ok_def)
qed

lemma mt_update_only_files_inv:
  assumes "mt_inv m mt" "meta_ok m"
  shows "mt_inv m (snd (mt_update_only_files E mt only))"
proof -
  have l: "live_inv (snd (live_update_only_files l only)) \<and> lv_metadata (snd (live_update_only_files l only)) = m"
    if "mt_state mt = LiveSt l" for l
    using that mt_invD(4) [OF assms(1)] update_only_files_quiet [of l only] quietD [of l "snd (live_update_only_files l only)"]
      evolvesD [of l "snd (live_update_only_files l only)"] by auto
  have p: "paused_ok (snd (paused_update_only_files p only)) \<and> pa_metadata (snd (paused_update_only_files p only)) = m"
    if "mt_state mt = PausedSt p" for p
    using that mt_invD(4) [OF assms(1)] paused_update_only_files_ok [of p only] assms(2) by auto
  show ?thesis
    using assms(1) l p by (cases "mt_state mt")
      (auto simp: mt_update_only_files_def mt_inv_def Let_def abind_def split: option.split sum.split)
qed

lemma mt_pause_inv:
  assumes "mt_inv m mt"
  shows "mt_inv m (snd (mt_pause E mt))"
proof (cases "mt_state mt")
  case (LiveSt l)
  have l: "live_inv l" "lv_metadata l = m" using mt_invD(4) [OF assms] LiveSt by simp_all
  obtain c l' where c: "pause (me_env E) l = (c, l')" by fastforce
  have "live_inv l' \<and> lv_metadata l' = m" using pause_evolves [of l "me_env E"] c l by (auto simp: evolves_def)
  then show ?thesis using assms LiveSt c pause_paused_ok [OF l(1)] l(2)
    by (auto simp: mt_pause_def mt_inv_def split: sum.splits)
qed (use assms in \<open>simp_all add: mt_pause_def\<close>)

lemma mstep_inv:
  assumes "mstep E s s'" "bitv_laws (me_bitv E)" "env_ok (me_env E)" "meta_ok m" "mt_inv m (fst s)"
  shows "mt_inv m (fst s')"
  using assms(1)
proof cases
  case (started mt f S sp)
  then have "mt_inv m (mt\<lparr>mt_paused := sp\<rparr>)" using assms(5) by (simp add: mt_inv_def)
  then show ?thesis using started assms(5) start_inner_inv [of m "mt\<lparr>mt_paused := sp\<rparr>" E S sp] by (simp add: mt_start_def)
next
  case (paused mt f)
  then show ?thesis using mt_pause_inv assms(5) by simp
next
  case (initialized mt ts1 task ts2 f S)
  have "fst task < length (mt_inits mt)" using mt_invD(3) [OF assms(5)] initialized by simp
  moreover have "mt_inv m (mt\<lparr>mt_tasks := ts1 @ ts2\<rparr>)" using assms(5) initialized by (simp add: mt_inv_def)
  ultimately show ?thesis using finish_init_inv [OF assms(2,4), of "mt\<lparr>mt_tasks := ts1 @ ts2\<rparr>"] initialized by simp
next
  case (failed mt f e)
  then show ?thesis using assms(5) by (simp add: stop_with_error_def mt_inv_def split: managed_state.split)
next
  case (selected mt f only)
  then show ?thesis using mt_update_only_files_inv assms(4,5) by simp
next
  case (ran mt l l' f)
  have "live_inv l" "lv_metadata l = m" using mt_invD(4) [OF assms(5)] ran by simp_all
  moreover have "evolves l l'" using lstep_grows [OF ran(4) assms(3)] by (simp add: grows_def)
  ultimately have "live_inv l' \<and> lv_metadata l' = m" by (auto simp: evolves_def)
  then show ?thesis using ran assms(5) by (simp add: mt_inv_def)
qed

subsection \<open>The diagram of states\<close>

text \<open>The transitions the source documents.\<close>

datatype phase = PInitializing | PPaused | PLive | PError

inductive documented :: "phase \<Rightarrow> phase \<Rightarrow> bool" where
  "documented PError PInitializing"
| "documented PInitializing PPaused"
| "documented PPaused PLive"
| "documented PLive PPaused"
| "documented PInitializing PError"
| "documented PLive PError"

fun phase_of :: "('b, 's) managed_state \<Rightarrow> phase option" where
  "phase_of (Initializing _) = Some PInitializing"
| "phase_of (PausedSt _) = Some PPaused"
| "phase_of (LiveSt _) = Some PLive"
| "phase_of (ErrorSt _) = Some PError"
| "phase_of NoneSt = None"

text \<open>The transitions of the code: none, a documented one, the two a successful check takes when the torrent is
  to run, and one that is not documented, from paused to error.\<close>

definition phase_step :: "phase \<Rightarrow> phase \<Rightarrow> bool" where
  "phase_step a b \<longleftrightarrow> a = b \<or> documented a b \<or> a = PInitializing \<and> b = PLive \<or> a = PPaused \<and> b = PError"

definition follows :: "('b, 's) managed_torrent \<Rightarrow> ('b, 's) managed_torrent \<Rightarrow> bool" where
  "follows mt mt' \<longleftrightarrow> (\<exists>a b. phase_of (mt_state mt) = Some a \<and> phase_of (mt_state mt') = Some b \<and> phase_step a b)"

lemma phase_step_simps [simp]: "phase_step a a" "phase_step PError PInitializing" "phase_step PInitializing PPaused" "phase_step PPaused PLive"
  "phase_step PLive PPaused" "phase_step PInitializing PLive"
  by (simp_all add: phase_step_def documented.intros)

lemma phase_step_error [simp]: "phase_step a PError"
  by (cases a) (simp_all add: phase_step_def documented.intros)

lemma follows_same: "mt_state mt \<noteq> NoneSt \<Longrightarrow> phase_of (mt_state mt') = phase_of (mt_state mt) \<Longrightarrow> follows mt mt'"
  by (cases "mt_state mt") (auto simp: follows_def)

lemma start_inner_follows: "mt_state mt \<noteq> NoneSt \<Longrightarrow> follows mt (snd (start_inner E S sp mt))"
  by (cases "mt_state mt") (auto simp: follows_def start_inner_def spawn_init_def Let_def split: option.split sum.split)

lemma finish_init_follows: "mt_state mt \<noteq> NoneSt \<Longrightarrow> follows mt (fst (snd (finish_init E S task mt f)))"
proof -
  assume n: "mt_state mt \<noteq> NoneSt"
  obtain c i f' where c: "check_torrent (me_init E) (me_bitv E) (mt_inits mt ! fst task) f = (c, i, f')" by (metis prod_cases3)
  show ?thesis
  proof (cases c)
    case (Inl e)
    then show ?thesis using c n by (cases e; cases "mt_state mt") (simp_all add: finish_init_def follows_def)
  next
    case (Inr pa)
    then show ?thesis using c n
      by (cases "mt_state mt") (auto simp: finish_init_def follows_def Let_def start_inner_def)
  qed
qed



subsection \<open>Pausing loses nothing\<close>

text \<open>C20: pausing a running torrent succeeds when its storage can be handed over; every piece a peer was still working on and that
  is not verified is queued again, no other piece is, and the torrent that is started from the paused one
  has the same verified and selected pieces and nothing in flight.\<close>

theorem pause_resume_keeps_progress:
  fixes l :: "('b, 's) live_state"
  assumes inv: "live_inv l" and ct: "chunks (lv_locked l) = Some ct" and take: "e_take E (lv_files l) = Inr (taken, left)"
  shows "\<exists>pa l' l2 ct2. pause E l = (Inr pa, l') \<and> paused_ok pa \<and> pa_files pa = taken \<and>
    l2 = (live_new a b c pa :: ('b, 's) live_state) \<and> chunks (lv_locked l2) = Some ct2 \<and> inflight_pieces (lv_locked l2) = [] \<and>
    lv_metadata l2 = lv_metadata l \<and> ct_have ct2 = ct_have ct \<and> selected ct2 = selected ct \<and>
    (\<forall>q < total_pieces (lv_lengths l). queue_pieces ct2 ! q \<longleftrightarrow>
       queue_pieces ct ! q \<or> \<not> ct_have ct ! q \<and> q \<in> fst ` set (inflight_pieces (lv_locked l)))"
proof -
  have t: "tracker_ok (lv_lengths l) (lv_fis l) ct" using live_inv_tracker [OF inv ct] by (simp add: tracker_ok_def)
  have ps: "\<forall>p \<in> set (map fst (inflight_pieces (lv_locked l))). p < total_pieces (lv_lengths l)"
    using live_invD(4) [OF inv] by (simp add: locked_ok_def)
  obtain ct' where ct': "mark_all_broken (map fst (inflight_pieces (lv_locked l))) ct = Inr ct'" "ct_have ct' = ct_have ct"
      "selected ct' = selected ct" "\<forall>q < total_pieces (lv_lengths l). queue_pieces ct' ! q \<longleftrightarrow>
       queue_pieces ct ! q \<or> \<not> ct_have ct ! q \<and> q \<in> fst ` set (inflight_pieces (lv_locked l))"
    using mark_all_broken_ok [OF t ps] by auto
  let ?pa = "\<lparr>pa_metadata = lv_metadata l, pa_files = taken, pa_chunk_tracker = ct', pa_streams = lv_streams l,
    pa_disable_upload = lv_disable_upload l\<rparr>"
  obtain l' where p: "pause E l = (Inr ?pa, l')" using ct ct'(1) take by (simp add: pause_def Let_def)
  then have ok: "paused_ok ?pa" using pause_paused_ok [OF inv] by blast
  let ?l2 = "live_new a b c ?pa :: ('b, 's) live_state"
  have "chunks (lv_locked ?l2) = Some ct'" "inflight_pieces (lv_locked ?l2) = []" "lv_metadata ?l2 = lv_metadata l" by (simp_all add: live_new_def)
  then show ?thesis using p ok ct'(2-) by (intro exI [of _ ?pa] exI [of _ l'] exI [of _ ?l2] exI [of _ ct']) simp
qed

subsection \<open>Examples\<close>

definition ex_menv :: "(nat, filesystem_storage, unit) managed_env" where
  "ex_menv = \<lparr>me_env = ex_env, me_init = ex_init_env, me_bitv = NonPersistentBitVFactory,
     me_create_and_init = (\<lambda>_. Inr ex_storage), me_set_order = sorted_list_of_set\<rparr>"

definition ex_counters :: session_counters where
  "ex_counters = \<lparr>sc_peers = aggregate_default, sc_fetched = 0, sc_uploaded = 0\<rparr>"

definition ex_mt :: "(nat, filesystem_storage) managed_torrent" where
  "ex_mt = \<lparr>mt_id = 1, mt_info_hash = replicate 20 7, mt_trackers = [], mt_output_folder = [''out''], mt_fs_factory = True,
     mt_disable_upload = False, mt_magnet_name = None, mt_metadata = Some ex_metadata, mt_paused = False,
     mt_state = Initializing 0, mt_only_files = Some [2], mt_inits = [ex_initializing], mt_tasks = [], mt_detached = []\<rparr>"

lemma ex_menv_ok: "env_ok (me_env ex_menv)" "bitv_laws (me_bitv ex_menv)"
  using ex_env_ok non_persistent.bitv_laws_axioms by (simp_all add: ex_menv_def)

lemma ex_meta_ok: "meta_ok ex_metadata"
  using ex_lengths_wf ex_files_wf
  by (simp add: meta_ok_def ex_metadata_def iter_file_lengths_def iter_file_details_def ex_info_def)

lemma ex_mt_inv: "mt_inv ex_metadata ex_mt"
  by (simp add: mt_inv_def ex_mt_def ex_initializing_def initializing_new_def)



theorem pause_resume_keeps_progress_witness:
  "\<exists>pa l' ct2. pause ex_env ex_live = (Inr pa, l') \<and>
     chunks (lv_locked (live_new aggregate_default 0 0 pa :: (nat, filesystem_storage) live_state)) = Some ct2 \<and> ct_have ct2 ! 0"
proof -
  have "chunks (lv_locked ex_live) = Some ex_ct" "e_take ex_env (lv_files ex_live) = Inr (fs_take (lv_files ex_live))"
    by (simp_all add: ex_live_def live_new_def ex_paused_def ex_env_def)
  then show ?thesis
    using pause_resume_keeps_progress [OF ex_live_inv, of ex_ct ex_env "fst (fs_take (lv_files ex_live))" "snd (fs_take (lv_files ex_live))"
        aggregate_default 0 0] by (auto simp: ex_ct_def ex_have_def)
qed

subsection \<open>The reported progress\<close>

text \<open>the progress reported for a paused or running torrent is the number of verified selected bytes out of all the selected
  ones, and it is reported as finished exactly when every selected piece is verified.\<close>

theorem stats_exact:
  assumes "mt_inv m mt" "with_chunk_tracker mt (\<lambda>ct. ct) = Inr ct"
  shows "ts_progress_bytes (mt_stats mt) = bytes_of (tm_lengths m) (\<lambda>p. selected ct ! p \<and> ct_have ct ! p) \<and>
    ts_total_bytes (mt_stats mt) = bytes_of (tm_lengths m) (\<lambda>p. selected ct ! p) \<and>
    ts_progress_bytes (mt_stats mt) \<le> ts_total_bytes (mt_stats mt) \<and>
    (ts_finished (mt_stats mt) \<longleftrightarrow> (\<forall>p < total_pieces (tm_lengths m). selected ct ! p \<longrightarrow> ct_have ct ! p)) \<and>
    ts_file_progress (mt_stats mt) = per_file_bytes ct"
proof -
  have ct: "ct_inv ct" "ct_lengths ct = tm_lengths m" and s: "ts_progress_bytes (mt_stats mt) = hns_progress (hns ct)"
    "ts_total_bytes (mt_stats mt) = hns_total (hns ct)" "ts_finished (mt_stats mt) = hns_finished (hns ct)"
    "ts_file_progress (mt_stats mt) = per_file_bytes ct"
    using assms live_inv_tracker
    by (auto simp: with_chunk_tracker_def mt_inv_def paused_ok_def tracker_ok_def Let_def mt_stats_def get_chunks_def of_option_def get_hns_def
        rbind_def live_invD(3) split: managed_state.splits option.splits)
  have "hns_total (hns ct) = bytes_of (tm_lengths m) (\<lambda>p. selected ct ! p)"
    using ct_invD(6) [OF ct(1)] ct(2) by (simp add: hns_total_def hns_of_def)
  then show ?thesis using s hns_progress_eq [OF ct(1)] is_finished_iff [OF ct(1)] ct(2) by (simp add: is_finished_def)
qed

theorem stats_exact_witness:
  "ts_progress_bytes (mt_stats (ex_mt\<lparr>mt_state := PausedSt ex_paused\<rparr>)) = bytes_of ex_lengths (\<lambda>p. selected ex_ct ! p \<and> ct_have ex_ct ! p) \<and>
   \<not> ts_finished (mt_stats (ex_mt\<lparr>mt_state := PausedSt ex_paused\<rparr>))"
proof -
  have "mt_inv ex_metadata (ex_mt\<lparr>mt_state := PausedSt ex_paused\<rparr>)"
    using ex_mt_inv ex_paused_ok by (simp add: mt_inv_def ex_paused_def)
  moreover have "with_chunk_tracker (ex_mt\<lparr>mt_state := PausedSt ex_paused\<rparr>) (\<lambda>ct. ct) = Inr ex_ct"
    by (simp add: with_chunk_tracker_def ex_paused_def)
  moreover have "\<not> (\<forall>p < total_pieces ex_lengths. selected ex_ct ! p \<longrightarrow> ct_have ex_ct ! p)"
    by (auto simp: ex_ct_def ex_selected_def ex_have_def intro!: exI [of _ 1])
  moreover have "tm_lengths ex_metadata = ex_lengths" by (simp add: ex_metadata_def)
  ultimately show ?thesis
    using stats_exact [of ex_metadata "ex_mt\<lparr>mt_state := PausedSt ex_paused\<rparr>" ex_ct] by simp
qed

end
