(* ===== verification/Json_Store.thy ===== *)
theory Json_Store
  imports Managed "HOL-Library.Countable"
begin

text \<open>
  The session on disk: one JSON file with the torrents of the session, replaced as a whole through a
  temporary file, and per torrent a file with its metadata and a file with its bitfield. Files are byte
  lists under their paths. Every operation of the operating system may fail; a failed write leaves some
  prefix of the data behind. The JSON encoding is a parameter.

  Sources: \<^verbatim>\<open>session_persistence/mod.rs\<close>, \<^verbatim>\<open>session_persistence/json.rs\<close>.
\<close>

subsection \<open>Files\<close>

type_synonym path = "string list"

type_synonym disk = "path \<Rightarrow> nat list option"

datatype fs_op = FMkdir | FOpen | FRead | FWrite | FRename | FRemove | FMmap

record serialized_torrent =
  sz_info_hash :: id20
  sz_torrent_bytes :: "nat list"
  sz_trackers :: "string list"
  sz_output_folder :: path
  sz_only_files :: "nat list option"
  sz_is_paused :: bool

type_synonym session_db = "(nat \<times> serialized_torrent) list"

record json_env =
  jo_fails :: "fs_op \<Rightarrow> path \<Rightarrow> bool"
  jo_written :: "path \<Rightarrow> nat" \<comment> \<open>how much of a failed write reaches the file\<close>
  jo_ser :: "session_db \<Rightarrow> nat list"
  jo_de :: "nat list \<Rightarrow> session_db option"

definition add_extension :: "path \<Rightarrow> string \<Rightarrow> path" where
  "add_extension p ext = butlast p @ [last p @ ext]"

text \<open>Open for writing with \<^verbatim>\<open>create\<close> and \<^verbatim>\<open>truncate\<close>, then \<^verbatim>\<open>write_all\<close>.\<close>

definition write_file :: "json_env \<Rightarrow> disk \<Rightarrow> path \<Rightarrow> nat list \<Rightarrow> unit res \<times> disk" where
  "write_file J d p bytes =
     (if jo_fails J FOpen p then (Inl (Bail ''error opening''), d)
      else if jo_fails J FWrite p then (Inl (Bail ''error writing''), d(p \<mapsto> take (jo_written J p) bytes))
      else (Inr (), d(p \<mapsto> bytes)))"

definition rename_file :: "json_env \<Rightarrow> disk \<Rightarrow> path \<Rightarrow> path \<Rightarrow> unit res \<times> disk" where
  "rename_file J d a b =
     (if jo_fails J FRename a \<or> d a = None then (Inl (Bail ''error renaming''), d)
      else (Inr (), d(b := d a, a := None)))"

definition remove_file :: "json_env \<Rightarrow> disk \<Rightarrow> path \<Rightarrow> unit res \<times> disk" where
  "remove_file J d p = (if jo_fails J FRemove p \<or> d p = None then (Inl (Bail ''error removing''), d) else (Inr (), d(p := None)))"

subsection \<open>The store\<close>

record json_store =
  js_output_folder :: path
  js_db :: session_db
  js_disk :: disk

definition hex_digit :: "nat \<Rightarrow> char" where
  "hex_digit n = ''0123456789abcdef'' ! n"

definition id20_hex :: "id20 \<Rightarrow> string" where
  "id20_hex h = concat (map (\<lambda>b. [hex_digit (b div 16), hex_digit (b mod 16)]) h)"

definition db_filename :: "json_store \<Rightarrow> path" where
  "db_filename st = js_output_folder st @ [''session.json'']"

definition torrent_bytes_filename :: "json_store \<Rightarrow> id20 \<Rightarrow> path" where
  "torrent_bytes_filename st h = js_output_folder st @ [id20_hex h @ ''.torrent'']"

definition bitv_filename :: "json_store \<Rightarrow> id20 \<Rightarrow> path" where
  "bitv_filename st h = js_output_folder st @ [id20_hex h @ ''.bitv'']"

definition json_new :: "json_env \<Rightarrow> disk \<Rightarrow> path \<Rightarrow> json_store res" where
  "json_new J d folder =
     (let p = folder @ [''session.json'']
      in if jo_fails J FMkdir folder then Inl (Bail ''couldn't create directory for session storage'')
         else rbind
           (case d p of
              None \<Rightarrow> Inr []
            | Some content \<Rightarrow>
                if jo_fails J FOpen p then Inl (Bail ''error opening session file'')
                else if jo_fails J FRead p then Inl (Bail ''error reading'')
                else of_option (Bail ''error deserializing session database'') (jo_de J content))
           (\<lambda>db. Inr \<lparr>js_output_folder = folder, js_db = db, js_disk = d\<rparr>))"

definition to_hash :: "json_store \<Rightarrow> torrent_id_or_hash \<Rightarrow> id20 res" where
  "to_hash st i =
     (case i of
        Id n \<Rightarrow> of_option (Bail ''not found'') (map_option sz_info_hash (map_of (js_db st) n))
      | Hash h \<Rightarrow> Inr h)"

text \<open>The database goes to a temporary file that then takes the place of the old one.\<close>

definition flush :: "json_env \<Rightarrow> json_store \<Rightarrow> unit res \<times> json_store" where
  "flush J st =
     (let tmp = add_extension (db_filename st) ''.tmp'';
          w = write_file J (js_disk st) tmp (jo_ser J (js_db st))
      in case fst w of
           Inl e \<Rightarrow> (Inl e, st\<lparr>js_disk := snd w\<rparr>)
         | Inr _ \<Rightarrow> let r = rename_file J (snd w) tmp (db_filename st) in (fst r, st\<lparr>js_disk := snd r\<rparr>))"

definition update_db ::
  "json_env \<Rightarrow> json_store \<Rightarrow> nat \<Rightarrow> ('b, 's) managed_torrent \<Rightarrow> bool \<Rightarrow> unit res \<times> json_store" where
  "update_db J st tid torrent write_torrent_file =
     (if \<not> mt_fs_factory torrent then (Inl (Bail ''storages other than FilesystemStorageFactory are not supported''), st)
      else
        let sz = \<lparr>sz_info_hash = mt_info_hash torrent, sz_torrent_bytes = [], sz_trackers = mt_trackers torrent,
                  sz_output_folder = mt_output_folder torrent, sz_only_files = mt_only_files torrent,
                  sz_is_paused = mt_paused torrent\<rparr>;
            torrent_bytes = (case mt_metadata torrent of Some m \<Rightarrow> tm_torrent_bytes m | None \<Rightarrow> []);
            st = (if write_torrent_file \<and> torrent_bytes \<noteq> []
                  then st\<lparr>js_disk := snd (write_file J (js_disk st) (torrent_bytes_filename st (mt_info_hash torrent)) torrent_bytes)\<rparr>
                  else st)
        in flush J (st\<lparr>js_db := AList.update tid sz (js_db st)\<rparr>))"

subsection \<open>Bitfields on disk\<close>

definition json_load :: "json_env \<Rightarrow> json_store \<Rightarrow> torrent_id_or_hash \<Rightarrow> bits option res" where
  "json_load J st i =
     rbind (to_hash st i) (\<lambda>h.
       let filename = bitv_filename st h
       in case js_disk st filename of
            None \<Rightarrow> Inr None
          | Some content \<Rightarrow>
              if jo_fails J FOpen filename then Inl (Bail ''error opening'')
              else if jo_fails J FMmap filename then Inl (Bail ''error mmapping file'')
              else Inr (Some (bits_of_bytes content)))"

definition json_clear :: "json_env \<Rightarrow> json_store \<Rightarrow> torrent_id_or_hash \<Rightarrow> unit res \<times> json_store" where
  "json_clear J st i =
     (case to_hash st i of
        Inl e \<Rightarrow> (Inl e, st)
      | Inr h \<Rightarrow> let r = remove_file J (js_disk st) (bitv_filename st h) in (fst r, st\<lparr>js_disk := snd r\<rparr>))"

definition json_store_initial_check ::
  "json_env \<Rightarrow> json_store \<Rightarrow> torrent_id_or_hash \<Rightarrow> bits \<Rightarrow> bits res \<times> json_store" where
  "json_store_initial_check J st i b =
     (case to_hash st i of
        Inl e \<Rightarrow> (Inl e, st)
      | Inr h \<Rightarrow>
          let filename = bitv_filename st h;
              tmp = add_extension filename ''.tmp'';
              w = write_file J (js_disk st) tmp (bytes_of_bits b)
          in case fst w of
               Inl e \<Rightarrow> (Inl e, st\<lparr>js_disk := snd w\<rparr>)
             | Inr _ \<Rightarrow>
                 let r = rename_file J (snd w) tmp filename; st = st\<lparr>js_disk := snd r\<rparr>
                 in case fst r of
                      Inl e \<Rightarrow> (Inl e, st)
                    | Inr _ \<Rightarrow>
                        (if jo_fails J FOpen filename then Inl (Bail ''error opening'')
                         else if jo_fails J FMmap filename then Inl (Bail ''error constructing MmapBitV'')
                         else rbind (of_option (Bail ''error opening'') (js_disk st filename)) (\<lambda>content.
                                Inr (bits_of_bytes content)), st))"

definition json_bitv :: "json_env \<Rightarrow> json_store bitv_factory" where
  "json_bitv J = \<lparr>bv_load = json_load J, bv_clear = json_clear J, bv_store_initial_check = json_store_initial_check J\<rparr>"

subsection \<open>The torrents of the session\<close>

definition json_next_id :: "json_store \<Rightarrow> nat" where
  "json_next_id st = (case map fst (js_db st) of [] \<Rightarrow> 0 | i # is \<Rightarrow> add64 (fold max is i) 1)"

definition json_delete :: "json_env \<Rightarrow> json_store \<Rightarrow> nat \<Rightarrow> unit res \<times> json_store" where
  "json_delete J st tid =
     (case map_of (js_db st) tid of
        None \<Rightarrow> (Inl (Bail ''error deleting: didn't find torrent''), st)
      | Some t \<Rightarrow>
          abind (flush J (st\<lparr>js_db := AList.delete tid (js_db st)\<rparr>)) (\<lambda>_ st.
            let st = st\<lparr>js_disk := snd (remove_file J (js_disk st) (torrent_bytes_filename st (sz_info_hash t)))\<rparr>
            in (Inr (), st\<lparr>js_disk := snd (remove_file J (js_disk st) (bitv_filename st (sz_info_hash t)))\<rparr>)))"

definition json_get :: "json_env \<Rightarrow> json_store \<Rightarrow> nat \<Rightarrow> serialized_torrent res" where
  "json_get J st tid =
     rbind (of_option (Bail ''no torrent found'') (map_of (js_db st) tid)) (\<lambda>sz.
       let p = torrent_bytes_filename st (sz_info_hash sz)
       in case js_disk st p of
            None \<Rightarrow> Inr sz
          | Some content \<Rightarrow>
              Inr (if jo_fails J FOpen p \<or> jo_fails J FRead p then sz else sz\<lparr>sz_torrent_bytes := content\<rparr>))"

definition json_stream_all :: "json_env \<Rightarrow> json_store \<Rightarrow> (nat \<times> serialized_torrent) res list" where
  "json_stream_all J st = map (\<lambda>tid. rbind (json_get J st tid) (\<lambda>sz. Inr (tid, sz))) (map fst (js_db st))"

definition json_store_torrent ::
  "json_env \<Rightarrow> json_store \<Rightarrow> nat \<Rightarrow> ('b, 's) managed_torrent \<Rightarrow> unit res \<times> json_store" where
  "json_store_torrent J st tid torrent = update_db J st tid torrent True"

definition json_update_metadata ::
  "json_env \<Rightarrow> json_store \<Rightarrow> nat \<Rightarrow> ('b, 's) managed_torrent \<Rightarrow> unit res \<times> json_store" where
  "json_update_metadata J st tid torrent = update_db J st tid torrent False"

subsection \<open>The store keeps bitfields\<close>

lemma add_extension_neq [simp]: "p \<noteq> [] \<Longrightarrow> ext \<noteq> [] \<Longrightarrow> add_extension p ext \<noteq> p"
  by (metis add_extension_def append_butlast_last_id append_self_conv last_snoc)

lemma write_file_ok: "write_file J d p bs = (Inr u, d') \<Longrightarrow> d' = d(p \<mapsto> bs)"
  by (auto simp: write_file_def split: if_splits)

lemma rename_file_ok: "rename_file J d a b = (Inr u, d') \<Longrightarrow> a \<noteq> b \<Longrightarrow> d' = d(b := d a, a := None)"
  by (auto simp: rename_file_def split: if_splits)

lemma bitv_filename_nonempty [simp]: "bitv_filename st h \<noteq> []"
  by (simp add: bitv_filename_def)

lemma to_hash_disk [simp]: "to_hash (st\<lparr>js_disk := d\<rparr>) i = to_hash st i" "bitv_filename (st\<lparr>js_disk := d\<rparr>) h = bitv_filename st h"
  by (simp_all add: to_hash_def bitv_filename_def split: torrent_id_or_hash.split)

lemma json_store_initial_check_ok:
  assumes "json_store_initial_check J st i b = (Inr b', st')"
  obtains h where "to_hash st' i = Inr h" "js_disk st' (bitv_filename st' h) = Some (bytes_of_bits b)" "b' = bits_of_bytes (bytes_of_bits b)"
    "\<not> jo_fails J FOpen (bitv_filename st' h)" "\<not> jo_fails J FMmap (bitv_filename st' h)"
proof -
  obtain h where h: "to_hash st i = Inr h" using assms by (auto simp: json_store_initial_check_def split: sum.splits)
  let ?f = "bitv_filename st h" and ?w = "write_file J (js_disk st) (add_extension (bitv_filename st h) ''.tmp'') (bytes_of_bits b)"
  have w: "fst ?w = Inr ()" using assms h by (auto simp: json_store_initial_check_def Let_def split: sum.splits)
  then have d1: "snd ?w = (js_disk st)(add_extension ?f ''.tmp'' \<mapsto> bytes_of_bits b)" using write_file_ok [of J _ _ _ "()" "snd ?w"] by (simp add: prod_eq_iff)
  let ?r = "rename_file J (snd ?w) (add_extension ?f ''.tmp'') ?f"
  have r: "fst ?r = Inr ()" using assms h w by (auto simp: json_store_initial_check_def Let_def split: sum.splits)
  then have "snd ?r = (snd ?w)(?f := snd ?w (add_extension ?f ''.tmp''), add_extension ?f ''.tmp'' := None)"
    by (intro rename_file_ok [of J _ _ _ "()"]) (simp_all add: prod_eq_iff)
  then have d2: "snd ?r ?f = Some (bytes_of_bits b)" using d1 add_extension_neq [of ?f "''.tmp''", symmetric] by simp
  then show thesis using assms h w r that [of h]
    by (auto simp: json_store_initial_check_def Let_def of_option_def split: if_splits)
qed

interpretation json: bitv_laws "json_bitv J"
proof
  fix f i b b' f'
  assume s: "bv_store_initial_check (json_bitv J) f i b = (Inr b', f')" and l: "length b mod 8 = 0"
  then have s': "json_store_initial_check J f i b = (Inr b', f')" by (simp add: json_bitv_def)
  show "b' = b" by (rule json_store_initial_check_ok [OF s']) (simp add: bits_of_bytes_of_bits [OF l])
  show "bv_load (json_bitv J) f' i = Inr (Some b) \<or> bv_load (json_bitv J) f' i = Inr None"
    by (rule json_store_initial_check_ok [OF s']) (simp add: json_bitv_def json_load_def Let_def bits_of_bytes_of_bits [OF l])
next
  fix f i f'
  assume "bv_clear (json_bitv J) f i = (Inr (), f')"
  then show "bv_load (json_bitv J) f' i = Inr None"
    by (auto simp: json_bitv_def json_clear_def json_load_def Let_def remove_file_def split: sum.splits if_splits)
qed

subsection \<open>The session file is replaced as a whole\<close>

definition no_failures :: "json_env \<Rightarrow> json_env" where
  "no_failures J = J\<lparr>jo_fails := \<lambda>_ _. False\<rparr>"

text \<open>What an operation may do to the session file, whatever fails on the way: nothing, or put the new database
  in its place. When it reports success a new session reads the new database.\<close>

definition replaces_session :: "json_env \<Rightarrow> json_store \<Rightarrow> unit res \<times> json_store \<Rightarrow> bool" where
  "replaces_session J st r \<longleftrightarrow>
     js_output_folder (snd r) = js_output_folder st \<and>
     (js_disk (snd r) (db_filename st) = js_disk st (db_filename st) \<or>
      js_disk (snd r) (db_filename st) = Some (jo_ser J (js_db (snd r)))) \<and>
     (fst r = Inr () \<longrightarrow> json_new (no_failures J) (js_disk (snd r)) (js_output_folder st) = Inr (snd r))"

text \<open>The law of the encoding: what is written is read back, but for the torrent bytes, which are not part of it. The
  database in memory never holds torrent bytes.\<close>

definition codec_ok :: "json_env \<Rightarrow> bool" where
  "codec_ok J \<longleftrightarrow> (\<forall>db. jo_de J (jo_ser J db) = Some (map (\<lambda>(i, sz). (i, sz\<lparr>sz_torrent_bytes := []\<rparr>)) db))"

definition js_ok :: "json_store \<Rightarrow> bool" where
  "js_ok st \<longleftrightarrow> (\<forall>e \<in> set (js_db st). sz_torrent_bytes (snd e) = [])"

lemma codec_db: "codec_ok J \<Longrightarrow> js_ok st \<Longrightarrow> jo_de J (jo_ser J (js_db st)) = Some (js_db st)"
proof -
  assume "js_ok st"
  then have "map (\<lambda>(i, sz). (i, sz\<lparr>sz_torrent_bytes := []\<rparr>)) (js_db st) = js_db st"
    by (intro map_idI) (auto simp: js_ok_def)
  moreover assume "codec_ok J"
  ultimately show ?thesis by (simp add: codec_ok_def)
qed

lemma db_filename_neq [simp]:
  "db_filename st \<noteq> torrent_bytes_filename st h" "db_filename st \<noteq> bitv_filename st h"
  "add_extension (db_filename st) ''.tmp'' \<noteq> db_filename st" "db_filename st \<noteq> add_extension (db_filename st) ''.tmp''"
  "add_extension (db_filename st) ''.tmp'' \<noteq> torrent_bytes_filename st h" "torrent_bytes_filename st h \<noteq> db_filename st"
  "torrent_bytes_filename st h \<noteq> add_extension (db_filename st) ''.tmp''"
proof -
  have "last ''session.json'' \<noteq> last (id20_hex h @ ''.torrent'')" "last ''session.json'' \<noteq> last (id20_hex h @ ''.bitv'')"
    "last ''session.json.tmp'' \<noteq> last (id20_hex h @ ''.torrent'')" by simp_all
  then show "db_filename st \<noteq> torrent_bytes_filename st h" "db_filename st \<noteq> bitv_filename st h"
    "add_extension (db_filename st) ''.tmp'' \<noteq> torrent_bytes_filename st h" "torrent_bytes_filename st h \<noteq> db_filename st"
    "torrent_bytes_filename st h \<noteq> add_extension (db_filename st) ''.tmp''"
    by (auto simp: db_filename_def torrent_bytes_filename_def bitv_filename_def add_extension_def simp del: last.simps last_append)
qed (simp_all add: db_filename_def add_extension_def)

lemma filename_cong [simp]:
  "db_filename (st\<lparr>js_disk := d\<rparr>) = db_filename st" "db_filename (st\<lparr>js_db := db\<rparr>) = db_filename st"
  "torrent_bytes_filename (st\<lparr>js_disk := d\<rparr>) h = torrent_bytes_filename st h"
  "torrent_bytes_filename (st\<lparr>js_db := db\<rparr>) h = torrent_bytes_filename st h"
  by (simp_all add: db_filename_def torrent_bytes_filename_def)

lemma flush_cases:
  assumes "flush J st = (r, st')"
  shows "js_db st' = js_db st" "js_output_folder st' = js_output_folder st"
    "\<And>p. p \<noteq> db_filename st \<Longrightarrow> p \<noteq> add_extension (db_filename st) ''.tmp'' \<Longrightarrow> js_disk st' p = js_disk st p"
    "js_disk st' (db_filename st) = js_disk st (db_filename st) \<or> js_disk st' (db_filename st) = Some (jo_ser J (js_db st))"
    "r = Inr () \<Longrightarrow> js_disk st' (db_filename st) = Some (jo_ser J (js_db st))"
  using assms by (auto simp: flush_def Let_def write_file_def rename_file_def split: sum.splits if_splits)

lemma json_new_reads:
  assumes "codec_ok J" "js_ok st" "js_disk st (js_output_folder st @ [''session.json'']) = Some (jo_ser J (js_db st))"
  shows "json_new (no_failures J) (js_disk st) (js_output_folder st) = Inr st"
  using assms codec_db [OF assms(1,2)] by (simp add: json_new_def no_failures_def of_option_def)

lemma flush_replaces:
  assumes "codec_ok J" "js_ok st" "js_disk st (db_filename st) = js_disk st0 (db_filename st0)" "js_output_folder st = js_output_folder st0"
  shows "replaces_session J st0 (flush J st)" "js_ok (snd (flush J st))"
proof -
  obtain r st' where f: "flush J st = (r, st')" by fastforce
  note c = flush_cases [OF f]
  have ok: "js_ok st'" using assms(2) c(1) by (simp add: js_ok_def)
  then show "js_ok (snd (flush J st))" by (simp add: f)
  have db: "db_filename st0 = db_filename st" using assms(4) by (simp add: db_filename_def)
  have "json_new (no_failures J) (js_disk st') (js_output_folder st0) = Inr st'" if "r = Inr ()"
    using json_new_reads [OF assms(1) ok] c(5) [OF that] c(1,2) assms(4) by (simp add: db_filename_def)
  then show "replaces_session J st0 (flush J st)" using c assms(3,4) db by (auto simp: replaces_session_def f)
qed

lemma set_alist_update: "e \<in> set (AList.update k v al) \<Longrightarrow> e = (k, v) \<or> e \<in> set al"
  by (induction al) (auto split: if_splits)

text \<open>The record of a torrent, and the disk with its metadata file written.\<close>

definition sz_of :: "('b, 's) managed_torrent \<Rightarrow> serialized_torrent" where
  "sz_of mt = \<lparr>sz_info_hash = mt_info_hash mt, sz_torrent_bytes = [], sz_trackers = mt_trackers mt,
     sz_output_folder = mt_output_folder mt, sz_only_files = mt_only_files mt, sz_is_paused = mt_paused mt\<rparr>"

definition bytes_of_torrent :: "('b, 's) managed_torrent \<Rightarrow> nat list" where
  "bytes_of_torrent mt = (case mt_metadata mt of Some m \<Rightarrow> tm_torrent_bytes m | None \<Rightarrow> [])"

definition disk_with_torrent :: "json_env \<Rightarrow> json_store \<Rightarrow> ('b, 's) managed_torrent \<Rightarrow> bool \<Rightarrow> disk" where
  "disk_with_torrent J st mt w =
     (if w \<and> bytes_of_torrent mt \<noteq> []
      then snd (write_file J (js_disk st) (torrent_bytes_filename st (mt_info_hash mt)) (bytes_of_torrent mt)) else js_disk st)"

lemma update_db_flush:
  "mt_fs_factory mt \<Longrightarrow> update_db J st tid mt w =
     flush J (st\<lparr>js_disk := disk_with_torrent J st mt w, js_db := AList.update tid (sz_of mt) (js_db st)\<rparr>)"
  by (simp add: update_db_def Let_def disk_with_torrent_def sz_of_def bytes_of_torrent_def)

lemma update_db_replaces:
  assumes "codec_ok J" "js_ok st"
  shows "replaces_session J st (update_db J st tid mt w) \<and> js_ok (snd (update_db J st tid mt w))"
proof (cases "mt_fs_factory mt")
  case True
  let ?st = "st\<lparr>js_disk := disk_with_torrent J st mt w, js_db := AList.update tid (sz_of mt) (js_db st)\<rparr>"
  have "js_ok ?st" using assms(2) by (auto simp: js_ok_def sz_of_def dest!: set_alist_update)
  moreover have "js_disk ?st (db_filename ?st) = js_disk st (db_filename st)" by (simp add: disk_with_torrent_def write_file_def)
  ultimately show ?thesis using flush_replaces [OF assms(1), of ?st st] update_db_flush [OF True] by simp
qed (simp add: update_db_def replaces_session_def assms(2))

lemma json_delete_replaces:
  assumes "codec_ok J" "js_ok st"
  shows "replaces_session J st (json_delete J st tid) \<and> js_ok (snd (json_delete J st tid))"
proof (cases "map_of (js_db st) tid")
  case (Some t)
  let ?st = "st\<lparr>js_db := AList.delete tid (js_db st)\<rparr>"
  have "js_ok ?st" using assms(2) by (auto simp: js_ok_def AList.delete_eq)
  then have r: "replaces_session J st (flush J ?st)" "js_ok (snd (flush J ?st))" using flush_replaces [OF assms(1), of ?st st] by simp_all
  obtain c st1 where f: "flush J ?st = (c, st1)" by fastforce
  show ?thesis
  proof (cases c)
    case (Inl e)
    then show ?thesis using r Some f by (simp add: json_delete_def)
  next
    case (Inr u)
    define d2 where "d2 = js_disk (snd (json_delete J st tid))"
    have d: "json_delete J st tid = (Inr (), st1\<lparr>js_disk := d2\<rparr>)"
      using Some f Inr by (simp add: json_delete_def d2_def Let_def)
    have fo: "js_output_folder st1 = js_output_folder st" using flush_cases(2) [OF f] by simp
    have "db_filename st = db_filename st1" using fo by (simp add: db_filename_def)
    then have "d2 (db_filename st) = js_disk st1 (db_filename st)"
      using Some f Inr by (simp add: d2_def json_delete_def Let_def remove_file_def)
    moreover have ok: "js_ok (st1\<lparr>js_disk := d2\<rparr>)" using r(2) f by (simp add: js_ok_def)
    moreover have s: "js_disk st1 (db_filename st) = Some (jo_ser J (js_db st1))"
      using flush_cases(5) [OF f] flush_cases(1) [OF f] Inr by simp
    ultimately show ?thesis using json_new_reads [OF assms(1) ok] fo d by (simp add: replaces_session_def db_filename_def)
  qed
qed (simp add: json_delete_def replaces_session_def assms(2))



subsection \<open>Examples\<close>

text \<open>An encoding that satisfies the law.\<close>

definition ex_json :: json_env where
  "ex_json = \<lparr>jo_fails = (\<lambda>_ _. False), jo_written = (\<lambda>_. 0),
     jo_ser = (\<lambda>db. [to_nat (map (\<lambda>(i, sz). (i, sz_info_hash sz, sz_trackers sz, sz_output_folder sz, sz_only_files sz, sz_is_paused sz)) db)]),
     jo_de = (\<lambda>bs. Some (map (\<lambda>(i, h, tr, fo, on, pa). (i, \<lparr>sz_info_hash = h, sz_torrent_bytes = [], sz_trackers = tr,
       sz_output_folder = fo, sz_only_files = on, sz_is_paused = pa\<rparr>)) (from_nat (hd bs))))\<rparr>"

lemma ex_json_codec: "codec_ok ex_json"
  by (simp add: codec_ok_def ex_json_def split_beta comp_def)

definition ex_store :: json_store where
  "ex_store = \<lparr>js_output_folder = [''cfg''], js_db = [], js_disk = (\<lambda>_. None)\<rparr>"

definition ex_mt_stored :: "(nat, filesystem_storage) managed_torrent" where
  "ex_mt_stored = ex_mt\<lparr>mt_metadata := Some (ex_metadata\<lparr>tm_torrent_bytes := [100, 101]\<rparr>)\<rparr>"

lemma ex_store_ok: "js_ok ex_store"
  by (simp add: js_ok_def ex_store_def)



end
