(* ===== verification/Session.thy ===== *)
theory Session
  imports Json_Store Text
begin

text \<open>
  The session: the table of torrents, how a torrent is added, found, stopped and deleted, where it is
  saved, and where it looks for peers. Parsing of magnet links and torrent files, regular expressions,
  URLs, HTTP, the DHT and the trackers are parameters.

  Source: \<^verbatim>\<open>session.rs\<close>.
\<close>

subsection \<open>Paths\<close>

text \<open>\<^verbatim>\<open>Path::components\<close> of a string, as Unix reads it.\<close>

datatype component = RootDir | CurDir | ParentDir | Normal string

definition component_of :: "string \<Rightarrow> component" where
  "component_of p = (if p = ''..'' then ParentDir else Normal p)"

definition components :: "string \<Rightarrow> component list" where
  "components s =
     (let ps = split_on (CHR ''/'') s
      in (if s \<noteq> [] \<and> hd s = CHR ''/'' then [RootDir] else if hd ps = ''.'' then [CurDir] else [])
         @ map component_of (filter (\<lambda>p. p \<noteq> [] \<and> p \<noteq> ''.'') ps))"

definition check_valid :: "string \<Rightarrow> unit res" where
  "check_valid pb =
     (if list_ex (\<lambda>x. case x of Normal _ \<Rightarrow> False | _ \<Rightarrow> True) (components pb) then Inl (Bail ''path traversal in torrent name detected'') else Inr ())"

text \<open>\<^verbatim>\<open>Path::file_name\<close> and \<^verbatim>\<open>Path::file_stem\<close> of a path that was pushed together from its parts. A part that is empty or
  a dot is no component, and two dots have no name.\<close>

definition file_name :: "path \<Rightarrow> string option" where
  "file_name p =
     (case rev (filter (\<lambda>c. c \<noteq> [] \<and> c \<noteq> ''.'') p) of
        [] \<Rightarrow> None
      | c # _ \<Rightarrow> if c = ''..'' then None else Some c)"

text \<open>The part before the last dot, if there is a dot and something before it.\<close>

definition before_last_dot :: "string \<Rightarrow> string" where
  "before_last_dot s =
     (let r = dropWhile (\<lambda>c. c \<noteq> CHR ''.'') (rev s)
      in if r = [] \<or> tl r = [] then s else rev (tl r))"

definition file_stem :: "path \<Rightarrow> string option" where
  "file_stem p = map_option before_last_dot (file_name p)"

subsection \<open>Which files\<close>

text \<open>The regular expression is given by its match function. \<^verbatim>\<open>to_str\<close> joins the parts of a path with slashes.\<close>

fun path_str :: "path \<Rightarrow> string" where
  "path_str [] = []"
| "path_str [p] = p"
| "path_str (p # ps) = p @ ''/'' @ path_str ps"

fun matching_files :: "(string \<Rightarrow> bool) \<Rightarrow> nat \<Rightarrow> file_details list \<Rightarrow> nat list res" where
  "matching_files re idx [] = Inr []"
| "matching_files re idx (fd # fds) =
     rbind (to_pathbuf (fd_filename fd)) (\<lambda>p.
     rbind (matching_files re (idx + 1) fds) (\<lambda>ids.
       Inr (if re (path_str p) then idx # ids else ids)))"

definition compute_only_files_regex :: "(string \<Rightarrow> (string \<Rightarrow> bool) option) \<Rightarrow> meta_info \<Rightarrow> string \<Rightarrow> nat list res" where
  "compute_only_files_regex regex info filename_re =
     rbind (of_option (Bail ''filename regex is incorrect'') (regex filename_re)) (\<lambda>re.
     rbind (iter_file_details info) (\<lambda>fds.
     rbind (matching_files re 0 fds) (\<lambda>ids.
       if ids = [] then Inl (Bail ''none of the filenames match the given regex'') else Inr ids)))"

definition compute_only_files ::
  "(string \<Rightarrow> (string \<Rightarrow> bool) option) \<Rightarrow> meta_info \<Rightarrow> nat list option \<Rightarrow> string option \<Rightarrow> nat list option res" where
  "compute_only_files regex info only_files only_files_regex =
     (case (only_files, only_files_regex) of
        (Some _, Some _) \<Rightarrow> Inl (Bail ''only_files and only_files_regex are mutually exclusive'')
      | (Some only_files, None) \<Rightarrow>
          rbind (iter_file_lengths info) (\<lambda>lens.
            if list_ex (\<lambda>i. i \<ge> length lens) only_files then Inl (Bail ''file id is out of range'') else Inr (Some only_files))
      | (None, Some filename_re) \<Rightarrow>
          rbind (compute_only_files_regex regex info filename_re) (\<lambda>ids.
          rbind (iter_file_details info) (\<lambda>_. Inr (Some ids)))
      | (None, None) \<Rightarrow> Inr None)"

subsection \<open>Where to\<close>

fun collect_pathbufs :: "file_details list \<Rightarrow> (path \<times> nat) list res" where
  "collect_pathbufs [] = Inr []"
| "collect_pathbufs (fd # fds) =
     rbind (to_pathbuf (fd_filename fd)) (\<lambda>p. rbind (collect_pathbufs fds) (\<lambda>ps. Inr ((p, fd_len fd) # ps)))"

definition longest_file_stem :: "(path \<times> nat) list \<Rightarrow> string res" where
  "longest_file_stem files =
     (case max_by_key snd files of
        None \<Rightarrow> Inl Panic
      | Some (p, _) \<Rightarrow> of_option (Bail ''can't determine longest filename'') (file_stem p))"

text \<open>The folder inside the session's folder: the name of the torrent, decoded with replacement characters, the name
  the magnet link gave it, or the name of its longest file.\<close>

definition get_default_subfolder_for_torrent ::
  "(string \<Rightarrow> string) \<Rightarrow> meta_info \<Rightarrow> string option \<Rightarrow> string option res" where
  "get_default_subfolder_for_torrent lossy info magnet_name =
     rbind (iter_file_details info) (\<lambda>fds.
     rbind (collect_pathbufs fds) (\<lambda>files.
       if length files < 2 then Inr None
       else
         let named = (case mi_name info of Some name \<Rightarrow> if lossy name \<noteq> [] then Some (lossy name) else None | None \<Rightarrow> None)
         in case (case named of Some n \<Rightarrow> Some n | None \<Rightarrow> magnet_name) of
              Some name \<Rightarrow> rbind (check_valid name) (\<lambda>_. Inr (Some name))
            | None \<Rightarrow> rbind (longest_file_stem files) (\<lambda>s. Inr (Some s))))"

subsection \<open>Where the peers come from\<close>

record peer_sources =
  rx_dht :: bool
  rx_trackers :: "string list"
  rx_initial :: "socket_addr list"

subsection \<open>The session\<close>

record ('b, 's) session =
  se_torrents :: "(nat \<times> ('b, 's) managed_torrent) list"
  se_next_id :: nat
  se_output_folder :: path
  se_persistence :: "json_store option"
  se_trackers :: "string list"
  se_peer_id :: id20
  se_dht :: bool
  se_counters :: session_counters
  se_disable_upload :: bool

record magnet =
  mg_id20 :: "id20 option"
  mg_trackers :: "string list"
  mg_name :: "string option"
  mg_select_only :: "nat list option"

record parsed_torrent_file =
  pt_info_hash :: id20
  pt_info :: meta_info
  pt_announce :: "string list"
  pt_info_bytes :: "nat list"
  pt_torrent_bytes :: "nat list"

datatype add_torrent = Url string | TorrentFileBytes "nat list"

record add_torrent_options =
  ao_paused :: bool
  ao_only_files_regex :: "string option"
  ao_only_files :: "nat list option"
  ao_list_only :: bool
  ao_output_folder :: "path option"
  ao_sub_folder :: "path option"
  ao_initial_peers :: "socket_addr list option"
  ao_preferred_id :: "nat option"
  ao_fs_factory :: "bool option" \<comment> \<open>a storage factory of its own, and whether it is the one of the file system\<close>
  ao_trackers :: "string list option"

record internal_add_result =
  ia_info_hash :: id20
  ia_metadata :: "torrent_metadata option"
  ia_trackers :: "string list"
  ia_name :: "string option"

record list_only_response =
  lo_info_hash :: id20
  lo_info :: meta_info
  lo_only_files :: "nat list option"
  lo_output_folder :: path
  lo_seen_peers :: "socket_addr list"
  lo_torrent_bytes :: "nat list"

datatype add_torrent_response = AlreadyManaged nat | ListOnly list_only_response | Added nat

text \<open>Code outside the session: parsers, HTTP, the resolution of a magnet link by its peers (metadata and the peers seen), whether a
  tracker client starts for a list of trackers, and the default storage factory.\<close>

record session_env =
  sv_regex :: "string \<Rightarrow> (string \<Rightarrow> bool) option"
  sv_lossy :: "string \<Rightarrow> string"
  sv_parse_magnet :: "string \<Rightarrow> magnet res"
  sv_parse_url :: "string \<Rightarrow> string option"
  sv_torrent_from_bytes :: "nat list \<Rightarrow> parsed_torrent_file res"
  sv_http_get :: "string \<Rightarrow> nat list res"
  sv_read_metainfo :: "id20 \<Rightarrow> (meta_info \<times> nat list \<times> socket_addr list) option"
  sv_torrent_file :: "nat list \<Rightarrow> string list \<Rightarrow> nat list res"
  sv_tracker_starts :: "string list \<Rightarrow> bool"
  sv_default_fs_factory :: bool
  sv_json :: json_env

definition make_peer_rx ::
  "session_env \<Rightarrow> ('b, 's) session \<Rightarrow> string list \<Rightarrow> socket_addr list \<Rightarrow> bool \<Rightarrow> peer_sources option" where
  "make_peer_rx V se trackers initial_peers is_private =
     (let dht_rx = (if is_private then False else se_dht se);
          trackers = (if is_private \<and> length trackers > 1 then take 1 trackers else trackers @ se_trackers se);
          tracker_rx = sv_tracker_starts V trackers
      in if \<not> dht_rx \<and> \<not> tracker_rx \<and> initial_peers = [] then None
         else Some \<lparr>rx_dht = dht_rx, rx_trackers = (if tracker_rx then trackers else []), rx_initial = initial_peers\<rparr>)"

subsection \<open>What to add\<close>

fun unique_first :: "'a list \<Rightarrow> 'a list" where
  "unique_first [] = []"
| "unique_first (x # xs) = x # filter (\<lambda>y. y \<noteq> x) (unique_first xs)"

definition add_torrent_file ::
  "session_env \<Rightarrow> add_torrent_options \<Rightarrow> parsed_torrent_file \<Rightarrow> internal_add_result res" where
  "add_torrent_file V opts torrent =
     rbind (torrent_metadata_new (pt_info torrent) (pt_torrent_bytes torrent) (pt_info_bytes torrent)) (\<lambda>m.
       Inr \<lparr>ia_info_hash = pt_info_hash torrent, ia_metadata = Some m,
            ia_trackers = List.map_filter (sv_parse_url V)
              (filter utf8_ok (unique_first (pt_announce torrent)) @ (case ao_trackers opts of Some ts \<Rightarrow> ts | None \<Rightarrow> [])),
            ia_name = None\<rparr>)"

definition read_add_torrent ::
  "session_env \<Rightarrow> add_torrent \<Rightarrow> add_torrent_options \<Rightarrow> (internal_add_result \<times> add_torrent_options) res" where
  "read_add_torrent V add opts =
     (case add of
        Url url \<Rightarrow>
          if starts_with url ''magnet:'' \<or> length url = 40 then
            rbind (sv_parse_magnet V url) (\<lambda>magnet.
            rbind (of_option (Bail ''magnet link didn't contain a BTv1 infohash'') (mg_id20 magnet)) (\<lambda>info_hash.
              Inr (\<lparr>ia_info_hash = info_hash, ia_metadata = None,
                    ia_trackers = List.map_filter (sv_parse_url V) (mg_trackers magnet), ia_name = mg_name magnet\<rparr>,
                   (case mg_select_only magnet of
                      Some so \<Rightarrow> if ao_only_files opts = None then opts\<lparr>ao_only_files := Some so\<rparr> else opts
                    | None \<Rightarrow> opts))))
          else if starts_with url ''http://'' \<or> starts_with url ''https://'' then
            rbind (sv_http_get V url) (\<lambda>bytes.
            rbind (sv_torrent_from_bytes V bytes) (\<lambda>torrent.
            rbind (add_torrent_file V opts torrent) (\<lambda>ia. Inr (ia, opts))))
          else Inl (Bail ''unsupported URL. Supporting magnet:, http:, and https'')
      | TorrentFileBytes bytes \<Rightarrow>
          rbind (sv_torrent_from_bytes V bytes) (\<lambda>torrent.
          rbind (add_torrent_file V opts torrent) (\<lambda>ia. Inr (ia, opts))))"

definition resolve_magnet :: "session_env \<Rightarrow> id20 \<Rightarrow> string list \<Rightarrow> (torrent_metadata \<times> socket_addr list) res" where
  "resolve_magnet V info_hash trackers =
     (case sv_read_metainfo V info_hash of
        None \<Rightarrow> Inl (Bail ''input address stream exhausted, no way to discover torrent metainfo'')
      | Some (info, info_bytes, seen_peers) \<Rightarrow>
          rbind (sv_torrent_file V info_bytes trackers) (\<lambda>torrent_bytes.
          rbind (torrent_metadata_new info torrent_bytes info_bytes) (\<lambda>m. Inr (m, seen_peers))))"

text \<open>The metadata, from the torrent file or the peers, and the peers seen on the way.\<close>

definition resolve_metadata ::
  "session_env \<Rightarrow> ('b, 's) session \<Rightarrow> internal_add_result \<Rightarrow> add_torrent_options \<Rightarrow> (torrent_metadata \<times> socket_addr list) res" where
  "resolve_metadata V se ia opts =
     (case ia_metadata ia of
        Some m \<Rightarrow> Inr (m, [])
      | None \<Rightarrow>
          (case make_peer_rx V se (ia_trackers ia) (case ao_initial_peers opts of Some ps \<Rightarrow> ps | None \<Rightarrow> []) False of
             None \<Rightarrow> Inl (Bail ''no known way to resolve peers (no DHT, no trackers, no initial_peers)'')
           | Some _ \<Rightarrow> resolve_magnet V (ia_info_hash ia) (ia_trackers ia)))"

definition choose_output_folder ::
  "session_env \<Rightarrow> ('b, 's) session \<Rightarrow> meta_info \<Rightarrow> string option \<Rightarrow> add_torrent_options \<Rightarrow> path res" where
  "choose_output_folder V se info name opts =
     (case (ao_output_folder opts, ao_sub_folder opts) of
        (None, None) \<Rightarrow>
          rbind (get_default_subfolder_for_torrent (sv_lossy V) info name) (\<lambda>sub.
            Inr (se_output_folder se @ (case sub of Some s \<Rightarrow> split_on (CHR ''/'') s | None \<Rightarrow> [])))
      | (Some out, None) \<Rightarrow> Inr out
      | (Some _, Some _) \<Rightarrow> Inl (Bail ''you can't provide both output_folder and sub_folder'')
      | (None, Some s) \<Rightarrow> Inr (se_output_folder se @ s))"

subsection \<open>Adding it\<close>

text \<open>The id is chosen before the table is locked.\<close>

definition choose_id :: "('b, 's) session \<Rightarrow> add_torrent_options \<Rightarrow> nat \<times> ('b, 's) session" where
  "choose_id se opts =
     (case ao_preferred_id opts of
        Some tid \<Rightarrow> (tid, se)
      | None \<Rightarrow>
          (case se_persistence se of
             Some p \<Rightarrow> (json_next_id p, se)
           | None \<Rightarrow> (se_next_id se, se\<lparr>se_next_id := add64 (se_next_id se) 1\<rparr>)))"

definition new_managed_torrent ::
  "('b, 's) session \<Rightarrow> nat \<Rightarrow> internal_add_result \<Rightarrow> torrent_metadata \<Rightarrow> nat list option \<Rightarrow> path \<Rightarrow> bool \<Rightarrow> bool \<Rightarrow> 's
   \<Rightarrow> ('b, 's) managed_torrent" where
  "new_managed_torrent se tid ia metadata only_files folder fs_factory start_paused files =
     \<lparr>mt_id = tid, mt_info_hash = ia_info_hash ia, mt_trackers = ia_trackers ia, mt_output_folder = folder,
      mt_fs_factory = fs_factory, mt_disable_upload = se_disable_upload se, mt_magnet_name = ia_name ia,
      mt_metadata = Some metadata, mt_paused = start_paused, mt_state = Initializing 0, mt_only_files = only_files,
      mt_inits = [initializing_new tid (ia_info_hash ia) (se_disable_upload se) metadata only_files files False],
      mt_tasks = [], mt_detached = []\<rparr>"

text \<open>Under the lock of the table: an entry with the same hash or the same id is returned, otherwise the torrent is entered.\<close>

definition insert_torrent ::
  "('b, 's, 'f) managed_env \<Rightarrow> ('b, 's) session \<Rightarrow> nat \<Rightarrow> internal_add_result \<Rightarrow> torrent_metadata \<Rightarrow> nat list option \<Rightarrow> path
   \<Rightarrow> bool \<Rightarrow> bool \<Rightarrow> nat option res \<times> ('b, 's) session" where
  "insert_torrent E se tid ia metadata only_files folder fs_factory start_paused =
     (case List.find (\<lambda>(eid, t). mt_info_hash t = ia_info_hash ia \<or> eid = tid) (se_torrents se) of
        Some (eid, _) \<Rightarrow> (Inr (Some eid), se)
      | None \<Rightarrow>
          (case me_create_and_init E metadata of
             Inl e \<Rightarrow> (Inl e, se)
           | Inr files \<Rightarrow>
               (Inr None, se\<lparr>se_torrents := AList.update tid
                  (new_managed_torrent se tid ia metadata only_files folder fs_factory start_paused files) (se_torrents se)\<rparr>)))"

text \<open>A torrent of the table, changed in place.\<close>

definition on_torrent ::
  "('b, 's) session \<Rightarrow> nat \<Rightarrow> (('b, 's) managed_torrent \<Rightarrow> unit res \<times> ('b, 's) managed_torrent) \<Rightarrow> unit res \<times> ('b, 's) session" where
  "on_torrent se tid f =
     (case map_of (se_torrents se) tid of
        None \<Rightarrow> (Inl (Bail ''torrent not found''), se)
      | Some mt \<Rightarrow> let r = f mt in (fst r, se\<lparr>se_torrents := AList.update tid (snd r) (se_torrents se)\<rparr>))"

text \<open>After the lock is released: the torrent is stored, or taken out of the table again, and started.\<close>

definition store_and_start ::
  "('b, 's, 'f) managed_env \<Rightarrow> session_env \<Rightarrow> ('b, 's) session \<Rightarrow> nat \<Rightarrow> bool \<Rightarrow> add_torrent_response res \<times> ('b, 's) session" where
  "store_and_start E V se tid start_paused =
     abind
       (case (se_persistence se, map_of (se_torrents se) tid) of
          (Some p, Some mt) \<Rightarrow>
            (let r = json_store_torrent (sv_json V) p tid mt; se = se\<lparr>se_persistence := Some (snd r)\<rparr>
             in case fst r of
                  Inl e \<Rightarrow> (Inl e, se\<lparr>se_torrents := AList.delete tid (se_torrents se)\<rparr>)
                | Inr _ \<Rightarrow> (Inr (), se))
        | _ \<Rightarrow> (Inr (), se))
       (\<lambda>_ se. abind (on_torrent se tid (mt_start E (se_counters se) start_paused)) (\<lambda>_ se. (Inr (Added tid), se)))"

definition add_torrent_internal ::
  "('b, 's, 'f) managed_env \<Rightarrow> session_env \<Rightarrow> ('b, 's) session \<Rightarrow> internal_add_result \<Rightarrow> add_torrent_options
   \<Rightarrow> add_torrent_response res \<times> ('b, 's) session" where
  "add_torrent_internal E V se ia opts =
     (case rbind (resolve_metadata V se ia opts) (\<lambda>(metadata, seen_peers).
           rbind (compute_only_files (sv_regex V) (tm_info metadata) (ao_only_files opts) (ao_only_files_regex opts)) (\<lambda>only_files.
           rbind (choose_output_folder V se (tm_info metadata) (ia_name ia) opts) (\<lambda>folder.
             Inr (metadata, seen_peers, only_files, folder)))) of
        Inl e \<Rightarrow> (Inl e, se)
      | Inr (metadata, seen_peers, only_files, folder) \<Rightarrow>
          if ao_list_only opts then
            (Inr (ListOnly \<lparr>lo_info_hash = ia_info_hash ia, lo_info = tm_info metadata, lo_only_files = only_files,
               lo_output_folder = folder, lo_seen_peers = seen_peers, lo_torrent_bytes = tm_torrent_bytes metadata\<rparr>), se)
          else
            let (tid, se) = choose_id se opts;
                fs_factory = (case ao_fs_factory opts of Some b \<Rightarrow> b | None \<Rightarrow> sv_default_fs_factory V)
            in abind (insert_torrent E se tid ia metadata only_files folder fs_factory (ao_paused opts)) (\<lambda>found se.
                 case found of
                   Some eid \<Rightarrow> (Inr (AlreadyManaged eid), se)
                 | None \<Rightarrow> store_and_start E V se tid (ao_paused opts)))"

definition session_add_torrent ::
  "('b, 's, 'f) managed_env \<Rightarrow> session_env \<Rightarrow> ('b, 's) session \<Rightarrow> add_torrent \<Rightarrow> add_torrent_options
   \<Rightarrow> add_torrent_response res \<times> ('b, 's) session" where
  "session_add_torrent E V se add opts =
     (case read_add_torrent V add opts of
        Inl e \<Rightarrow> (Inl e, se)
      | Inr (ia, opts) \<Rightarrow> add_torrent_internal E V se ia opts)"

subsection \<open>The torrents of the session\<close>

definition find_hash :: "('b, 's) session \<Rightarrow> id20 \<Rightarrow> (nat \<times> ('b, 's) managed_torrent) option" where
  "find_hash se h = List.find (\<lambda>(_, t). mt_info_hash t = h) (se_torrents se)"

definition session_get :: "('b, 's) session \<Rightarrow> torrent_id_or_hash \<Rightarrow> ('b, 's) managed_torrent option" where
  "session_get se i =
     (case i of
        Id n \<Rightarrow> map_of (se_torrents se) n
      | Hash h \<Rightarrow> map_option snd (find_hash se h))"

definition update_persistence_metadata :: "session_env \<Rightarrow> ('b, 's) session \<Rightarrow> nat \<Rightarrow> ('b, 's) session" where
  "update_persistence_metadata V se tid =
     (case (se_persistence se, map_of (se_torrents se) tid) of
        (Some p, Some mt) \<Rightarrow> se\<lparr>se_persistence := Some (snd (json_update_metadata (sv_json V) p tid mt))\<rparr>
      | _ \<Rightarrow> se)"

definition session_pause ::
  "('b, 's, 'f) managed_env \<Rightarrow> session_env \<Rightarrow> ('b, 's) session \<Rightarrow> nat \<Rightarrow> unit res \<times> ('b, 's) session" where
  "session_pause E V se tid =
     abind (on_torrent se tid (mt_pause E)) (\<lambda>_ se. (Inr (), update_persistence_metadata V se tid))"

definition session_unpause ::
  "('b, 's, 'f) managed_env \<Rightarrow> session_env \<Rightarrow> ('b, 's) session \<Rightarrow> nat \<Rightarrow> unit res \<times> ('b, 's) session" where
  "session_unpause E V se tid =
     abind (on_torrent se tid (mt_start E (se_counters se) False)) (\<lambda>_ se. (Inr (), update_persistence_metadata V se tid))"

definition session_update_only_files ::
  "('b, 's, 'f) managed_env \<Rightarrow> session_env \<Rightarrow> ('b, 's) session \<Rightarrow> nat \<Rightarrow> nat set \<Rightarrow> unit res \<times> ('b, 's) session" where
  "session_update_only_files E V se tid only_files =
     abind (on_torrent se tid (\<lambda>mt. mt_update_only_files E mt only_files)) (\<lambda>_ se. (Inr (), update_persistence_metadata V se tid))"

text \<open>Stopping pauses every torrent that can be paused.\<close>

definition session_stop :: "('b, 's, 'f) managed_env \<Rightarrow> ('b, 's) session \<Rightarrow> ('b, 's) session" where
  "session_stop E se = se\<lparr>se_torrents := map (\<lambda>(tid, mt). (tid, snd (mt_pause E mt))) (se_torrents se)\<rparr>"

subsection \<open>Deleting\<close>

text \<open>What is removed from the storage: the files that are not padding, then the folders that held them, longer paths first.\<close>

fun parents :: "path \<Rightarrow> path list" where
  "parents p = map (\<lambda>n. take n p) (rev [1..<length p])"

definition files_to_remove :: "file_info list \<Rightarrow> (nat \<times> path) list" where
  "files_to_remove infos =
     map (\<lambda>(i, fi). (i, relative_filename fi)) (filter (\<lambda>(_, fi). \<not> padding (fi_attrs fi)) (List.enumerate 0 infos))"

definition dirs_to_remove :: "file_info list \<Rightarrow> path list" where
  "dirs_to_remove infos =
     rev (sort_key (\<lambda>d. length (path_str d)) (remdups (concat (map (\<lambda>(_, p). parents p) (files_to_remove infos)))))"

record removals =
  rm_files :: "(nat \<times> path) list"
  rm_dirs :: "path list"
  rm_output_folder :: bool

text \<open>The storage whose files are removed: the one the torrent held, or a new one.\<close>

definition storage_to_remove ::
  "('b, 's, 'f) managed_env \<Rightarrow> (torrent_metadata \<Rightarrow> 's res) \<Rightarrow> ('b, 's) managed_torrent \<Rightarrow> torrent_metadata \<Rightarrow> 's res" where
  "storage_to_remove E create mt metadata =
     (case (case mt_state mt of
              Initializing r \<Rightarrow> (case ie_take (me_init E) (in_files (mt_inits mt ! r)) of Inr (taken, _) \<Rightarrow> Some taken | Inl _ \<Rightarrow> None)
            | PausedSt p \<Rightarrow> Some (pa_files p)
            | LiveSt l \<Rightarrow> (case pause (me_env E) l of (Inr p, _) \<Rightarrow> Some (pa_files p) | (Inl _, _) \<Rightarrow> None)
            | _ \<Rightarrow> None) of
        Some files \<Rightarrow> Inr files
      | None \<Rightarrow> create metadata)"

definition resolve_id :: "('b, 's) session \<Rightarrow> torrent_id_or_hash \<Rightarrow> nat res" where
  "resolve_id se i =
     (case i of
        Id n \<Rightarrow> Inr n
      | Hash h \<Rightarrow> of_option (Bail ''no such torrent in db'') (map_option (\<lambda>e. mt_id (snd e)) (find_hash se h)))"

definition session_delete ::
  "('b, 's, 'f) managed_env \<Rightarrow> session_env \<Rightarrow> (torrent_metadata \<Rightarrow> 's res) \<Rightarrow> ('b, 's) session \<Rightarrow> torrent_id_or_hash \<Rightarrow> bool
   \<Rightarrow> removals option res \<times> ('b, 's) session" where
  "session_delete E V create se i delete_files =
     (case rbind (resolve_id se i) (\<lambda>tid.
             rbind (of_option (Bail ''torrent did not exist'') (map_of (se_torrents se) tid)) (\<lambda>mt. Inr (tid, mt))) of
        Inl e \<Rightarrow> (Inl e, se)
      | Inr (tid, mt) \<Rightarrow>
          let se = se\<lparr>se_torrents := AList.delete tid (se_torrents se)\<rparr>;
              mt = snd (mt_pause E mt)
          in case mt_metadata mt of
               None \<Rightarrow> (Inl Panic, se)
             | Some metadata \<Rightarrow>
                 let storage = storage_to_remove E create mt metadata;
                     se = (case se_persistence se of
                             Some p \<Rightarrow> se\<lparr>se_persistence := Some (snd (json_delete (sv_json V) p tid))\<rparr>
                           | None \<Rightarrow> se)
                 in case (storage, delete_files) of
                      (Inl e, True) \<Rightarrow> (Inl e, se)
                    | (Inr _, True) \<Rightarrow>
                        (Inr (Some \<lparr>rm_files = files_to_remove (tm_file_infos metadata), rm_dirs = dirs_to_remove (tm_file_infos metadata),
                           rm_output_folder = (mt_output_folder mt \<noteq> se_output_folder se)\<rparr>), se)
                    | (_, False) \<Rightarrow> (Inr None, se))"

subsection \<open>Incoming connections\<close>

text \<open>The torrent an incoming peer is handed to, from its address and the peer id and hash of its handshake.\<close>

definition check_incoming_connection ::
  "('b, 's) session \<Rightarrow> (ip_addr \<Rightarrow> bool) \<Rightarrow> socket_addr \<Rightarrow> id20 \<Rightarrow> id20 \<Rightarrow> nat res" where
  "check_incoming_connection se is_blocked addr peer_id info_hash =
     (if is_blocked (fst addr) then Inl (Bail ''Incoming ip is in blocklist'')
      else if peer_id = se_peer_id se then Inl (Bail ''seems like we are connecting to ourselves, ignoring'')
      else case find_hash se info_hash of
             None \<Rightarrow> Inl (Bail ''didn't find a matching torrent'')
           | Some (tid, mt) \<Rightarrow>
               (case mt_live mt of
                  None \<Rightarrow> Inl (Bail ''torrent is not live, ignoring connection'')
                | Some _ \<Rightarrow> Inr tid))"

subsection \<open>Restoring\<close>

text \<open>A stored torrent as something to add. A magnet link is made of the hash, the trackers and the selection.\<close>

definition into_add_torrent ::
  "(id20 \<Rightarrow> string list \<Rightarrow> nat list option \<Rightarrow> string) \<Rightarrow> serialized_torrent \<Rightarrow> add_torrent \<times> add_torrent_options" where
  "into_add_torrent magnet_string sz =
     (if sz_torrent_bytes sz \<noteq> [] then TorrentFileBytes (sz_torrent_bytes sz)
      else Url (magnet_string (sz_info_hash sz) (sz_trackers sz) (sz_only_files sz)),
      \<lparr>ao_paused = sz_is_paused sz, ao_only_files_regex = None, ao_only_files = sz_only_files sz, ao_list_only = False,
       ao_output_folder = Some (sz_output_folder sz), ao_sub_folder = None, ao_initial_peers = None, ao_preferred_id = None,
       ao_fs_factory = None, ao_trackers = None\<rparr>)"

fun restore_torrents ::
  "('b, 's, 'f) managed_env \<Rightarrow> session_env \<Rightarrow> (id20 \<Rightarrow> string list \<Rightarrow> nat list option \<Rightarrow> string)
   \<Rightarrow> (nat \<times> serialized_torrent) res list \<Rightarrow> ('b, 's) session \<Rightarrow> unit res \<times> ('b, 's) session" where
  "restore_torrents E V magnet_string [] se = (Inr (), se)"
| "restore_torrents E V magnet_string (Inl e # ps) se = (Inl e, se)"
| "restore_torrents E V magnet_string (Inr (tid, sz) # ps) se =
     (let (add, opts) = into_add_torrent magnet_string sz
      in restore_torrents E V magnet_string ps (snd (session_add_torrent E V se add (opts\<lparr>ao_preferred_id := Some tid\<rparr>))))"

subsection \<open>One entry per torrent\<close>

text \<open>The steps of the session. The three parts of adding a torrent are steps of their own, so those of concurrent calls
  may alternate.\<close>

inductive sstep ::
  "('b, 's, 'f) managed_env \<Rightarrow> session_env \<Rightarrow> ('b, 's) session \<Rightarrow> ('b, 's) session \<Rightarrow> bool" for E V where
  chosen: "sstep E V se (snd (choose_id se opts))"
| inserted: "sstep E V se (snd (insert_torrent E se tid ia metadata only folder fs p))"
| stored: "sstep E V se (snd (store_and_start E V se tid p))"
| pausing: "sstep E V se (snd (session_pause E V se tid))"
| unpausing: "sstep E V se (snd (session_unpause E V se tid))"
| selecting: "sstep E V se (snd (session_update_only_files E V se tid files))"
| stopping: "sstep E V se (session_stop E se)"
| deleting: "sstep E V se (snd (session_delete E V create se i del))"
| within: "map_of (se_torrents se) tid = Some mt \<Longrightarrow> mstep E (mt, f) (mt', f') \<Longrightarrow>
    sstep E V se (se\<lparr>se_torrents := AList.update tid mt' (se_torrents se)\<rparr>)"

inductive sreach ::
  "('b, 's, 'f) managed_env \<Rightarrow> session_env \<Rightarrow> ('b, 's) session \<Rightarrow> ('b, 's) session \<Rightarrow> bool" for E V se0 where
  start: "sreach E V se0 se0"
| step: "sreach E V se0 se \<Longrightarrow> sstep E V se se' \<Longrightarrow> sreach E V se0 se'"

definition same_torrent :: "('b, 's) managed_torrent \<Rightarrow> ('b, 's) managed_torrent \<Rightarrow> bool" where
  "same_torrent mt mt' \<longleftrightarrow> mt_id mt' = mt_id mt \<and> mt_info_hash mt' = mt_info_hash mt"

definition table_ok :: "(nat \<times> ('b, 's) managed_torrent) list \<Rightarrow> bool" where
  "table_ok ts \<longleftrightarrow> distinct (map fst ts) \<and> (\<forall>(tid, mt) \<in> set ts. mt_id mt = tid) \<and> distinct (map (\<lambda>e. mt_info_hash (snd e)) ts)"

lemma mt_start_same: "same_torrent mt (snd (mt_start E S p mt))"
  by (simp add: same_torrent_def mt_start_def start_inner_def spawn_init_def Let_def split: managed_state.split option.split sum.split)

lemma start_inner_same: "same_torrent mt (snd (start_inner E S p mt))"
  by (simp add: same_torrent_def start_inner_def spawn_init_def Let_def split: managed_state.split option.split sum.split)

lemma mt_pause_same: "same_torrent mt (snd (mt_pause E mt))"
  by (simp add: same_torrent_def mt_pause_def split: managed_state.split prod.split sum.split)

lemma mt_update_only_files_same: "same_torrent mt (snd (mt_update_only_files E mt only))"
  by (simp add: same_torrent_def mt_update_only_files_def abind_def Let_def split: managed_state.split option.split sum.split)

lemma finish_init_same: "same_torrent mt (fst (snd (finish_init E S task mt f)))"
proof -
  obtain c i f' where c: "check_torrent (me_init E) (me_bitv E) (mt_inits mt ! fst task) f = (c, i, f')" by (metis prod_cases3)
  show ?thesis
  proof (cases c)
    case (Inl e)
    then show ?thesis using c by (cases e) (simp_all add: finish_init_def same_torrent_def)
  next
    case (Inr pa)
    let ?mt = "mt\<lparr>mt_inits := (mt_inits mt)[fst task := i], mt_state := PausedSt pa\<rparr>"
    show ?thesis using c Inr start_inner_same [of ?mt E S "snd task"]
      by (simp add: finish_init_def same_torrent_def Let_def split: managed_state.split)
  qed
qed

lemma mstep_same:
  assumes "mstep E s s'"
  shows "same_torrent (fst s) (fst s')"
  using assms
proof cases
  case (initialized mt ts1 task ts2 f S)
  then show ?thesis using finish_init_same [of "mt\<lparr>mt_tasks := ts1 @ ts2\<rparr>" E S task f] by (simp add: same_torrent_def)
next
  case (failed mt f e)
  then show ?thesis by (simp add: same_torrent_def stop_with_error_def split: managed_state.split)
qed (simp_all add: mt_start_same mt_pause_same mt_update_only_files_same, simp add: same_torrent_def)

lemma update_same_keys:
  "map_of ts tid = Some mt \<Longrightarrow> same_torrent mt mt' \<Longrightarrow>
     map fst (AList.update tid mt' ts) = map fst ts \<and>
     map (\<lambda>e. mt_info_hash (snd e)) (AList.update tid mt' ts) = map (\<lambda>e. mt_info_hash (snd e)) ts"
  by (induction ts) (auto simp: same_torrent_def split: if_splits)

lemma update_new: "tid \<notin> fst ` set ts \<Longrightarrow> AList.update tid mt ts = ts @ [(tid, mt)]"
  by (induction ts) auto

lemma table_ok_replace:
  assumes "table_ok ts" "map_of ts tid = Some mt" "same_torrent mt mt'"
  shows "table_ok (AList.update tid mt' ts)"
proof -
  have "mt_id mt = tid" using assms(1) map_of_SomeD [OF assms(2)] by (auto simp: table_ok_def)
  then have "mt_id mt' = tid" using assms(3) by (simp add: same_torrent_def)
  then show ?thesis using assms(1) update_same_keys [OF assms(2,3)] by (auto simp: table_ok_def dest!: set_alist_update)
qed

lemma table_ok_delete: "table_ok ts \<Longrightarrow> table_ok (AList.delete tid ts)"
  by (auto simp: table_ok_def AList.delete_eq distinct_map_filter intro: distinct_map_filter)

lemma table_ok_on_torrent:
  assumes "table_ok (se_torrents se)" "\<And>mt. same_torrent mt (snd (f mt))"
  shows "table_ok (se_torrents (snd (on_torrent se tid f)))"
  using assms(1) table_ok_replace [OF assms(1) _ assms(2)] by (auto simp: on_torrent_def Let_def split: option.split)

lemma update_persistence_torrents [simp]: "se_torrents (update_persistence_metadata V se tid) = se_torrents se"
  by (simp add: update_persistence_metadata_def split: option.split)

lemma table_ok_abind_on_torrent:
  assumes "table_ok (se_torrents se)" "\<And>mt. same_torrent mt (snd (f mt))" "\<And>u se. se_torrents (snd (k u se)) = se_torrents se"
  shows "table_ok (se_torrents (snd (abind (on_torrent se tid f) k)))"
  using table_ok_on_torrent [OF assms(1,2)] assms(3) by (auto simp: abind_def split: sum.split)

lemma table_ok_insert:
  assumes "table_ok (se_torrents se)"
  shows "table_ok (se_torrents (snd (insert_torrent E se tid ia metadata only folder fs p)))"
proof (cases "List.find (\<lambda>(eid, t). mt_info_hash t = ia_info_hash ia \<or> eid = tid) (se_torrents se)")
  case None
  then have n: "tid \<notin> fst ` set (se_torrents se)" "ia_info_hash ia \<notin> (\<lambda>e. mt_info_hash (snd e)) ` set (se_torrents se)"
    by (fastforce simp: find_None_iff)+
  then show ?thesis using assms None
    by (auto simp: insert_torrent_def table_ok_def update_new new_managed_torrent_def split: sum.split)
next
  case (Some e)
  then show ?thesis using assms by (simp add: insert_torrent_def split: prod.split)
qed

lemma table_ok_store_and_start:
  assumes "table_ok (se_torrents se)"
  shows "table_ok (se_torrents (snd (store_and_start E V se tid p)))"
proof -
  have s: "table_ok (se_torrents (snd (on_torrent se' tid (mt_start E c p))))" if "table_ok (se_torrents se')" for se' c
    using that by (rule table_ok_on_torrent) (rule mt_start_same)
  show ?thesis
    unfolding store_and_start_def using s assms table_ok_delete [OF assms]
    by (auto simp: abind_def Let_def split: option.split sum.split)
qed

lemma table_ok_delete_torrent:
  "table_ok (se_torrents se) \<Longrightarrow> table_ok (se_torrents (snd (session_delete E V create se i del)))"
  using table_ok_delete [of "se_torrents se"]
  by (auto simp: session_delete_def Let_def split: sum.split option.split bool.split)

lemma table_ok_stop:
  assumes "table_ok (se_torrents se)"
  shows "table_ok (se_torrents (session_stop E se))"
proof -
  have "mt_id (snd (mt_pause E mt)) = mt_id mt" "mt_info_hash (snd (mt_pause E mt)) = mt_info_hash mt" for mt
    using mt_pause_same [of mt E] by (simp_all add: same_torrent_def)
  then show ?thesis using assms by (auto simp: session_stop_def table_ok_def comp_def split_beta)
qed

text \<open>C4: however calls that add, change, run and delete torrents alternate, the session never holds two torrents with the
  same id or the same info hash, and each is filed under its own id.\<close>

theorem session_torrents_unique:
  assumes "sreach E V se0 se" "table_ok (se_torrents se0)"
  shows "table_ok (se_torrents se)"
  using assms(1)
proof induction
  case start
  then show ?case by (rule assms(2))
next
  case (step se se')
  from step(2) show ?case
  proof cases
    case (chosen opts)
    then show ?thesis using step.IH by (simp add: choose_id_def split: option.split)
  next
    case (pausing tid)
    show ?thesis unfolding pausing session_pause_def by (rule table_ok_abind_on_torrent [OF step.IH]) (simp_all add: mt_pause_same)
  next
    case (unpausing tid)
    show ?thesis unfolding unpausing session_unpause_def by (rule table_ok_abind_on_torrent [OF step.IH]) (simp_all add: mt_start_same)
  next
    case (selecting tid files)
    show ?thesis unfolding selecting session_update_only_files_def
      by (rule table_ok_abind_on_torrent [OF step.IH]) (simp_all add: mt_update_only_files_same)
  next
    case (within tid mt f mt' f')
    then show ?thesis using table_ok_replace [OF step.IH within(2)] mstep_same [OF within(3)] by simp
  qed (simp_all add: step.IH table_ok_insert table_ok_store_and_start table_ok_stop table_ok_delete_torrent)
qed

subsection \<open>The folder of a torrent\<close>

lemma check_valid_Inr: "check_valid pb = Inr u \<Longrightarrow> c \<in> set (components pb) \<Longrightarrow> \<exists>n. c = Normal n"
  by (cases c) (auto simp: check_valid_def list_ex_iff split: if_splits component.splits)

lemma valid_name_parts:
  assumes "check_valid pb = Inr u" "p \<in> set (split_on (CHR ''/'') pb)"
  shows "p \<noteq> ''..''" "CHR ''/'' \<notin> set p"
proof -
  show "p \<noteq> ''..''"
  proof
    assume "p = ''..''"
    then have "ParentDir \<in> set (components pb)" using assms(2) by (auto simp: components_def Let_def component_of_def intro!: image_eqI [of _ _ "''..''"])
    then show False using check_valid_Inr [OF assms(1)] by auto
  qed
qed (rule split_on_parts [OF assms(2)])

text \<open>C40: a torrent of several files that has a name, its own or the one of its magnet link, is by default saved inside the folder of the
  session: what is appended to that folder has no part that leads up and no separator inside a part, and the name is no absolute path.\<close>

theorem named_torrents_stay_inside:
  assumes "choose_output_folder V se info magnet_name opts = Inr folder" "ao_output_folder opts = None" "ao_sub_folder opts = None"
    and "(\<exists>n. mi_name info = Some n \<and> sv_lossy V n \<noteq> []) \<or> magnet_name \<noteq> None"
  shows "\<exists>parts. folder = se_output_folder se @ parts \<and>
    (\<forall>p \<in> set parts. p \<noteq> ''..'' \<and> CHR ''/'' \<notin> set p) \<and> (parts \<noteq> [] \<longrightarrow> \<not> starts_with (path_str parts) ''/'')"
proof -
  obtain sub where sub: "get_default_subfolder_for_torrent (sv_lossy V) info magnet_name = Inr sub"
      "folder = se_output_folder se @ (case sub of Some s \<Rightarrow> split_on (CHR ''/'') s | None \<Rightarrow> [])"
    using assms(1-3) by (auto simp: choose_output_folder_def rbind_def split: sum.splits)
  show ?thesis
  proof (cases sub)
    case None
    then show ?thesis using sub(2) by simp
  next
    case (Some s)
    have v: "check_valid s = Inr ()"
      using sub(1) assms(4) Some
      by (auto simp: get_default_subfolder_for_torrent_def rbind_def Let_def split: sum.splits if_splits option.splits)
    have "RootDir \<notin> set (components s)" using check_valid_Inr [OF v] by auto
    then have "\<not> starts_with s ''/''" by (cases s) (auto simp: components_def starts_with_def Let_def)
    moreover have "path_str (split_on (CHR ''/'') s) = s"
    proof (induction s)
      case (Cons c cs)
      have "path_str ((c # a) # ps) = c # path_str (a # ps)" for a ps by (cases ps) simp_all
      then show ?case using Cons by (cases "split_on (CHR ''/'') cs") (auto simp: neq_Nil_conv split: if_splits)
    qed simp
    ultimately show ?thesis using valid_name_parts [OF v] sub(2) Some by auto
  qed
qed

text \<open>Example: a torrent of two files without a name. The longest file is called \<^verbatim>\<open>...mkv\<close>, which passes the check of file
  names, and its stem, which is not checked again, leads out of the folder of the session.\<close>

definition ex_unnamed :: meta_info where
  "ex_unnamed = ex_info\<lparr>mi_name := None,
     mi_files := Some [\<lparr>mf_length = 99, mf_path = [''...mkv''], mf_attr = None\<rparr>, \<lparr>mf_length = 1, mf_path = [''b''], mf_attr = None\<rparr>]\<rparr>"

theorem unnamed_torrent_escapes: "get_default_subfolder_for_torrent lossy ex_unnamed None = Inr (Some ''..'')"
  by (simp add: get_default_subfolder_for_torrent_def ex_unnamed_def ex_info_def iter_file_details_def
      to_pathbuf_def check_component_def in_byte_range_def longest_file_stem_def of_option_def file_stem_def file_name_def before_last_dot_def)

definition ex_senv :: session_env where
  "ex_senv = \<lparr>sv_regex = (\<lambda>r. Some (\<lambda>s. r = s)), sv_lossy = (\<lambda>s. s), sv_parse_magnet = (\<lambda>_. Inl (Bail ''magnet'')),
     sv_parse_url = (\<lambda>s. Some s), sv_torrent_from_bytes = (\<lambda>bs. Inr \<lparr>pt_info_hash = bs, pt_info = ex_info, pt_announce = [],
       pt_info_bytes = [], pt_torrent_bytes = bs\<rparr>), sv_http_get = (\<lambda>_. Inl (Bail ''http'')), sv_read_metainfo = (\<lambda>_. None),
     sv_torrent_file = (\<lambda>bs _. Inr bs), sv_tracker_starts = (\<lambda>ts. ts \<noteq> []), sv_default_fs_factory = True, sv_json = ex_json\<rparr>"

definition ex_session :: "(nat, filesystem_storage) session" where
  "ex_session = \<lparr>se_torrents = [], se_next_id = 0, se_output_folder = [''dl''], se_persistence = Some ex_store,
     se_trackers = [''udp://public''], se_peer_id = replicate 20 1, se_dht = True, se_counters = ex_counters, se_disable_upload = False\<rparr>"

definition ex_opts :: add_torrent_options where
  "ex_opts = \<lparr>ao_paused = True, ao_only_files_regex = None, ao_only_files = None, ao_list_only = False, ao_output_folder = None,
     ao_sub_folder = None, ao_initial_peers = None, ao_preferred_id = None, ao_fs_factory = None, ao_trackers = None\<rparr>"

theorem named_torrents_stay_inside_witness:
  "\<exists>parts. [''dl'', ''t''] = se_output_folder ex_session @ parts \<and> (\<forall>p \<in> set parts. p \<noteq> ''..'')"
proof -
  have c: "choose_output_folder ex_senv ex_session ex_info None ex_opts = Inr [''dl'', ''t'']"
    by (simp add: choose_output_folder_def ex_opts_def get_default_subfolder_for_torrent_def ex_info_def iter_file_details_def
        to_pathbuf_def check_component_def in_byte_range_def ex_senv_def check_valid_def components_def component_of_def ex_session_def)
  have "mi_name ex_info = Some ''t''" "sv_lossy ex_senv ''t'' = ''t''" by (simp_all add: ex_info_def ex_senv_def)
  then show ?thesis using named_torrents_stay_inside [OF c] by (auto simp: ex_opts_def)
qed

text \<open>A private torrent does not use the DHT and, with several trackers, only the first. With one tracker, though, the
  trackers of the session are added to it.\<close>

theorem private_torrent_uses_session_trackers:
  "make_peer_rx ex_senv ex_session [''https://private''] [] True =
     Some \<lparr>rx_dht = False, rx_trackers = [''https://private'', ''udp://public''], rx_initial = []\<rparr> \<and>
   make_peer_rx ex_senv ex_session [''https://private'', ''https://second''] [] True =
     Some \<lparr>rx_dht = False, rx_trackers = [''https://private''], rx_initial = []\<rparr>"
  by (simp add: make_peer_rx_def ex_senv_def ex_session_def)

text \<open>Two calls that add different torrents may choose the same id, as it is chosen before the table is locked and the store knows a
  torrent only once it is written. The second call then returns the torrent of the first as its own.\<close>

theorem concurrent_adds_confused:
  "\<exists>tid se1. choose_id ex_session ex_opts = (tid, ex_session) \<and>
     insert_torrent ex_menv ex_session tid \<lparr>ia_info_hash = [1], ia_metadata = None, ia_trackers = [], ia_name = None\<rparr> ex_metadata None [''a''] True True
       = (Inr None, se1) \<and>
     fst (choose_id se1 ex_opts) = tid \<and>
     insert_torrent ex_menv se1 tid \<lparr>ia_info_hash = [2], ia_metadata = None, ia_trackers = [], ia_name = None\<rparr> ex_metadata None [''b''] True True
       = (Inr (Some tid), se1) \<and>
     map_option mt_info_hash (map_of (se_torrents se1) tid) = Some [1]"
  by (simp add: choose_id_def ex_session_def ex_opts_def insert_torrent_def ex_menv_def json_next_id_def ex_store_def new_managed_torrent_def)

text \<open>Adding the example torrent to the empty session.\<close>

theorem session_torrents_unique_witness:
  "table_ok (se_torrents (snd (insert_torrent ex_menv ex_session 0
     \<lparr>ia_info_hash = [1], ia_metadata = None, ia_trackers = [], ia_name = None\<rparr> ex_metadata None [''a''] True True)))"
proof -
  have "table_ok (se_torrents ex_session)" by (simp add: table_ok_def ex_session_def)
  from session_torrents_unique [OF sreach.step [OF sreach.start sstep.inserted [of ex_menv ex_senv]] this] show ?thesis .
qed

end
