(* ===== verification/Api.thy ===== *)
theory Api
  imports Session
begin

text \<open>
  The library interface to a session and its HTTP handlers: naming a torrent, listing and describing torrents, the actions on
  them, adding one, and the stream of a file that a player reads. Routing, (de)serialization, MIME types and base 64 are library
  code: the handlers take what the extractors of the web framework deliver.

  Source: \<^verbatim>\<open>api.rs\<close>, \<^verbatim>\<open>api_error.rs\<close>, \<^verbatim>\<open>http_api/mod.rs\<close>, \<^verbatim>\<open>http_api/timeout.rs\<close>, \<^verbatim>\<open>http_api/handlers/*.rs\<close>, \<^verbatim>\<open>http_api_types.rs\<close>,
  and \<^verbatim>\<open>ManagedTorrent::stream\<close> of \<^verbatim>\<open>torrent_state/streaming.rs\<close>.
\<close>

subsection \<open>Errors\<close>

datatype api_error_kind = TorrentNotFound torrent_id_or_hash | DhtDisabled | Unauthorized | TextError string | Other err

record api_error =
  ae_status_opt :: "nat option"
  ae_kind :: api_error_kind
  ae_plaintext :: bool

type_synonym 'a api = "api_error + 'a"

definition torrent_not_found :: "torrent_id_or_hash \<Rightarrow> api_error" where
  "torrent_not_found idx = \<lparr>ae_status_opt = Some 404, ae_kind = TorrentNotFound idx, ae_plaintext = False\<rparr>"

definition new_from_text :: "nat \<Rightarrow> string \<Rightarrow> api_error" where
  "new_from_text status text = \<lparr>ae_status_opt = Some status, ae_kind = TextError text, ae_plaintext = False\<rparr>"

definition unathorized :: api_error where
  "unathorized = \<lparr>ae_status_opt = Some 401, ae_kind = Unauthorized, ae_plaintext = True\<rparr>"

definition dht_disabled :: api_error where
  "dht_disabled = \<lparr>ae_status_opt = Some 404, ae_kind = DhtDisabled, ae_plaintext = False\<rparr>"

definition ae_status :: "api_error \<Rightarrow> nat" where
  "ae_status e = (case ae_status_opt e of Some s \<Rightarrow> s | None \<Rightarrow> 500)"

text \<open>The errors of the session are no \<^verbatim>\<open>ApiError\<close>s, so the conversion finds no status in them.\<close>

definition from_anyhow :: "err \<Rightarrow> api_error" where
  "from_anyhow e = \<lparr>ae_status_opt = None, ae_kind = Other e, ae_plaintext = False\<rparr>"

definition with_status :: "api_error \<Rightarrow> nat \<Rightarrow> api_error" where
  "with_status e s = e\<lparr>ae_status_opt := Some s\<rparr>"

definition ebind :: "'e + 'a \<Rightarrow> ('a \<Rightarrow> 'e + 'b) \<Rightarrow> 'e + 'b" where
  "ebind m f = (case m of Inl e \<Rightarrow> Inl e | Inr x \<Rightarrow> f x)"

lemma ebind_simps [simp]: "ebind (Inl e) f = Inl e" "ebind (Inr x) f = f x"
  by (simp_all add: ebind_def)

lemma ebind_eq_Inr: "ebind m f = Inr r \<longleftrightarrow> (\<exists>x. m = Inr x \<and> f x = Inr r)"
  by (cases m) auto

definition into_api :: "'a res \<Rightarrow> 'a api" where
  "into_api m = (case m of Inl e \<Rightarrow> Inl (from_anyhow e) | Inr x \<Rightarrow> Inr x)"

definition with_error_status_code :: "'a res \<Rightarrow> nat \<Rightarrow> 'a api" where
  "with_error_status_code m s = (case m of Inl e \<Rightarrow> Inl (with_status (from_anyhow e) s) | Inr x \<Rightarrow> Inr x)"

lemma into_api_simps [simp]: "into_api (Inl e) = Inl (from_anyhow e)" "into_api (Inr x) = Inr x"
  by (simp_all add: into_api_def)

subsection \<open>Naming a torrent\<close>

definition hex_value :: "char \<Rightarrow> nat option" where
  "hex_value c =
     (if in_byte_range 48 57 c then Some (of_char c - 48)
      else if in_byte_range 97 102 c then Some (of_char c - 87)
      else if in_byte_range 65 70 c then Some (of_char c - 55)
      else None)"

fun hex_decode :: "string \<Rightarrow> nat list option" where
  "hex_decode [] = Some []"
| "hex_decode [_] = None"
| "hex_decode (a # b # s) =
     Option.bind (hex_value a) (\<lambda>hi. Option.bind (hex_value b) (\<lambda>lo. map_option ((#) (16 * hi + lo)) (hex_decode s)))"

definition parse_id_or_hash :: "string \<Rightarrow> torrent_id_or_hash res" where
  "parse_id_or_hash s =
     (if length s = 40 then rbind (of_option (Bail ''invalid hex'') (hex_decode s)) (\<lambda>h. Inr (Hash h))
      else rbind (of_option (Bail ''invalid digit found in string'') (parse_usize s)) (\<lambda>n. Inr (Id n)))"

fun display_id_or_hash :: "torrent_id_or_hash \<Rightarrow> string" where
  "display_id_or_hash (Id n) = show_nat n"
| "display_id_or_hash (Hash h) = id20_hex h"

subsection \<open>Describing torrents\<close>

record torrent_details_file =
  df_name :: string
  df_components :: "string list"
  df_length :: nat
  df_included :: bool
  df_attributes :: file_attrs

record torrent_details =
  td_id :: "nat option"
  td_info_hash :: string
  td_name :: "string option"
  td_output_folder :: string
  td_files :: "torrent_details_file list option"
  td_stats :: "torrent_stats option"

record add_torrent_api_response =
  ar_id :: "nat option"
  ar_details :: torrent_details
  ar_output_folder :: string
  ar_seen_peers :: "socket_addr list option"

definition mgr_handle :: "('b, 's) session \<Rightarrow> torrent_id_or_hash \<Rightarrow> ('b, 's) managed_torrent api" where
  "mgr_handle se idx = (case session_get se idx of Some mt \<Rightarrow> Inr mt | None \<Rightarrow> Inl (torrent_not_found idx))"

definition api_torrent_list_ext :: "('b, 's) session \<Rightarrow> bool \<Rightarrow> torrent_details list" where
  "api_torrent_list_ext se with_stats =
     map (\<lambda>(i, mgr).
       \<lparr>td_id = Some i, td_info_hash = id20_hex (mt_info_hash mgr), td_name = mt_name mgr,
        td_output_folder = path_str (mt_output_folder mgr), td_files = None,
        td_stats = (if with_stats then Some (mt_stats mgr) else None)\<rparr>) (se_torrents se)"

text \<open>\<^verbatim>\<open>FileIteratorName::to_vec\<close> and \<^verbatim>\<open>to_string\<close>, on Unix.\<close>

definition name_to_vec :: "file_iterator_name \<Rightarrow> string list res" where
  "name_to_vec n = push_components [] (iter_components n)"

definition name_to_string :: "file_iterator_name \<Rightarrow> string res" where
  "name_to_string n = rbind (name_to_vec n) (\<lambda>ps. Inr (path_str ps))"

definition details_file :: "nat list option \<Rightarrow> nat \<Rightarrow> file_details \<Rightarrow> torrent_details_file" where
  "details_file only_files idx d =
     \<lparr>df_name = (case name_to_string (fd_filename d) of Inr s \<Rightarrow> s | Inl _ \<Rightarrow> ''<INVALID NAME>''),
      df_components = (case name_to_vec (fd_filename d) of Inr ps \<Rightarrow> ps | Inl _ \<Rightarrow> []),
      df_length = fd_len d,
      df_included = (case only_files of Some o' \<Rightarrow> idx \<in> set o' | None \<Rightarrow> True),
      df_attributes = attrs_of d\<rparr>"

definition make_torrent_details ::
  "(string \<Rightarrow> string) \<Rightarrow> nat option \<Rightarrow> id20 \<Rightarrow> meta_info option \<Rightarrow> string option \<Rightarrow> nat list option \<Rightarrow> string \<Rightarrow> torrent_details api" where
  "make_torrent_details lossy i info_hash info name only_files folder =
     ebind (case info of
              Some ti \<Rightarrow>
                ebind (into_api (iter_file_details ti)) (\<lambda>ds.
                  Inr (map (\<lambda>(idx, d). details_file only_files idx d) (List.enumerate 0 ds)))
            | None \<Rightarrow> Inr []) (\<lambda>files.
       Inr \<lparr>td_id = i, td_info_hash = id20_hex info_hash,
            td_name = (case name of Some n \<Rightarrow> Some n | None \<Rightarrow> Option.bind info (\<lambda>ti. map_option lossy (mi_name ti))),
            td_output_folder = folder, td_files = Some files, td_stats = None\<rparr>)"

definition details_of :: "(string \<Rightarrow> string) \<Rightarrow> nat \<Rightarrow> ('b, 's) managed_torrent \<Rightarrow> torrent_details api" where
  "details_of lossy i mt =
     make_torrent_details lossy (Some i) (mt_info_hash mt) (map_option tm_info (mt_metadata mt)) (mt_name mt) (mt_only_files mt)
       (path_str (mt_output_folder mt))"

definition api_torrent_details :: "(string \<Rightarrow> string) \<Rightarrow> ('b, 's) session \<Rightarrow> torrent_id_or_hash \<Rightarrow> torrent_details api" where
  "api_torrent_details lossy se idx = ebind (mgr_handle se idx) (\<lambda>mt. details_of lossy (mt_id mt) mt)"

text \<open>The MIME type of the last component of a file's name.\<close>

definition info_file_mime_type :: "(string \<Rightarrow> string option) \<Rightarrow> meta_info \<Rightarrow> nat \<Rightarrow> string api" where
  "info_file_mime_type mime info file_idx =
     ebind (into_api (iter_file_details info)) (\<lambda>ds.
       case (if file_idx < length ds then
               (case rev (iter_components (fd_filename (ds ! file_idx))) of Inr s # _ \<Rightarrow> mime s | _ \<Rightarrow> None)
             else None) of
         Some m \<Rightarrow> Inr m
       | None \<Rightarrow> Inl (new_from_text 500 ''cannot determine mime type for file''))"

definition torrent_file_mime_type ::
  "(string \<Rightarrow> string option) \<Rightarrow> ('b, 's) session \<Rightarrow> torrent_id_or_hash \<Rightarrow> nat \<Rightarrow> string api" where
  "torrent_file_mime_type mime se idx file_idx =
     ebind (mgr_handle se idx) (\<lambda>mt.
     ebind (into_api (of_option (Bail ''torrent is not resolved'') (mt_metadata mt))) (\<lambda>m.
       info_file_mime_type mime (tm_info m) file_idx))"

definition api_stats_v1 :: "('b, 's) session \<Rightarrow> torrent_id_or_hash \<Rightarrow> torrent_stats api" where
  "api_stats_v1 se idx = ebind (mgr_handle se idx) (\<lambda>mt. Inr (mt_stats mt))"

definition api_dump_haves :: "('b, 's) session \<Rightarrow> torrent_id_or_hash \<Rightarrow> bits api" where
  "api_dump_haves se idx = ebind (mgr_handle se idx) (\<lambda>mt. into_api (with_chunk_tracker mt ct_have))"

subsection \<open>Actions\<close>

definition api_torrent_action_pause ::
  "('b, 's, 'f) managed_env \<Rightarrow> session_env \<Rightarrow> ('b, 's) session \<Rightarrow> torrent_id_or_hash \<Rightarrow> unit api \<times> ('b, 's) session" where
  "api_torrent_action_pause E V se idx =
     (case mgr_handle se idx of
        Inl e \<Rightarrow> (Inl e, se)
      | Inr mt \<Rightarrow> let r = session_pause E V se (mt_id mt) in (with_error_status_code (fst r) 400, snd r))"

definition api_torrent_action_start ::
  "('b, 's, 'f) managed_env \<Rightarrow> session_env \<Rightarrow> ('b, 's) session \<Rightarrow> torrent_id_or_hash \<Rightarrow> unit api \<times> ('b, 's) session" where
  "api_torrent_action_start E V se idx =
     (case mgr_handle se idx of
        Inl e \<Rightarrow> (Inl e, se)
      | Inr mt \<Rightarrow> let r = session_unpause E V se (mt_id mt) in (with_error_status_code (fst r) 400, snd r))"

definition api_torrent_action_forget ::
  "('b, 's, 'f) managed_env \<Rightarrow> session_env \<Rightarrow> (torrent_metadata \<Rightarrow> 's res) \<Rightarrow> ('b, 's) session \<Rightarrow> torrent_id_or_hash
   \<Rightarrow> removals option api \<times> ('b, 's) session" where
  "api_torrent_action_forget E V create se idx = (let r = session_delete E V create se idx False in (into_api (fst r), snd r))"

definition api_torrent_action_delete ::
  "('b, 's, 'f) managed_env \<Rightarrow> session_env \<Rightarrow> (torrent_metadata \<Rightarrow> 's res) \<Rightarrow> ('b, 's) session \<Rightarrow> torrent_id_or_hash
   \<Rightarrow> removals option api \<times> ('b, 's) session" where
  "api_torrent_action_delete E V create se idx = (let r = session_delete E V create se idx True in (into_api (fst r), snd r))"

definition api_torrent_action_update_only_files ::
  "('b, 's, 'f) managed_env \<Rightarrow> session_env \<Rightarrow> ('b, 's) session \<Rightarrow> torrent_id_or_hash \<Rightarrow> nat list \<Rightarrow> unit api \<times> ('b, 's) session" where
  "api_torrent_action_update_only_files E V se idx only_files =
     (case mgr_handle se idx of
        Inl e \<Rightarrow> (Inl e, se)
      | Inr mt \<Rightarrow> let r = session_update_only_files E V se (mt_id mt) (set only_files) in (into_api (fst r), snd r))"

definition added_response ::
  "session_env \<Rightarrow> ('b, 's) session \<Rightarrow> nat \<Rightarrow> add_torrent_api_response api" where
  "added_response V se i =
     (case map_of (se_torrents se) i of
        None \<Rightarrow> Inl (from_anyhow Panic)
      | Some mt \<Rightarrow>
          ebind (details_of (sv_lossy V) i mt) (\<lambda>details.
            Inr \<lparr>ar_id = Some i, ar_details = details, ar_output_folder = path_str (mt_output_folder mt), ar_seen_peers = None\<rparr>))"

definition api_add_torrent ::
  "('b, 's, 'f) managed_env \<Rightarrow> session_env \<Rightarrow> ('b, 's) session \<Rightarrow> add_torrent \<Rightarrow> add_torrent_options
   \<Rightarrow> add_torrent_api_response api \<times> ('b, 's) session" where
  "api_add_torrent E V se add opts =
     (case session_add_torrent E V se add opts of
        (Inl e, se) \<Rightarrow> (Inl (with_status (from_anyhow e) 400), se)
      | (Inr (AlreadyManaged i), se) \<Rightarrow> (added_response V se i, se)
      | (Inr (Added i), se) \<Rightarrow> (added_response V se i, se)
      | (Inr (ListOnly lo), se) \<Rightarrow>
          (ebind (make_torrent_details (sv_lossy V) None (lo_info_hash lo) (Some (lo_info lo)) None (lo_only_files lo)
                   (path_str (lo_output_folder lo))) (\<lambda>details.
             Inr \<lparr>ar_id = None, ar_details = details, ar_output_folder = path_str (lo_output_folder lo), ar_seen_peers = Some (lo_seen_peers lo)\<rparr>), se))"

subsection \<open>Streams\<close>

definition with_storage_and_file :: "('b, 's) managed_torrent \<Rightarrow> nat \<Rightarrow> torrent_metadata \<Rightarrow> ('s \<times> file_info) res" where
  "with_storage_and_file mt file_id metadata =
     rbind (case mt_state mt of
              PausedSt p \<Rightarrow> Inr (pa_files p)
            | LiveSt l \<Rightarrow> Inr (lv_files l)
            | _ \<Rightarrow> Inl (Bail ''with_storage_and_file: invalid state'')) (\<lambda>files.
       if file_id < length (tm_file_infos metadata) then Inr (files, tm_file_infos metadata ! file_id)
       else Inl (Bail ''invalid file''))"

definition mt_streams :: "('b, 's) managed_torrent \<Rightarrow> torrent_streams res" where
  "mt_streams mt =
     (case mt_state mt of
        PausedSt p \<Rightarrow> Inr (pa_streams p)
      | LiveSt l \<Rightarrow> Inr (lv_streams l)
      | _ \<Rightarrow> Inl (Bail ''streams: invalid state''))"

definition mt_set_streams :: "torrent_streams \<Rightarrow> ('b, 's) managed_torrent \<Rightarrow> ('b, 's) managed_torrent" where
  "mt_set_streams ts mt =
     (case mt_state mt of
        PausedSt p \<Rightarrow> mt\<lparr>mt_state := PausedSt (p\<lparr>pa_streams := ts\<rparr>)\<rparr>
      | LiveSt l \<Rightarrow> mt\<lparr>mt_state := LiveSt (l\<lparr>lv_streams := ts\<rparr>)\<rparr>
      | _ \<Rightarrow> mt)"

text \<open>Whether a file is finished; the file exists whenever this is asked.\<close>

definition mt_is_file_finished :: "('b, 's) managed_torrent \<Rightarrow> nat \<Rightarrow> bool" where
  "mt_is_file_finished mt file_id =
     (case mt_metadata mt of
        None \<Rightarrow> False
      | Some m \<Rightarrow> (case with_chunk_tracker mt (\<lambda>ct. is_file_finished ct (tm_file_infos m ! file_id)) of Inr b \<Rightarrow> b | Inl _ \<Rightarrow> False))"

definition maybe_reconnect_needed_peers_for_file :: "('b, 's) managed_torrent \<Rightarrow> nat \<Rightarrow> ('b, 's) managed_torrent" where
  "maybe_reconnect_needed_peers_for_file mt file_id =
     (if mt_is_file_finished mt file_id then mt
      else case mt_state mt of
             LiveSt l \<Rightarrow> mt\<lparr>mt_state := LiveSt (reconnect_all_not_needed_peers l)\<rparr>
           | _ \<Rightarrow> mt)"

definition mt_stream :: "('b, 's) managed_torrent \<Rightarrow> nat \<Rightarrow> file_stream res \<times> ('b, 's) managed_torrent" where
  "mt_stream mt file_id =
     (case rbind (of_option (Bail ''torrent metadata is not resolved'') (mt_metadata mt)) (\<lambda>metadata.
           rbind (with_storage_and_file mt file_id metadata) (\<lambda>(_, fi).
           rbind (mt_streams mt) (\<lambda>ts. Inr (stream_new ts file_id fi)))) of
        Inl e \<Rightarrow> (Inl e, mt)
      | Inr (s, ts) \<Rightarrow> (Inr s, mt_set_streams ts (maybe_reconnect_needed_peers_for_file mt file_id)))"

text \<open>The torrent of a table, changed in place, with a result of the interface.\<close>

definition api_stream ::
  "('b, 's) session \<Rightarrow> torrent_id_or_hash \<Rightarrow> nat \<Rightarrow> file_stream api \<times> ('b, 's) session" where
  "api_stream se idx file_id =
     (case mgr_handle se idx of
        Inl e \<Rightarrow> (Inl e, se)
      | Inr mt \<Rightarrow>
          let r = mt_stream mt file_id
          in (into_api (fst r), se\<lparr>se_torrents := AList.update (mt_id mt) (snd r) (se_torrents se)\<rparr>))"

subsection \<open>The stream handler\<close>

type_synonym headers = "(string \<times> string) list"

text \<open>Header names are in lower case, as the web framework stores them. A value is a string if its bytes are visible ASCII.\<close>

definition header_str :: "headers \<Rightarrow> string \<Rightarrow> string option" where
  "header_str hs name = (case map_of hs name of Some v \<Rightarrow> if list_all (in_byte_range 32 126) v then Some v else None | None \<Rightarrow> None)"

definition strip_suffix :: "char \<Rightarrow> string \<Rightarrow> string option" where
  "strip_suffix c s = (if s \<noteq> [] \<and> last s = c then Some (butlast s) else None)"

record stream_response =
  sr_status :: nat
  sr_headers :: headers
  sr_stream :: file_stream

definition parse_range_header :: "headers \<Rightarrow> nat option" where
  "parse_range_header hs =
     Option.bind (header_str hs ''range'') (\<lambda>s.
     Option.bind (strip_prefix ''bytes='' s) (\<lambda>s.
     Option.bind (strip_suffix (CHR ''-'') s) (\<lambda>s. parse_usize s)))"

definition base_headers :: "headers \<Rightarrow> string api \<Rightarrow> headers" where
  "base_headers hs mime =
     [(''accept-ranges'', ''bytes'')]
     @ (if map_of hs ''transfermode.dlna.org'' \<in> {Some ''Streaming'', Some ''streaming''} then [(''transfermode.dlna.org'', ''Streaming'')] else [])
     @ (if map_of hs ''getcontentfeatures.dlna.org'' = Some ''1'' then [(''contentfeatures.dlna.org'', ''DLNA.ORG_OP=01'')] else [])
     @ (case mime of Inr m \<Rightarrow> [(''content-type'', m)] | Inl _ \<Rightarrow> [])"

text \<open>An early return drops the stream, which takes it out of the registry.\<close>

definition drop_from :: "('b, 's) session \<Rightarrow> nat \<Rightarrow> file_stream \<Rightarrow> ('b, 's) session" where
  "drop_from se tid s =
     (case map_of (se_torrents se) tid of
        None \<Rightarrow> se
      | Some mt \<Rightarrow>
          (case mt_streams mt of
             Inl _ \<Rightarrow> se
           | Inr ts \<Rightarrow> se\<lparr>se_torrents := AList.update tid (mt_set_streams (snd (drop_stream ts (fs_stream_id s))) mt) (se_torrents se)\<rparr>))"

definition seek_in ::
  "('b, 's) session \<Rightarrow> nat \<Rightarrow> file_stream \<Rightarrow> nat \<Rightarrow> file_stream res \<times> ('b, 's) session" where
  "seek_in se tid s offset =
     (case map_of (se_torrents se) tid of
        None \<Rightarrow> (Inl Panic, se)
      | Some mt \<Rightarrow>
          (case rbind (mt_streams mt) (\<lambda>ts. start_seek s ts (SeekStart offset)) of
             Inl e \<Rightarrow> (Inl e, se)
           | Inr (s, ts) \<Rightarrow> (Inr s, se\<lparr>se_torrents := AList.update tid (mt_set_streams ts mt) (se_torrents se)\<rparr>)))"

definition h_torrent_stream_file ::
  "(string \<Rightarrow> string option) \<Rightarrow> ('b, 's) session \<Rightarrow> torrent_id_or_hash \<Rightarrow> nat \<Rightarrow> headers \<Rightarrow> stream_response api \<times> ('b, 's) session" where
  "h_torrent_stream_file mime se idx file_id hs =
     (case api_stream se idx file_id of
        (Inl e, se) \<Rightarrow> (Inl e, se)
      | (Inr s, se) \<Rightarrow>
          let tid = (case session_get se idx of Some mt \<Rightarrow> mt_id mt | None \<Rightarrow> 0);
              out = base_headers hs (torrent_file_mime_type mime se idx file_id)
          in case map_of hs ''range'' of
               None \<Rightarrow>
                 (Inr \<lparr>sr_status = 200, sr_headers = out @ [(''content-length'', show_nat (fs_file_len s))], sr_stream = s\<rparr>, se)
             | Some _ \<Rightarrow>
                 (case parse_range_header hs of
                    None \<Rightarrow> (Inr \<lparr>sr_status = 200, sr_headers = out, sr_stream = s\<rparr>, se)
                  | Some offset \<Rightarrow>
                      (case seek_in se tid s offset of
                         (Inl e, se) \<Rightarrow> (Inl (from_anyhow e), drop_from se tid s)
                       | (Inr s, se) \<Rightarrow>
                           (Inr \<lparr>sr_status = 206,
                                 sr_headers = out
                                   @ [(''content-length'', show_nat (sub64 (fs_file_len s) (fs_position s))),
                                      (''content-range'', ''bytes '' @ show_nat (fs_position s) @ ''-'' @ show_nat (fs_file_len s - 1) @ ''/''
                                         @ show_nat (fs_file_len s))],
                                 sr_stream = s\<rparr>, se))))"

subsection \<open>What the stream handler answers\<close>

lemma find_hash_Some: "find_hash se h = Some e \<Longrightarrow> e \<in> set (se_torrents se) \<and> mt_info_hash (snd e) = h"
  by (auto simp: find_hash_def find_Some_iff in_set_conv_nth)

lemma find_hash_iff:
  assumes "table_ok (se_torrents se)"
  shows "find_hash se h = Some e \<longleftrightarrow> e \<in> set (se_torrents se) \<and> mt_info_hash (snd e) = h"
proof
  assume e: "e \<in> set (se_torrents se) \<and> mt_info_hash (snd e) = h"
  then have "find_hash se h \<noteq> None" by (cases e) (auto simp: find_hash_def find_None_iff)
  then obtain e' where e': "find_hash se h = Some e'" by auto
  have "inj_on (\<lambda>e. mt_info_hash (snd e)) (set (se_torrents se))" using assms by (simp add: table_ok_def distinct_map)
  then show "find_hash se h = Some e" using e e' find_hash_Some [OF e'] by (metis inj_onD)
qed (rule find_hash_Some)

lemma session_get_entry:
  assumes "table_ok (se_torrents se)" "session_get se idx = Some mt"
  shows "map_of (se_torrents se) (mt_id mt) = Some mt"
proof (cases idx)
  case (Id n)
  then show ?thesis using assms map_of_SomeD by (fastforce simp: session_get_def table_ok_def)
next
  case (Hash h)
  then obtain k where "(k, mt) \<in> set (se_torrents se)"
    using assms find_hash_iff [OF assms(1)] by (auto simp: session_get_def)
  then show ?thesis using assms(1) by (auto simp: table_ok_def)
qed

lemma session_get_update:
  assumes "table_ok (se_torrents se)" "session_get se idx = Some mt" "same_torrent mt mt'"
  shows "session_get (se\<lparr>se_torrents := AList.update (mt_id mt) mt' (se_torrents se)\<rparr>) idx = Some mt'"
proof -
  let ?se = "se\<lparr>se_torrents := AList.update (mt_id mt) mt' (se_torrents se)\<rparr>"
  note m = session_get_entry [OF assms(1,2)]
  have m': "map_of (se_torrents ?se) (mt_id mt) = Some mt'" by (simp add: update_conv')
  have t: "table_ok (se_torrents ?se)" using table_ok_replace [OF assms(1) m assms(3)] by simp
  show ?thesis
  proof (cases idx)
    case (Id n)
    then have "mt_id mt = n" using assms(1,2) map_of_SomeD by (fastforce simp: session_get_def table_ok_def)
    then show ?thesis using Id m' by (simp add: session_get_def)
  next
    case (Hash h)
    then have "mt_info_hash mt' = h" using assms find_hash_iff [OF assms(1)] by (auto simp: session_get_def same_torrent_def)
    then have "find_hash ?se h = Some (mt_id mt, mt')" using find_hash_iff [OF t] map_of_SomeD [OF m'] by auto
    then show ?thesis using Hash by (simp add: session_get_def)
  qed
qed

lemma mt_set_streams_simps [simp]:
  "mt_streams mt = Inr ts0 \<Longrightarrow> mt_streams (mt_set_streams ts mt) = Inr ts"
  "same_torrent mt' (mt_set_streams ts mt) = same_torrent mt' mt"
  "mt_metadata (mt_set_streams ts mt) = mt_metadata mt"
  "with_chunk_tracker (mt_set_streams ts mt) f = with_chunk_tracker mt f"
  "with_storage_and_file (mt_set_streams ts mt) i m = with_storage_and_file mt i m"
  by (auto simp: mt_streams_def mt_set_streams_def same_torrent_def with_chunk_tracker_def with_storage_and_file_def
      split: managed_state.splits)

lemma reconnect_peers_sel [simp]:
  "lv_streams (reconnect_peers as st) = lv_streams st" "lv_locked (reconnect_peers as st) = lv_locked st"
  "lv_files (reconnect_peers as st) = lv_files st"
  by (induction as arbitrary: st) (auto simp: Let_def set_peers_def split: prod.split option.split)

lemma reconnect_simps [simp]:
  "mt_streams (maybe_reconnect_needed_peers_for_file mt i) = mt_streams mt"
  "same_torrent mt' (maybe_reconnect_needed_peers_for_file mt i) = same_torrent mt' mt"
  "mt_metadata (maybe_reconnect_needed_peers_for_file mt i) = mt_metadata mt"
  "with_chunk_tracker (maybe_reconnect_needed_peers_for_file mt i) f = with_chunk_tracker mt f"
  "with_storage_and_file (maybe_reconnect_needed_peers_for_file mt i) j m = with_storage_and_file mt j m"
  by (auto simp: maybe_reconnect_needed_peers_for_file_def mt_streams_def same_torrent_def with_chunk_tracker_def
      with_storage_and_file_def reconnect_all_not_needed_peers_def split: managed_state.splits)

lemma mt_stream_ok:
  assumes "mt_metadata mt = Some m" "mt_streams mt = Inr ts" "file_id < length (tm_file_infos m)"
    and "stream_new ts file_id (tm_file_infos m ! file_id) = (s, ts')"
  shows "mt_stream mt file_id = (Inr s, mt_set_streams ts' (maybe_reconnect_needed_peers_for_file mt file_id))"
proof -
  have "\<exists>files. with_storage_and_file mt file_id m = Inr (files, tm_file_infos m ! file_id)"
    using assms(2,3) by (auto simp: mt_streams_def with_storage_and_file_def split: managed_state.splits)
  then show ?thesis using assms by (auto simp: mt_stream_def)
qed

lemma seek_start:
  assumes "registered s ts" "fs_file_len s < 2 ^ 63"
  shows "\<exists>ts'. start_seek s ts (SeekStart n) =
      (if n \<le> fs_file_len s then Inr (s\<lparr>fs_position := n\<rparr>, ts')
       else Inl (Bail (if n < 2 ^ 63 then ''invalid seek'' else ''out of range integral type conversion attempted''))) \<and>
    (n \<le> fs_file_len s \<longrightarrow> registered (s\<lparr>fs_position := n\<rparr>) ts')"
  using set_position_registered [OF assms(1), of n] assms(2)
  by (auto simp: start_seek_def io_err_def try_i64_def of_option_def)

text \<open>The answer of the handler to a request for a file of length \<open>len\<close> at \<open>offset\<close> in the torrent.\<close>

definition stream_answer :: "headers \<Rightarrow> nat \<Rightarrow> nat \<Rightarrow> nat \<Rightarrow> torrent_streams \<Rightarrow> torrent_streams \<Rightarrow> stream_response api \<Rightarrow> bool" where
  "stream_answer hs file_id len offset ts ts' r \<longleftrightarrow>
     (case r of
        Inl e \<Rightarrow> ae_status e = 500 \<and> (\<exists>n. parse_range_header hs = Some n \<and> len < n) \<and> fst ` set (streams ts') \<subseteq> fst ` set (streams ts)
      | Inr resp \<Rightarrow>
          registered (sr_stream resp) ts' \<and> fs_file_id (sr_stream resp) = file_id \<and> fs_file_len (sr_stream resp) = len \<and>
          fs_file_torrent_abs_offset (sr_stream resp) = offset \<and>
          (case (map_of hs ''range'', parse_range_header hs) of
             (None, _) \<Rightarrow> sr_status resp = 200 \<and> fs_position (sr_stream resp) = 0 \<and>
               map_of (sr_headers resp) ''content-length'' = Some (show_nat len)
           | (Some _, None) \<Rightarrow> sr_status resp = 200 \<and> fs_position (sr_stream resp) = 0 \<and>
               map_of (sr_headers resp) ''content-length'' = None
           | (Some _, Some n) \<Rightarrow> n \<le> len \<and> sr_status resp = 206 \<and> fs_position (sr_stream resp) = n \<and>
               map_of (sr_headers resp) ''content-length'' = Some (show_nat (len - n)) \<and>
               map_of (sr_headers resp) ''content-range'' = Some (''bytes '' @ show_nat n @ ''-'' @ show_nat (len - 1) @ ''/'' @ show_nat len)))"

lemma base_headers_other [simp]:
  "map_of (base_headers hs mime) ''content-length'' = None" "map_of (base_headers hs mime) ''content-range'' = None"
  by (auto simp: base_headers_def split: sum.split)

lemma add_base_headers [simp]:
  "(f ++ map_of (base_headers hs mime)) ''content-length'' = f ''content-length''"
  "(f ++ map_of (base_headers hs mime)) ''content-range'' = f ''content-range''"
  by (simp_all add: map_add_def)

lemma parse_range_header_None: "map_of hs ''range'' = None \<Longrightarrow> parse_range_header hs = None"
  by (simp add: parse_range_header_def header_str_def)

lemma api_stream_ok:
  assumes t: "table_ok (se_torrents se)" "session_get se idx = Some mt" and m: "mt_metadata mt = Some m" "mt_streams mt = Inr ts"
    and f: "file_id < length (tm_file_infos m)" and n: "stream_new ts file_id (tm_file_infos m ! file_id) = (s, ts')"
  defines "mt' \<equiv> mt_set_streams ts' (maybe_reconnect_needed_peers_for_file mt file_id)"
  defines "se' \<equiv> se\<lparr>se_torrents := AList.update (mt_id mt) mt' (se_torrents se)\<rparr>"
  shows "api_stream se idx file_id = (Inr s, se')" "session_get se' idx = Some mt'" "table_ok (se_torrents se')" "mt_id mt' = mt_id mt"
proof -
  have same: "same_torrent mt mt'" by (simp add: mt'_def same_torrent_def [of mt mt])
  show "api_stream se idx file_id = (Inr s, se')"
    using t mt_stream_ok [OF m f n] by (simp add: api_stream_def mgr_handle_def se'_def mt'_def)
  show "session_get se' idx = Some mt'" unfolding se'_def by (rule session_get_update [OF t same])
  show "table_ok (se_torrents se')"
    using table_ok_replace [OF t(1) session_get_entry [OF t] same] by (simp add: se'_def)
  show "mt_id mt' = mt_id mt" using same by (simp add: same_torrent_def)
qed

lemma put_streams:
  assumes "table_ok (se_torrents se)" "session_get se idx = Some mt" "mt_streams mt = Inr ts0"
  shows "session_get (se\<lparr>se_torrents := AList.update (mt_id mt) (mt_set_streams ts mt) (se_torrents se)\<rparr>) idx = Some (mt_set_streams ts mt)"
  using session_get_update [OF assms(1,2), of "mt_set_streams ts mt"] by (simp add: same_torrent_def [of mt mt])

lemma stream_handler:
  assumes t: "table_ok (se_torrents se)" "session_get se idx = Some mt" and m: "mt_metadata mt = Some m" "mt_streams mt = Inr ts"
    and f: "file_id < length (tm_file_infos m)" "fi_len (tm_file_infos m ! file_id) < 2 ^ 63" and ok: "tbl_ok (streams ts)"
  shows "\<exists>r se' mt' ts'. h_torrent_stream_file mime se idx file_id hs = (r, se') \<and> session_get se' idx = Some mt' \<and> mt_streams mt' = Inr ts' \<and>
    (\<forall>g :: chunk_tracker \<Rightarrow> chunk_tracker. with_chunk_tracker mt' g = with_chunk_tracker mt g) \<and> with_storage_and_file mt' file_id m = with_storage_and_file mt file_id m \<and>
    stream_answer hs file_id (fi_len (tm_file_infos m ! file_id)) (offset_in_torrent (tm_file_infos m ! file_id)) ts ts' r"
proof -
  let ?fi = "tm_file_infos m ! file_id"
  obtain s ts1 where n: "stream_new ts file_id ?fi = (s, ts1)" by (cases "stream_new ts file_id ?fi")
  note A = api_stream_ok [OF t m f(1) n]
  define mt1 where "mt1 = mt_set_streams ts1 (maybe_reconnect_needed_peers_for_file mt file_id)"
  define se1 where "se1 = se\<lparr>se_torrents := AList.update (mt_id mt) mt1 (se_torrents se)\<rparr>"
  note A = A [folded mt1_def, folded se1_def]
  have s: "fs_file_id s = file_id" "fs_file_len s = fi_len ?fi" "fs_file_torrent_abs_offset s = offset_in_torrent ?fi" "fs_position s = 0"
    "registered s ts1" "\<forall>e \<in> set (streams ts1). fst e = fs_stream_id s \<or> e \<in> set (streams ts)"
    using n stream_new_registered [OF ok n] by (auto simp: stream_new_def next_id_def dest: set_alist_update)
  have m1: "mt_streams mt1 = Inr ts1" using m(2) by (simp add: mt1_def)
  have keep: "with_chunk_tracker mt1 g = with_chunk_tracker mt g" "with_storage_and_file mt1 file_id m = with_storage_and_file mt file_id m"
    for g :: "chunk_tracker \<Rightarrow> chunk_tracker"
    by (simp_all add: mt1_def)
  note e = session_get_entry [OF A(3,2)]
  have done_with: ?thesis if "h_torrent_stream_file mime se idx file_id hs = (r, se')" "session_get se' idx = Some (mt_set_streams ts' mt1)"
      "stream_answer hs file_id (fi_len ?fi) (offset_in_torrent ?fi) ts ts' r" for r se' ts'
    using that keep mt_set_streams_simps(1) [OF m1, of ts']
    by (intro exI [of _ r] exI [of _ se'] exI [of _ "mt_set_streams ts' mt1"] exI [of _ ts']) simp
  have id: "mt_set_streams ts1 mt1 = mt1" using m1 by (auto simp: mt_streams_def mt_set_streams_def split: managed_state.splits)
  show ?thesis
  proof (cases "parse_range_header hs")
    case None
    show ?thesis
    proof (cases "map_of hs ''range''")
      case None
      show ?thesis by (rule done_with [of _ se1 ts1]) (simp add: h_torrent_stream_file_def A id None stream_answer_def s Let_def)+
    next
      case (Some v)
      show ?thesis
        by (rule done_with [of _ se1 ts1])
          (simp add: h_torrent_stream_file_def A id \<open>parse_range_header hs = None\<close> Some stream_answer_def s Let_def)+
    qed
  next
    case (Some k)
    obtain v where r: "map_of hs ''range'' = Some v" using parse_range_header_None Some by force
    obtain ts2 where k: "start_seek s ts1 (SeekStart k) =
        (if k \<le> fi_len ?fi then Inr (s\<lparr>fs_position := k\<rparr>, ts2)
         else Inl (Bail (if k < 2 ^ 63 then ''invalid seek'' else ''out of range integral type conversion attempted'')))"
      "k \<le> fi_len ?fi \<Longrightarrow> registered (s\<lparr>fs_position := k\<rparr>) ts2"
      using seek_start [OF s(5), of k] s(2) f(2) by auto
    show ?thesis
    proof (cases "k \<le> fi_len ?fi")
      case True
      let ?se = "se1\<lparr>se_torrents := AList.update (mt_id mt1) (mt_set_streams ts2 mt1) (se_torrents se1)\<rparr>"
      have "seek_in se1 (mt_id mt1) s k = (Inr (s\<lparr>fs_position := k\<rparr>), ?se)"
        using k(1) True e m1 by (simp add: seek_in_def)
      moreover have "sub64 (fi_len ?fi) k = fi_len ?fi - k" using True f(2) by (simp add: sub64_exact)
      ultimately show ?thesis
        by - (rule done_with [of _ ?se ts2], (simp add: h_torrent_stream_file_def A(1,2) r Some stream_answer_def s True k(2) Let_def
            put_streams [OF A(3,2) m1])+)
    next
      case False
      let ?ts = "snd (drop_stream ts1 (fs_stream_id s))"
      let ?se = "se1\<lparr>se_torrents := AList.update (mt_id mt1) (mt_set_streams ?ts mt1) (se_torrents se1)\<rparr>"
      obtain x where "seek_in se1 (mt_id mt1) s k = (Inl x, se1)" using k(1) False e m1 by (simp add: seek_in_def)
      moreover have "drop_from se1 (mt_id mt1) s = ?se" using e m1 by (simp add: drop_from_def)
      moreover have "fst ` set (streams ?ts) \<subseteq> fst ` set (streams ts)"
        using s(6) by (fastforce simp: drop_stream_def AList.delete_eq)
      ultimately show ?thesis
        using False
        by - (rule done_with [of _ ?se ?ts], (simp add: h_torrent_stream_file_def A(1,2) r Some stream_answer_def Let_def
            put_streams [OF A(3,2) m1] from_anyhow_def ae_status_def)+)
    qed
  qed
qed

text \<open>C17: A request for a file of a paused or running torrent opens a stream on that file and says what it will send: the whole file
  without a range, from byte \<open>n\<close> to the end, with the matching length and range, for \<^verbatim>\<open>bytes=n-\<close>, and the whole file without a
  length for any other range. The only error is an \<open>n\<close> beyond the end, which leaves no stream behind. The torrent's tracker and
  storage are untouched.\<close>

theorem http_stream_answers:
  assumes "table_ok (se_torrents se)" "session_get se idx = Some mt" "mt_metadata mt = Some m" "mt_streams mt = Inr ts"
    "file_id < length (tm_file_infos m)" "fi_len (tm_file_infos m ! file_id) < 2 ^ 63" "tbl_ok (streams ts)"
  shows "\<exists>r se' mt' ts'. h_torrent_stream_file mime se idx file_id hs = (r, se') \<and> session_get se' idx = Some mt' \<and> mt_streams mt' = Inr ts' \<and>
    (\<forall>g :: chunk_tracker \<Rightarrow> chunk_tracker. with_chunk_tracker mt' g = with_chunk_tracker mt g) \<and>
    with_storage_and_file mt' file_id m = with_storage_and_file mt file_id m \<and>
    stream_answer hs file_id (fi_len (tm_file_infos m ! file_id)) (offset_in_torrent (tm_file_infos m ! file_id)) ts ts' r"
  by (rule stream_handler [OF assms])

definition ex_api_session :: "(nat, filesystem_storage) session" where
  "ex_api_session = ex_session\<lparr>se_torrents := [(1, ex_mt\<lparr>mt_state := PausedSt ex_paused\<rparr>)]\<rparr>"

abbreviation ex_paused_mt :: "(nat, filesystem_storage) managed_torrent" where
  "ex_paused_mt \<equiv> ex_mt\<lparr>mt_state := PausedSt ex_paused\<rparr>"

lemma ex_api_sel:
  "table_ok (se_torrents ex_api_session)" "session_get ex_api_session (Id 1) = Some ex_paused_mt" "mt_metadata ex_paused_mt = Some ex_metadata"
  "mt_streams ex_paused_mt = Inr torrent_streams_default" "tbl_ok (streams torrent_streams_default)" "tm_file_infos ex_metadata = ex_files"
  "tm_lengths ex_metadata = ex_lengths" "with_chunk_tracker ex_paused_mt g = Inr (g ex_ct)"
  "with_storage_and_file ex_paused_mt 0 ex_metadata = Inr (ex_storage, ex_files ! 0)"
  by (simp_all add: ex_api_session_def table_ok_def ex_mt_def session_get_def mt_streams_def ex_paused_def torrent_streams_default_def tbl_ok_def
      ex_metadata_def with_chunk_tracker_def with_storage_and_file_def ex_files_def)

definition ex_range :: headers where
  "ex_range = [(''range'', ''bytes=10-'')]"

lemma ex_range_parsed: "parse_range_header ex_range = Some 10" "map_of ex_range ''range'' = Some ''bytes=10-''"
proof -
  have "show_nat 10 = ''10''" by (simp add: show_nat.simps digit_def) code_simp
  then have "parse_usize ''10'' = Some 10" using parse_usize_show [of 10] by simp
  then show "parse_range_header ex_range = Some 10" "map_of ex_range ''range'' = Some ''bytes=10-''"
    by (simp_all add: parse_range_header_def header_str_def ex_range_def strip_prefix_def starts_with_def strip_suffix_def in_byte_range_def)
qed

theorem http_stream_answers_witness:
  "\<exists>resp se'. h_torrent_stream_file (\<lambda>_. Some ''video/mp4'') ex_api_session (Id 1) 0 ex_range = (Inr resp, se') \<and>
     sr_status resp = 206 \<and> fs_position (sr_stream resp) = 10 \<and> map_of (sr_headers resp) ''content-length'' = Some (show_nat 20)"
proof -
  have f: "0 < length (tm_file_infos ex_metadata)" "fi_len (tm_file_infos ex_metadata ! 0) < 2 ^ 63" "fi_len (ex_files ! 0) = 30"
    by (simp_all add: ex_api_sel ex_files_def)
  from http_stream_answers [OF ex_api_sel(1-4) f(1,2) ex_api_sel(5), of "\<lambda>_. Some ''video/mp4''" ex_range]
  obtain r se' ts' where "h_torrent_stream_file (\<lambda>_. Some ''video/mp4'') ex_api_session (Id 1) 0 ex_range = (r, se')"
    "stream_answer ex_range 0 30 (offset_in_torrent (ex_files ! 0)) torrent_streams_default ts' r"
    by (auto simp: ex_api_sel f)
  then show ?thesis by (cases r) (auto simp: stream_answer_def ex_range_parsed)
qed

text \<open>C11: When every piece of the file is verified, the body of such an answer ends after at most one read per byte, and it is
  exactly the stored bytes of the file from the position on; a length that was announced is the length of the body.\<close>

theorem http_stream_body_exact:
  assumes "table_ok (se_torrents se)" "session_get se idx = Some mt" "mt_metadata mt = Some m" "mt_streams mt = Inr ts"
    "file_id < length (tm_file_infos m)" "fi_len (tm_file_infos m ! file_id) < 2 ^ 63" "tbl_ok (streams ts)"
    and wf: "wf_lengths (tm_lengths m)" "wf_file_infos (tm_lengths m) (tm_file_infos m)"
    and ct: "with_chunk_tracker mt (\<lambda>ct. ct) = Inr ct" "ct_inv ct" "ct_lengths ct = tm_lengths m"
    and fs: "with_storage_and_file mt file_id m = Inr (fs, tm_file_infos m ! file_id)" "fs_inv (tm_lengths m) (tm_file_infos m) fs"
      "\<not> padding (fi_attrs (tm_file_infos m ! file_id))"
    and disk: "\<forall>q. q < total_pieces (tm_lengths m) \<and> ct_have ct ! q \<longrightarrow>
      (\<forall>j < piece_length (tm_lengths m) q. fs_tb (tm_lengths m) (tm_file_infos m) fs (piece_offset (tm_lengths m) q + j) \<noteq> None)"
    and verified: "\<forall>j < fi_len (tm_file_infos m ! file_id).
      ct_have ct ! ((offset_in_torrent (tm_file_infos m ! file_id) + j) div default_piece_length (tm_lengths m))"
    and resp: "h_torrent_stream_file mime se idx file_id hs = (Inr resp, se')"
  defines "len \<equiv> fi_len (tm_file_infos m ! file_id)" and "pos \<equiv> fs_position (sr_stream resp)"
  shows "\<exists>mt' ts' body s' ts''. session_get se' idx = Some mt' \<and> mt_streams mt' = Inr ts' \<and> pos \<le> len \<and>
    read_to_end (Suc (len - pos)) (tm_lengths m) (with_chunk_tracker mt' (\<lambda>ct. ct)) (fs_pread_exact fs) (sr_stream resp) ts' w 65536
      = Some (body, s', ts'') \<and>
    body = map (\<lambda>j. the (fs_tb (tm_lengths m) (tm_file_infos m) fs (offset_in_torrent (tm_file_infos m ! file_id) + pos + j))) [0..<len - pos] \<and>
    (\<forall>v. map_of (sr_headers resp) ''content-length'' = Some v \<longrightarrow> v = show_nat (length body))"
proof -
  let ?s = "sr_stream resp"
  obtain mt' ts' where mt': "session_get se' idx = Some mt'" "mt_streams mt' = Inr ts'" "with_chunk_tracker mt' (\<lambda>ct. ct) = Inr ct"
    and a: "stream_answer hs file_id len (offset_in_torrent (tm_file_infos m ! file_id)) ts ts' (Inr resp)"
    using stream_handler [OF assms(1-7), of mime hs] resp ct(1) by (auto simp: len_def)
  then have r: "registered ?s ts'" "fs_file_id ?s = file_id" "fs_file_len ?s = len"
    "fs_file_torrent_abs_offset ?s = offset_in_torrent (tm_file_infos m ! file_id)" "pos \<le> len"
    "\<forall>v. map_of (sr_headers resp) ''content-length'' = Some v \<longrightarrow> v = show_nat (len - pos)"
    by (auto simp: stream_answer_def pos_def split: option.splits)
  have ok: "reader_ok (tm_lengths m) (tm_file_infos m) ?s ts'"
    using r assms(5) by (simp add: reader_ok_def len_def pos_def)
  have "ct_have ct ! ((fs_file_torrent_abs_offset ?s + fs_position ?s + j) div default_piece_length (tm_lengths m))"
    if "j < fs_file_len ?s - fs_position ?s" for j
    using verified [rule_format, of "pos + j"] that r by (simp add: add.assoc pos_def len_def)
  with read_to_end_delivers [OF wf ct(2,3) fs(2) _ disk ok, of 65536 "Suc (len - pos)" w]
  obtain s' ts'' where "read_to_end (Suc (len - pos)) (tm_lengths m) (Inr ct) (fs_pread_exact fs) ?s ts' w 65536 =
      Some (map (\<lambda>j. the (fs_tb (tm_lengths m) (tm_file_infos m) fs (offset_in_torrent (tm_file_infos m ! file_id) + pos + j))) [0..<len - pos], s', ts'')"
    using fs(3) r by (auto simp: pos_def)
  then show ?thesis using mt' r(5,6) by (auto simp del: read_to_end.simps)
qed

theorem http_stream_body_exact_witness:
  "\<exists>resp se' ts' s' ts''. h_torrent_stream_file (\<lambda>_. None) ex_api_session (Id 1) 0 ex_range = (Inr resp, se') \<and>
     read_to_end 21 ex_lengths (Inr ex_ct) (fs_pread_exact ex_storage) (sr_stream resp) ts' 0 65536 =
       Some (map (\<lambda>j. the (fs_tb ex_lengths ex_files ex_storage (10 + j))) [0..<20], s', ts'')"
proof -
  have f: "0 < length (tm_file_infos ex_metadata)" "fi_len (tm_file_infos ex_metadata ! 0) < 2 ^ 63" "fi_len (ex_files ! 0) = 30"
    "offset_in_torrent (ex_files ! 0) = 0" "\<not> padding (fi_attrs (ex_files ! 0))"
    by (simp_all add: ex_api_sel ex_files_def default_attrs_def)
  from stream_handler [OF ex_api_sel(1-4) f(1,2) ex_api_sel(5), of "\<lambda>_. None" ex_range]
  obtain r se' mt' ts' where h: "h_torrent_stream_file (\<lambda>_. None) ex_api_session (Id 1) 0 ex_range = (r, se')"
      "session_get se' (Id 1) = Some mt'" "mt_streams mt' = Inr ts'" "with_chunk_tracker mt' (\<lambda>ct. ct) = Inr ex_ct"
    and a: "stream_answer ex_range 0 30 0 torrent_streams_default ts' r"
    by (auto simp: ex_api_sel f)
  then obtain resp where r: "r = Inr resp" "fs_position (sr_stream resp) = 10" by (cases r) (auto simp: stream_answer_def ex_range_parsed)
  have v: "ct_have ex_ct ! ((0 + j) div default_piece_length ex_lengths)" if "j < 30" for j
    using that by (simp add: ex_lengths_sel ex_ct_def ex_have_def)
  show ?thesis
    using http_stream_body_exact [OF ex_api_sel(1-4) f(1,2) ex_api_sel(5) _ _ _ ex_ct_inv _ _ _ _ _ _ h(1) [unfolded r], of ex_storage 0]
      ex_lengths_wf ex_files_wf ex_storage_inv ex_disk v h r by (simp add: ex_api_sel f ex_ct_def del: read_to_end.simps) blast
qed

end
