(* ===== verification/Http_Api.thy ===== *)
theory Http_Api
  imports Api "HOL-Library.List_Lexorder"
begin

text \<open>
  The HTTP server of the engine: its routes, the parameters of requests, play lists, basic authentication and the handlers that
  are not the stream. Matching of routes, JSON, query strings, base 64, MIME types and URL encoding are library code.

  Source: \<^verbatim>\<open>http_api/mod.rs\<close>, \<^verbatim>\<open>http_api/timeout.rs\<close>, \<^verbatim>\<open>http_api/handlers/*.rs\<close>, \<^verbatim>\<open>http_api_types.rs\<close>, \<^verbatim>\<open>limits.rs\<close>.
\<close>

subsection \<open>Parameters\<close>

text \<open>\<^verbatim>\<open>join\<close>\<close>

fun join_with :: "string \<Rightarrow> string list \<Rightarrow> string" where
  "join_with sep [] = []"
| "join_with sep [s] = s"
| "join_with sep (s # t # ss) = s @ sep @ join_with sep (t # ss)"

definition only_files_to_str :: "nat list \<Rightarrow> string" where
  "only_files_to_str ids = join_with '','' (map show_nat ids)"

fun parse_ids :: "string list \<Rightarrow> nat list res" where
  "parse_ids [] = Inr []"
| "parse_ids (c # cs) =
     rbind (of_option (Bail ''only_files: failed to parse as integer'') (parse_usize c)) (\<lambda>i.
     rbind (parse_ids cs) (\<lambda>is. Inr (i # is)))"

definition only_files_from_str :: "string \<Rightarrow> nat list res" where
  "only_files_from_str s =
     rbind (parse_ids (split_on (CHR '','') s)) (\<lambda>ids.
       if ids = [] then Inl (Bail ''only_files: should contain at least one file id'') else Inr ids)"

fun parse_addrs :: "(string \<Rightarrow> socket_addr option) \<Rightarrow> string list \<Rightarrow> socket_addr list res" where
  "parse_addrs from_str [] = Inr []"
| "parse_addrs from_str (s # ss) =
     rbind (of_option (Bail ''invalid socket address syntax'') (from_str s)) (\<lambda>a. rbind (parse_addrs from_str ss) (\<lambda>as. Inr (a # as)))"

definition initial_peers_from_str :: "(string \<Rightarrow> socket_addr option) \<Rightarrow> string \<Rightarrow> socket_addr list res" where
  "initial_peers_from_str from_str s = parse_addrs from_str (filter (\<lambda>s. s \<noteq> []) (split_on (CHR '','') s))"

record add_query_params =
  qp_overwrite :: "bool option"
  qp_output_folder :: "string option"
  qp_sub_folder :: "string option"
  qp_only_files_regex :: "string option"
  qp_only_files :: "nat list option"
  qp_initial_peers :: "socket_addr list option"
  qp_is_url :: "bool option"
  qp_list_only :: "bool option"

text \<open>\<^verbatim>\<open>overwrite\<close> and the time limits of connections are for the storage and the sockets.\<close>

definition into_add_torrent_options :: "add_query_params \<Rightarrow> add_torrent_options" where
  "into_add_torrent_options q =
     \<lparr>ao_paused = False, ao_only_files_regex = qp_only_files_regex q, ao_only_files = qp_only_files q,
      ao_list_only = (case qp_list_only q of Some b \<Rightarrow> b | None \<Rightarrow> False),
      ao_output_folder = map_option (split_on (CHR ''/'')) (qp_output_folder q),
      ao_sub_folder = map_option (split_on (CHR ''/'')) (qp_sub_folder q),
      ao_initial_peers = qp_initial_peers q, ao_preferred_id = None, ao_fs_factory = None, ao_trackers = None\<rparr>"

definition request_timeout :: "nat \<Rightarrow> nat \<Rightarrow> nat option \<Rightarrow> string option \<Rightarrow> nat api" where
  "request_timeout default_ms max_ms timeout_ms header =
     ebind (case timeout_ms of
              Some n \<Rightarrow> Inr (Some n)
            | None \<Rightarrow>
                (case header of
                   None \<Rightarrow> Inr None
                 | Some v \<Rightarrow>
                     if \<not> utf8_ok v then Inl (from_anyhow (Bail ''invalid utf-8 in timeout value''))
                     else case parse_usize v of Some n \<Rightarrow> Inr (Some n) | None \<Rightarrow> Inl (from_anyhow (Bail ''invalid timeout integer''))))
       (\<lambda>t. Inr (min (case t of Some n \<Rightarrow> n | None \<Rightarrow> default_ms) max_ms))"

subsection \<open>Adding a torrent\<close>

definition SUPPORTED_SCHEMES :: "string list" where
  "SUPPORTED_SCHEMES = [''http:'', ''https:'', ''magnet:'']"

text \<open>The body of a request as text.\<close>

definition bytes_text :: "nat list \<Rightarrow> string" where
  "bytes_text data = map char_of data"

definition post_add :: "session_env \<Rightarrow> bool option \<Rightarrow> nat list \<Rightarrow> add_torrent api" where
  "post_add V is_url data =
     (let text = bytes_text data;
          url = (if utf8_ok text then Inr (Url text) else Inl (from_anyhow (Bail ''invalid utf-8 for passed URL'')));
          maybe_magnet = (utf8_ok text \<and> is_ok (sv_parse_magnet V text))
      in case is_url of
           Some True \<Rightarrow> url
         | Some False \<Rightarrow> Inr (TorrentFileBytes data)
         | None \<Rightarrow> if list_ex (\<lambda>s. starts_with text s) SUPPORTED_SCHEMES \<or> maybe_magnet then url else Inr (TorrentFileBytes data))"

text \<open>A request that takes too long is given up; how far it got is not known.\<close>

definition h_torrents_post ::
  "('b, 's, 'f) managed_env \<Rightarrow> session_env \<Rightarrow> ('b, 's) session \<Rightarrow> add_query_params \<Rightarrow> nat list \<Rightarrow> add_torrent_api_response api \<times> ('b, 's) session" where
  "h_torrents_post E V se params data =
     (case post_add V (qp_is_url params) data of
        Inl e \<Rightarrow> (Inl e, se)
      | Inr add \<Rightarrow> api_add_torrent E V se add (into_add_torrent_options params))"

definition list_only_options :: add_torrent_options where
  "list_only_options =
     \<lparr>ao_paused = False, ao_only_files_regex = None, ao_only_files = None, ao_list_only = True, ao_output_folder = None, ao_sub_folder = None,
      ao_initial_peers = None, ao_preferred_id = None, ao_fs_factory = None, ao_trackers = None\<rparr>"

text \<open>The answer is the torrent file, as it is or shown as JSON, with a file name if the torrent's name is text that fits in a header.\<close>

definition h_resolve_magnet ::
  "('b, 's, 'f) managed_env \<Rightarrow> session_env \<Rightarrow> (nat list \<Rightarrow> string res) \<Rightarrow> (string \<Rightarrow> bool) \<Rightarrow> ('b, 's) session \<Rightarrow> headers \<Rightarrow> string
   \<Rightarrow> (headers \<times> (nat list + string)) api \<times> ('b, 's) session" where
  "h_resolve_magnet E V to_json header_ok se hs url =
     (case session_add_torrent E V se (Url url) list_only_options of
        (Inl e, se) \<Rightarrow> (Inl (from_anyhow e), se)
      | (Inr added, se) \<Rightarrow>
          (ebind (case added of
                    AlreadyManaged i \<Rightarrow>
                      (case Option.bind (map_of (se_torrents se) i) mt_metadata of
                         Some m \<Rightarrow> Inr (tm_info m, tm_torrent_bytes m)
                       | None \<Rightarrow> Inl (from_anyhow (Bail ''torrent is not resolved'')))
                  | ListOnly lo \<Rightarrow> Inr (lo_info lo, lo_torrent_bytes lo)
                  | Added _ \<Rightarrow> Inl (new_from_text 500 ''bug: torrent was added to session, but shouldn't have been'')) (\<lambda>(info, content).
             if map_of hs ''accept'' = Some ''application/json'' then
               ebind (into_api (to_json content)) (\<lambda>data. Inr ([(''content-type'', ''application/json'')], Inr data))
             else
               let disp = (case mi_name info of
                             Some name \<Rightarrow>
                               let v = ''attachment; filename='' @ [CHR 0x22] @ name @ ''.torrent'' @ [CHR 0x22]
                               in if utf8_ok name \<and> header_ok v then [(''content-disposition'', v)] else []
                           | None \<Rightarrow> [])
               in Inr ([(''content-type'', ''application/x-bittorrent'')] @ disp, Inl content)), se))"

subsection \<open>Play lists\<close>

text \<open>\<open>playable\<close> says that the MIME type of a name is video or audio.\<close>

definition torrent_playlist_items ::
  "(string \<Rightarrow> bool) \<Rightarrow> (string \<Rightarrow> string) \<Rightarrow> ('b, 's) managed_torrent \<Rightarrow> (nat \<times> string) list api" where
  "torrent_playlist_items playable urlencode mt =
     ebind (into_api (rbind (of_option (Bail ''torrent metadata not resolved'') (mt_metadata mt)) (\<lambda>m. iter_file_details (tm_info m)))) (\<lambda>ds.
       Inr (sort_key (\<lambda>i. map (of_char :: char \<Rightarrow> nat) (snd i))
         (List.map_filter (\<lambda>(file_idx, d).
            case name_to_vec (fd_filename d) of
              Inl _ \<Rightarrow> None
            | Inr ps \<Rightarrow> let filename = join_with ''/'' ps in if playable filename then Some (file_idx, urlencode filename) else None)
          (List.enumerate 0 ds))))"

definition get_host :: "headers \<Rightarrow> string api" where
  "get_host hs =
     (case map_of hs ''host'' of
        None \<Rightarrow> Inl (new_from_text 400 ''Missing host header'')
      | Some _ \<Rightarrow> (case header_str hs ''host'' of Some h \<Rightarrow> Inr h | None \<Rightarrow> Inl (from_anyhow (Bail ''hostname is not string''))))"

definition crlf :: string where
  "crlf = [CHR 0x0D, CHR 0x0A]"

definition build_playlist_content :: "string \<Rightarrow> (torrent_id_or_hash \<times> nat \<times> string) list \<Rightarrow> string" where
  "build_playlist_content host it =
     ''#EXTM3U'' @ crlf @ join_with crlf (map (\<lambda>(torrent_idx, file_idx, filename).
       ''http://'' @ host @ ''/torrents/'' @ display_id_or_hash torrent_idx @ ''/stream/'' @ show_nat file_idx @ ''/'' @ filename) it)"

definition h_torrent_playlist ::
  "(string \<Rightarrow> bool) \<Rightarrow> (string \<Rightarrow> string) \<Rightarrow> ('b, 's) session \<Rightarrow> headers \<Rightarrow> torrent_id_or_hash \<Rightarrow> string api" where
  "h_torrent_playlist playable urlencode se hs idx =
     ebind (get_host hs) (\<lambda>host.
     ebind (mgr_handle se idx) (\<lambda>mt.
     ebind (torrent_playlist_items playable urlencode mt) (\<lambda>items.
       Inr (build_playlist_content host (map (\<lambda>(file_idx, filename). (idx, file_idx, filename)) items)))))"

definition h_global_playlist ::
  "(string \<Rightarrow> bool) \<Rightarrow> (string \<Rightarrow> string) \<Rightarrow> ('b, 's) session \<Rightarrow> headers \<Rightarrow> string api" where
  "h_global_playlist playable urlencode se hs =
     ebind (get_host hs) (\<lambda>host.
       Inr (build_playlist_content host (concat (map (\<lambda>(torrent_idx, mt).
         case torrent_playlist_items playable urlencode mt of
           Inr items \<Rightarrow> map (\<lambda>(file_idx, filename). (Id torrent_idx, file_idx, filename)) items
         | Inl _ \<Rightarrow> []) (se_torrents se)))))"

subsection \<open>Authentication\<close>

text \<open>The request goes on, or is answered with a status.\<close>

definition simple_basic_auth :: "(string \<Rightarrow> string option) \<Rightarrow> (string \<times> string) option \<Rightarrow> headers \<Rightarrow> nat + unit" where
  "simple_basic_auth base64_decode expected hs =
     (case expected of
        None \<Rightarrow> Inr ()
      | Some (expected_user, expected_pass) \<Rightarrow>
          (case Option.bind (header_str hs ''authorization'') (\<lambda>h.
                Option.bind (strip_prefix ''Basic '' h) (\<lambda>v.
                Option.bind (base64_decode v) (\<lambda>v. if utf8_ok v then Some v else None))) of
             None \<Rightarrow> Inl 401
           | Some user_pass \<Rightarrow>
               (case split_once (CHR '':'') user_pass of
                  Some (u, p) \<Rightarrow> if u = expected_user \<and> p = expected_pass then Inr () else Inl (ae_status unathorized)
                | None \<Rightarrow> Inl (ae_status unathorized))))"

subsection \<open>Routes\<close>

datatype http_method = GET | POST

datatype endpoint =
    ApiRoot | StreamLogs | SetRustLog | DhtStats | DhtTable | SessionStats | TorrentsList | TorrentDetails | TorrentHaves | TorrentStatsV0
  | TorrentStatsV1 | PeerStats | TorrentPlaylist | GlobalPlaylist | ResolveMagnet | StreamFile
  | TorrentsPost | UpdateRatelimits | ActionPause | ActionStart | ActionForget | ActionDelete | ActionUpdateOnlyFiles

datatype seg = Lit string | Param | Rest

type_synonym route = "seg list \<times> http_method \<times> endpoint"

definition make_api_router :: "bool \<Rightarrow> route list" where
  "make_api_router read_only =
     [([], GET, ApiRoot),
      ([Lit ''stream_logs''], GET, StreamLogs),
      ([Lit ''rust_log''], POST, SetRustLog),
      ([Lit ''dht'', Lit ''stats''], GET, DhtStats),
      ([Lit ''dht'', Lit ''table''], GET, DhtTable),
      ([Lit ''stats''], GET, SessionStats),
      ([Lit ''torrents''], GET, TorrentsList),
      ([Lit ''torrents'', Param], GET, TorrentDetails),
      ([Lit ''torrents'', Param, Lit ''haves''], GET, TorrentHaves),
      ([Lit ''torrents'', Param, Lit ''stats''], GET, TorrentStatsV0),
      ([Lit ''torrents'', Param, Lit ''stats'', Lit ''v1''], GET, TorrentStatsV1),
      ([Lit ''torrents'', Param, Lit ''peer_stats''], GET, PeerStats),
      ([Lit ''torrents'', Param, Lit ''playlist''], GET, TorrentPlaylist),
      ([Lit ''torrents'', Lit ''playlist''], GET, GlobalPlaylist),
      ([Lit ''torrents'', Lit ''resolve_magnet''], POST, ResolveMagnet),
      ([Lit ''torrents'', Param, Lit ''stream'', Param], GET, StreamFile),
      ([Lit ''torrents'', Param, Lit ''stream'', Param, Rest], GET, StreamFile)]
     @ (if read_only then []
        else [([Lit ''torrents''], POST, TorrentsPost),
              ([Lit ''torrents'', Lit ''limits''], POST, UpdateRatelimits),
              ([Lit ''torrents'', Param, Lit ''pause''], POST, ActionPause),
              ([Lit ''torrents'', Param, Lit ''start''], POST, ActionStart),
              ([Lit ''torrents'', Param, Lit ''forget''], POST, ActionForget),
              ([Lit ''torrents'', Param, Lit ''delete''], POST, ActionDelete),
              ([Lit ''torrents'', Param, Lit ''update_only_files''], POST, ActionUpdateOnlyFiles)])"

text \<open>The matching of the web framework: the parameters of a path, a literal before a parameter before the rest, and the method after
  the path.\<close>

fun seg_match :: "seg list \<Rightarrow> string list \<Rightarrow> string list option" where
  "seg_match [] [] = Some []"
| "seg_match [Rest] (p # ps) = Some []"
| "seg_match (Lit s # pat) (p # ps) = (if s = p then seg_match pat ps else None)"
| "seg_match (Param # pat) (p # ps) = (if p = [] then None else map_option ((#) p) (seg_match pat ps))"
| "seg_match _ _ = None"

definition seg_rank :: "seg \<Rightarrow> nat" where
  "seg_rank s = (case s of Lit _ \<Rightarrow> 0 | Param \<Rightarrow> 1 | Rest \<Rightarrow> 2)"

definition best_pattern :: "route list \<Rightarrow> string list \<Rightarrow> seg list option" where
  "best_pattern routes path =
     (case sort_key (map seg_rank) (filter (\<lambda>pat. seg_match pat path \<noteq> None) (map fst routes)) of [] \<Rightarrow> None | pat # _ \<Rightarrow> Some pat)"

text \<open>The endpoint of a request and the parameters of its path, or the status of its refusal.\<close>

definition find_route :: "route list \<Rightarrow> http_method \<Rightarrow> string list \<Rightarrow> nat + endpoint \<times> string list" where
  "find_route routes m path =
     (case best_pattern routes path of
        None \<Rightarrow> Inl 404
      | Some pat \<Rightarrow>
          (case List.find (\<lambda>(pat', m', _). pat' = pat \<and> m' = m) routes of
             None \<Rightarrow> Inl 405
           | Some (_, _, ep) \<Rightarrow> Inr (ep, the (seg_match pat path))))"

subsection \<open>The server\<close>

record limits_config =
  upload_bps :: "nat option"
  download_bps :: "nat option"

record ('b, 's) http_server =
  hv_session :: "('b, 's) session"
  hv_limits :: limits_config

record http_request =
  hr_method :: http_method
  hr_path :: "string list"
  hr_headers :: headers
  hr_with_stats :: bool
  hr_add_params :: add_query_params
  hr_body :: "nat list"
  hr_only_files :: "nat list"
  hr_limits :: limits_config

text \<open>\<open>RLibrary\<close> stands for data of the DHT, of the logs and of speed estimation.\<close>

datatype reply =
    RRefused nat
  | RError api_error
  | RLibrary
  | RList "torrent_details list"
  | RDetails torrent_details
  | RHaves bits
  | RStats torrent_stats
  | RText string
  | RTorrentFile "headers \<times> (nat list + string)"
  | RStream stream_response
  | RAdded add_torrent_api_response
  | REmpty

definition reply_of :: "('a \<Rightarrow> reply) \<Rightarrow> 'a api \<Rightarrow> reply" where
  "reply_of f r = (case r of Inl e \<Rightarrow> RError e | Inr x \<Rightarrow> f x)"

record ('b, 's, 'f) http_env =
  hx_managed :: "('b, 's, 'f) managed_env"
  hx_session :: session_env
  hx_create :: "torrent_metadata \<Rightarrow> 's res"
  hx_mime :: "string \<Rightarrow> string option"
  hx_playable :: "string \<Rightarrow> bool"
  hx_urlencode :: "string \<Rightarrow> string"
  hx_base64 :: "string \<Rightarrow> string option"
  hx_torrent_json :: "nat list \<Rightarrow> string res"
  hx_header_ok :: "string \<Rightarrow> bool"

definition on_session :: "('b, 's) http_server \<Rightarrow> reply \<times> ('b, 's) session \<Rightarrow> reply \<times> ('b, 's) http_server" where
  "on_session sv r = (fst r, sv\<lparr>hv_session := snd r\<rparr>)"

definition h_torrent_stats_v0 :: "('b, 's) session \<Rightarrow> torrent_id_or_hash \<Rightarrow> reply" where
  "h_torrent_stats_v0 se idx =
     reply_of (\<lambda>_. RLibrary) (ebind (mgr_handle se idx) (\<lambda>mt. into_api (of_option (Bail ''torrent not live'') (mt_live mt))))"

definition h_update_session_ratelimits :: "('b, 's) http_server \<Rightarrow> limits_config \<Rightarrow> reply \<times> ('b, 's) http_server" where
  "h_update_session_ratelimits sv limits = (REmpty, sv\<lparr>hv_limits := limits\<rparr>)"

text \<open>The endpoints of one torrent.\<close>

definition torrent_endpoint ::
  "('b, 's, 'f) http_env \<Rightarrow> ('b, 's) http_server \<Rightarrow> http_request \<Rightarrow> endpoint \<Rightarrow> torrent_id_or_hash \<Rightarrow> string list \<Rightarrow> reply \<times> ('b, 's) http_server" where
  "torrent_endpoint X sv rq ep idx params =
     (let se = hv_session sv; E = hx_managed X; V = hx_session X
      in case ep of
           TorrentDetails \<Rightarrow> (reply_of RDetails (api_torrent_details (sv_lossy V) se idx), sv)
         | TorrentHaves \<Rightarrow> (reply_of RHaves (api_dump_haves se idx), sv)
         | TorrentStatsV0 \<Rightarrow> (h_torrent_stats_v0 se idx, sv)
         | TorrentStatsV1 \<Rightarrow> (reply_of RStats (api_stats_v1 se idx), sv)
         | PeerStats \<Rightarrow> (h_torrent_stats_v0 se idx, sv)
         | TorrentPlaylist \<Rightarrow> (reply_of RText (h_torrent_playlist (hx_playable X) (hx_urlencode X) se (hr_headers rq) idx), sv)
         | StreamFile \<Rightarrow>
             (case parse_usize (hd params) of
                None \<Rightarrow> (RRefused 400, sv)
              | Some file_id \<Rightarrow>
                  let r = h_torrent_stream_file (hx_mime X) se idx file_id (hr_headers rq) in on_session sv (reply_of RStream (fst r), snd r))
         | ActionPause \<Rightarrow> let r = api_torrent_action_pause E V se idx in on_session sv (reply_of (\<lambda>_. REmpty) (fst r), snd r)
         | ActionStart \<Rightarrow> let r = api_torrent_action_start E V se idx in on_session sv (reply_of (\<lambda>_. REmpty) (fst r), snd r)
         | ActionForget \<Rightarrow> let r = api_torrent_action_forget E V (hx_create X) se idx in on_session sv (reply_of (\<lambda>_. REmpty) (fst r), snd r)
         | ActionDelete \<Rightarrow> let r = api_torrent_action_delete E V (hx_create X) se idx in on_session sv (reply_of (\<lambda>_. REmpty) (fst r), snd r)
         | ActionUpdateOnlyFiles \<Rightarrow>
             let r = api_torrent_action_update_only_files E V se idx (hr_only_files rq) in on_session sv (reply_of (\<lambda>_. REmpty) (fst r), snd r)
         | _ \<Rightarrow> (RRefused 404, sv))"

definition serve_endpoint ::
  "('b, 's, 'f) http_env \<Rightarrow> ('b, 's) http_server \<Rightarrow> http_request \<Rightarrow> endpoint \<Rightarrow> string list \<Rightarrow> reply \<times> ('b, 's) http_server" where
  "serve_endpoint X sv rq ep params =
     (let se = hv_session sv; E = hx_managed X; V = hx_session X
      in case ep of
           ApiRoot \<Rightarrow> (RLibrary, sv)
         | StreamLogs \<Rightarrow> (RLibrary, sv)
         | SetRustLog \<Rightarrow> (RError (from_anyhow (Bail ''rust_log_reload_tx was not set'')), sv)
         | DhtStats \<Rightarrow> (if se_dht se then RLibrary else RError dht_disabled, sv)
         | DhtTable \<Rightarrow> (if se_dht se then RLibrary else RError dht_disabled, sv)
         | SessionStats \<Rightarrow> (RLibrary, sv)
         | TorrentsList \<Rightarrow> (RList (api_torrent_list_ext se (hr_with_stats rq)), sv)
         | GlobalPlaylist \<Rightarrow> (reply_of RText (h_global_playlist (hx_playable X) (hx_urlencode X) se (hr_headers rq)), sv)
         | ResolveMagnet \<Rightarrow>
             if \<not> utf8_ok (bytes_text (hr_body rq)) then (RRefused 400, sv)
             else let r = h_resolve_magnet E V (hx_torrent_json X) (hx_header_ok X) se (hr_headers rq) (bytes_text (hr_body rq))
                  in on_session sv (reply_of RTorrentFile (fst r), snd r)
         | TorrentsPost \<Rightarrow> let r = h_torrents_post E V se (hr_add_params rq) (hr_body rq) in on_session sv (reply_of RAdded (fst r), snd r)
         | UpdateRatelimits \<Rightarrow> h_update_session_ratelimits sv (hr_limits rq)
         | _ \<Rightarrow>
             (case params of
                [] \<Rightarrow> (RRefused 404, sv)
              | i # params \<Rightarrow>
                  (case parse_id_or_hash i of
                     Inl _ \<Rightarrow> (RRefused 400, sv)
                   | Inr idx \<Rightarrow> torrent_endpoint X sv rq ep idx params)))"

text \<open>The authentication wraps the handlers, so an unknown path or method is refused before it.\<close>

record http_options =
  ho_read_only :: bool
  ho_basic_auth :: "(string \<times> string) option"

definition serve :: "('b, 's, 'f) http_env \<Rightarrow> http_options \<Rightarrow> ('b, 's) http_server \<Rightarrow> http_request \<Rightarrow> reply \<times> ('b, 's) http_server" where
  "serve X opts sv rq =
     (case find_route (make_api_router (ho_read_only opts)) (hr_method rq) (hr_path rq) of
        Inl status \<Rightarrow> (RRefused status, sv)
      | Inr (ep, params) \<Rightarrow>
          (case simple_basic_auth (hx_base64 X) (ho_basic_auth opts) (hr_headers rq) of
             Inl status \<Rightarrow> (RRefused status, sv)
           | Inr _ \<Rightarrow> serve_endpoint X sv rq ep params))"

subsection \<open>A read-only server\<close>

text \<open>What a reader of a torrent may change: its streams and the peers to reconnect.\<close>

definition untouched :: "('b, 's) managed_torrent \<Rightarrow> ('b, 's) managed_torrent \<Rightarrow> bool" where
  "untouched mt mt' \<longleftrightarrow> same_torrent mt mt' \<and> mt_metadata mt' = mt_metadata mt \<and> mt_paused mt' = mt_paused mt \<and>
     mt_only_files mt' = mt_only_files mt \<and> phase_of (mt_state mt') = phase_of (mt_state mt) \<and>
     (\<forall>g :: chunk_tracker \<Rightarrow> chunk_tracker. with_chunk_tracker mt' g = with_chunk_tracker mt g)"

definition untouched_session :: "('b, 's) session \<Rightarrow> ('b, 's) session \<Rightarrow> bool" where
  "untouched_session se se' \<longleftrightarrow> se_persistence se' = se_persistence se \<and> se_next_id se' = se_next_id se \<and>
     list_all2 (\<lambda>e e'. fst e' = fst e \<and> untouched (snd e) (snd e')) (se_torrents se) (se_torrents se')"

lemma untouched_refl [simp]: "untouched mt mt"
  by (simp add: untouched_def same_torrent_def)

lemma untouched_trans: "untouched a b \<Longrightarrow> untouched b c \<Longrightarrow> untouched a c"
  by (simp add: untouched_def same_torrent_def)

lemma untouched_session_refl [simp]: "untouched_session se se"
  by (simp add: untouched_session_def list_all2_refl)

lemma untouched_session_trans: "untouched_session a b \<Longrightarrow> untouched_session b c \<Longrightarrow> untouched_session a c"
proof -
  assume ab: "untouched_session a b" and bc: "untouched_session b c"
  have "list_all2 (\<lambda>e e'. fst e' = fst e \<and> untouched (snd e) (snd e')) (se_torrents a) (se_torrents c)"
    by (rule list_all2_trans [OF _ ab [unfolded untouched_session_def, THEN conjunct2, THEN conjunct2]
          bc [unfolded untouched_session_def, THEN conjunct2, THEN conjunct2]]) (auto intro: untouched_trans)
  then show ?thesis using ab bc by (simp add: untouched_session_def)
qed

lemma untouched_set_streams [simp]: "untouched mt (mt_set_streams ts mt)"
  by (cases "mt_state mt") (simp_all add: untouched_def same_torrent_def mt_set_streams_def with_chunk_tracker_def)

lemma untouched_reconnect [simp]: "untouched mt (maybe_reconnect_needed_peers_for_file mt i)"
  by (cases "mt_state mt")
    (simp_all add: untouched_def same_torrent_def maybe_reconnect_needed_peers_for_file_def with_chunk_tracker_def reconnect_all_not_needed_peers_def)

lemma untouched_update:
  "map_of (se_torrents se) tid = Some mt \<Longrightarrow> untouched mt mt' \<Longrightarrow>
   untouched_session se (se\<lparr>se_torrents := AList.update tid mt' (se_torrents se)\<rparr>)"
proof -
  assume u: "untouched mt mt'" and "map_of (se_torrents se) tid = Some mt"
  moreover have "map_of ts tid = Some mt \<Longrightarrow>
      list_all2 (\<lambda>e e'. fst e' = fst e \<and> untouched (snd e) (snd e')) ts (AList.update tid mt' ts)" for ts
    using u by (induction ts) (auto intro: list_all2_refl)
  ultimately show ?thesis by (simp add: untouched_session_def)
qed

lemma list_only_keeps: "ao_list_only opts \<Longrightarrow> snd (session_add_torrent E V se add opts) = se"
proof -
  assume l: "ao_list_only opts"
  have "ao_list_only opts'" if "read_add_torrent V add opts = Inr (ia, opts')" for ia opts'
    using that l by (auto simp: read_add_torrent_def rbind_eq_Inr split: add_torrent.splits if_splits option.splits)
  then show ?thesis
    by (auto simp: session_add_torrent_def add_torrent_internal_def split: sum.split prod.split)
qed

lemma h_resolve_magnet_keeps: "snd (h_resolve_magnet E V j ok se hs url) = se"
  using list_only_keeps [of list_only_options E V se "Url url"]
  by (auto simp: h_resolve_magnet_def list_only_options_def split: sum.split prod.split)

lemma session_get_table: "session_get se idx = Some mt \<Longrightarrow> \<exists>k. (k, mt) \<in> set (se_torrents se)"
  using find_hash_Some by (fastforce simp: session_get_def dest: map_of_SomeD split: torrent_id_or_hash.splits)

lemma api_stream_keeps:
  assumes "table_ok (se_torrents se)"
  shows "untouched_session se (snd (api_stream se idx file_id))"
proof (cases "session_get se idx")
  case (Some mt)
  have "untouched mt (snd (mt_stream mt file_id))"
    using untouched_trans [OF untouched_reconnect untouched_set_streams] by (auto simp: mt_stream_def split: sum.split)
  then show ?thesis
    using untouched_update [OF session_get_entry [OF assms Some]] Some by (simp add: api_stream_def mgr_handle_def Let_def)
qed (simp add: api_stream_def mgr_handle_def)

lemma seek_in_keeps: "untouched_session se (snd (seek_in se tid s n))"
  by (auto simp: seek_in_def intro: untouched_update split: option.split sum.split)

lemma drop_from_keeps: "untouched_session se (drop_from se tid s)"
  by (auto simp: drop_from_def intro: untouched_update split: option.split sum.split)

lemma stream_file_keeps:
  assumes "table_ok (se_torrents se)"
  shows "untouched_session se (snd (h_torrent_stream_file mime se idx file_id hs))"
proof -
  obtain r se1 where a: "api_stream se idx file_id = (r, se1)" by (cases "api_stream se idx file_id")
  then have u: "untouched_session se se1" using api_stream_keeps [OF assms, of idx file_id] by simp
  have "untouched_session se1 (snd (h_torrent_stream_file mime se idx file_id hs))"
  proof (cases r)
    case (Inl e)
    then show ?thesis by (simp add: h_torrent_stream_file_def a)
  next
    case (Inr st)
    show ?thesis
    proof (cases "parse_range_header hs")
      case None
      then show ?thesis by (cases "map_of hs ''range''") (simp_all add: h_torrent_stream_file_def a Inr Let_def)
    next
      case (Some k)
      then obtain v where v: "map_of hs ''range'' = Some v" using parse_range_header_None by force
      let ?tid = "case session_get se1 idx of Some mt \<Rightarrow> mt_id mt | None \<Rightarrow> 0"
      obtain q se2 where q: "seek_in se1 ?tid st k = (q, se2)" by (cases "seek_in se1 ?tid st k")
      have "untouched_session se1 se2" using seek_in_keeps [of se1 ?tid st k] q by simp
      then show ?thesis using q v Some Inr untouched_session_trans [OF _ drop_from_keeps]
        by (cases q) (simp_all add: h_torrent_stream_file_def a Let_def)
    qed
  qed
  with u show ?thesis by (rule untouched_session_trans)
qed

lemma find_route_in: "find_route routes m path = Inr (ep, params) \<Longrightarrow> ep \<in> (snd \<circ> snd) ` set routes"
proof -
  assume r: "find_route routes m path = Inr (ep, params)"
  then obtain pat where "best_pattern routes path = Some pat" by (auto simp: find_route_def split: option.splits)
  with r obtain e where e: "List.find (\<lambda>(pat', m', _). pat' = pat \<and> m' = m) routes = Some e" "snd (snd e) = ep"
    by (auto simp: find_route_def split: option.splits)
  then have "e \<in> set routes" by (auto simp: find_Some_iff in_set_conv_nth)
  with e(2) show ?thesis by force
qed

definition reading :: "endpoint set" where
  "reading = {ApiRoot, StreamLogs, SetRustLog, DhtStats, DhtTable, SessionStats, TorrentsList, TorrentDetails, TorrentHaves, TorrentStatsV0,
     TorrentStatsV1, PeerStats, TorrentPlaylist, GlobalPlaylist, ResolveMagnet, StreamFile}"

lemma read_only_routes: "(snd \<circ> snd) ` set (make_api_router True) = reading"
  by (auto simp: make_api_router_def reading_def)

definition keeps_server :: "('b, 's) http_server \<Rightarrow> ('b, 's) http_server \<Rightarrow> bool" where
  "keeps_server sv sv' \<longleftrightarrow> hv_limits sv' = hv_limits sv \<and> untouched_session (hv_session sv) (hv_session sv')"

lemma keeps_server_refl [simp]: "keeps_server sv sv"
  by (simp add: keeps_server_def)

lemma keeps_server_on_session: "untouched_session (hv_session sv) (snd r) \<Longrightarrow> keeps_server sv (snd (on_session sv r))"
  by (simp add: keeps_server_def on_session_def)

lemma torrent_endpoint_keeps:
  assumes "table_ok (se_torrents (hv_session sv))" "ep \<in> reading"
  shows "keeps_server sv (snd (torrent_endpoint X sv rq ep idx params))"
  using assms(2) stream_file_keeps [OF assms(1)]
  by (cases ep) (simp_all add: reading_def torrent_endpoint_def Let_def keeps_server_on_session split: option.split)

lemma serve_endpoint_keeps:
  assumes "table_ok (se_torrents (hv_session sv))" "ep \<in> reading"
  shows "keeps_server sv (snd (serve_endpoint X sv rq ep params))"
proof -
  have "keeps_server sv (snd (case params of [] \<Rightarrow> (RRefused 404, sv) | i # params \<Rightarrow>
      (case parse_id_or_hash i of Inl _ \<Rightarrow> (RRefused 400, sv) | Inr idx \<Rightarrow> torrent_endpoint X sv rq ep idx params)))"
    using torrent_endpoint_keeps [OF assms] by (auto split: list.split sum.split)
  then show ?thesis
    using assms(2)
    by (cases ep; hypsubst) (simp_all add: reading_def serve_endpoint_def Let_def keeps_server_on_session h_resolve_magnet_keeps)
qed

text \<open>C28: A server that is read-only changes no torrent, selection, stored session or limit, whatever is requested: it opens streams
  and reconnects peers for them at most. With a user name and password set, a request without them changes nothing at all and is refused.\<close>

theorem read_only_server_keeps_torrents:
  assumes "ho_read_only opts" "table_ok (se_torrents (hv_session sv))" "serve X opts sv rq = (reply, sv')"
  shows "keeps_server sv sv' \<and>
    (simple_basic_auth (hx_base64 X) (ho_basic_auth opts) (hr_headers rq) \<noteq> Inr () \<longrightarrow> sv' = sv \<and> (\<exists>status. reply = RRefused status))"
proof -
  have "keeps_server sv (snd (serve_endpoint X sv rq ep params))"
    if "find_route (make_api_router True) (hr_method rq) (hr_path rq) = Inr (ep, params)" for ep params
    by (rule serve_endpoint_keeps [OF assms(2)]) (use find_route_in [OF that] in \<open>simp only: read_only_routes\<close>)
  then have "keeps_server sv (snd (serve X opts sv rq))"
    using assms(1) by (simp add: serve_def split: option.split sum.split prod.split)
  moreover have "sv' = sv \<and> (\<exists>status. reply = RRefused status)"
    if "simple_basic_auth (hx_base64 X) (ho_basic_auth opts) (hr_headers rq) \<noteq> Inr ()"
    using that assms(3) by (auto simp: serve_def split: option.splits sum.splits)
  ultimately show ?thesis using assms(3) by simp
qed

definition ex_http_env :: "(nat, filesystem_storage, unit) http_env" where
  "ex_http_env = \<lparr>hx_managed = ex_menv, hx_session = ex_senv, hx_create = (\<lambda>_. Inr ex_storage), hx_mime = (\<lambda>_. None), hx_playable = (\<lambda>_. True),
     hx_urlencode = (\<lambda>s. s), hx_base64 = Some, hx_torrent_json = (\<lambda>_. Inr []), hx_header_ok = (\<lambda>_. True)\<rparr>"

definition ex_server :: "(nat, filesystem_storage) http_server" where
  "ex_server = \<lparr>hv_session = ex_api_session, hv_limits = \<lparr>upload_bps = None, download_bps = None\<rparr>\<rparr>"

definition ex_delete :: http_request where
  "ex_delete = \<lparr>hr_method = POST, hr_path = [''torrents'', ''1'', ''delete''], hr_headers = [], hr_with_stats = False,
     hr_add_params = \<lparr>qp_overwrite = None, qp_output_folder = None, qp_sub_folder = None, qp_only_files_regex = None, qp_only_files = None,
       qp_initial_peers = None, qp_is_url = None, qp_list_only = None\<rparr>,
     hr_body = [], hr_only_files = [], hr_limits = \<lparr>upload_bps = None, download_bps = None\<rparr>\<rparr>"

theorem read_only_server_keeps_torrents_witness:
  "keeps_server ex_server (snd (serve ex_http_env \<lparr>ho_read_only = True, ho_basic_auth = None\<rparr> ex_server ex_delete))"
  using read_only_server_keeps_torrents [OF _ _ surjective_pairing, of "\<lparr>ho_read_only = True, ho_basic_auth = None\<rparr>" ex_server ex_http_env ex_delete]
    ex_api_sel(1) by (simp add: ex_server_def)

subsection \<open>Parameters read back\<close>

lemma split_join:
  "ss \<noteq> [] \<Longrightarrow> \<forall>s \<in> set ss. c \<notin> set s \<Longrightarrow> split_on c (join_with [c] ss) = ss"
  by (induction "[c]" ss rule: join_with.induct) (simp_all add: split_on_none split_on_append)

lemma parse_ids_show: "\<forall>i \<in> set ids. i < 2 ^ 64 \<Longrightarrow> parse_ids (map show_nat ids) = Inr ids"
  by (induction ids) (simp_all add: parse_usize_show)

lemma only_files_roundtrip:
  "ids \<noteq> [] \<Longrightarrow> \<forall>i \<in> set ids. i < 2 ^ 64 \<Longrightarrow> only_files_from_str (only_files_to_str ids) = Inr ids"
  using split_join [of "map show_nat ids" "CHR '',''"] parse_ids_show [of ids]
  by (simp add: only_files_from_str_def only_files_to_str_def not_digit)

end
