(* ===== verification/Resolver.thy ===== *)
theory Resolver
  imports Text
begin

text \<open>
  From what the user enters to something that can be played: the chain of resolvers for magnet links, HLS addresses and web
  pages. The HTML parser, the regular expressions and HTTP are parameters; so is the engine's \<^verbatim>\<open>parse_magnet\<close>, which is in
  the theory of the application. Error messages are given in English.

  Source: \<^verbatim>\<open>layer/mod.rs\<close>, \<^verbatim>\<open>resolver/mod.rs\<close>, \<^verbatim>\<open>resolver/magnet.rs\<close>, \<^verbatim>\<open>resolver/m3u8.rs\<close>, \<^verbatim>\<open>resolver/webpage.rs\<close>.
\<close>

subsection \<open>The interface\<close>

datatype link_tier =
    ReadyToPlay string "(string \<times> string) list"
  | NeedsCache string nat
  | DownloadOnly string
  | NotFound string

text \<open>A resolver may change the state of the engine.\<close>

record 'e source_resolver =
  can_handle :: "string \<Rightarrow> bool"
  sr_resolve :: "'e \<Rightarrow> string \<Rightarrow> link_tier res \<times> 'e"

type_synonym 'e resolver_chain = "'e source_resolver list"

definition chain_new :: "'e resolver_chain" where
  "chain_new = []"

definition chain_register :: "'e source_resolver \<Rightarrow> 'e resolver_chain \<Rightarrow> 'e resolver_chain" where
  "chain_register r chain = chain @ [r]"

fun chain_loop :: "'e resolver_chain \<Rightarrow> 'e \<Rightarrow> string \<Rightarrow> (link_tier \<times> string) res \<times> 'e" where
  "chain_loop [] e input = (Inl (Bail ''unrecognised kind of link''), e)"
| "chain_loop (r # rs) e input =
     (if can_handle r input then
        (case sr_resolve r e input of
           (Inr (NotFound _), e) \<Rightarrow> chain_loop rs e input
         | (Inr tier, e) \<Rightarrow> (Inr (tier, input), e)
         | (Inl err, e) \<Rightarrow> (Inl err, e))
      else chain_loop rs e input)"

definition chain_resolve :: "'e resolver_chain \<Rightarrow> 'e \<Rightarrow> string \<Rightarrow> (link_tier \<times> string) res \<times> 'e" where
  "chain_resolve chain e input = chain_loop chain e (trim input)"

subsection \<open>Magnet links\<close>

definition is_ascii_hexdigit :: "char \<Rightarrow> bool" where
  "is_ascii_hexdigit c \<longleftrightarrow> in_byte_range 48 57 c \<or> in_byte_range 65 70 c \<or> in_byte_range 97 102 c"

definition magnet_can_handle :: "string \<Rightarrow> bool" where
  "magnet_can_handle input =
     (let trimmed = trim input
      in if starts_with trimmed ''magnet:'' then True
         else if length trimmed = 40 \<and> list_all is_ascii_hexdigit trimmed then True
         else False)"

definition magnet_url_of :: "string \<Rightarrow> string" where
  "magnet_url_of input =
     (let trimmed = trim input
      in if starts_with trimmed ''magnet:'' then trimmed else ''magnet:?xt=urn:btih:'' @ trimmed)"

definition magnet_resolver :: "('e \<Rightarrow> string \<Rightarrow> (string \<times> nat) res \<times> 'e) \<Rightarrow> 'e source_resolver" where
  "magnet_resolver parse_magnet =
     \<lparr>can_handle = magnet_can_handle,
      sr_resolve = (\<lambda>e input.
        abind (parse_magnet e (magnet_url_of input)) (\<lambda>(stream_url, _) e. (Inr (ReadyToPlay stream_url []), e)))\<rparr>"

subsection \<open>HLS\<close>

definition m3u8_can_handle :: "string \<Rightarrow> bool" where
  "m3u8_can_handle input = (let trimmed = to_lowercase (trim input) in contains trimmed ''.m3u8'' \<or> ends_with trimmed ''m3u8'')"

definition m3u8_resolver :: "'e source_resolver" where
  "m3u8_resolver = \<lparr>can_handle = m3u8_can_handle, sr_resolve = (\<lambda>e input. (Inr (ReadyToPlay (trim input) []), e))\<rparr>"

subsection \<open>Web pages\<close>

text \<open>The address of a link of a page. The index of the last slash counts from the start of the address, so that the slashes
  after the scheme do not count.\<close>

definition resolve_url :: "string \<Rightarrow> string \<Rightarrow> string" where
  "resolve_url url page_url =
     (if starts_with url ''http://'' \<or> starts_with url ''https://'' then url
      else if starts_with url ''//'' then
        (if starts_with page_url ''https://'' then ''https:'' @ url else ''http:'' @ url)
      else
        case rfind_char (CHR ''/'') page_url of
          Some base_end \<Rightarrow>
            if base_end > 8 then
              take (base_end + 1) page_url @ trim_start_matches ''/'' (trim_start_matches ''./'' url)
            else url
        | None \<Rightarrow> url)"

text \<open>The parsed page: the \<^verbatim>\<open>src\<close> attributes of the elements a selector finds, and the first group of every match of a pattern.
  A selector or a pattern may not compile.\<close>

record page =
  pg_select :: "string \<Rightarrow> string option list option"
  pg_matches :: "string \<Rightarrow> string option list option"

text \<open>The loop over the elements ends with the first one.\<close>

definition first_src :: "string option list \<Rightarrow> string \<Rightarrow> string option option" where
  "first_src elements page_url =
     (case elements of
        [] \<Rightarrow> None
      | None # _ \<Rightarrow> Some None
      | Some src # _ \<Rightarrow> Some (Some (resolve_url src page_url)))"

definition extract_from_video_tag :: "page \<Rightarrow> string \<Rightarrow> string option" where
  "extract_from_video_tag pg page_url =
     Option.bind (pg_select pg ''video[src]'') (\<lambda>videos.
       case first_src videos page_url of
         Some r \<Rightarrow> r
       | None \<Rightarrow>
           Option.bind (pg_select pg ''video source[src]'') (\<lambda>sources.
             case first_src sources page_url of Some r \<Rightarrow> r | None \<Rightarrow> None))"

definition looks_like_player :: "string \<Rightarrow> bool" where
  "looks_like_player src =
     (let lower = to_lowercase src
      in contains lower ''video'' \<or> contains lower ''player'' \<or> contains lower ''embed'' \<or> contains lower ''m3u8'' \<or> contains lower ''mp4'')"

fun iframe_loop :: "string option list \<Rightarrow> string \<Rightarrow> string option" where
  "iframe_loop [] page_url = None"
| "iframe_loop (None # _) page_url = None"
| "iframe_loop (Some src # es) page_url =
     (if looks_like_player src then Some (resolve_url src page_url) else iframe_loop es page_url)"

definition extract_from_iframe :: "page \<Rightarrow> string \<Rightarrow> string option" where
  "extract_from_iframe pg page_url = Option.bind (pg_select pg ''iframe[src]'') (\<lambda>es. iframe_loop es page_url)"

text \<open>Parts of the patterns: a quote, no quote, white space and a dot.\<close>

definition re_quotes :: string where
  "re_quotes = [CHR 0x22, CHR 0x27]"

definition re_q :: string where
  "re_q = ''['' @ re_quotes @ '']''"

definition re_nq :: string where
  "re_nq = ''[^'' @ re_quotes @ '']''"

definition re_s :: string where
  "re_s = [CHR 0x5C] @ ''s''"

definition re_dot :: string where
  "re_dot = [CHR 0x5C] @ ''.''"

definition js_patterns :: "string list" where
  "js_patterns =
     map (\<lambda>v. v @ ''['' @ re_quotes @ re_s @ '':]+'' @ re_q @ ''('' @ re_nq @ ''+'' @ re_dot @ ''(?:m3u8|mp4))'' @ re_q)
       [''videoUrl'', ''video_url'', ''playUrl'']
     @ [re_q @ ''url'' @ re_q @ re_s @ ''*:'' @ re_s @ ''*'' @ re_q @ ''('' @ re_nq @ ''+'' @ re_dot @ ''m3u8'' @ re_nq @ ''*)'' @ re_q,
        re_q @ ''src'' @ re_q @ re_s @ ''*:'' @ re_s @ ''*'' @ re_q @ ''('' @ re_nq @ ''+'' @ re_dot @ ''(?:m3u8|mp4)'' @ re_nq @ ''*)'' @ re_q]
     @ map (\<lambda>v. re_q @ v @ re_q @ re_s @ ''*[:=]'' @ re_s @ ''*'' @ re_q @ ''('' @ re_nq @ ''+'' @ re_dot @ ''(?:m3u8|mp4)'' @ re_nq @ ''*)'' @ re_q)
       [''file'', ''link'']"

fun js_loop :: "page \<Rightarrow> string list \<Rightarrow> string \<Rightarrow> string option res" where
  "js_loop pg [] page_url = Inr None"
| "js_loop pg (p # ps) page_url =
     (case pg_matches pg p of
        Some (None # _) \<Rightarrow> Inl Panic
      | Some (Some url # _) \<Rightarrow> if length url > 5 then Inr (Some (resolve_url url page_url)) else js_loop pg ps page_url
      | _ \<Rightarrow> js_loop pg ps page_url)"

definition extract_from_js_vars :: "page \<Rightarrow> string \<Rightarrow> string option res" where
  "extract_from_js_vars pg page_url = js_loop pg js_patterns page_url"

definition media_patterns :: "string list" where
  "media_patterns =
     [re_q @ ''('' @ re_nq @ ''*'' @ re_dot @ ''m3u8'' @ re_nq @ ''*)'' @ re_q,
      re_q @ ''('' @ re_nq @ ''{20,}'' @ re_dot @ ''mp4'' @ re_nq @ ''*)'' @ re_q]"

definition is_http :: "string \<Rightarrow> bool" where
  "is_http url \<longleftrightarrow> starts_with url ''http://'' \<or> starts_with url ''https://''"

fun media_matches :: "string option list \<Rightarrow> string \<Rightarrow> string option res" where
  "media_matches [] page_url = Inr None"
| "media_matches (None # _) page_url = Inl Panic"
| "media_matches (Some url # ms) page_url =
     (let absolute = resolve_url url page_url in if is_http absolute then Inr (Some absolute) else media_matches ms page_url)"

fun media_loop :: "page \<Rightarrow> string list \<Rightarrow> string \<Rightarrow> string option res" where
  "media_loop pg [] page_url = Inr None"
| "media_loop pg (p # ps) page_url =
     (case pg_matches pg p of
        None \<Rightarrow> media_loop pg ps page_url
      | Some ms \<Rightarrow>
          rbind (media_matches ms page_url) (\<lambda>found. case found of Some url \<Rightarrow> Inr (Some url) | None \<Rightarrow> media_loop pg ps page_url))"

definition extract_media_urls :: "page \<Rightarrow> string \<Rightarrow> string option res" where
  "extract_media_urls pg page_url = media_loop pg media_patterns page_url"

definition extract_video_source :: "page \<Rightarrow> string \<Rightarrow> string res" where
  "extract_video_source pg page_url =
     (case extract_from_video_tag pg page_url of
        Some url \<Rightarrow> Inr url
      | None \<Rightarrow>
          (case extract_from_iframe pg page_url of
             Some url \<Rightarrow> Inr url
           | None \<Rightarrow>
               rbind (extract_from_js_vars pg page_url) (\<lambda>js.
                 case js of
                   Some url \<Rightarrow> Inr url
                 | None \<Rightarrow>
                     rbind (extract_media_urls pg page_url) (\<lambda>media.
                       case media of
                         Some url \<Rightarrow> Inr url
                       | None \<Rightarrow> Inl (Bail ''no video source found in the page'')))))"

definition webpage_can_handle :: "string \<Rightarrow> bool" where
  "webpage_can_handle input =
     (let trimmed = to_lowercase (trim input)
      in if \<not> (starts_with trimmed ''http://'' \<or> starts_with trimmed ''https://'') then False
         else if contains trimmed ''.m3u8'' then False
         else True)"

text \<open>The answer to a request: its status and the page, if its text can be read.\<close>

definition webpage_resolver :: "(string \<Rightarrow> (nat \<times> page res) res) \<Rightarrow> 'e source_resolver" where
  "webpage_resolver fetch =
     \<lparr>can_handle = webpage_can_handle,
      sr_resolve = (\<lambda>e input.
        let page_url = trim input
        in (rbind (fetch page_url) (\<lambda>(status, body).
              if \<not> (200 \<le> status \<and> status < 300) then Inl (Bail ''the page could not be fetched'')
              else rbind body (\<lambda>pg.
                   rbind (extract_video_source pg page_url) (\<lambda>video_url.
                     Inr (ReadyToPlay video_url [(''Referer'', page_url)])))), e))\<rparr>"

text \<open>The chain the application registers.\<close>

definition app_chain :: "('e \<Rightarrow> string \<Rightarrow> (string \<times> nat) res \<times> 'e) \<Rightarrow> (string \<Rightarrow> (nat \<times> page res) res) \<Rightarrow> 'e resolver_chain" where
  "app_chain parse_magnet fetch =
     chain_register (webpage_resolver fetch) (chain_register m3u8_resolver (chain_register (magnet_resolver parse_magnet) chain_new))"

subsection \<open>What resolvers promise\<close>

text \<open>White space around the input does not matter, and a result is always something to play.\<close>

locale link_resolver =
  fixes R :: "'e source_resolver"
  assumes handles_trimmed: "can_handle R (trim s) = can_handle R s"
    and resolves_trimmed: "sr_resolve R e (trim s) = sr_resolve R e s"
    and plays: "sr_resolve R e s = (Inr tier, e') \<Longrightarrow> \<exists>url hs. tier = ReadyToPlay url hs"
begin

lemma chain_head:
  "can_handle R s \<Longrightarrow> chain_loop (R # rs) e s = abind (sr_resolve R e s) (\<lambda>tier e. (Inr (tier, s), e))"
  using plays [of e s] by (cases "sr_resolve R e s") (auto simp: abind_def split: sum.split link_tier.split)

lemma chain_skip: "\<not> can_handle R s \<Longrightarrow> chain_loop (R # rs) e s = chain_loop rs e s"
  by simp

end

interpretation magnet: link_resolver "magnet_resolver parse_magnet"
  by unfold_locales (auto simp: magnet_resolver_def magnet_can_handle_def magnet_url_of_def abind_def Let_def split: sum.splits prod.splits)

interpretation m3u8: link_resolver m3u8_resolver
  by unfold_locales (auto simp: m3u8_resolver_def m3u8_can_handle_def)

interpretation webpage: link_resolver "webpage_resolver fetch"
  by unfold_locales (auto simp: webpage_resolver_def webpage_can_handle_def Let_def rbind_eq_Inr cong: if_cong split: if_splits)

subsection \<open>Addresses found in pages\<close>

lemma starts_with_take: "starts_with s p \<Longrightarrow> length p \<le> n \<Longrightarrow> starts_with (take n s @ t) p"
  by (auto simp: starts_with_def min_absorb1) (metis append_take_drop_id length_append length_take le_add1 min.absorb_iff2 take_all)

text \<open>A page whose address has a slash after the host.\<close>

definition has_folder :: "string \<Rightarrow> bool" where
  "has_folder page_url \<longleftrightarrow> (case rfind_char (CHR ''/'') page_url of Some i \<Rightarrow> i > 8 | None \<Rightarrow> False)"

lemma resolve_url_http: "is_http page_url \<Longrightarrow> has_folder page_url \<Longrightarrow> is_http (resolve_url url page_url)"
  by (auto simp: resolve_url_def is_http_def has_folder_def starts_with_take split: option.splits) (auto simp: starts_with_def)

lemma first_src_http:
  "is_http page_url \<Longrightarrow> has_folder page_url \<Longrightarrow> first_src es page_url = Some (Some url) \<Longrightarrow> is_http url"
  by (auto simp: first_src_def resolve_url_http split: list.splits option.splits)

lemma video_tag_http:
  "is_http page_url \<Longrightarrow> has_folder page_url \<Longrightarrow> extract_from_video_tag pg page_url = Some url \<Longrightarrow> is_http url"
  using first_src_http [of page_url _ url]
  by (auto simp: extract_from_video_tag_def bind_eq_Some_conv split: option.splits)

lemma iframe_http: "is_http page_url \<Longrightarrow> has_folder page_url \<Longrightarrow> iframe_loop es page_url = Some url \<Longrightarrow> is_http url"
  by (induction es page_url rule: iframe_loop.induct) (auto simp: resolve_url_http split: if_splits)

lemma js_http: "is_http page_url \<Longrightarrow> has_folder page_url \<Longrightarrow> js_loop pg ps page_url = Inr (Some url) \<Longrightarrow> is_http url"
  by (induction ps) (auto simp: resolve_url_http split: if_splits option.splits list.splits)

lemma media_matches_http: "media_matches ms page_url = Inr (Some url) \<Longrightarrow> is_http url"
  by (induction ms page_url rule: media_matches.induct) (auto simp: Let_def split: if_splits)

lemma media_http: "media_loop pg ps page_url = Inr (Some url) \<Longrightarrow> is_http url"
proof (induction ps)
  case (Cons p ps)
  show ?case
  proof (cases "pg_matches pg p")
    case (Some ms)
    then obtain found where "media_matches ms page_url = Inr found"
      "(case found of Some u \<Rightarrow> Inr (Some u) | None \<Rightarrow> media_loop pg ps page_url) = Inr (Some url)"
      using Cons.prems by (auto simp: rbind_eq_Inr)
    then show ?thesis using Cons.IH media_matches_http by (cases found) auto
  qed (use Cons in simp)
qed simp

lemma extract_video_source_http:
  assumes "is_http page_url" "has_folder page_url" "extract_video_source pg page_url = Inr url"
  shows "is_http url"
proof -
  consider "extract_from_video_tag pg page_url = Some url" | "extract_from_iframe pg page_url = Some url"
    | "extract_from_js_vars pg page_url = Inr (Some url)" | "extract_media_urls pg page_url = Inr (Some url)"
    using assms(3) by (auto simp: extract_video_source_def rbind_eq_Inr split: option.splits)
  then show ?thesis
    using video_tag_http [OF assms(1,2)] iframe_http [OF assms(1,2)] js_http [OF assms(1,2)] media_http
    by cases (auto simp: extract_from_iframe_def extract_from_js_vars_def extract_media_urls_def bind_eq_Some_conv)
qed

lemma resolver_sel [simp]:
  "can_handle (magnet_resolver pm) = magnet_can_handle" "can_handle m3u8_resolver = m3u8_can_handle"
  "can_handle (webpage_resolver fetch) = webpage_can_handle"
  by (simp_all add: magnet_resolver_def m3u8_resolver_def webpage_resolver_def)

lemmas app_chain_simps = chain_resolve_def app_chain_def chain_register_def chain_new_def

lemma app_chain_magnet:
  "magnet_can_handle s \<Longrightarrow> chain_resolve (app_chain pm fetch) e s =
     abind (pm e (magnet_url_of s)) (\<lambda>(url, _) e. (Inr (ReadyToPlay url [], trim s), e))"
  using magnet.chain_head [where parse_magnet = pm and s = "trim s"] magnet.handles_trimmed [where parse_magnet = pm and s = s]
    magnet.resolves_trimmed [where parse_magnet = pm and s = s and e = e]
  by (auto simp: app_chain_simps magnet_resolver_def abind_def split: sum.split)

lemma app_chain_m3u8:
  "\<not> magnet_can_handle s \<Longrightarrow> m3u8_can_handle s \<Longrightarrow>
   chain_resolve (app_chain pm fetch) e s = (Inr (ReadyToPlay (trim s) [], trim s), e)"
  using magnet.handles_trimmed [where parse_magnet = pm and s = s] m3u8.handles_trimmed [where s = s]
  by (simp add: app_chain_simps m3u8_resolver_def)

lemma app_chain_page:
  "\<not> magnet_can_handle s \<Longrightarrow> \<not> m3u8_can_handle s \<Longrightarrow> webpage_can_handle s \<Longrightarrow>
   chain_resolve (app_chain pm fetch) e s = abind (sr_resolve (webpage_resolver fetch) e s) (\<lambda>tier e. (Inr (tier, trim s), e))"
  using magnet.handles_trimmed [where parse_magnet = pm and s = s] m3u8.handles_trimmed [where s = s]
    webpage.handles_trimmed [where fetch = fetch and s = s] webpage.resolves_trimmed [where fetch = fetch and s = s and e = e]
    webpage.chain_head [where fetch = fetch and s = "trim s" and rs = "[]" and e = e]
  by (simp add: app_chain_simps)

lemma app_chain_none:
  "\<not> magnet_can_handle s \<Longrightarrow> \<not> m3u8_can_handle s \<Longrightarrow> \<not> webpage_can_handle s \<Longrightarrow>
   chain_resolve (app_chain pm fetch) e s = (Inl (Bail ''unrecognised kind of link''), e)"
  using magnet.handles_trimmed [where parse_magnet = pm and s = s] m3u8.handles_trimmed [where s = s]
    webpage.handles_trimmed [where fetch = fetch and s = s]
  by (simp add: app_chain_simps)

lemma page_result:
  "fst (sr_resolve (webpage_resolver fetch) e s) = Inr tier \<longleftrightarrow>
   (\<exists>url status pg. tier = ReadyToPlay url [(''Referer'', trim s)] \<and> fetch (trim s) = Inr (status, Inr pg) \<and>
      200 \<le> status \<and> status < 300 \<and> extract_video_source pg (trim s) = Inr url \<and>
      (is_http (trim s) \<longrightarrow> has_folder (trim s) \<longrightarrow> is_http url))"
  by (auto simp: webpage_resolver_def Let_def rbind_eq_Inr extract_video_source_http)

lemma page_keeps: "snd (sr_resolve (webpage_resolver fetch) e s) = e"
  by (simp add: webpage_resolver_def Let_def)


text \<open>Example: a page with a relative video address.\<close>

definition ex_page :: page where
  "ex_page = \<lparr>pg_select = (\<lambda>sel. Some (if sel = ''video[src]'' then [Some ''./v.mp4''] else [])), pg_matches = (\<lambda>_. Some [])\<rparr>"


end
