(* ===== verification/Media_Library.thy ===== *)
theory Media_Library
  imports Text
begin

text \<open>
  The data base of the application: what was played and how far, and the queue of export tasks with its worker. A table is the
  list of its rows with the last id given out; \<^verbatim>\<open>AUTOINCREMENT\<close> never gives out an id twice. A statement of the data base can
  fail, \<open>fails n\<close> says that the \<open>n\<close>th of a call does; the times are arguments, and seconds of progress are values of any type,
  as they are only stored.

  Source: \<^verbatim>\<open>db.rs\<close>, and the worker of \<^verbatim>\<open>main.rs\<close>.
\<close>

subsection \<open>Tables\<close>

record 'f play_history_entry =
  ph_id :: int
  ph_magnet :: string
  ph_file_path :: string
  ph_stream_url :: string
  ph_played_at :: string
  ph_progress_sec :: 'f
  ph_is_suspected_ad :: bool

record cloud_export_task =
  ce_id :: int
  ce_provider :: string
  ce_resource_id :: string
  ce_source_type :: string
  ce_source_locator :: string
  ce_status :: string
  ce_error_message :: "string option"
  ce_created_at :: string
  ce_updated_at :: string

record 'f db =
  play_history :: "'f play_history_entry list"
  play_history_seq :: int
  cloud_export_tasks :: "cloud_export_task list"
  cloud_export_seq :: int

type_synonym faults = "nat \<Rightarrow> bool"

definition sql :: "faults \<Rightarrow> nat \<Rightarrow> unit res" where
  "sql fails n = (if fails n then Inl (Bail ''database error'') else Inr ())"

text \<open>Opening the data base creates the tables that are missing.\<close>

definition init_db :: "faults \<Rightarrow> 'f db option \<Rightarrow> 'f db res" where
  "init_db fails stored =
     rbind (sql fails 0) (\<lambda>_. rbind (sql fails 1) (\<lambda>_.
       Inr (case stored of
              Some d \<Rightarrow> d
            | None \<Rightarrow> \<lparr>play_history = [], play_history_seq = 0, cloud_export_tasks = [], cloud_export_seq = 0\<rparr>)))"

subsection \<open>What was played\<close>

definition insert_play_history ::
  "faults \<Rightarrow> string \<Rightarrow> 'f db \<Rightarrow> string \<Rightarrow> string \<Rightarrow> string \<Rightarrow> 'f \<Rightarrow> bool \<Rightarrow> int res \<times> 'f db" where
  "insert_play_history fails now d magnet file_path stream_url progress_sec is_suspected_ad =
     (case sql fails 0 of
        Inl e \<Rightarrow> (Inl e, d)
      | Inr _ \<Rightarrow>
          let i = play_history_seq d + 1
          in (Inr i, d\<lparr>play_history := play_history d @ [\<lparr>ph_id = i, ph_magnet = magnet, ph_file_path = file_path,
                ph_stream_url = stream_url, ph_played_at = now, ph_progress_sec = progress_sec, ph_is_suspected_ad = is_suspected_ad\<rparr>],
                play_history_seq := i\<rparr>))"

definition latest_of :: "'f db \<Rightarrow> string \<Rightarrow> 'f play_history_entry option" where
  "latest_of d stream_url =
     (case rev (sort_key ph_id (filter (\<lambda>h. ph_stream_url h = stream_url) (play_history d))) of [] \<Rightarrow> None | h # _ \<Rightarrow> Some h)"

definition update_progress :: "faults \<Rightarrow> 'f db \<Rightarrow> string \<Rightarrow> 'f \<Rightarrow> unit res \<times> 'f db" where
  "update_progress fails d stream_url progress_sec =
     (case sql fails 0 of
        Inl e \<Rightarrow> (Inl e, d)
      | Inr _ \<Rightarrow>
          (Inr (), d\<lparr>play_history :=
             map (\<lambda>h. if map_option ph_id (latest_of d stream_url) = Some (ph_id h) then h\<lparr>ph_progress_sec := progress_sec\<rparr> else h)
               (play_history d)\<rparr>))"

definition get_progress :: "faults \<Rightarrow> 'f db \<Rightarrow> string \<Rightarrow> 'f option res" where
  "get_progress fails d stream_url =
     rbind (sql fails 0) (\<lambda>_. rbind (sql fails 1) (\<lambda>_. rbind (sql fails 2) (\<lambda>_.
       case latest_of d stream_url of
         Some h \<Rightarrow> rbind (sql fails 3) (\<lambda>_. Inr (Some (ph_progress_sec h)))
       | None \<Rightarrow> Inr None)))"

text \<open>The order among entries of the same second is up to the data base: \<open>order\<close> is its sorting of the rows by time.\<close>

definition get_play_history ::
  "faults \<Rightarrow> ('f play_history_entry list \<Rightarrow> 'f play_history_entry list) \<Rightarrow> 'f db \<Rightarrow> nat \<Rightarrow> 'f play_history_entry list res" where
  "get_play_history fails order d limit =
     rbind (sql fails 0) (\<lambda>_. rbind (sql fails 1) (\<lambda>_. rbind (sql fails 2) (\<lambda>_. Inr (take limit (order (play_history d))))))"

subsection \<open>Export tasks\<close>

definition create_cloud_export_task ::
  "faults \<Rightarrow> string \<Rightarrow> 'f db \<Rightarrow> string \<Rightarrow> string \<Rightarrow> string \<Rightarrow> string \<Rightarrow> int res \<times> 'f db" where
  "create_cloud_export_task fails now d provider resource_id source_type source_locator =
     (case sql fails 0 of
        Inl e \<Rightarrow> (Inl e, d)
      | Inr _ \<Rightarrow>
          let i = cloud_export_seq d + 1
          in (Inr i, d\<lparr>cloud_export_tasks := cloud_export_tasks d @ [\<lparr>ce_id = i, ce_provider = provider, ce_resource_id = resource_id,
                ce_source_type = source_type, ce_source_locator = source_locator, ce_status = ''queued'', ce_error_message = None,
                ce_created_at = now, ce_updated_at = now\<rparr>], cloud_export_seq := i\<rparr>))"

text \<open>\<^verbatim>\<open>UPDATE ... WHERE id = ?\<close>\<close>

definition on_task :: "int \<Rightarrow> (cloud_export_task \<Rightarrow> cloud_export_task) \<Rightarrow> 'f db \<Rightarrow> 'f db" where
  "on_task i f d = d\<lparr>cloud_export_tasks := map (\<lambda>t. if ce_id t = i then f t else t) (cloud_export_tasks d)\<rparr>"

definition update_cloud_export_task_status ::
  "faults \<Rightarrow> string \<Rightarrow> 'f db \<Rightarrow> int \<Rightarrow> string \<Rightarrow> string option \<Rightarrow> unit res \<times> 'f db" where
  "update_cloud_export_task_status fails now d i status error_message =
     (case sql fails 0 of
        Inl e \<Rightarrow> (Inl e, d)
      | Inr _ \<Rightarrow> (Inr (), on_task i (\<lambda>t. t\<lparr>ce_status := status, ce_error_message := error_message, ce_updated_at := now\<rparr>) d))"

definition list_cloud_export_tasks :: "faults \<Rightarrow> 'f db \<Rightarrow> nat \<Rightarrow> cloud_export_task list res" where
  "list_cloud_export_tasks fails d limit =
     rbind (sql fails 0) (\<lambda>_. rbind (sql fails 1) (\<lambda>_. rbind (sql fails 2) (\<lambda>_.
       Inr (take limit (rev (sort_key ce_id (cloud_export_tasks d)))))))"

text \<open>In a transaction: a failure leaves the data base as it was. The task is returned as it was before it was claimed.\<close>

definition next_queued :: "'f db \<Rightarrow> cloud_export_task option" where
  "next_queued d =
     (case sort_key ce_id (filter (\<lambda>t. ce_status t = ''queued'') (cloud_export_tasks d)) of [] \<Rightarrow> None | t # _ \<Rightarrow> Some t)"

definition claim_next_cloud_export_task :: "faults \<Rightarrow> string \<Rightarrow> 'f db \<Rightarrow> cloud_export_task option res \<times> 'f db" where
  "claim_next_cloud_export_task fails now d =
     (case rbind (sql fails 0) (\<lambda>_. rbind (sql fails 1) (\<lambda>_. rbind (sql fails 2) (\<lambda>_. rbind (sql fails 3) (\<lambda>_.
             case next_queued d of
               None \<Rightarrow> rbind (sql fails 4) (\<lambda>_. Inr (None, d))
             | Some t \<Rightarrow>
                 rbind (sql fails 5) (\<lambda>_. rbind (sql fails 6) (\<lambda>_. rbind (sql fails 7) (\<lambda>_.
                   Inr (Some t, on_task (ce_id t) (\<lambda>t. t\<lparr>ce_status := ''exporting'', ce_updated_at := now\<rparr>) d)))))))) of
        Inl e \<Rightarrow> (Inl e, d)
      | Inr (next, d') \<Rightarrow> (Inr next, d'))"

text \<open>One round of the worker: open the data base, claim a task, and mark it done. Errors are only logged.\<close>

definition worker_round :: "(nat \<Rightarrow> faults) \<Rightarrow> string \<Rightarrow> string \<Rightarrow> 'f db \<Rightarrow> cloud_export_task option \<times> 'f db" where
  "worker_round fails now later d =
     (if fails 0 0 then (None, d)
      else case claim_next_cloud_export_task (fails 1) now d of
             (Inr (Some t), d) \<Rightarrow> (Some t, snd (update_cloud_export_task_status (fails 2) later d (ce_id t) ''done'' None))
           | (_, d) \<Rightarrow> (None, d))"

text \<open>Rounds of the worker one after the other, with the clock of every round.\<close>

fun worker_rounds :: "faults \<Rightarrow> nat \<Rightarrow> (nat \<Rightarrow> string) \<Rightarrow> 'f db \<Rightarrow> cloud_export_task list \<times> 'f db" where
  "worker_rounds fails 0 clock d = ([], d)"
| "worker_rounds fails (Suc k) clock d =
     (let r = worker_round (\<lambda>_. fails) (clock 0) (clock 1) d; s = worker_rounds fails k (\<lambda>n. clock (n + 2)) (snd r)
      in ((case fst r of Some t \<Rightarrow> [t] | None \<Rightarrow> []) @ fst s, snd s))"

subsection \<open>Ids\<close>

text \<open>Everything the program does to the data base.\<close>

inductive dstep :: "'f db \<Rightarrow> 'f db \<Rightarrow> bool" where
  play: "dstep d (snd (insert_play_history fails now d magnet file_path stream_url progress_sec ad))"
| progress: "dstep d (snd (update_progress fails d stream_url progress_sec))"
| create: "dstep d (snd (create_cloud_export_task fails now d provider resource_id source_type source_locator))"
| status: "dstep d (snd (update_cloud_export_task_status fails now d i status error_message))"
| claim: "dstep d (snd (claim_next_cloud_export_task fails now d))"

inductive dreach :: "'f db \<Rightarrow> bool" where
  fresh: "init_db fails None = Inr d \<Longrightarrow> dreach d"
| step: "dreach d \<Longrightarrow> dstep d d' \<Longrightarrow> dreach d'"

definition ids_ok :: "int list \<Rightarrow> int \<Rightarrow> bool" where
  "ids_ok ids seq \<longleftrightarrow> sorted_wrt (<) ids \<and> (\<forall>i \<in> set ids. 0 < i \<and> i \<le> seq) \<and> 0 \<le> seq"

definition db_inv :: "'f db \<Rightarrow> bool" where
  "db_inv d \<longleftrightarrow> ids_ok (map ph_id (play_history d)) (play_history_seq d) \<and> ids_ok (map ce_id (cloud_export_tasks d)) (cloud_export_seq d)"

lemma ids_ok_snoc: "ids_ok ids seq \<Longrightarrow> ids_ok (ids @ [seq + 1]) (seq + 1)"
  by (fastforce simp: ids_ok_def sorted_wrt_append)

lemma on_task_sel [simp]:
  "play_history (on_task i f d) = play_history d" "play_history_seq (on_task i f d) = play_history_seq d"
  "cloud_export_seq (on_task i f d) = cloud_export_seq d"
  by (simp_all add: on_task_def)

lemma on_task_tasks: "cloud_export_tasks (on_task i f d) = map (\<lambda>t. if ce_id t = i then f t else t) (cloud_export_tasks d)"
  by (simp add: on_task_def)

lemma on_task_ids: "(\<And>t. ce_id (f t) = ce_id t) \<Longrightarrow> map ce_id (cloud_export_tasks (on_task i f d)) = map ce_id (cloud_export_tasks d)"
  by (simp add: on_task_def)

lemma on_task_inv: "db_inv d \<Longrightarrow> (\<And>t. ce_id (f t) = ce_id t) \<Longrightarrow> db_inv (on_task i f d)"
  by (simp add: db_inv_def on_task_ids del: map_map)

lemma claim_cases:
  "snd (claim_next_cloud_export_task fails now d) = d \<or>
   (\<exists>i. snd (claim_next_cloud_export_task fails now d) = on_task i (\<lambda>t. t\<lparr>ce_status := ''exporting'', ce_updated_at := now\<rparr>) d)"
  by (auto simp: claim_next_cloud_export_task_def rbind_def split: sum.split option.split)

lemma dstep_inv: "dstep d d' \<Longrightarrow> db_inv d \<Longrightarrow> db_inv d'"
proof (induction rule: dstep.induct)
  case (play d fails now magnet file_path stream_url progress_sec ad)
  then show ?case
    by (auto simp: insert_play_history_def db_inv_def Let_def ids_ok_snoc split: sum.split)
next
  case (progress d fails stream_url progress_sec)
  then show ?case by (simp add: update_progress_def db_inv_def comp_def if_distrib [where f = ph_id] cong: if_cong split: sum.split)
next
  case (create d fails now provider resource_id source_type source_locator)
  then show ?case by (auto simp: create_cloud_export_task_def db_inv_def Let_def ids_ok_snoc split: sum.split)
next
  case (status d fails now i status error_message)
  then show ?case by (simp add: update_cloud_export_task_status_def on_task_inv split: sum.split)
next
  case (claim d fails now)
  then show ?case using claim_cases [of fails now d] by (auto simp: on_task_inv)
qed

lemma dreach_inv: "dreach d \<Longrightarrow> db_inv d"
  by (induction rule: dreach.induct)
    (auto simp: init_db_def rbind_eq_Inr db_inv_def ids_ok_def dest: dstep_inv)

subsection \<open>The queue\<close>

definition queued :: "'f db \<Rightarrow> cloud_export_task list" where
  "queued d = filter (\<lambda>t. ce_status t = ''queued'') (cloud_export_tasks d)"

lemma sorted_ids: "ids_ok (map f ts) seq \<Longrightarrow> sorted (map f (filter P ts)) \<and> distinct (map f ts)"
  by (auto simp: ids_ok_def strict_sorted_iff sorted_filter)

lemma next_queued_eq: "db_inv d \<Longrightarrow> next_queued d = (case queued d of [] \<Rightarrow> None | t # _ \<Rightarrow> Some t)"
  using sorted_ids [of ce_id "cloud_export_tasks d" "cloud_export_seq d"]
  by (simp add: next_queued_def queued_def db_inv_def sort_key_id_if_sorted)

text \<open>A task as the worker leaves it.\<close>

definition exported :: "string \<Rightarrow> cloud_export_task \<Rightarrow> cloud_export_task" where
  "exported now t = t\<lparr>ce_status := ''done'', ce_error_message := None, ce_updated_at := now\<rparr>"

abbreviation no_faults :: faults where
  "no_faults \<equiv> \<lambda>_. False"

lemma worker_round_eq:
  assumes "db_inv d"
  shows "worker_round (\<lambda>_. no_faults) now later d =
    (case queued d of [] \<Rightarrow> (None, d) | t # _ \<Rightarrow> (Some t, on_task (ce_id t) (exported later) d))"
  by (auto simp: worker_round_def claim_next_cloud_export_task_def sql_def next_queued_eq [OF assms]
      update_cloud_export_task_status_def on_task_def exported_def split: list.split)

lemma queued_exported:
  assumes "db_inv d" "queued d = t # q"
  shows "queued (on_task (ce_id t) (exported later) d) = q"
proof -
  obtain pre post where ts: "cloud_export_tasks d = pre @ t # post" "\<forall>u \<in> set pre. ce_status u \<noteq> ''queued''" "ce_status t = ''queued''"
    "q = filter (\<lambda>t. ce_status t = ''queued'') post"
    using assms(2) unfolding queued_def by (auto simp: filter_eq_Cons_iff)
  have "distinct (map ce_id (pre @ t # post))"
    using assms(1) sorted_ids [of ce_id] unfolding db_inv_def ts(1) by blast
  then have "map (\<lambda>u. if ce_id u = ce_id t then exported later u else u) (pre @ t # post) = pre @ exported later t # post"
    by (auto intro!: map_idI) (metis image_eqI)+
  then show ?thesis using ts by (simp add: queued_def on_task_def exported_def)
qed

definition served :: "cloud_export_task list \<Rightarrow> cloud_export_task \<Rightarrow> cloud_export_task \<Rightarrow> bool" where
  "served q t t' \<longleftrightarrow> (if t \<in> set q then \<exists>now. t' = exported now t else t' = t)"

lemma worker_rounds_serve:
  "db_inv d \<Longrightarrow> worker_rounds no_faults k clock d = (claimed, d') \<Longrightarrow>
   claimed = take k (queued d) \<and> list_all2 (served claimed) (cloud_export_tasks d) (cloud_export_tasks d') \<and> queued d' = drop k (queued d)"
proof (induction k arbitrary: clock d claimed d')
  case 0
  then show ?case by (auto simp: served_def intro: list_all2_refl)
next
  case (Suc k)
  show ?case
  proof (cases "queued d")
    case Nil
    then show ?thesis using Suc.prems Suc.IH [OF Suc.prems(1)] by (auto simp: worker_round_eq Let_def)
  next
    case (Cons t q)
    let ?d = "on_task (ce_id t) (exported (clock 1)) d"
    have inv: "db_inv ?d" using Suc.prems(1) by (rule on_task_inv) (simp add: exported_def)
    obtain rest where rest: "worker_rounds no_faults k (\<lambda>n. clock (n + 2)) ?d = (rest, d')" "claimed = t # rest"
      using Suc.prems by (cases "worker_rounds no_faults k (\<lambda>n. clock (n + 2)) ?d") (auto simp: worker_round_eq Cons Let_def)
    note IH = Suc.IH [OF inv rest(1)]
    have "list_all2 (served claimed) (cloud_export_tasks d) (cloud_export_tasks d')"
    proof (rule list.rel_mono_strong)
      show "list_all2 (\<lambda>u. served rest (if ce_id u = ce_id t then exported (clock 1) u else u)) (cloud_export_tasks d) (cloud_export_tasks d')"
        using IH [THEN conjunct2, THEN conjunct1] by (simp only: on_task_tasks list_all2_map1)
    next
      fix u u'
      assume u: "u \<in> set (cloud_export_tasks d)" "served rest (if ce_id u = ce_id t then exported (clock 1) u else u) u'"
      have "t \<in> set (cloud_export_tasks d)" using Cons by (metis queued_def filter_is_subset list.set_intros(1) subset_iff)
      moreover have "distinct (map ce_id (cloud_export_tasks d))"
        using Suc.prems(1) sorted_ids [of ce_id] unfolding db_inv_def by blast
      ultimately have same: "ce_id u = ce_id t \<longleftrightarrow> u = t" using u(1) by (metis distinct_map inj_on_eq_iff)
      have "set rest \<subseteq> set q" using IH queued_exported [OF Suc.prems(1) Cons] set_take_subset by metis
      then have "exported now v \<notin> set rest" for now v using Cons by (auto simp: queued_def exported_def filter_eq_Cons_iff)
      then show "served claimed u u'" using u(2) same rest(2) by (auto simp: served_def split: if_splits)
    qed
    then show ?thesis using IH queued_exported [OF Suc.prems(1) Cons, of "clock 1"] rest Cons by simp
  qed
qed

text \<open>C32: Whatever was stored before, rounds of the worker without a failure take the waiting export tasks in the order in which
  they were created, each exactly once, and leave every task they took done and every other one as it was; when all are
  taken, further rounds find nothing.\<close>

theorem export_queue_served_in_order:
  assumes "dreach d" "worker_rounds no_faults k clock d = (claimed, d')"
  shows "sorted_wrt (<) (map ce_id (cloud_export_tasks d)) \<and> claimed = take k (queued d) \<and>
    list_all2 (served claimed) (cloud_export_tasks d) (cloud_export_tasks d') \<and> queued d' = drop k (queued d)"
  using worker_rounds_serve [OF dreach_inv [OF assms(1)] assms(2)] dreach_inv [OF assms(1)]
  unfolding db_inv_def ids_ok_def by blast

text \<open>Example: two tasks, of which one is stopped by the user before the worker runs.\<close>

definition ex_db :: "nat db" where
  "ex_db = (let d0 = projr (init_db no_faults None);
                d1 = snd (create_cloud_export_task no_faults ''1'' d0 ''pikpak'' ''a'' ''magnet'' ''m1'');
                d2 = snd (create_cloud_export_task no_faults ''2'' d1 ''pikpak'' ''b'' ''magnet'' ''m2'')
            in snd (update_cloud_export_task_status no_faults ''3'' d2 1 ''stopped'' None))"

lemma ex_db_reach: "dreach ex_db"
  unfolding ex_db_def Let_def
  by (intro dreach.step [OF _ dstep.status] dreach.step [OF _ dstep.create]) (rule dreach.fresh [of no_faults], simp add: init_db_def sql_def)

lemma export_queue_served_in_order_witness:
  "dreach ex_db \<and> map ce_id (fst (worker_rounds no_faults 3 (\<lambda>_. ''9'') ex_db)) = [2] \<and>
   queued (snd (worker_rounds no_faults 3 (\<lambda>_. ''9'') ex_db)) = []"
proof -
  have q: "map ce_id (queued ex_db) = [2]" by code_simp
  then have "length (queued ex_db) = 1" by (metis length_map length_Cons list.size(3) One_nat_def)
  then show ?thesis
    using ex_db_reach q export_queue_served_in_order [OF ex_db_reach surjective_pairing, of 3 "\<lambda>_. ''9''"] by simp
qed

end
