(* ===== verification/Player.thy ===== *)
theory Player
  imports Http_Api Resolver Media_Library
begin

text \<open>
  The application: the engine that adds magnet links to the session and asks the session's HTTP server about torrents, the rule
  that marks advertisements, and the handlers of the application's own API with its token. Requests to the engine's server go
  through its routes; a request may fail, \<open>net n\<close> says that the \<open>n\<close>th of a call does. Sizes in megabytes and log lines are not modelled;
  messages are given in English.

  Source: \<^verbatim>\<open>engine/mod.rs\<close>, \<^verbatim>\<open>ai_strategy.rs\<close>, \<^verbatim>\<open>lib.rs\<close>, \<^verbatim>\<open>main.rs\<close> (\<^verbatim>\<open>src-tauri/src\<close>).
\<close>

subsection \<open>Advertisements\<close>

definition utf8 :: "nat list \<Rightarrow> string" where
  "utf8 bytes = map char_of bytes"

definition AD_KEYWORDS :: "string list" where
  "AD_KEYWORDS =
     [''ad'', ''ads'', ''advertisement'', utf8 [0xE5, 0xB9, 0xBF, 0xE5, 0x91, 0x8A], utf8 [0xE6, 0x8E, 0xA8, 0xE5, 0xB9, 0xBF],
      utf8 [0xE8, 0xB5, 0x8C, 0xE5, 0x8D, 0x9A], utf8 [0xE5, 0x8D, 0x9A, 0xE5, 0xBD, 0xA9], ''casino'', ''bet'',
      utf8 [0xE6, 0x89, 0xAB, 0xE7, 0xA0, 0x81], utf8 [0xE4, 0xBA, 0x8C, 0xE7, 0xBB, 0xB4, 0xE7, 0xA0, 0x81], ''qrcode'', ''wechat'',
      utf8 [0xE9, 0xA2, 0x84, 0xE5, 0x91, 0x8A], ''trailer'', ''promo'', ''sample'']"

definition analyze_file_path :: "string \<Rightarrow> bool \<times> string list" where
  "analyze_file_path path =
     (let lower = to_lowercase path; matched = filter (contains lower) AD_KEYWORDS in (matched \<noteq> [], matched))"

record file_analysis =
  fa_index :: nat
  fa_path :: string
  fa_is_suspected_ad :: bool
  fa_matched_keywords :: "string list"

definition analyze_files :: "string list \<Rightarrow> file_analysis list" where
  "analyze_files paths =
     map (\<lambda>(idx, path). let (ad, kws) = analyze_file_path path
        in \<lparr>fa_index = idx, fa_path = path, fa_is_suspected_ad = ad, fa_matched_keywords = kws\<rparr>) (List.enumerate 0 paths)"

subsection \<open>The engine\<close>

record file_entry =
  fe_index :: nat
  fe_path :: string
  fe_size_bytes :: nat
  fe_stream_url :: string
  fe_is_suspected_ad :: bool

definition extra_trackers :: "string list" where
  "extra_trackers =
     [''udp://tracker.opentrackr.org:1337/announce'', ''udp://opentracker.i2p.rocks:6969/announce'',
      ''http://tracker.openbittorrent.com:80/announce'', ''udp://open.stealth.si:80/announce'', ''udp://tracker.torrent.eu.org:451/announce'',
      ''udp://explodie.org:6969/announce'', ''udp://exodus.desync.com:6969/announce'', ''udp://tracker.tiny-vps.com:6969/announce'']"

definition add_tracker :: "(string \<Rightarrow> string) \<Rightarrow> string \<Rightarrow> string \<Rightarrow> string" where
  "add_tracker urlencode tr magnet_url =
     (if \<not> contains magnet_url (urlencode tr) \<and> \<not> contains magnet_url tr then magnet_url @ ''&tr='' @ urlencode tr else magnet_url)"

definition engine_options :: add_torrent_options where
  "engine_options =
     \<lparr>ao_paused = False, ao_only_files_regex = None, ao_only_files = None, ao_list_only = False, ao_output_folder = None, ao_sub_folder = None,
      ao_initial_peers = None, ao_preferred_id = None, ao_fs_factory = None, ao_trackers = None\<rparr>"

definition stream_url_of :: "nat \<Rightarrow> nat \<Rightarrow> string" where
  "stream_url_of torrent_id idx = ''/stream/torrents/'' @ show_nat torrent_id @ ''/stream/'' @ show_nat idx"

text \<open>What the engine asks of libraries: those of the server, and whether adding a torrent takes longer than its time limit. The engine
  keeps no store, so it waits only while the metadata is resolved, before the session has changed.\<close>

record ('b, 's, 'f) engine_env =
  ee_http :: "('b, 's, 'f) http_env"
  ee_late :: "string \<Rightarrow> bool"
  ee_urlencode :: "string \<Rightarrow> string"

definition parse_magnet ::
  "('b, 's, 'f) engine_env \<Rightarrow> ('b, 's) session \<Rightarrow> string \<Rightarrow> (string \<times> nat) res \<times> ('b, 's) session" where
  "parse_magnet G se magnet =
     (let magnet_url = fold (add_tracker (ee_urlencode G)) extra_trackers magnet
      in if ee_late G magnet_url then (Inl (Bail ''resolving the magnet link timed out (60s)''), se)
         else case session_add_torrent (hx_managed (ee_http G)) (hx_session (ee_http G)) se (Url magnet_url) engine_options of
                (Inl e, se) \<Rightarrow> (Inl e, se)
              | (Inr (Added i), se) \<Rightarrow> (Inr (stream_url_of i 0, i), se)
              | (Inr (AlreadyManaged i), se) \<Rightarrow> (Inr (stream_url_of i 0, i), se)
              | (Inr (ListOnly _), se) \<Rightarrow> (Inl (Bail ''unexpected ListOnly response''), se))"

text \<open>A request to the engine's HTTP server, which has the default options.\<close>

definition get_request :: "string list \<Rightarrow> http_request" where
  "get_request path =
     \<lparr>hr_method = GET, hr_path = path, hr_headers = [], hr_with_stats = False,
      hr_add_params = \<lparr>qp_overwrite = None, qp_output_folder = None, qp_sub_folder = None, qp_only_files_regex = None, qp_only_files = None,
        qp_initial_peers = None, qp_is_url = None, qp_list_only = None\<rparr>,
      hr_body = [], hr_only_files = [], hr_limits = \<lparr>upload_bps = None, download_bps = None\<rparr>\<rparr>"

definition default_options :: http_options where
  "default_options = \<lparr>ho_read_only = False, ho_basic_auth = None\<rparr>"

definition local_get :: "('b, 's, 'f) engine_env \<Rightarrow> bool \<Rightarrow> ('b, 's) session \<Rightarrow> string list \<Rightarrow> reply res" where
  "local_get G fails se path =
     (if fails then Inl (Bail ''request failed'')
      else case fst (serve (ee_http G) default_options \<lparr>hv_session = se, hv_limits = \<lparr>upload_bps = None, download_bps = None\<rparr>\<rparr> (get_request path)) of
             RRefused _ \<Rightarrow> Inl (Bail ''request refused'')
           | RError _ \<Rightarrow> Inl (Bail ''request refused'')
           | r \<Rightarrow> Inr r)"

text \<open>The details of a torrent as the engine reads them from JSON: the name and the length of each file.\<close>

definition reply_files :: "reply \<Rightarrow> (string \<times> nat) list option" where
  "reply_files r = (case r of RDetails d \<Rightarrow> map_option (map (\<lambda>f. (df_name f, df_length f))) (td_files d) | _ \<Rightarrow> None)"

definition reply_torrents :: "reply \<Rightarrow> torrent_details list" where
  "reply_torrents r = (case r of RList ts \<Rightarrow> ts | _ \<Rightarrow> [])"

definition get_file_tree_by_id :: "('b, 's, 'f) engine_env \<Rightarrow> (nat \<Rightarrow> bool) \<Rightarrow> ('b, 's) session \<Rightarrow> nat \<Rightarrow> file_entry list res" where
  "get_file_tree_by_id G net se torrent_id =
     rbind (local_get G (net 0) se [''torrents'', show_nat torrent_id]) (\<lambda>detail.
       let files = (case reply_files detail of Some fs \<Rightarrow> fs | None \<Rightarrow> [])
       in Inr (map (\<lambda>(idx, path, size).
            \<lparr>fe_index = idx, fe_path = path, fe_size_bytes = size, fe_stream_url = stream_url_of torrent_id idx,
             fe_is_suspected_ad = fst (analyze_file_path path)\<rparr>) (List.enumerate 0 files)))"

text \<open>\<^verbatim>\<open>Path::join\<close>: an absolute path replaces the folder.\<close>

definition path_join :: "string \<Rightarrow> string \<Rightarrow> string" where
  "path_join folder name =
     (if starts_with name ''/'' then name else if folder = [] \<or> last folder = CHR ''/'' then folder @ name else folder @ ''/'' @ name)"

definition get_local_file_path_by_id_and_index ::
  "('b, 's, 'f) engine_env \<Rightarrow> (nat \<Rightarrow> bool) \<Rightarrow> ('b, 's) session \<Rightarrow> nat \<Rightarrow> nat \<Rightarrow> string res" where
  "get_local_file_path_by_id_and_index G net se torrent_id file_idx =
     rbind (local_get G (net 0) se [''torrents'']) (\<lambda>torrents.
     rbind (of_option (Bail ''output folder of the torrent not found'')
              (map_option td_output_folder (List.find (\<lambda>t. td_id t = Some torrent_id) (reply_torrents torrents)))) (\<lambda>folder.
     rbind (local_get G (net 1) se [''torrents'', show_nat torrent_id]) (\<lambda>detail.
     rbind (of_option (Bail ''the torrent has no list of files'') (reply_files detail)) (\<lambda>files.
       if file_idx < length files then Inr (path_join folder (fst (files ! file_idx)))
       else Inl (Bail ''no such file index'')))))"

definition get_file_tree :: "('b, 's, 'f) engine_env \<Rightarrow> (nat \<Rightarrow> bool) \<Rightarrow> ('b, 's) session \<Rightarrow> file_entry list res" where
  "get_file_tree G net se =
     rbind (local_get G (net 0) se [''torrents'']) (\<lambda>body.
       let torrents = reply_torrents body
       in if torrents = [] then Inr []
          else get_file_tree_by_id G (\<lambda>n. net (n + 1)) se (fold max (List.map_filter td_id torrents) 0))"

subsection \<open>Requests of the application\<close>

fun find_pair :: "string list \<Rightarrow> nat option" where
  "find_pair (a # b # rest) =
     (if a = ''torrents'' then (case parse_usize b of Some n \<Rightarrow> Some n | None \<Rightarrow> find_pair (b # rest)) else find_pair (b # rest))"
| "find_pair _ = None"

definition torrent_id_from_stream_url :: "string \<Rightarrow> nat option" where
  "torrent_id_from_stream_url stream_url = find_pair (split_on (CHR ''/'') (trim_both (\<lambda>c. c = CHR ''/'') stream_url))"

type_synonym 'a answer = "(nat \<times> string) + 'a"

definition require_api_auth :: "string option \<Rightarrow> headers \<Rightarrow> nat + unit" where
  "require_api_auth api_token hs =
     (case api_token of
        None \<Rightarrow> Inr ()
      | Some expected_token \<Rightarrow>
          let bearer_ok = (Option.bind (header_str hs ''authorization'') (strip_prefix ''Bearer '') = Some expected_token);
              api_key_ok = (header_str hs ''x-api-key'' = Some expected_token)
          in if bearer_ok \<or> api_key_ok then Inr () else Inl 401)"

record resolve_response =
  rr_stream_url :: string
  rr_files :: "file_entry list"
  rr_source_type :: string

definition fail_with :: "nat \<Rightarrow> 'a res \<Rightarrow> 'a answer" where
  "fail_with status r = (case r of Inr x \<Rightarrow> Inr x | Inl (Bail s) \<Rightarrow> Inl (status, s) | Inl _ \<Rightarrow> Inl (500, ''panic''))"

definition default_file_index :: "file_entry list \<Rightarrow> nat" where
  "default_file_index files =
     (case max_by_key fe_size_bytes (filter (\<lambda>f. \<not> fe_is_suspected_ad f) files) of Some f \<Rightarrow> fe_index f | None \<Rightarrow> 0)"

definition play_torrent ::
  "('b, 's, 'f) engine_env \<Rightarrow> (nat \<Rightarrow> bool) \<Rightarrow> ('b, 's) session \<Rightarrow> string \<Rightarrow> resolve_response answer" where
  "play_torrent G net se stream_url =
     (case torrent_id_from_stream_url stream_url of
        None \<Rightarrow> Inl (500, ''no torrent id in the stream url'')
      | Some torrent_id \<Rightarrow>
          ebind (fail_with 500 (get_file_tree_by_id G net se torrent_id)) (\<lambda>files.
            let files = map (\<lambda>f. f\<lparr>fe_stream_url := stream_url_of torrent_id (fe_index f)\<rparr>) files
            in Inr \<lparr>rr_stream_url = stream_url_of torrent_id (default_file_index files), rr_files = files, rr_source_type = ''magnet''\<rparr>))"

definition handle_resolve ::
  "('b, 's, 'f) engine_env \<Rightarrow> (string \<Rightarrow> (nat \<times> page res) res) \<Rightarrow> (nat \<Rightarrow> bool) \<Rightarrow> ('b, 's) session \<Rightarrow> string
   \<Rightarrow> resolve_response answer \<times> ('b, 's) session" where
  "handle_resolve G fetch net se req_url =
     (let url = trim req_url
      in if url = [] then (Inl (400, ''the url must not be empty''), se)
         else case chain_resolve (app_chain (parse_magnet G) fetch) se url of
                (Inl e, se) \<Rightarrow> (fail_with 400 (Inl e), se)
              | (Inr (tier, _), se) \<Rightarrow>
                  (case tier of
                     ReadyToPlay stream_url _ \<Rightarrow>
                       if starts_with stream_url ''/stream/torrents/'' then play_torrent G net se stream_url
                       else Inr \<lparr>rr_stream_url = stream_url,
                                 rr_files = [\<lparr>fe_index = 0, fe_path = ''HLS '' @ utf8 [0xE6, 0xB5, 0x81], fe_size_bytes = 0,
                                   fe_stream_url = stream_url, fe_is_suspected_ad = False\<rparr>],
                                 rr_source_type = ''hls''\<rparr>
                   | NeedsCache _ _ \<Rightarrow> Inl (400, ''needs to be cached, not supported'')
                   | DownloadOnly _ \<Rightarrow> Inl (400, ''download only, not supported'')
                   | NotFound reason \<Rightarrow> Inl (404, reason), se))"

subsection \<open>Files from the disk\<close>

definition extension_of :: "string \<Rightarrow> string option" where
  "extension_of path =
     (case file_name (split_on (CHR ''/'') path) of
        None \<Rightarrow> None
      | Some name \<Rightarrow>
          let r = dropWhile (\<lambda>c. c \<noteq> CHR ''.'') (rev name)
          in if r = [] \<or> tl r = [] then None else Some (rev (takeWhile (\<lambda>c. c \<noteq> CHR ''.'') (rev name))))"

definition content_type_of :: "string \<Rightarrow> string" where
  "content_type_of path =
     (let ext = to_lowercase (case extension_of path of Some e \<Rightarrow> e | None \<Rightarrow> [])
      in if ext = ''mp4'' then ''video/mp4''
         else if ext = ''mkv'' then ''video/x-matroska''
         else if ext = ''webm'' then ''video/webm''
         else if ext = ''avi'' then ''video/x-msvideo''
         else if ext = ''mov'' then ''video/quicktime''
         else ''application/octet-stream'')"

text \<open>The next part of the range, if it is there and a number.\<close>

fun next_number :: "string list \<Rightarrow> nat option \<times> string list" where
  "next_number [] = (None, [])"
| "next_number (s # parts) = (if s = [] then None else parse_usize s, parts)"

definition byte_range :: "string \<Rightarrow> nat \<Rightarrow> (nat \<times> nat) option" where
  "byte_range spec total_len =
     (let (start_opt, parts) = next_number (split_on (CHR ''-'') spec);
          (end_opt, _) = next_number parts
      in case (start_opt, end_opt) of
           (Some start, Some end) \<Rightarrow> if start \<le> end \<and> end < total_len then Some (start, end) else None
         | (Some start, None) \<Rightarrow> if start < total_len then Some (start, total_len - 1) else None
         | (None, Some suffix_len) \<Rightarrow>
             if suffix_len > 0 then let len = min suffix_len total_len in Some (total_len - len, total_len - 1) else None
         | (None, None) \<Rightarrow> None)"

record file_response =
  fr_status :: nat
  fr_headers :: headers
  fr_body :: "nat list"

definition file_headers :: "string \<Rightarrow> nat \<Rightarrow> headers" where
  "file_headers path len =
     [(''accept-ranges'', ''bytes''), (''content-type'', content_type_of path), (''content-length'', show_nat len)]"

definition file_answer :: "string \<Rightarrow> nat list \<Rightarrow> headers \<Rightarrow> file_response answer" where
  "file_answer path data hs =
     (let total_len = length data
      in if total_len = 0 then Inl (500, ''the file is empty'')
         else
           let whole = Inr \<lparr>fr_status = 200, fr_headers = file_headers path total_len, fr_body = data\<rparr>
           in case header_str hs ''range'' of
                None \<Rightarrow> whole
              | Some hdr \<Rightarrow>
                  (case strip_prefix ''bytes='' hdr of
                     None \<Rightarrow> whole
                   | Some spec \<Rightarrow>
                       (case byte_range spec total_len of
                          None \<Rightarrow> Inl (416, ''invalid range'')
                        | Some (start, end) \<Rightarrow>
                            let slice = take (end + 1 - start) (drop start data)
                            in Inr \<lparr>fr_status = 206,
                                    fr_headers = file_headers path (length slice)
                                      @ [(''content-range'', ''bytes '' @ show_nat start @ ''-'' @ show_nat end @ ''/'' @ show_nat total_len)],
                                    fr_body = slice\<rparr>)))"

definition handle_local_stream ::
  "('b, 's, 'f) engine_env \<Rightarrow> (nat \<Rightarrow> bool) \<Rightarrow> (string \<Rightarrow> nat list option) \<Rightarrow> ('b, 's) session \<Rightarrow> nat \<Rightarrow> nat \<Rightarrow> headers \<Rightarrow> file_response answer" where
  "handle_local_stream G net read se torrent_id file_idx hs =
     ebind (fail_with 404 (get_local_file_path_by_id_and_index G net se torrent_id file_idx)) (\<lambda>path.
     ebind (fail_with 500 (of_option (Bail ''reading the file failed'') (read path))) (\<lambda>data.
       file_answer path data hs))"

subsection \<open>History and exports\<close>

definition handle_save_record ::
  "faults \<Rightarrow> string \<Rightarrow> 'p \<Rightarrow> 'p db \<Rightarrow> string \<Rightarrow> string \<Rightarrow> string \<Rightarrow> bool \<Rightarrow> unit answer \<times> 'p db" where
  "handle_save_record fails now zero d magnet file_path stream_url is_suspected_ad =
     (let r = insert_play_history fails now d magnet file_path stream_url zero is_suspected_ad
      in (fail_with 500 (rbind (fst r) (\<lambda>_. Inr ())), snd r))"

definition handle_get_history ::
  "faults \<Rightarrow> ('p play_history_entry list \<Rightarrow> 'p play_history_entry list) \<Rightarrow> 'p db \<Rightarrow> 'p play_history_entry list answer" where
  "handle_get_history fails order d = fail_with 500 (get_play_history fails order d 50)"

definition handle_create_cloud_export ::
  "faults \<Rightarrow> string \<Rightarrow> 'p db \<Rightarrow> string option \<Rightarrow> string \<Rightarrow> string \<Rightarrow> string \<Rightarrow> (int \<times> string) answer \<times> 'p db" where
  "handle_create_cloud_export fails now d provider resource_id source_type source_locator =
     (if trim resource_id = [] \<or> trim source_locator = [] \<or> trim source_type = [] then
        (Inl (400, ''resource_id/source_type/source_locator must not be empty''), d)
      else
        let provider = (case provider of Some p \<Rightarrow> p | None \<Rightarrow> ''pikpak'');
            r = create_cloud_export_task fails now d provider (trim resource_id) (trim source_type) (trim source_locator)
        in (fail_with 500 (rbind (fst r) (\<lambda>i. Inr (i, ''queued''))), snd r))"

definition handle_list_cloud_exports :: "faults \<Rightarrow> 'p db \<Rightarrow> cloud_export_task list answer" where
  "handle_list_cloud_exports fails d = fail_with 500 (list_cloud_export_tasks fails d 100)"

definition handle_update_cloud_export_status ::
  "faults \<Rightarrow> string \<Rightarrow> 'p db \<Rightarrow> int \<Rightarrow> string \<Rightarrow> string option \<Rightarrow> unit answer \<times> 'p db" where
  "handle_update_cloud_export_status fails now d i status error_message =
     (let status = trim status
      in if i \<le> 0 \<or> status = [] then (Inl (400, ''id/status invalid''), d)
         else let r = update_cloud_export_task_status fails now d i status error_message in (fail_with 500 (fst r), snd r))"

subsection \<open>The application as a whole\<close>

record ('b, 's, 'p) app_state =
  as_session :: "('b, 's) session"
  as_db :: "'p db"
  as_api_token :: "string option"

datatype app_request =
    Health
  | Resolve string
  | FileTree
  | LocalStream nat nat
  | GetHistory
  | SaveRecord string string string bool
  | ListCloudExports
  | CreateCloudExport "string option" string string string
  | UpdateCloudExportStatus int string "string option"

datatype 'p app_reply =
    AOk
  | ADenied nat
  | AFail "nat \<times> string"
  | AResolved resolve_response
  | AFiles "file_entry list"
  | AFile file_response
  | AHistory "'p play_history_entry list"
  | ATasks "cloud_export_task list"
  | ACreated "int \<times> string"

definition app_reply_of :: "('a \<Rightarrow> 'p app_reply) \<Rightarrow> 'a answer \<Rightarrow> 'p app_reply" where
  "app_reply_of f r = (case r of Inl e \<Rightarrow> AFail e | Inr x \<Rightarrow> f x)"

record ('b, 's, 'f, 'p) app_env =
  ap_engine :: "('b, 's, 'f) engine_env"
  ap_fetch :: "string \<Rightarrow> (nat \<times> page res) res"
  ap_net :: "nat \<Rightarrow> bool"
  ap_read :: "string \<Rightarrow> nat list option"
  ap_faults :: faults
  ap_now :: string
  ap_zero :: 'p
  ap_order :: "'p play_history_entry list \<Rightarrow> 'p play_history_entry list"

definition handle_api :: "('b, 's, 'f, 'p) app_env \<Rightarrow> ('b, 's, 'p) app_state \<Rightarrow> headers \<Rightarrow> app_request \<Rightarrow> 'p app_reply \<times> ('b, 's, 'p) app_state" where
  "handle_api A st hs rq =
     (let G = ap_engine A; se = as_session st; d = as_db st
      in case rq of
           Health \<Rightarrow> (AOk, st)
         | Resolve url \<Rightarrow>
             let r = handle_resolve G (ap_fetch A) (ap_net A) se url in (app_reply_of AResolved (fst r), st\<lparr>as_session := snd r\<rparr>)
         | FileTree \<Rightarrow> (app_reply_of AFiles (fail_with 500 (get_file_tree G (ap_net A) se)), st)
         | LocalStream i k \<Rightarrow> (app_reply_of AFile (handle_local_stream G (ap_net A) (ap_read A) se i k hs), st)
         | GetHistory \<Rightarrow> (app_reply_of AHistory (handle_get_history (ap_faults A) (ap_order A) d), st)
         | SaveRecord magnet file_path stream_url ad \<Rightarrow>
             let r = handle_save_record (ap_faults A) (ap_now A) (ap_zero A) d magnet file_path stream_url ad
             in (app_reply_of (\<lambda>_. AOk) (fst r), st\<lparr>as_db := snd r\<rparr>)
         | ListCloudExports \<Rightarrow> (app_reply_of ATasks (handle_list_cloud_exports (ap_faults A) d), st)
         | CreateCloudExport provider resource_id source_type source_locator \<Rightarrow>
             let r = handle_create_cloud_export (ap_faults A) (ap_now A) d provider resource_id source_type source_locator
             in (app_reply_of ACreated (fst r), st\<lparr>as_db := snd r\<rparr>)
         | UpdateCloudExportStatus i status msg \<Rightarrow>
             let r = handle_update_cloud_export_status (ap_faults A) (ap_now A) d i status msg
             in (app_reply_of (\<lambda>_. AOk) (fst r), st\<lparr>as_db := snd r\<rparr>))"

text \<open>Everything but the health check is behind the token.\<close>

definition handle_request ::
  "('b, 's, 'f, 'p) app_env \<Rightarrow> ('b, 's, 'p) app_state \<Rightarrow> headers \<Rightarrow> app_request \<Rightarrow> 'p app_reply \<times> ('b, 's, 'p) app_state" where
  "handle_request A st hs rq =
     (if rq = Health then handle_api A st hs rq
      else case require_api_auth (as_api_token st) hs of
             Inl status \<Rightarrow> (ADenied status, st)
           | Inr _ \<Rightarrow> handle_api A st hs rq)"

text \<open>The settings of \<^verbatim>\<open>main\<close> from the environment.\<close>

definition env_u16 :: "string option \<Rightarrow> nat \<Rightarrow> nat" where
  "env_u16 v dflt = (case Option.bind v parse_usize of Some n \<Rightarrow> if n < 2 ^ 16 then n else dflt | None \<Rightarrow> dflt)"

definition env_bool :: "string option \<Rightarrow> bool \<Rightarrow> bool" where
  "env_bool v dflt =
     (case v of Some s \<Rightarrow> to_lowercase (trim s) \<in> {''1'', ''true'', ''yes'', ''on''} | None \<Rightarrow> dflt)"

definition api_token_of :: "string option \<Rightarrow> string option" where
  "api_token_of v = Option.bind v (\<lambda>s. if trim s \<noteq> [] then Some (trim s) else None)"

subsection \<open>The routes of the engine's server\<close>

lemma show_nat_neq: "c \<in> set s \<Longrightarrow> of_char c < (48 :: nat) \<or> 57 < (of_char c :: nat) \<Longrightarrow> show_nat n \<noteq> s"
  using show_nat_chars [of c n] of_char_digit by fastforce

lemma show_nat_words [simp]:
  "show_nat n \<noteq> ''playlist''" "show_nat n \<noteq> ''resolve_magnet''" "show_nat n \<noteq> ''limits''"
  "''playlist'' \<noteq> show_nat n" "''resolve_magnet'' \<noteq> show_nat n" "''limits'' \<noteq> show_nat n"
  using show_nat_neq [of "CHR ''l''" "''playlist''" n] show_nat_neq [of "CHR ''m''" "''resolve_magnet''" n] show_nat_neq [of "CHR ''m''" "''limits''" n]
  by simp_all

lemma route_list: "find_route (make_api_router ro) GET [''torrents''] = Inr (TorrentsList, [])"
  by (simp add: find_route_def best_pattern_def make_api_router_def)

lemma route_details: "find_route (make_api_router ro) GET [''torrents'', show_nat i] = Inr (TorrentDetails, [show_nat i])"
  by (simp add: find_route_def best_pattern_def make_api_router_def)

lemma route_stream:
  "find_route (make_api_router ro) GET [''torrents'', show_nat i, ''stream'', show_nat k] = Inr (StreamFile, [show_nat i, show_nat k])"
  by (simp add: find_route_def best_pattern_def make_api_router_def)

lemma length_show_nat: "n < 10 ^ Suc k \<Longrightarrow> length (show_nat n) \<le> Suc k"
proof (induction k arbitrary: n)
  case (Suc k)
  have "n div 10 < 10 ^ Suc k" using Suc.prems by (simp add: less_mult_imp_div_less)
  from Suc.IH [OF this] show ?case by (subst show_nat.simps) simp
qed (subst show_nat.simps, simp)

lemma parse_shown_id: "i < 2 ^ 64 \<Longrightarrow> parse_id_or_hash (show_nat i) = Inr (Id i)"
proof -
  assume i: "i < 2 ^ 64"
  then have "length (show_nat i) \<le> Suc 19" by (intro length_show_nat) simp
  then show ?thesis using parse_usize_show [OF i] by (simp add: parse_id_or_hash_def)
qed

lemma serve_routed:
  "find_route (make_api_router False) GET path = Inr (ep, params) \<Longrightarrow>
   serve X default_options sv (get_request path) = serve_endpoint X sv (get_request path) ep params"
  by (auto simp: serve_def default_options_def get_request_def simple_basic_auth_def find_route_def split: option.splits)

lemma get_request_sel [simp]: "hr_with_stats (get_request path) = False" "hr_headers (get_request path) = []"
  by (simp_all add: get_request_def)

lemma local_get_list: "local_get G False se [''torrents''] = Inr (RList (api_torrent_list_ext se False))"
  by (simp add: local_get_def serve_routed [OF route_list] serve_endpoint_def)

lemma local_get_details:
  "i < 2 ^ 64 \<Longrightarrow> local_get G False se [''torrents'', show_nat i] =
     (case api_torrent_details (sv_lossy (hx_session (ee_http G))) se (Id i) of Inr d \<Rightarrow> Inr (RDetails d) | Inl _ \<Rightarrow> Inl (Bail ''request refused''))"
  by (simp add: local_get_def serve_routed [OF route_details] serve_endpoint_def parse_shown_id torrent_endpoint_def reply_of_def split: sum.split)

subsection \<open>What is offered for a torrent\<close>

definition shown_name :: "file_details \<Rightarrow> string" where
  "shown_name d = (case name_to_string (fd_filename d) of Inr s \<Rightarrow> s | Inl _ \<Rightarrow> ''<INVALID NAME>'')"

definition entry_of :: "nat \<Rightarrow> nat \<Rightarrow> file_details \<Rightarrow> file_entry" where
  "entry_of i k d =
     \<lparr>fe_index = k, fe_path = shown_name d, fe_size_bytes = fd_len d, fe_stream_url = stream_url_of i k,
      fe_is_suspected_ad = fst (analyze_file_path (shown_name d))\<rparr>"

lemma enumerate_map_enumerate: "List.enumerate n (map f (List.enumerate n ds)) = map (\<lambda>x. (fst x, f x)) (List.enumerate n ds)"
  by (induction ds arbitrary: n) auto

lemma file_tree_entries:
  assumes "session_get se (Id i) = Some mt" "mt_metadata mt = Some m" "iter_file_details (tm_info m) = Inr ds" "i < 2 ^ 64" "\<not> net 0"
  shows "get_file_tree_by_id G net se i = Inr (map (\<lambda>(k, d). entry_of i k d) (List.enumerate 0 ds))"
  using assms
  by (simp add: get_file_tree_by_id_def local_get_details api_torrent_details_def mgr_handle_def details_of_def make_torrent_details_def
      reply_files_def details_file_def Let_def comp_def case_prod_unfold enumerate_map_enumerate entry_of_def shown_name_def)

lemma stream_url_id: "i < 2 ^ 64 \<Longrightarrow> torrent_id_from_stream_url (stream_url_of i k) = Some i"
proof -
  assume i: "i < 2 ^ 64"
  have d: "CHR ''/'' \<notin> set (show_nat n)" for n by (rule not_digit) simp
  have l: "last (show_nat k) \<noteq> CHR ''/''" using d [of k] last_in_set [OF show_nat_nonempty, of k] by metis
  let ?u = "''stream/torrents/'' @ show_nat i @ ''/stream/'' @ show_nat k"
  have "dropWhile (\<lambda>c. c = CHR ''/'') (rev ?u) = rev ?u"
    using l by (cases "rev (show_nat k)") (auto simp: last_conv_nth rev_nth hd_rev [symmetric])
  then have t: "trim_both (\<lambda>c. c = CHR ''/'') (stream_url_of i k) = ?u" by (simp add: trim_both_def stream_url_of_def)
  have "split_on (CHR ''/'') ?u = [''stream'', ''torrents'', show_nat i, ''stream'', show_nat k]"
    using split_on_append [OF d [of i], of "''stream/'' @ show_nat k"] split_on_none [OF d [of k]] by simp
  then show ?thesis using parse_usize_show [OF i] by (simp add: torrent_id_from_stream_url_def t)
qed

lemma play_torrent_ok:
  assumes "session_get se (Id i) = Some mt" "mt_metadata mt = Some m" "iter_file_details (tm_info m) = Inr ds" "i < 2 ^ 64" "\<not> net 0"
  defines "files \<equiv> map (\<lambda>(k, d). entry_of i k d) (List.enumerate 0 ds)"
  shows "play_torrent G net se (stream_url_of i k) =
    Inr \<lparr>rr_stream_url = stream_url_of i (default_file_index files), rr_files = files, rr_source_type = ''magnet''\<rparr>"
proof -
  have "map (\<lambda>f. f\<lparr>fe_stream_url := stream_url_of i (fe_index f)\<rparr>) files = files" by (auto simp: files_def entry_of_def)
  then show ?thesis
    using file_tree_entries [OF assms(1-4), of net G] assms(5) stream_url_id [OF assms(4)]
    by (simp add: play_torrent_def fail_with_def files_def [symmetric] Let_def)
qed

lemma entries_nth:
  "k < length ds \<Longrightarrow> map (\<lambda>(k, d). entry_of i k d) (List.enumerate 0 ds) ! k = entry_of i k (ds ! k)"
  by (simp add: nth_enumerate_eq)

text \<open>The file a player should start with: the largest one that is no advertisement, or the first.\<close>

definition good_default :: "file_entry list \<Rightarrow> nat \<Rightarrow> bool" where
  "good_default files d \<longleftrightarrow>
     (if \<exists>f \<in> set files. \<not> fe_is_suspected_ad f
      then d < length files \<and> \<not> fe_is_suspected_ad (files ! d) \<and>
        (\<forall>f \<in> set files. \<not> fe_is_suspected_ad f \<longrightarrow> fe_size_bytes f \<le> fe_size_bytes (files ! d))
      else d = 0)"

lemma max_by_key_None: "max_by_key f xs = None \<Longrightarrow> xs = []"
  by (cases xs) (auto split: option.splits if_splits)

lemma strip_prefix_iff: "strip_prefix p s = Some t \<longleftrightarrow> s = p @ t"
  by (auto simp: strip_prefix_def starts_with_def) (metis append_take_drop_id)

lemma default_file_index_good:
  assumes "files = map (\<lambda>(k, d). entry_of i k d) (List.enumerate 0 ds)"
  shows "good_default files (default_file_index files)"
proof (cases "max_by_key fe_size_bytes (filter (\<lambda>f. \<not> fe_is_suspected_ad f) files)")
  case None
  then have "filter (\<lambda>f. \<not> fe_is_suspected_ad f) files = []" by (rule max_by_key_None)
  then show ?thesis using None by (auto simp: good_default_def default_file_index_def filter_empty_conv)
next
  case (Some f)
  then have f: "f \<in> set files" "\<not> fe_is_suspected_ad f" using max_by_key_in by fastforce+
  then obtain k where k: "k < length files" "files ! k = f" by (auto simp: in_set_conv_nth)
  then have "fe_index f = k" using assms entries_nth [of k ds i] by (simp add: entry_of_def)
  then show ?thesis using Some f k max_by_key_ge [OF Some] by (auto simp: good_default_def default_file_index_def)
qed


lemma add_tracker_extends: "\<exists>s. fold (add_tracker enc) trs url = url @ s"
proof (induction trs arbitrary: url)
  case (Cons tr trs)
  have "\<exists>a. add_tracker enc tr url = url @ a" by (simp add: add_tracker_def)
  then obtain a where a: "add_tracker enc tr url = url @ a" ..
  then show ?case using Cons.IH [of "url @ a"] by auto
qed simp

lemma add_tracker_keeps_start: "starts_with url p \<Longrightarrow> starts_with (fold (add_tracker enc) trs url) p"
  using add_tracker_extends [of enc trs url] by (auto simp: starts_with_def min_def split: if_splits) (metis length_take nat_le_linear take_all_iff)

definition ex_senv_magnet :: session_env where
  "ex_senv_magnet = ex_senv\<lparr>
     sv_parse_magnet := (\<lambda>_. Inr \<lparr>mg_id20 = Some (replicate 20 7), mg_trackers = [], mg_name = None, mg_select_only = None\<rparr>),
     sv_read_metainfo := (\<lambda>_. Some (ex_info, [], []))\<rparr>"

definition ex_engine :: "(nat, filesystem_storage, unit) engine_env" where
  "ex_engine = \<lparr>ee_http = ex_http_env\<lparr>hx_session := ex_senv_magnet\<rparr>, ee_late = (\<lambda>_. False), ee_urlencode = (\<lambda>s. s)\<rparr>"

lemma ex_senv_magnet_sel [simp]:
  "sv_parse_magnet ex_senv_magnet url = Inr \<lparr>mg_id20 = Some (replicate 20 7), mg_trackers = [], mg_name = None, mg_select_only = None\<rparr>"
  "sv_read_metainfo ex_senv_magnet h = Some (ex_info, [], [])" "sv_torrent_file ex_senv_magnet = (\<lambda>bs _. Inr bs)"
  "sv_lossy ex_senv_magnet = (\<lambda>s. s)" "sv_tracker_starts ex_senv_magnet = (\<lambda>ts. ts \<noteq> [])"
  by (simp_all add: ex_senv_magnet_def ex_senv_def)

lemma ex_resolve: "resolve_metadata ex_senv_magnet ex_api_session
    \<lparr>ia_info_hash = replicate 20 7, ia_metadata = None, ia_trackers = [], ia_name = None\<rparr> engine_options = Inr (ex_metadata, [])"
  by (simp add: resolve_metadata_def make_peer_rx_def engine_options_def ex_api_session_def ex_session_def resolve_magnet_def ex_metadata_new)

lemma ex_folder: "choose_output_folder ex_senv_magnet ex_api_session ex_info None engine_options = Inr [''dl'', ''t'']"
  by (simp add: choose_output_folder_def engine_options_def get_default_subfolder_for_torrent_def ex_info_def iter_file_details_def
      to_pathbuf_def check_component_def in_byte_range_def check_valid_def components_def component_of_def ex_session_def ex_api_session_def)

lemma ex_add: "session_add_torrent ex_menv ex_senv_magnet ex_api_session (Url url) engine_options =
    (if starts_with url ''magnet:'' then (Inr (AlreadyManaged 1), ex_api_session)
     else session_add_torrent ex_menv ex_senv_magnet ex_api_session (Url url) engine_options)"
proof (cases "starts_with url ''magnet:''")
  case True
  have "choose_id ex_api_session engine_options = (json_next_id ex_store, ex_api_session)"
    by (simp add: choose_id_def engine_options_def ex_api_session_def ex_session_def)
  moreover have "insert_torrent ex_menv ex_api_session (json_next_id ex_store)
      \<lparr>ia_info_hash = replicate 20 7, ia_metadata = None, ia_trackers = [], ia_name = None\<rparr> m fs dir b c = (Inr (Some 1), ex_api_session)" for m fs dir b c
    by (simp add: insert_torrent_def ex_api_session_def ex_mt_def)
  moreover have "read_add_torrent ex_senv_magnet (Url url) engine_options =
      Inr (\<lparr>ia_info_hash = replicate 20 7, ia_metadata = None, ia_trackers = [], ia_name = None\<rparr>, engine_options)"
    using True by (simp add: read_add_torrent_def of_option_def List.map_filter_def)
  ultimately show ?thesis
    using ex_resolve ex_folder True
    by (simp add: session_add_torrent_def add_torrent_internal_def ex_api_sel ex_metadata_def compute_only_files_def engine_options_def abind_def)
qed simp


text \<open>C27: With a token set, every request but the health check is answered only if it carries the token, as a bearer token or as an
  API key; any other is denied and changes nothing. The token itself never changes.\<close>

theorem requests_need_token:
  assumes "as_api_token st = Some t" "rq \<noteq> Health"
  shows "handle_request A st hs rq =
      (if header_str hs ''authorization'' = Some (''Bearer '' @ t) \<or> header_str hs ''x-api-key'' = Some t then handle_api A st hs rq
       else (ADenied 401, st)) \<and>
    as_api_token (snd (handle_request A st hs rq)) = Some t"
proof -
  have "Option.bind (header_str hs ''authorization'') (strip_prefix ''Bearer '') = Some t \<longleftrightarrow>
      header_str hs ''authorization'' = Some (''Bearer '' @ t)"
    by (simp only: bind_eq_Some_conv strip_prefix_iff) blast
  moreover have "as_api_token (snd (handle_api A st hs rq)) = Some t"
    using assms(1) by (cases rq) (simp_all add: handle_api_def Let_def)
  ultimately show ?thesis using assms by (simp add: handle_request_def require_api_auth_def Let_def del: append.simps)
qed

definition ex_app :: "(nat, filesystem_storage, unit, nat) app_env" where
  "ex_app = \<lparr>ap_engine = ex_engine, ap_fetch = (\<lambda>_. Inl (Bail ''no network'')), ap_net = (\<lambda>_. False), ap_read = (\<lambda>_. None),
     ap_faults = (\<lambda>_. False), ap_now = ''now'', ap_zero = 0, ap_order = (\<lambda>es. es)\<rparr>"

definition ex_app_state :: "(nat, filesystem_storage, nat) app_state" where
  "ex_app_state = \<lparr>as_session = ex_api_session, as_db = ex_db, as_api_token = Some ''secret''\<rparr>"

theorem requests_need_token_witness:
  "handle_request ex_app ex_app_state [(''x-api-key'', ''guess'')] ListCloudExports = (ADenied 401, ex_app_state) \<and>
   handle_request ex_app ex_app_state [(''x-api-key'', ''secret'')] ListCloudExports =
     handle_api ex_app ex_app_state [(''x-api-key'', ''secret'')] ListCloudExports"
proof -
  have t: "as_api_token ex_app_state = Some ''secret''" by (simp add: ex_app_state_def)
  show ?thesis
    using requests_need_token [OF t, of ListCloudExports ex_app "[(''x-api-key'', ''guess'')]"]
      requests_need_token [OF t, of ListCloudExports ex_app "[(''x-api-key'', ''secret'')]"]
    by (simp add: header_str_def in_byte_range_def)
qed

subsection \<open>Ranges of a file\<close>

definition partial_content :: "string \<Rightarrow> nat list \<Rightarrow> nat \<Rightarrow> nat \<Rightarrow> file_response" where
  "partial_content path data start end =
     \<lparr>fr_status = 206,
      fr_headers = file_headers path (end + 1 - start)
        @ [(''content-range'', ''bytes '' @ show_nat start @ ''-'' @ show_nat end @ ''/'' @ show_nat (length data))],
      fr_body = map (\<lambda>k. data ! (start + k)) [0..<end + 1 - start]\<rparr>"

lemma byte_range_inside: "byte_range spec n = Some (a, b) \<Longrightarrow> 0 < n \<Longrightarrow> a \<le> b \<and> b < n"
  by (auto simp: byte_range_def Let_def split: prod.splits option.splits if_splits)

lemma file_answer_spec:
  assumes "data \<noteq> []" "header_str hs ''range'' = Some (''bytes='' @ spec)"
  shows "file_answer path data hs =
    (case byte_range spec (length data) of None \<Rightarrow> Inl (416, ''invalid range'') | Some (a, b) \<Rightarrow> Inr (partial_content path data a b))"
proof (cases "byte_range spec (length data)")
  case (Some r)
  obtain a b where r: "r = (a, b)" by (cases r)
  have "a \<le> b \<and> b < length data"
    using Some assms(1) r byte_range_inside by simp
  then have "length (take (b + 1 - a) (drop a data)) = b + 1 - a" "take (b + 1 - a) (drop a data) = map (\<lambda>k. data ! (a + k)) [0..<b + 1 - a]"
    by (auto intro!: nth_equalityI)
  then show ?thesis
    using assms Some r strip_prefix_iff [of "''bytes=''" "''bytes='' @ spec" spec] by (simp add: file_answer_def partial_content_def Let_def del: append.simps)
qed (use assms strip_prefix_iff [of "''bytes=''" "''bytes='' @ spec" spec] in \<open>simp add: file_answer_def Let_def del: append.simps\<close>)

lemma range_parts:
  "split_on (CHR ''-'') (show_nat a @ ''-'' @ show_nat b) = [show_nat a, show_nat b]"
  "split_on (CHR ''-'') (show_nat a @ ''-'') = [show_nat a, []]" "split_on (CHR ''-'') (''-'' @ show_nat b) = [[], show_nat b]"
  by (simp_all add: split_on_append split_on_none not_digit)

lemma byte_range_forms:
  assumes "a < 2 ^ 64" "b < 2 ^ 64"
  shows "byte_range (show_nat a @ ''-'' @ show_nat b) n = (if a \<le> b \<and> b < n then Some (a, b) else None)"
    and "byte_range (show_nat a @ ''-'') n = (if a < n then Some (a, n - 1) else None)"
    and "byte_range (''-'' @ show_nat b) n = (if b = 0 then None else Some (n - min b n, n - 1))"
  using parse_usize_show [OF assms(1)] parse_usize_show [OF assms(2)]
  by (simp_all add: byte_range_def range_parts Let_def del: append.simps)

text \<open>C24: A file that is not empty is served by byte range: \<^verbatim>\<open>bytes=a-b\<close> gives the bytes \<open>a\<close> to \<open>b\<close>, \<^verbatim>\<open>bytes=a-\<close> those from \<open>a\<close> on and
  \<^verbatim>\<open>bytes=-b\<close> the last \<open>b\<close>, each with the length and the range of what is sent, and 416 where the range reaches past the end or is
  empty; without a range the whole file is sent. Whatever the header, what is sent lies inside the file.\<close>

theorem local_stream_ranges:
  assumes "data \<noteq> []" "a < 2 ^ 64" "b < 2 ^ 64"
  defines "n \<equiv> length data" and "refused \<equiv> Inl (416, ''invalid range'')"
  shows "(header_str hs ''range'' = Some (''bytes='' @ show_nat a @ ''-'' @ show_nat b) \<longrightarrow>
      file_answer path data hs = (if a \<le> b \<and> b < n then Inr (partial_content path data a b) else refused)) \<and>
    (header_str hs ''range'' = Some (''bytes='' @ show_nat a @ ''-'') \<longrightarrow>
      file_answer path data hs = (if a < n then Inr (partial_content path data a (n - 1)) else refused)) \<and>
    (header_str hs ''range'' = Some (''bytes='' @ ''-'' @ show_nat b) \<longrightarrow>
      file_answer path data hs = (if b = 0 then refused else Inr (partial_content path data (n - min b n) (n - 1)))) \<and>
    (header_str hs ''range'' = None \<longrightarrow>
      file_answer path data hs = Inr \<lparr>fr_status = 200, fr_headers = file_headers path n, fr_body = data\<rparr>) \<and>
    (\<forall>resp. file_answer path data hs = Inr resp \<longrightarrow>
      fr_status resp = 200 \<and> fr_body resp = data \<or> (\<exists>x y. x \<le> y \<and> y < n \<and> resp = partial_content path data x y))"
proof (intro conjI impI allI)
  fix resp assume r: "file_answer path data hs = Inr resp"
  show "fr_status resp = 200 \<and> fr_body resp = data \<or> (\<exists>x y. x \<le> y \<and> y < n \<and> resp = partial_content path data x y)"
  proof (cases "\<exists>spec. header_str hs ''range'' = Some (''bytes='' @ spec)")
    case True
    then obtain spec where s: "header_str hs ''range'' = Some (''bytes='' @ spec)" ..
    then obtain x y where "byte_range spec n = Some (x, y)" "resp = partial_content path data x y"
      using file_answer_spec [OF assms(1) s, of path] r by (auto simp: n_def split: option.splits)
    moreover from this(1) have "x \<le> y \<and> y < n"
      using assms(1) byte_range_inside by (simp add: n_def)
    ultimately show ?thesis by blast
  next
    case False
    then have "strip_prefix ''bytes='' hdr = None" if "header_str hs ''range'' = Some hdr" for hdr
      using that strip_prefix_iff [of "''bytes=''" hdr] by (cases "strip_prefix ''bytes='' hdr") (auto simp del: append.simps)
    then show ?thesis using r assms(1) by (auto simp: file_answer_def Let_def split: option.splits)
  qed
qed (use assms(1) byte_range_forms [OF assms(2,3), of n] in
    \<open>simp_all add: file_answer_spec n_def refused_def del: append.simps, simp add: file_answer_def Let_def\<close>)

theorem local_stream_ranges_witness:
  "file_answer ''a.mp4'' [5, 6, 7, 8] [(''range'', ''bytes=-2'')] = Inr (partial_content ''a.mp4'' [5, 6, 7, 8] 2 3) \<and>
   fr_body (partial_content ''a.mp4'' [5, 6, 7, 8] 2 3) = [7, 8]"
proof -
  have l: "length [5, 6, 7, 8 :: nat] = 4" by simp
  have "show_nat 2 = ''2''" by (simp add: show_nat.simps digit_def) code_simp
  then have "header_str [(''range'', ''bytes=-2'')] ''range'' = Some (''bytes='' @ ''-'' @ show_nat 2)"
    by (simp add: header_str_def in_byte_range_def)
  then have "file_answer ''a.mp4'' [5, 6, 7, 8] [(''range'', ''bytes=-2'')] = Inr (partial_content ''a.mp4'' [5, 6, 7, 8] 2 3)"
    using local_stream_ranges [of "[5, 6, 7, 8]" 0 2 "[(''range'', ''bytes=-2'')]" "''a.mp4''"] unfolding l by (simp del: append.simps)
  then show ?thesis by (simp add: partial_content_def upt_rec)
qed

text \<open>A name whose first component is empty is printed as an absolute path, which replaces the folder of the torrent. The storage of the
  torrent itself is safe from this, as it joins the components one by one.\<close>

lemma empty_component_leaves_folder:
  "name_to_string (Tree [[], ''etc'', ''passwd'']) = Inr ''/etc/passwd'' \<and> path_join folder ''/etc/passwd'' = ''/etc/passwd''"
  by (simp add: name_to_string_def name_to_vec_def check_component_def in_byte_range_def path_join_def starts_with_def)

end
