(* ===== verification/Blocklist.thy ===== *)
theory Blocklist
  imports Text Protocol
begin

text \<open>
  The list of blocked addresses: how it is read and what it blocks. The interval tree, the decompressor, HTTP, and
  the parsing of URLs and addresses are parameters.

  Source: \<^verbatim>\<open>blocklist.rs\<close>.
\<close>

subsection \<open>Lines\<close>

definition saturating_succ :: "nat \<Rightarrow> nat \<Rightarrow> nat" where
  "saturating_succ w n = (if n + 1 < 2 ^ w then n + 1 else 2 ^ w - 1)"

fun increment_ip :: "ip_addr \<Rightarrow> ip_addr" where
  "increment_ip (V4 n) = V4 (saturating_succ 32 n)"
| "increment_ip (V6 n) = V6 (saturating_succ 128 n)"

definition parse_range :: "(string \<Rightarrow> ip_addr option) \<Rightarrow> string \<Rightarrow> (ip_addr \<times> ip_addr) option" where
  "parse_range from_str ip_range =
     (case split_once (CHR ''-'') ip_range of
        None \<Rightarrow> None
      | Some (start, end) \<Rightarrow>
          Option.bind (from_str (trim start)) (\<lambda>start_ip.
          Option.bind (from_str (trim end)) (\<lambda>end_ip. Some (start_ip, end_ip))))"

text \<open>A line without a colon is split after its first byte, which panics when that is inside a character.\<close>

definition split_point :: "string \<Rightarrow> nat" where
  "split_point line =
     (let is_ipv4 = length (filter (\<lambda>c. c = CHR ''.'') line) \<ge> 6
      in case if is_ipv4 then rfind_char (CHR '':'') line else find_char (CHR '':'') line of Some i \<Rightarrow> i | None \<Rightarrow> 0)"

definition parse_ip_range :: "(string \<Rightarrow> ip_addr option) \<Rightarrow> string \<Rightarrow> (ip_addr \<times> ip_addr) option res" where
  "parse_ip_range from_str line =
     (let line = trim line
      in if starts_with line ''#'' \<or> line = [] then Inr None
         else rbind (split_at (split_point line + 1) line) (\<lambda>(rule_name, ip_range). Inr (parse_range from_str ip_range)))"

text \<open>\<^verbatim>\<open>read_line\<close> returns a line with its end; the last one may have none.\<close>

fun read_lines :: "string \<Rightarrow> string list" where
  "read_lines [] = []"
| "read_lines (c # cs) =
     (if c = char_of (10 :: nat) then [c] # read_lines cs
      else case read_lines cs of [] \<Rightarrow> [[c]] | l # ls \<Rightarrow> (c # l) # ls)"

subsection \<open>The list\<close>

type_synonym ip_range = "ip_addr \<times> ip_addr"

text \<open>The interval tree of the library: how it is built and what is found at a point.\<close>

record 't interval_tree =
  from_iter :: "ip_range list \<Rightarrow> 't"
  query_point :: "'t \<Rightarrow> ip_addr \<Rightarrow> ip_range list"

record 't blocklist =
  blocked_ranges :: 't

definition blocklist_new :: "'t interval_tree \<Rightarrow> ip_range list \<Rightarrow> 't blocklist" where
  "blocklist_new T ip_ranges = \<lparr>blocked_ranges = from_iter T ip_ranges\<rparr>"

definition blocklist_empty :: "'t interval_tree \<Rightarrow> 't blocklist" where
  "blocklist_empty T = blocklist_new T []"

definition is_blocked :: "'t interval_tree \<Rightarrow> 't blocklist \<Rightarrow> ip_addr \<Rightarrow> bool" where
  "is_blocked T bl ip \<longleftrightarrow> query_point T (blocked_ranges bl) ip \<noteq> []"

fun collect_ranges :: "(string \<Rightarrow> ip_addr option) \<Rightarrow> string list \<Rightarrow> ip_range list res" where
  "collect_ranges from_str [] = Inr []"
| "collect_ranges from_str (line # lines) =
     (if \<not> utf8_ok line then Inl (Bail ''stream did not contain valid UTF-8'')
      else rbind (parse_ip_range from_str line) (\<lambda>r.
           rbind (collect_ranges from_str lines) (\<lambda>rs.
             Inr (case r of Some (start_ip, end_ip) \<Rightarrow> (start_ip, increment_ip end_ip) # rs | None \<Rightarrow> rs))))"

definition plain_text :: "(string \<Rightarrow> string res) \<Rightarrow> string \<Rightarrow> string \<Rightarrow> string res" where
  "plain_text gunzip peek_bytes content =
     (if peek_bytes = [char_of (0x1F :: nat), char_of (0x8B :: nat)] then gunzip content else Inr content)"

text \<open>The stream is given by its bytes and the number of bytes its first read returns.\<close>

definition create_from_stream ::
  "'t interval_tree \<Rightarrow> (string \<Rightarrow> ip_addr option) \<Rightarrow> (string \<Rightarrow> string res) \<Rightarrow> nat \<Rightarrow> string \<Rightarrow> 't blocklist res" where
  "create_from_stream T from_str gunzip first_read content =
     (let buffer = take first_read content
      in if length buffer < 2 then Inl (Bail ''Content too short: not enough data to determine compression'')
         else
           rbind (plain_text gunzip (take 2 buffer) content) (\<lambda>txt.
           rbind (collect_ranges from_str (read_lines txt)) (\<lambda>ip_ranges.
             Inr (blocklist_new T ip_ranges))))"

definition load_from_file ::
  "'t interval_tree \<Rightarrow> (string \<Rightarrow> ip_addr option) \<Rightarrow> (string \<Rightarrow> string res) \<Rightarrow> nat \<Rightarrow> (string \<Rightarrow> string option) \<Rightarrow> string \<Rightarrow>
   't blocklist res" where
  "load_from_file T from_str gunzip first_read fs path =
     rbind (of_option (Bail ''open'') (fs path)) (create_from_stream T from_str gunzip first_read)"

text \<open>What the libraries say of a URL: its scheme, the path of a file URL and the answer to a request.\<close>

record url_info =
  url_scheme :: string
  url_path :: "string option"
  url_get :: "(nat \<times> string) option"

definition load_from_url ::
  "'t interval_tree \<Rightarrow> (string \<Rightarrow> ip_addr option) \<Rightarrow> (string \<Rightarrow> string res) \<Rightarrow> nat \<Rightarrow> (string \<Rightarrow> string option) \<Rightarrow>
   (string \<Rightarrow> url_info option) \<Rightarrow> string \<Rightarrow> 't blocklist res" where
  "load_from_url T from_str gunzip first_read fs parse_url url =
     rbind (of_option (Bail ''Failed to parse URL'') (parse_url url)) (\<lambda>u.
       if url_scheme u = ''file'' then
         rbind (of_option (Bail ''failed to convert file URL to path'') (url_path u)) (load_from_file T from_str gunzip first_read fs)
       else
         rbind (of_option (Bail ''Failed to send request for blocklist'') (url_get u)) (\<lambda>(status, body).
           if \<not> (200 \<le> status \<and> status < 300) then Inl (Bail ''Failed to fetch blocklist'')
           else create_from_stream T from_str gunzip first_read body))"

subsection \<open>What is blocked\<close>

text \<open>What the documentation of the interval tree says: a query at a point finds the ranges that contain it.\<close>

definition interval_tree_ok :: "'t interval_tree \<Rightarrow> bool" where
  "interval_tree_ok T \<longleftrightarrow> (\<forall>rs ip. set (query_point T (from_iter T rs) ip) = {r \<in> set rs. fst r \<le> ip \<and> ip < snd r})"

fun ip_ok :: "ip_addr \<Rightarrow> bool" where
  "ip_ok (V4 n) \<longleftrightarrow> n < 2 ^ 32"
| "ip_ok (V6 n) \<longleftrightarrow> n < 2 ^ 128"

definition highest :: "ip_addr \<Rightarrow> bool" where
  "highest ip \<longleftrightarrow> ip = V4 (2 ^ 32 - 1) \<or> ip = V6 (2 ^ 128 - 1)"

text \<open>The rule a line holds, if it holds one.\<close>

definition rule_of :: "(string \<Rightarrow> ip_addr option) \<Rightarrow> string \<Rightarrow> ip_range option" where
  "rule_of from_str line = (case parse_ip_range from_str line of Inr r \<Rightarrow> r | Inl _ \<Rightarrow> None)"

lemma less_increment_iff: "ip_ok e \<Longrightarrow> \<not> highest e \<Longrightarrow> ip < increment_ip e \<longleftrightarrow> ip \<le> e"
  by (cases e; cases ip) (auto simp: saturating_succ_def highest_def less_le_not_le)

lemma increment_highest: "highest e \<Longrightarrow> increment_ip e = e"
  by (auto simp: saturating_succ_def highest_def)

lemma parse_ip_range_parsed:
  "parse_ip_range from_str line = Inr (Some (s, e)) \<Longrightarrow> \<exists>t. from_str t = Some e"
  by (auto simp: parse_ip_range_def parse_range_def Let_def rbind_eq_Inr bind_eq_Some_conv split: if_splits option.splits)

lemma split_point_less: "line \<noteq> [] \<Longrightarrow> split_point line < length line"
  by (auto simp: split_point_def dest: find_char_less rfind_char_less split: option.split)

lemma parse_ip_range_ascii: "\<forall>c \<in> set line. \<not> is_cont c \<Longrightarrow> is_ok (parse_ip_range from_str line)"
proof -
  assume *: "\<forall>c \<in> set line. \<not> is_cont c"
  have "is_char_boundary (Suc (split_point (trim line))) (trim line)" if ne: "trim line \<noteq> []"
  proof (cases "Suc (split_point (trim line)) = length (trim line)")
    case False
    then have "Suc (split_point (trim line)) < length (trim line)" using split_point_less [OF ne] by simp
    moreover from nth_mem [OF this] have "\<not> is_cont (trim line ! Suc (split_point (trim line)))"
      using * by (meson in_set_trim)
    ultimately show ?thesis by (simp add: is_char_boundary_def)
  qed (simp add: is_char_boundary_def)
  then show ?thesis by (auto simp: parse_ip_range_def Let_def split_at_def)
qed

lemma collect_ranges_ok:
  "is_ok (collect_ranges from_str lines) \<longleftrightarrow> (\<forall>line \<in> set lines. utf8_ok line \<and> is_ok (parse_ip_range from_str line))"
proof (induction lines)
  case (Cons line lines)
  then show ?case by (cases "parse_ip_range from_str line"; cases "collect_ranges from_str lines") auto
qed simp

lemma collect_ranges_set:
  "collect_ranges from_str lines = Inr rs \<Longrightarrow>
   set rs = {(s, increment_ip e) | s e. \<exists>line \<in> set lines. rule_of from_str line = Some (s, e)}"
proof (induction lines arbitrary: rs)
  case (Cons line lines)
  then obtain r rs' where r: "parse_ip_range from_str line = Inr r" "collect_ranges from_str lines = Inr rs'"
    "rs = (case r of Some (s, e) \<Rightarrow> (s, increment_ip e) # rs' | None \<Rightarrow> rs')"
    by (auto simp: rbind_eq_Inr split: if_splits)
  then show ?case using Cons.IH [OF r(2)] by (cases r) (auto simp: rule_of_def)
qed simp

lemma is_blocked_ranges:
  "interval_tree_ok T \<Longrightarrow> collect_ranges from_str lines = Inr rs \<Longrightarrow>
   is_blocked T (blocklist_new T rs) ip \<longleftrightarrow>
   (\<exists>line \<in> set lines. \<exists>s e. rule_of from_str line = Some (s, e) \<and> s \<le> ip \<and> ip < increment_ip e)"
proof -
  assume *: "interval_tree_ok T" "collect_ranges from_str lines = Inr rs"
  have "is_blocked T (blocklist_new T rs) ip \<longleftrightarrow> set (query_point T (from_iter T rs) ip) \<noteq> {}"
    by (simp add: is_blocked_def blocklist_new_def)
  also have "\<dots> \<longleftrightarrow> (\<exists>r \<in> set rs. fst r \<le> ip \<and> ip < snd r)"
    unfolding *(1) [unfolded interval_tree_ok_def, rule_format, of rs ip] by blast
  finally show ?thesis unfolding collect_ranges_set [OF *(2)] by auto
qed


text \<open>Example: one rule and a comment, with addresses given by name.\<close>

definition list_tree :: "ip_range list interval_tree" where
  "list_tree = \<lparr>from_iter = (\<lambda>rs. rs), query_point = (\<lambda>rs ip. filter (\<lambda>r. fst r \<le> ip \<and> ip < snd r) rs)\<rparr>"

definition ex_from_str :: "string \<Rightarrow> ip_addr option" where
  "ex_from_str = map_of [(''1.0.0.1'', V4 16777217), (''1.0.0.9'', V4 16777225)]"

definition ex_content :: string where
  "ex_content = ''# test'' @ [char_of (10 :: nat)] @ ''bad:1.0.0.1-1.0.0.9''"

lemma ex_lines: "read_lines ex_content = [''# test'' @ [char_of (10 :: nat)], ''bad:1.0.0.1-1.0.0.9'']"
  by code_simp

lemma ex_rules:
  "rule_of ex_from_str (''# test'' @ [char_of (10 :: nat)]) = None"
  "rule_of ex_from_str ''bad:1.0.0.1-1.0.0.9'' = Some (V4 16777217, V4 16777225)"
  by (simp_all add: rule_of_def parse_ip_range_def parse_range_def split_point_def split_at_def is_char_boundary_def
      find_char_def rfind_char_def split_once_def trim_both_def is_whitespace_def starts_with_def in_byte_range_def ex_from_str_def)


end
