(* ===== verification/Wire.thy ===== *)
theory Wire
  imports Protocol
begin

text \<open>
  The wire format of the peer protocol: a message is four bytes of length, one byte that says what it is and its payload; a
  connection starts with a handshake of its own format. The payload of extension messages is bencode, whose encoder and decoder
  are parameters. Bytes are numbers below 256. Shown are the round trip of every message and that what is decoded fits the widths
  of its fields, and the law of framing that lets a stream be read piecemeal.

  Source: \<^verbatim>\<open>lib.rs\<close> and \<^verbatim>\<open>extended/mod.rs\<close> of \<^verbatim>\<open>librqbit-peer-protocol\<close>.
\<close>

subsection \<open>Numbers\<close>

definition be32 :: "nat \<Rightarrow> nat list" where
  "be32 n = [n div 2 ^ 24 mod 256, n div 2 ^ 16 mod 256, n div 2 ^ 8 mod 256, n mod 256]"

definition read_be32 :: "nat list \<Rightarrow> nat" where
  "read_be32 bs = foldl (\<lambda>acc b. 256 * acc + b) 0 bs"

definition PREAMBLE_LEN :: nat where
  "PREAMBLE_LEN = 5"

definition PIECE_MESSAGE_PREAMBLE_LEN :: nat where
  "PIECE_MESSAGE_PREAMBLE_LEN = PREAMBLE_LEN + 4 * 2"

definition PIECE_MESSAGE_DEFAULT_LEN :: nat where
  "PIECE_MESSAGE_DEFAULT_LEN = PIECE_MESSAGE_PREAMBLE_LEN + CHUNK_SIZE"

subsection \<open>Writing messages\<close>

text \<open>Bencode: the extension handshake, the header of a metadata message (type, piece and size), peer exchange and unknown values.\<close>

record bencode_env =
  be_ser_handshake :: "extended_handshake \<Rightarrow> nat list"
  be_de_handshake :: "nat list \<Rightarrow> extended_handshake res"
  be_ser_metadata :: "nat \<times> nat \<times> nat option \<Rightarrow> nat list"
  be_de_metadata :: "nat list \<Rightarrow> ((nat \<times> nat \<times> nat option) \<times> nat list) res"
  be_ser_pex :: "ut_pex \<Rightarrow> nat list"
  be_de_pex :: "nat list \<Rightarrow> ut_pex res"
  be_de_dyn :: "nat list \<Rightarrow> nat list res"

record peer_extended_message_ids =
  pe_ut_metadata :: "nat option"
  pe_ut_pex :: "nat option"

definition peer_extended_messages :: "extended_handshake \<Rightarrow> peer_extended_message_ids" where
  "peer_extended_messages h = \<lparr>pe_ut_metadata = eh_ut_metadata h, pe_ut_pex = eh_ut_pex h\<rparr>"

definition no_extended_messages :: peer_extended_message_ids where
  "no_extended_messages = \<lparr>pe_ut_metadata = None, pe_ut_pex = None\<rparr>"

fun ut_metadata_serialize :: "bencode_env \<Rightarrow> ut_metadata \<Rightarrow> nat list" where
  "ut_metadata_serialize W (UtRequest piece) = be_ser_metadata W (0, piece, None)"
| "ut_metadata_serialize W (UtData piece total_size data) = be_ser_metadata W (1, piece, Some total_size) @ data"
| "ut_metadata_serialize W (UtReject piece) = be_ser_metadata W (2, piece, None)"

fun extended_serialize :: "bencode_env \<Rightarrow> peer_extended_message_ids \<Rightarrow> nat list \<Rightarrow> extended_message \<Rightarrow> nat list res" where
  "extended_serialize W ids out (Dyn msg_id v) = Inr (out @ [msg_id] @ v)"
| "extended_serialize W ids out (ExtHandshake h) = Inr (out @ [0] @ be_ser_handshake W h)"
| "extended_serialize W ids out (UtMetadata u) =
     rbind (of_option (Bail ''need peer's handshake to serialize ut_metadata'') (pe_ut_metadata ids)) (\<lambda>i.
       Inr (out @ [i] @ ut_metadata_serialize W u))"
| "extended_serialize W ids out (UtPex m) =
     rbind (of_option (Bail ''need peer's handshake to serialize ut_pex, or peer doesn't support ut_pex'') (pe_ut_pex ids)) (\<lambda>i.
       Inr (out @ [i] @ be_ser_pex W m))"

fun len_prefix_and_msg_id :: "message \<Rightarrow> nat \<times> nat" where
  "len_prefix_and_msg_id (MRequest _) = (13, 6)"
| "len_prefix_and_msg_id (MCancel _) = (13, 8)"
| "len_prefix_and_msg_id (MBitfield b) = (add32 1 (as_u32 (length b)), 5)"
| "len_prefix_and_msg_id MChoke = (1, 0)"
| "len_prefix_and_msg_id MUnchoke = (1, 1)"
| "len_prefix_and_msg_id MInterested = (1, 2)"
| "len_prefix_and_msg_id MNotInterested = (1, 3)"
| "len_prefix_and_msg_id (MPiece p) = (add32 9 (as_u32 (length (pm_block p))), 7)"
| "len_prefix_and_msg_id MKeepAlive = (0, 0)"
| "len_prefix_and_msg_id (MHave _) = (5, 4)"
| "len_prefix_and_msg_id (MExtended _) = (0, 20)"

definition request_bytes :: "request \<Rightarrow> nat list" where
  "request_bytes r = be32 (rq_index r) @ be32 (rq_begin r) @ be32 (rq_length r)"

definition piece_bytes :: "piece_msg \<Rightarrow> nat list" where
  "piece_bytes p = be32 (pm_index p) @ be32 (pm_begin p) @ pm_block p"

text \<open>The number of bytes of the message and the buffer, which may hold more.\<close>

definition serialize :: "bencode_env \<Rightarrow> peer_extended_message_ids \<Rightarrow> message \<Rightarrow> (nat \<times> nat list) res" where
  "serialize W ids m =
     (let (lp, msg_id) = len_prefix_and_msg_id m;
          out = be32 lp @ [msg_id]
      in case m of
           MRequest r \<Rightarrow> Inr (PREAMBLE_LEN + 12, out @ request_bytes r)
         | MCancel r \<Rightarrow> Inr (PREAMBLE_LEN + 12, out @ request_bytes r)
         | MBitfield b \<Rightarrow> Inr (PREAMBLE_LEN + length b, out @ b)
         | MPiece p \<Rightarrow> Inr (PREAMBLE_LEN + (8 + length (pm_block p)), out @ piece_bytes p)
         | MKeepAlive \<Rightarrow> Inr (4, out)
         | MHave v \<Rightarrow> Inr (PREAMBLE_LEN + 4, out @ be32 v)
         | MExtended e \<Rightarrow>
             rbind (extended_serialize W ids out e) (\<lambda>out.
               Inr (length out, be32 (as_u32 (length out - PREAMBLE_LEN + 1)) @ drop 4 out))
         | _ \<Rightarrow> Inr (PREAMBLE_LEN, out))"

text \<open>The message that carries a chunk, without its data.\<close>

definition serialize_piece_preamble :: "chunk_info \<Rightarrow> nat list" where
  "serialize_piece_preamble c = be32 (add32 9 (ci_size c)) @ [7] @ be32 (ci_piece_index c) @ be32 (ci_offset c)"

subsection \<open>Reading messages\<close>

datatype deserialize_error =
    NotEnoughData nat
  | UnsupportedMessageId nat
  | IncorrectLenPrefix nat nat nat \<comment> \<open>received, expected, id\<close>
  | OtherDe err

definition of_res :: "'a res \<Rightarrow> deserialize_error + 'a" where
  "of_res r = (case r of Inl e \<Rightarrow> Inl (OtherDe e) | Inr x \<Rightarrow> Inr x)"

definition ut_metadata_deserialize :: "bencode_env \<Rightarrow> nat list \<Rightarrow> ut_metadata res" where
  "ut_metadata_deserialize W buf =
     rbind (be_de_metadata W buf) (\<lambda>((msg_type, piece, total_size), remaining).
       if msg_type = 0 then
         if remaining \<noteq> [] then Inl (Bail ''trailing bytes when decoding UtMetadata'') else Inr (UtRequest piece)
       else if msg_type = 1 then
         rbind (of_option (Bail ''expected key total_size to be present in UtMetadata \"data\" message'') total_size) (\<lambda>n.
           Inr (UtData piece n remaining))
       else if msg_type = 2 then
         if remaining \<noteq> [] then Inl (Bail ''trailing bytes when decoding UtMetadata'') else Inr (UtReject piece)
       else Inl (Bail ''unrecognized ut_metadata message type''))"

definition extended_deserialize :: "bencode_env \<Rightarrow> nat list \<Rightarrow> extended_message res" where
  "extended_deserialize W buf =
     (case buf of
        [] \<Rightarrow> Inl (Bail ''cannot deserialize extended message: can't read first byte'')
      | emsg_id # buf \<Rightarrow>
          if emsg_id = 0 then rbind (be_de_handshake W buf) (\<lambda>h. Inr (ExtHandshake h))
          else if emsg_id = MY_EXTENDED_UT_METADATA then rbind (ut_metadata_deserialize W buf) (\<lambda>u. Inr (UtMetadata u))
          else if emsg_id = MY_EXTENDED_UT_PEX then rbind (be_de_pex W buf) (\<lambda>m. Inr (UtPex m))
          else rbind (be_de_dyn W buf) (\<lambda>v. Inr (Dyn emsg_id v)))"

definition piece_deserialize :: "nat list \<Rightarrow> piece_msg" where
  "piece_deserialize b = \<lparr>pm_index = read_be32 (take 4 b), pm_begin = read_be32 (take 4 (drop 4 b)), pm_block = drop 8 b\<rparr>"

definition request_deserialize :: "nat list \<Rightarrow> request" where
  "request_deserialize b =
     \<lparr>rq_index = read_be32 (take 4 b), rq_begin = read_be32 (take 4 (drop 4 b)), rq_length = read_be32 (take 4 (drop 8 b))\<rparr>"

text \<open>A payload of a known length, once it is all there.\<close>

definition payload :: "nat list \<Rightarrow> nat \<Rightarrow> (nat list \<Rightarrow> deserialize_error + message) \<Rightarrow> deserialize_error + message \<times> nat" where
  "payload rest expected_len f =
     (if expected_len \<le> length rest then
        (case f (take expected_len rest) of Inl e \<Rightarrow> Inl e | Inr m \<Rightarrow> Inr (m, PREAMBLE_LEN + expected_len))
      else Inl (NotEnoughData (expected_len - length rest)))"

definition no_payload :: "nat \<Rightarrow> nat \<Rightarrow> message \<Rightarrow> deserialize_error + message \<times> nat" where
  "no_payload len_prefix msg_id m =
     (if len_prefix \<noteq> 1 then Inl (IncorrectLenPrefix len_prefix 1 msg_id) else Inr (m, PREAMBLE_LEN))"

definition deserialize_payload :: "bencode_env \<Rightarrow> nat \<Rightarrow> nat \<Rightarrow> nat list \<Rightarrow> deserialize_error + message \<times> nat" where
  "deserialize_payload W len_prefix msg_id rest =
     (if msg_id = 0 then no_payload len_prefix msg_id MChoke
      else if msg_id = 1 then no_payload len_prefix msg_id MUnchoke
      else if msg_id = 2 then no_payload len_prefix msg_id MInterested
      else if msg_id = 3 then no_payload len_prefix msg_id MNotInterested
      else if msg_id = 4 then payload rest 4 (\<lambda>b. Inr (MHave (read_be32 b)))
      else if msg_id = 5 then
        if len_prefix \<le> 1 then Inl (IncorrectLenPrefix len_prefix 2 msg_id)
        else payload rest (len_prefix - 1) (\<lambda>b. Inr (MBitfield b))
      else if msg_id = 6 then payload rest 12 (\<lambda>b. Inr (MRequest (request_deserialize b)))
      else if msg_id = 8 then payload rest 12 (\<lambda>b. Inr (MCancel (request_deserialize b)))
      else if msg_id = 7 then
        if len_prefix \<le> 9 then Inl (IncorrectLenPrefix len_prefix 10 msg_id)
        else payload rest (len_prefix - 9 + 8) (\<lambda>b. Inr (MPiece (piece_deserialize b)))
      else if msg_id = 20 then
        if len_prefix \<le> 6 then Inl (IncorrectLenPrefix len_prefix 6 msg_id)
        else payload rest (len_prefix - 1) (\<lambda>b. of_res (rbind (extended_deserialize W b) (\<lambda>e. Inr (MExtended e))))
      else Inl (UnsupportedMessageId msg_id))"

definition deserialize :: "bencode_env \<Rightarrow> nat list \<Rightarrow> deserialize_error + message \<times> nat" where
  "deserialize W buf =
     (if length buf < 4 then Inl (NotEnoughData 4)
      else
        let len_prefix = read_be32 (take 4 buf)
        in if len_prefix = 0 then Inr (MKeepAlive, 4)
           else if length buf < 5 then Inl (NotEnoughData 1)
           else deserialize_payload W len_prefix (buf ! 4) (drop 5 buf))"

subsection \<open>The handshake\<close>

record handshake =
  hs_pstr :: "nat list"
  hs_reserved :: "nat list"
  hs_info_hash :: id20
  hs_peer_id :: id20

definition PSTR_BT1 :: "nat list" where
  "PSTR_BT1 = map of_char ''BitTorrent protocol''"

definition handshake_new :: "id20 \<Rightarrow> id20 \<Rightarrow> handshake" where
  "handshake_new info_hash peer_id =
     \<lparr>hs_pstr = PSTR_BT1, hs_reserved = [0, 0, 0, 0, 0, 0x10, 0, 0], hs_info_hash = info_hash, hs_peer_id = peer_id\<rparr>"

definition supports_extended :: "handshake \<Rightarrow> bool" where
  "supports_extended h \<longleftrightarrow> hs_reserved h ! 5 div 0x10 mod 2 > 0"

definition handshake_serialize :: "handshake \<Rightarrow> nat list" where
  "handshake_serialize h = length (hs_pstr h) # hs_pstr h @ hs_reserved h @ hs_info_hash h @ hs_peer_id h"

definition handshake_deserialize :: "nat list \<Rightarrow> deserialize_error + handshake \<times> nat" where
  "handshake_deserialize b =
     (case b of
        [] \<Rightarrow> Inl (NotEnoughData 1)
      | pstr_len # _ \<Rightarrow>
          if pstr_len \<noteq> length PSTR_BT1 then Inl (OtherDe (Bail ''pstr should be 19 bytes long''))
          else
            let expected_len = 1 + pstr_len + 48
            in if length b < expected_len then Inl (NotEnoughData expected_len)
               else
                 let h = \<lparr>hs_pstr = take pstr_len (drop 1 b), hs_reserved = take 8 (drop 20 b),
                          hs_info_hash = take 20 (drop 28 b), hs_peer_id = take 20 (drop 48 b)\<rparr>
                 in if hs_pstr h \<noteq> PSTR_BT1 then Inl (OtherDe (Bail ''pstr doesn't match bittorrent V1''))
                    else Inr (h, expected_len))"

subsection \<open>Framing\<close>

text \<open>What a reader needs of a decoder: a decoded message depends on its own bytes only, a message that is not complete yet asks for
  something, and an error does not go away with more data.\<close>

locale framing =
  fixes de :: "nat list \<Rightarrow> deserialize_error + 'm \<times> nat"
  assumes de_ok: "de bs = Inr (m, n) \<Longrightarrow> 0 < n \<and> n \<le> length bs \<and> de (take n bs @ x) = Inr (m, n)"
    and de_more: "de bs = Inl (NotEnoughData d) \<Longrightarrow> 0 < d"
    and de_error: "de bs = Inl e \<Longrightarrow> \<forall>d. e \<noteq> NotEnoughData d \<Longrightarrow> de (bs @ x) = Inl e"
begin

lemma de_append: "de bs = Inr (m, n) \<Longrightarrow> de (bs @ x) = Inr (m, n)"
  using de_ok [of bs m n "drop n bs @ x"] by (simp add: append_assoc [symmetric])

end

definition framed :: "(nat list \<Rightarrow> deserialize_error + 'm \<times> nat) \<Rightarrow> bool" where
  "framed g \<longleftrightarrow>
     (\<forall>rest m n x. g rest = Inr (m, n) \<longrightarrow> 5 \<le> n \<and> n - 5 \<le> length rest \<and> g (take (n - 5) rest @ x) = Inr (m, n)) \<and>
     (\<forall>rest d. g rest = Inl (NotEnoughData d) \<longrightarrow> 0 < d) \<and>
     (\<forall>rest e x. g rest = Inl e \<longrightarrow> (\<forall>d. e \<noteq> NotEnoughData d) \<longrightarrow> g (rest @ x) = Inl e)"

lemma framed_if: "framed f \<Longrightarrow> framed g \<Longrightarrow> framed (\<lambda>rest. if c then f rest else g rest)"
  by (cases c) simp_all

lemma framed_error: "\<forall>d. e \<noteq> NotEnoughData d \<Longrightarrow> framed (\<lambda>rest. Inl e)"
  by (auto simp: framed_def)

lemma framed_no_payload: "framed (\<lambda>rest. no_payload lp i m)"
  by (auto simp: framed_def no_payload_def PREAMBLE_LEN_def)

lemma framed_payload: "\<forall>b d. f b \<noteq> Inl (NotEnoughData d) \<Longrightarrow> framed (\<lambda>rest. payload rest k f)"
  by (auto simp: framed_def payload_def PREAMBLE_LEN_def split: if_splits sum.splits)

lemma of_res_more [simp]: "of_res r \<noteq> Inl (NotEnoughData d)"
  by (simp add: of_res_def split: sum.split)

lemma framed_deserialize_payload: "framed (deserialize_payload W lp i)"
  unfolding deserialize_payload_def by (intro framed_if framed_no_payload framed_payload framed_error) simp_all

lemma deserialize_payload_ok:
  "deserialize_payload W lp i rest = Inr (m, n) \<Longrightarrow>
   5 \<le> n \<and> n - 5 \<le> length rest \<and> deserialize_payload W lp i (take (n - 5) rest @ x) = Inr (m, n)"
  using framed_deserialize_payload [of W lp i] unfolding framed_def by blast

lemma deserialize_payload_more: "deserialize_payload W lp i rest = Inl (NotEnoughData d) \<Longrightarrow> 0 < d"
  using framed_deserialize_payload [of W lp i] unfolding framed_def by blast

lemma deserialize_payload_error:
  "deserialize_payload W lp i rest = Inl e \<Longrightarrow> \<forall>d. e \<noteq> NotEnoughData d \<Longrightarrow> deserialize_payload W lp i (rest @ x) = Inl e"
  using framed_deserialize_payload [of W lp i] unfolding framed_def by blast

interpretation wire: framing "deserialize W"
proof
  fix bs x m n d e
  show "0 < n \<and> n \<le> length bs \<and> deserialize W (take n bs @ x) = Inr (m, n)" if "deserialize W bs = Inr (m, n)"
  proof (cases "read_be32 (take 4 bs) = 0")
    case True
    then show ?thesis using that by (auto simp: deserialize_def Let_def split: if_splits)
  next
    case False
    then have l: "5 \<le> length bs" and p: "deserialize_payload W (read_be32 (take 4 bs)) (bs ! 4) (drop 5 bs) = Inr (m, n)"
      using that by (auto simp: deserialize_def Let_def split: if_splits)
    note q = deserialize_payload_ok [OF p, of x]
    then have "take 4 (take n bs @ x) = take 4 bs" "(take n bs @ x) ! 4 = bs ! 4" "drop 5 (take n bs @ x) = take (n - 5) (drop 5 bs) @ x"
      using l by (auto simp: nth_append drop_take)
    then show ?thesis using q l False by (auto simp: deserialize_def Let_def)
  qed
  show "0 < d" if "deserialize W bs = Inl (NotEnoughData d)"
    using that by (auto simp: deserialize_def Let_def dest: deserialize_payload_more split: if_splits)
  show "deserialize W (bs @ x) = Inl e" if "deserialize W bs = Inl e" "\<forall>d. e \<noteq> NotEnoughData d"
    using that by (auto simp: deserialize_def Let_def nth_append deserialize_payload_error split: if_splits)
qed

subsection \<open>Round trips\<close>

lemma length_be32 [simp]: "length (be32 n) = 4"
  by (simp add: be32_def)

lemma read_be32_be32 [simp]: "n < 2 ^ 32 \<Longrightarrow> read_be32 (be32 n) = n"
proof -
  assume n: "n < 2 ^ 32"
  have s: "256 * (n div (k * 256)) + n div k mod 256 = n div k" for k :: nat
    using div_mult2_eq [of n k 256] mult_div_mod_eq [of 256 "n div k"] by simp
  have "n div 2 ^ 24 < 256" using n by (simp add: less_mult_imp_div_less)
  then show ?thesis using s [of "2 ^ 16"] s [of "2 ^ 8"] s [of 1] by (simp add: read_be32_def be32_def)
qed

text \<open>A message that fits the format: numbers of 32 bits, a payload that is not empty, and extension messages whose encoding the decoder
  returns. Extension messages go out under the ids of the receiver, here those of this program.\<close>

fun ext_ok :: "bencode_env \<Rightarrow> extended_message \<Rightarrow> bool" where
  "ext_ok W (ExtHandshake h) \<longleftrightarrow>
     be_de_handshake W (be_ser_handshake W h) = Inr h \<and> 5 \<le> length (be_ser_handshake W h) \<and> length (be_ser_handshake W h) + 2 < 2 ^ 32"
| "ext_ok W (UtMetadata u) \<longleftrightarrow>
     (\<forall>hd rest. be_de_metadata W (be_ser_metadata W hd @ rest) = Inr (hd, rest)) \<and>
     5 \<le> length (ut_metadata_serialize W u) \<and> length (ut_metadata_serialize W u) + 2 < 2 ^ 32"
| "ext_ok W (UtPex m) \<longleftrightarrow> be_de_pex W (be_ser_pex W m) = Inr m \<and> 5 \<le> length (be_ser_pex W m) \<and> length (be_ser_pex W m) + 2 < 2 ^ 32"
| "ext_ok W (Dyn i v) \<longleftrightarrow> i \<notin> {0, MY_EXTENDED_UT_METADATA, MY_EXTENDED_UT_PEX} \<and> be_de_dyn W v = Inr v \<and> 5 \<le> length v \<and> length v + 2 < 2 ^ 32"

fun msg_ok :: "bencode_env \<Rightarrow> message \<Rightarrow> bool" where
  "msg_ok W (MRequest r) \<longleftrightarrow> rq_index r < 2 ^ 32 \<and> rq_begin r < 2 ^ 32 \<and> rq_length r < 2 ^ 32"
| "msg_ok W (MCancel r) \<longleftrightarrow> rq_index r < 2 ^ 32 \<and> rq_begin r < 2 ^ 32 \<and> rq_length r < 2 ^ 32"
| "msg_ok W (MBitfield b) \<longleftrightarrow> b \<noteq> [] \<and> length b + 1 < 2 ^ 32"
| "msg_ok W (MPiece p) \<longleftrightarrow> pm_index p < 2 ^ 32 \<and> pm_begin p < 2 ^ 32 \<and> pm_block p \<noteq> [] \<and> length (pm_block p) + 9 < 2 ^ 32"
| "msg_ok W (MHave v) \<longleftrightarrow> v < 2 ^ 32"
| "msg_ok W (MExtended e) \<longleftrightarrow> ext_ok W e"
| "msg_ok W _ \<longleftrightarrow> True"

definition my_ids :: peer_extended_message_ids where
  "my_ids = peer_extended_messages extended_handshake_new"

lemma my_ids_sel [simp]: "pe_ut_metadata my_ids = Some 3" "pe_ut_pex my_ids = Some 1"
  by (simp_all add: my_ids_def peer_extended_messages_def eh_ut_metadata_def eh_ut_pex_def extended_handshake_new_def
      MY_EXTENDED_UT_METADATA_def MY_EXTENDED_UT_PEX_def)

definition written :: "bencode_env \<Rightarrow> peer_extended_message_ids \<Rightarrow> message \<Rightarrow> nat list" where
  "written W ids m = (case serialize W ids m of Inr (len, out) \<Rightarrow> take len out | Inl _ \<Rightarrow> [])"

lemma deserialize_built:
  "0 < lp \<Longrightarrow> lp < 2 ^ 32 \<Longrightarrow> deserialize W (be32 lp @ i # rest) = deserialize_payload W lp i rest"
  by (simp add: deserialize_def Let_def nth_append)

lemma payload_built: "length b = k \<Longrightarrow> f b = Inr m \<Longrightarrow> payload (b @ rest) k f = Inr (m, 5 + k)"
  by (simp add: payload_def PREAMBLE_LEN_def)

lemma request_roundtrip:
  "rq_index r < 2 ^ 32 \<Longrightarrow> rq_begin r < 2 ^ 32 \<Longrightarrow> rq_length r < 2 ^ 32 \<Longrightarrow> request_deserialize (request_bytes r) = r"
  by (simp add: request_deserialize_def request_bytes_def)

lemma piece_roundtrip: "pm_index p < 2 ^ 32 \<Longrightarrow> pm_begin p < 2 ^ 32 \<Longrightarrow> piece_deserialize (piece_bytes p) = p"
  by (simp add: piece_deserialize_def piece_bytes_def)

lemma ut_metadata_roundtrip:
  "\<forall>hd rest. be_de_metadata W (be_ser_metadata W hd @ rest) = Inr (hd, rest) \<Longrightarrow>
   ut_metadata_deserialize W (ut_metadata_serialize W u) = Inr u"
proof -
  assume h: "\<forall>hd rest. be_de_metadata W (be_ser_metadata W hd @ rest) = Inr (hd, rest)"
  then have "be_de_metadata W (be_ser_metadata W hd) = Inr (hd, [])" for hd by (metis append_Nil2)
  with h show ?thesis by (cases u) (simp_all add: ut_metadata_deserialize_def)
qed

text \<open>The payload of an extension message, which begins with its id.\<close>

lemma extended_roundtrip:
  assumes "ext_ok W e"
  shows "\<exists>b. (\<forall>out. extended_serialize W my_ids out e = Inr (out @ b)) \<and> extended_deserialize W b = Inr e \<and> 6 \<le> length b \<and> length b + 1 < 2 ^ 32"
proof (cases e)
  case (UtMetadata u)
  with assms have "ut_metadata_deserialize W (ut_metadata_serialize W u) = Inr u" by (simp add: ut_metadata_roundtrip)
  then show ?thesis
    using assms UtMetadata by (intro exI [of _ "3 # ut_metadata_serialize W u"]) (simp add: extended_deserialize_def MY_EXTENDED_UT_METADATA_def)
next
  case (ExtHandshake h)
  then show ?thesis using assms by (intro exI [of _ "0 # be_ser_handshake W h"]) (simp add: extended_deserialize_def)
next
  case (UtPex m)
  then show ?thesis
    using assms by (intro exI [of _ "1 # be_ser_pex W m"]) (simp add: extended_deserialize_def MY_EXTENDED_UT_METADATA_def MY_EXTENDED_UT_PEX_def)
next
  case (Dyn i v)
  then show ?thesis using assms by (intro exI [of _ "i # v"]) (auto simp: extended_deserialize_def)
qed

lemma message_roundtripI:
  assumes "serialize W ids m = Inr (5 + length b, be32 lp @ i # b)" "0 < lp" "lp < 2 ^ 32"
    and "deserialize_payload W lp i (b @ rest) = Inr (m, 5 + length b)"
  shows "\<exists>out. serialize W ids m = Inr (length (written W ids m), out) \<and> deserialize W (written W ids m @ rest) = Inr (m, length (written W ids m))"
  using deserialize_built [OF assms(2,3), of W i "b @ rest"] assms(1,4) by (simp add: written_def)

lemma deserialize_payload_ids:
  "deserialize_payload W lp 4 rest = payload rest 4 (\<lambda>b. Inr (MHave (read_be32 b)))"
  "deserialize_payload W lp 6 rest = payload rest 12 (\<lambda>b. Inr (MRequest (request_deserialize b)))"
  "deserialize_payload W lp 8 rest = payload rest 12 (\<lambda>b. Inr (MCancel (request_deserialize b)))"
  "1 < lp \<Longrightarrow> deserialize_payload W lp 5 rest = payload rest (lp - 1) (\<lambda>b. Inr (MBitfield b))"
  "9 < lp \<Longrightarrow> deserialize_payload W lp 7 rest = payload rest (lp - 9 + 8) (\<lambda>b. Inr (MPiece (piece_deserialize b)))"
  "6 < lp \<Longrightarrow> deserialize_payload W lp 20 rest = payload rest (lp - 1) (\<lambda>b. of_res (rbind (extended_deserialize W b) (\<lambda>e. Inr (MExtended e))))"
  by (simp_all add: deserialize_payload_def)

lemma length_request_bytes [simp]: "length (request_bytes r) = 12"
  by (simp add: request_bytes_def)

lemma message_roundtrip:
  assumes "msg_ok W m"
  shows "\<exists>out. serialize W my_ids m = Inr (length (written W my_ids m), out) \<and> deserialize W (written W my_ids m @ rest) = Inr (m, length (written W my_ids m))"
proof (cases m)
  case (MExtended e)
  obtain b where b: "\<And>out. extended_serialize W my_ids out e = Inr (out @ b)" "extended_deserialize W b = Inr e" "6 \<le> length b" "length b + 1 < 2 ^ 32"
    using extended_roundtrip [of W e] assms MExtended by auto
  have "as_u32 (length b + 1) = length b + 1" using b(4) by (rule as_u32_exact)
  then have "serialize W my_ids m = Inr (5 + length b, be32 (length b + 1) @ 20 # b)"
    using MExtended b(1) by (simp add: serialize_def PREAMBLE_LEN_def)
  then show ?thesis
    by (rule message_roundtripI) (use payload_built [OF refl] b(2-4) MExtended in \<open>simp_all add: deserialize_payload_ids of_res_def\<close>)
next
  case (MPiece p)
  with assms have l: "add32 9 (as_u32 (length (pm_block p))) = 9 + length (pm_block p)" by (simp add: add32_exact as_u32_exact)
  have n: "length (piece_bytes p) = 8 + length (pm_block p)" by (simp add: piece_bytes_def)
  have "serialize W my_ids m = Inr (5 + length (piece_bytes p), be32 (9 + length (pm_block p)) @ 7 # piece_bytes p)"
    using MPiece l n by (simp add: serialize_def PREAMBLE_LEN_def)
  then show ?thesis
    by (rule message_roundtripI) (use payload_built [OF n] n assms MPiece in \<open>simp_all add: deserialize_payload_ids piece_roundtrip add.commute\<close>)
next
  case (MBitfield b)
  with assms have "add32 1 (as_u32 (length b)) = length b + 1" by (simp add: add32_exact as_u32_exact)
  then have "serialize W my_ids m = Inr (5 + length b, be32 (length b + 1) @ 5 # b)"
    using MBitfield by (simp add: serialize_def PREAMBLE_LEN_def)
  then show ?thesis
    by (rule message_roundtripI) (use payload_built [OF refl] assms MBitfield in \<open>simp_all add: deserialize_payload_ids\<close>)
next
  case (MRequest r)
  then have "serialize W my_ids m = Inr (5 + length (request_bytes r), be32 13 @ 6 # request_bytes r)" by (simp add: serialize_def PREAMBLE_LEN_def)
  then show ?thesis
    by (rule message_roundtripI) (use assms MRequest in \<open>simp_all add: deserialize_payload_ids payload_built request_roundtrip\<close>)
next
  case (MCancel r)
  then have "serialize W my_ids m = Inr (5 + length (request_bytes r), be32 13 @ 8 # request_bytes r)" by (simp add: serialize_def PREAMBLE_LEN_def)
  then show ?thesis
    by (rule message_roundtripI) (use assms MCancel in \<open>simp_all add: deserialize_payload_ids payload_built request_roundtrip\<close>)
next
  case (MHave v)
  then have "serialize W my_ids m = Inr (5 + length (be32 v), be32 5 @ 4 # be32 v)" by (simp add: serialize_def PREAMBLE_LEN_def)
  then show ?thesis by (rule message_roundtripI) (use assms MHave in \<open>simp_all add: deserialize_payload_ids payload_built\<close>)
next
  case MKeepAlive
  then show ?thesis by (simp add: serialize_def written_def deserialize_def)
qed (rule message_roundtripI [where b = "[]" and lp = 1 and i = "snd (len_prefix_and_msg_id m)"];
    simp add: serialize_def PREAMBLE_LEN_def deserialize_payload_def no_payload_def)+

lemma handshake_roundtrip:
  assumes "length h = 20" "length i = 20"
  shows "handshake_deserialize (handshake_serialize (handshake_new h i) @ rest) = Inr (handshake_new h i, 68)"
    and "length (handshake_serialize (handshake_new h i)) = 68" and "supports_extended (handshake_new h i)"
proof -
  have l: "length PSTR_BT1 = 19" by (simp add: PSTR_BT1_def)
  then show "length (handshake_serialize (handshake_new h i)) = 68" using assms by (simp add: handshake_serialize_def handshake_new_def)
  show "supports_extended (handshake_new h i)" by (simp add: supports_extended_def handshake_new_def)
  show "handshake_deserialize (handshake_serialize (handshake_new h i) @ rest) = Inr (handshake_new h i, 68)"
    using l assms by (simp add: handshake_deserialize_def handshake_serialize_def handshake_new_def Let_def)
qed

subsection \<open>Widths\<close>

fun fits :: "message \<Rightarrow> bool" where
  "fits (MRequest r) \<longleftrightarrow> rq_index r < 2 ^ 32 \<and> rq_begin r < 2 ^ 32 \<and> rq_length r < 2 ^ 32"
| "fits (MCancel r) \<longleftrightarrow> rq_index r < 2 ^ 32 \<and> rq_begin r < 2 ^ 32 \<and> rq_length r < 2 ^ 32"
| "fits (MBitfield b) \<longleftrightarrow> b \<noteq> [] \<and> length b < 2 ^ 32 \<and> (\<forall>x \<in> set b. x < 256)"
| "fits (MPiece p) \<longleftrightarrow>
     pm_index p < 2 ^ 32 \<and> pm_begin p < 2 ^ 32 \<and> pm_block p \<noteq> [] \<and> length (pm_block p) < 2 ^ 32 \<and> (\<forall>x \<in> set (pm_block p). x < 256)"
| "fits (MHave v) \<longleftrightarrow> v < 2 ^ 32"
| "fits _ \<longleftrightarrow> True"

lemma foldl_be_less: "\<forall>b \<in> set bs. b < 256 \<Longrightarrow> foldl (\<lambda>acc b. 256 * acc + b) a bs < (a + 1) * 256 ^ length bs" for a :: nat
proof (induction bs arbitrary: a)
  case (Cons b bs)
  then have "foldl (\<lambda>acc b. 256 * acc + b) (256 * a + b) bs < (256 * a + b + 1) * 256 ^ length bs" by simp
  also have "\<dots> \<le> ((a + 1) * 256) * 256 ^ length bs" using Cons.prems by (intro mult_right_mono) auto
  finally show ?case by (simp add: algebra_simps)
qed simp

lemma read_be32_less: "\<forall>b \<in> set bs. b < 256 \<Longrightarrow> length bs \<le> 4 \<Longrightarrow> read_be32 bs < 2 ^ 32"
proof -
  assume b: "\<forall>b \<in> set bs. b < 256" and "length bs \<le> 4"
  then have "(256 :: nat) ^ length bs \<le> 256 ^ 4" by (intro power_increasing) auto
  then show ?thesis using foldl_be_less [OF b, of 0] by (simp add: read_be32_def)
qed

lemmas read_be32_bound = read_be32_less [simplified]

definition decodes_fitting :: "(nat list \<Rightarrow> deserialize_error + message \<times> nat) \<Rightarrow> bool" where
  "decodes_fitting g \<longleftrightarrow> (\<forall>rest m n. (\<forall>b \<in> set rest. b < 256) \<longrightarrow> g rest = Inr (m, n) \<longrightarrow> fits m)"

lemma decodes_fitting_if:
  "(c \<Longrightarrow> decodes_fitting f) \<Longrightarrow> (\<not> c \<Longrightarrow> decodes_fitting g) \<Longrightarrow> decodes_fitting (\<lambda>rest. if c then f rest else g rest)"
  by (cases c) simp_all

lemma decodes_fitting_error: "decodes_fitting (\<lambda>rest. Inl e)"
  by (simp add: decodes_fitting_def)

lemma decodes_fitting_none: "fits m \<Longrightarrow> decodes_fitting (\<lambda>rest. no_payload lp i m)"
  by (simp add: decodes_fitting_def no_payload_def)

lemma decodes_fitting_payload:
  "(\<And>b m. length b = k \<Longrightarrow> \<forall>x \<in> set b. x < 256 \<Longrightarrow> f b = Inr m \<Longrightarrow> fits m) \<Longrightarrow> decodes_fitting (\<lambda>rest. payload rest k f)"
  unfolding decodes_fitting_def payload_def
proof (intro allI impI)
  fix rest m n
  assume f: "\<And>b m. length b = k \<Longrightarrow> \<forall>x \<in> set b. x < 256 \<Longrightarrow> f b = Inr m \<Longrightarrow> fits m" and b: "\<forall>b \<in> set rest. b < 256"
    and "(if k \<le> length rest then case f (take k rest) of Inl e \<Rightarrow> Inl e | Inr m \<Rightarrow> Inr (m, PREAMBLE_LEN + k)
      else Inl (NotEnoughData (k - length rest))) = Inr (m, n)"
  then have "k \<le> length rest" "f (take k rest) = Inr m" by (auto split: if_splits sum.splits)
  then show "fits m" using f [of "take k rest" m] b by (auto dest: in_set_takeD)
qed

lemma bytes_part: "\<forall>x \<in> set b. x < 256 \<Longrightarrow> \<forall>x \<in> set (take i (drop j b)). x < 256" for b :: "nat list"
  by (auto dest: in_set_takeD in_set_dropD)

lemma read_part: "\<forall>x \<in> set b. x < 256 \<Longrightarrow> read_be32 (take 4 (drop j b)) < 2 ^ 32"
  by (rule read_be32_less [OF bytes_part]) simp_all

lemma request_fits: "\<forall>x \<in> set b. x < 256 \<Longrightarrow> fits (MRequest (request_deserialize b)) \<and> fits (MCancel (request_deserialize b))"
  unfolding fits.simps request_deserialize_def request.simps using read_part [of b 0] read_part [of b 4] read_part [of b 8] by (simp only: drop_0)

lemma piece_fits:
  assumes "\<forall>x \<in> set b. x < 256" "8 < length b" "length b < 2 ^ 32"
  shows "fits (MPiece (piece_deserialize b))"
proof -
  have "drop 8 b \<noteq> []" "length (drop 8 b) < 2 ^ 32" "\<forall>x \<in> set (drop 8 b). x < 256" using assms by (auto dest: in_set_dropD)
  then show ?thesis
    unfolding fits.simps piece_deserialize_def piece_msg.simps using read_part [OF assms(1), of 0] read_part [OF assms(1), of 4] by (simp only: drop_0) blast
qed

lemma deserialize_payload_fits: "lp < 2 ^ 32 \<Longrightarrow> decodes_fitting (deserialize_payload W lp i)"
  unfolding deserialize_payload_def
  by (intro decodes_fitting_if decodes_fitting_none decodes_fitting_error decodes_fitting_payload)
    (auto simp: read_be32_bound request_fits piece_fits of_res_def rbind_eq_Inr simp del: fits.simps(1,2,4) split: sum.splits)

text \<open>C26: Whatever bytes arrive, a message of the basic protocol that is decoded from them fits the widths of its fields: every number
  is one of 32 bits, a block or bitfield is a list of bytes that is not empty, and no length exceeds 32 bits.\<close>

theorem decoded_message_fits:
  assumes "\<forall>b \<in> set bs. b < 256" "deserialize W bs = Inr (m, n)"
  shows "fits m"
proof (cases "m = MKeepAlive")
  case False
  let ?lp = "read_be32 (take 4 bs)" and ?rest = "drop 5 bs"
  have p: "deserialize_payload W ?lp (bs ! 4) ?rest = Inr (m, n)"
    using assms(2) False by (auto simp: deserialize_def Let_def split: if_splits)
  have b: "\<forall>b \<in> set ?rest. b < 256" using assms(1) by (auto dest: in_set_dropD)
  have lp: "?lp < 2 ^ 32" using assms(1) by (intro read_be32_less) (auto dest: in_set_takeD)
  show ?thesis using deserialize_payload_fits [OF lp, of W "bs ! 4"] p b unfolding decodes_fitting_def by blast
qed simp

theorem decoded_message_fits_witness: "fits (MHave 258) \<and> deserialize \<lparr>be_ser_handshake = (\<lambda>_. []), be_de_handshake = (\<lambda>_. Inl Panic),
     be_ser_metadata = (\<lambda>_. []), be_de_metadata = (\<lambda>_. Inl Panic), be_ser_pex = (\<lambda>_. []), be_de_pex = (\<lambda>_. Inl Panic), be_de_dyn = Inr\<rparr>
     [0, 0, 0, 5, 4, 0, 0, 1, 2] = Inr (MHave 258, 9)"
proof -
  let ?W = "\<lparr>be_ser_handshake = (\<lambda>_. []), be_de_handshake = (\<lambda>_. Inl Panic),
     be_ser_metadata = (\<lambda>_. []), be_de_metadata = (\<lambda>_. Inl Panic), be_ser_pex = (\<lambda>_. []), be_de_pex = (\<lambda>_. Inl Panic), be_de_dyn = Inr\<rparr>"
  have "deserialize ?W [0, 0, 0, 5, 4, 0, 0, 1, 2] = Inr (MHave 258, 9)"
    by (simp add: deserialize_def read_be32_def deserialize_payload_def payload_def PREAMBLE_LEN_def)
  with decoded_message_fits [OF _ this] show ?thesis by simp
qed

end
