(* ===== verification/Read_Buf.thy ===== *)
theory Read_Buf
  imports Wire
begin

text \<open>
  The buffer a connection is read into: bytes arrive in portions of any size, are appended and decoded, and a message is taken out as
  soon as it is complete. Memory is a list of the size of the vector; how much more than asked for a vector reserves is a parameter.
  A connection is what its reads return: bytes, none at its end, or an error; one that returns nothing more runs into the time limit.
  Shown is that the portions do not matter: what is read is what the bytes as a whole decode to.

  Source: \<^verbatim>\<open>read_buf.rs\<close>.
\<close>

subsection \<open>Connections\<close>

datatype read_event = Arrives "nat list" | ReadFails err

type_synonym conn = "read_event list"

text \<open>A read into \<open>space\<close> bytes; what does not fit is there for the next read.\<close>

fun conn_read :: "nat \<Rightarrow> conn \<Rightarrow> nat list res \<times> conn" where
  "conn_read space [] = (Inl (Bail ''timeout''), [])"
| "conn_read space (ReadFails e # es) = (Inl e, es)"
| "conn_read space (Arrives bs # es) =
     (if length bs \<le> space then (Inr bs, es) else (Inr (take space bs), Arrives (drop space bs) # es))"

fun event_size :: "read_event \<Rightarrow> nat" where
  "event_size (Arrives bs) = Suc (length bs)"
| "event_size (ReadFails e) = 1"

text \<open>The bytes that come before the end or the first error.\<close>

fun arriving :: "conn \<Rightarrow> nat list" where
  "arriving (Arrives bs # es) = (if bs = [] then [] else bs @ arriving es)"
| "arriving _ = []"

lemma conn_read_size: "conn_read space c = (Inr bs, c') \<Longrightarrow> bs \<noteq> [] \<Longrightarrow> sum_list (map event_size c') < sum_list (map event_size c)"
  by (cases "(space, c)" rule: conn_read.cases) (auto split: if_splits)

lemma conn_read_length: "conn_read space c = (Inr bs, c') \<Longrightarrow> length bs \<le> space"
  by (cases "(space, c)" rule: conn_read.cases) (auto split: if_splits)

lemma conn_read_arriving:
  "conn_read space c = (Inr bs, c') \<Longrightarrow> bs \<noteq> [] \<Longrightarrow> arriving c = bs @ arriving c'"
  by (cases "(space, c)" rule: conn_read.cases) (auto simp: append_assoc [symmetric] simp del: append_assoc split: if_splits)

lemma conn_read_end: "conn_read space c = (Inl e, c') \<Longrightarrow> arriving c = []"
  by (cases "(space, c)" rule: conn_read.cases) (auto split: if_splits)

lemma conn_read_empty: "conn_read space c = (Inr [], c') \<Longrightarrow> 0 < space \<Longrightarrow> arriving c = []"
  by (cases "(space, c)" rule: conn_read.cases) (auto split: if_splits)

subsection \<open>The buffer\<close>

record read_buf =
  rb_buf :: "nat list"
  rb_filled :: nat
  rb_processed :: nat

definition read_buf_new :: read_buf where
  "read_buf_new = \<lparr>rb_buf = replicate (PIECE_MESSAGE_DEFAULT_LEN * 2) 0, rb_filled = 0, rb_processed = 0\<rparr>"

text \<open>\<open>grow len additional\<close> is the capacity of a vector of length \<open>len\<close> after \<^verbatim>\<open>reserve(additional)\<close>.\<close>

definition prepare_for_read :: "(nat \<Rightarrow> nat \<Rightarrow> nat) \<Rightarrow> read_buf \<Rightarrow> nat \<Rightarrow> read_buf" where
  "prepare_for_read grow rb need_additional_bytes =
     (let rb = (if rb_processed rb > 0 then
                  let n = rb_filled rb - rb_processed rb;
                      buf = (if rb_filled rb > rb_processed rb
                             then take n (drop (rb_processed rb) (rb_buf rb)) @ drop n (rb_buf rb) else rb_buf rb)
                  in rb\<lparr>rb_buf := buf, rb_filled := n, rb_processed := 0\<rparr>
                else rb);
          len = length (rb_buf rb)
      in if len < rb_filled rb + need_additional_bytes
         then rb\<lparr>rb_buf := rb_buf rb @ replicate (grow len need_additional_bytes - len) 0\<rparr> else rb)"

text \<open>The bytes that were read and not yet decoded.\<close>

definition unread :: "read_buf \<Rightarrow> nat list" where
  "unread rb = drop (rb_processed rb) (take (rb_filled rb) (rb_buf rb))"

text \<open>Bytes read into the vector behind those that are filled.\<close>

definition fill :: "read_buf \<Rightarrow> nat list \<Rightarrow> read_buf" where
  "fill rb bs =
     rb\<lparr>rb_buf := take (rb_filled rb) (rb_buf rb) @ bs @ drop (rb_filled rb + length bs) (rb_buf rb), rb_filled := rb_filled rb + length bs\<rparr>"

definition de_err :: "deserialize_error \<Rightarrow> err" where
  "de_err e = (case e of OtherDe e \<Rightarrow> e | _ \<Rightarrow> Bail ''error deserializing'')"

definition read_handshake :: "read_buf \<Rightarrow> conn \<Rightarrow> handshake res \<times> read_buf \<times> conn" where
  "read_handshake rb c =
     (case conn_read (length (rb_buf rb)) c of
        (Inl e, c) \<Rightarrow> (Inl e, rb, c)
      | (Inr bs, c) \<Rightarrow>
          let rb = fill (rb\<lparr>rb_filled := 0\<rparr>) bs
          in if bs = [] then (Inl (Bail ''peer disconnected while reading handshake''), rb, c)
             else case handshake_deserialize (take (rb_filled rb) (rb_buf rb)) of
                    Inl e \<Rightarrow> (Inl (Bail ''error deserializing handshake''), rb, c)
                  | Inr (h, n) \<Rightarrow> (Inr h, rb\<lparr>rb_processed := n\<rparr>, c))"

function read_message ::
  "(nat list \<Rightarrow> deserialize_error + 'm \<times> nat) \<Rightarrow> (nat \<Rightarrow> nat \<Rightarrow> nat) \<Rightarrow> read_buf \<Rightarrow> conn \<Rightarrow> 'm res \<times> read_buf \<times> conn" where
  "read_message de grow rb c =
     (case de (unread rb) of
        Inr (m, n) \<Rightarrow> (Inr m, rb\<lparr>rb_processed := rb_processed rb + n\<rparr>, c)
      | Inl (NotEnoughData need_additional_bytes) \<Rightarrow>
          let rb = prepare_for_read grow rb need_additional_bytes
          in (case conn_read (length (rb_buf rb) - rb_filled rb) c of
                (Inl e, c) \<Rightarrow> (Inl e, rb, c)
              | (Inr bs, c) \<Rightarrow>
                  if bs = [] then (Inl (Bail ''disconnected while reading''), rb, c) else read_message de grow (fill rb bs) c)
      | Inl e \<Rightarrow> (Inl (de_err e), rb, c))"
  by pat_completeness auto
termination
  by (relation "measure (\<lambda>(de, grow, rb, c). sum_list (map event_size c))") (auto dest: conn_read_size [OF sym])

declare read_message.simps [simp del]

subsection \<open>Portions do not matter\<close>

definition rb_ok :: "read_buf \<Rightarrow> bool" where
  "rb_ok rb \<longleftrightarrow> rb_processed rb \<le> rb_filled rb \<and> rb_filled rb \<le> length (rb_buf rb)"

definition reserves :: "(nat \<Rightarrow> nat \<Rightarrow> nat) \<Rightarrow> bool" where
  "reserves grow \<longleftrightarrow> (\<forall>len additional. len + additional \<le> grow len additional)"

lemma read_buf_new_ok: "rb_ok read_buf_new" "unread read_buf_new = []"
  by (simp_all add: rb_ok_def read_buf_new_def unread_def)

lemma length_unread: "rb_ok rb \<Longrightarrow> length (unread rb) = rb_filled rb - rb_processed rb"
  by (auto simp: unread_def rb_ok_def)

lemma prepare_for_read_ok:
  assumes "rb_ok rb" "reserves grow" "0 < d"
  defines "rb' \<equiv> prepare_for_read grow rb d"
  shows "rb_ok rb'" "unread rb' = unread rb" "rb_filled rb' < length (rb_buf rb')"
proof -
  let ?n = "rb_filled rb - rb_processed rb"
  let ?rb = "if rb_processed rb > 0 then rb\<lparr>rb_buf := (if rb_filled rb > rb_processed rb
      then take ?n (drop (rb_processed rb) (rb_buf rb)) @ drop ?n (rb_buf rb) else rb_buf rb), rb_filled := ?n, rb_processed := 0\<rparr> else rb"
  have l: "length (take ?n (drop (rb_processed rb) (rb_buf rb))) = ?n" using assms(1) by (auto simp: rb_ok_def)
  have 1: "rb_ok ?rb" "unread ?rb = unread rb" "rb_processed ?rb \<le> rb_filled ?rb"
    using assms(1) l by (auto simp: rb_ok_def unread_def drop_take)
  have g: "length (rb_buf ?rb) + d \<le> grow (length (rb_buf ?rb)) d" using assms(2) by (simp add: reserves_def)
  have r: "rb' = (if length (rb_buf ?rb) < rb_filled ?rb + d
      then ?rb\<lparr>rb_buf := rb_buf ?rb @ replicate (grow (length (rb_buf ?rb)) d - length (rb_buf ?rb)) 0\<rparr> else ?rb)"
    unfolding rb'_def prepare_for_read_def Let_def by (simp cong: if_cong)
  define q where "q = ?rb"
  show "rb_ok rb'" "unread rb' = unread rb" "rb_filled rb' < length (rb_buf rb')"
    using 1 g assms(3) unfolding r q_def [symmetric] by (auto simp: rb_ok_def unread_def)
qed

lemma fill_ok: "rb_ok rb \<Longrightarrow> length bs \<le> length (rb_buf rb) - rb_filled rb \<Longrightarrow> rb_ok (fill rb bs) \<and> unread (fill rb bs) = unread rb @ bs"
  by (auto simp: rb_ok_def fill_def unread_def)

fun read_messages ::
  "(nat list \<Rightarrow> deserialize_error + 'm \<times> nat) \<Rightarrow> (nat \<Rightarrow> nat \<Rightarrow> nat) \<Rightarrow> nat \<Rightarrow> read_buf \<Rightarrow> conn \<Rightarrow> 'm list res \<times> read_buf \<times> conn" where
  "read_messages de grow 0 rb c = (Inr [], rb, c)"
| "read_messages de grow (Suc k) rb c =
     (case read_message de grow rb c of
        (Inl e, rb, c) \<Rightarrow> (Inl e, rb, c)
      | (Inr m, rb, c) \<Rightarrow>
          (case read_messages de grow k rb c of (Inl e, s) \<Rightarrow> (Inl e, s) | (Inr ms, s) \<Rightarrow> (Inr (m # ms), s)))"

fun decode :: "(nat list \<Rightarrow> deserialize_error + 'm \<times> nat) \<Rightarrow> nat \<Rightarrow> nat list \<Rightarrow> ('m list \<times> nat list) option" where
  "decode de 0 s = Some ([], s)"
| "decode de (Suc k) s =
     (case de s of Inl _ \<Rightarrow> None | Inr (m, n) \<Rightarrow> map_option (\<lambda>(ms, rest). (m # ms, rest)) (decode de k (drop n s)))"

context framing
begin

text \<open>Reading returns what the bytes received and still to come decode to, and leaves the rest of them.\<close>

lemma read_message_stream:
  assumes "rb_ok rb" "reserves grow" "read_message de grow rb c = (r, rb', c')"
  shows "case de (unread rb @ arriving c) of
      Inr (m, n) \<Rightarrow> r = Inr m \<and> rb_ok rb' \<and> unread rb' @ arriving c' = drop n (unread rb @ arriving c)
    | Inl _ \<Rightarrow> \<exists>e. r = Inl e"
  using assms(1,3)
proof (induction "sum_list (map event_size c)" arbitrary: rb c rule: less_induct)
  case less
  let ?s = "unread rb @ arriving c"
  show ?case
  proof (cases "de (unread rb)")
    case (Inr q)
    obtain m n where q: "q = (m, n)" by (cases q)
    have d: "de ?s = Inr (m, n)" using Inr q de_append by simp
    have "n \<le> length (unread rb)" using de_ok [OF Inr [unfolded q]] by blast
    then have "rb_ok (rb\<lparr>rb_processed := rb_processed rb + n\<rparr>)" "unread (rb\<lparr>rb_processed := rb_processed rb + n\<rparr>) = drop n (unread rb)"
      using less.prems(1) length_unread [OF less.prems(1)] by (auto simp: rb_ok_def unread_def add.commute)
    then show ?thesis using less.prems(2) Inr q d \<open>n \<le> length (unread rb)\<close> by (auto simp: read_message.simps [of de grow rb c])
  next
    case (Inl e)
    show ?thesis
    proof (cases "\<exists>d. e = NotEnoughData d")
      case False
      then have "de ?s = Inl e" using de_error [OF Inl] by blast
      then show ?thesis
        using less.prems(2) Inl False by (auto simp: read_message.simps [of de grow rb c] split: deserialize_error.splits)
    next
      case True
      then obtain d where d: "e = NotEnoughData d" ..
      define p where "p = prepare_for_read grow rb d"
      have p: "rb_ok p" "unread p = unread rb" "rb_filled p < length (rb_buf p)"
        using prepare_for_read_ok [OF less.prems(1) assms(2) de_more [OF Inl [unfolded d]]] by (simp_all add: p_def)
      obtain b c2 where b: "conn_read (length (rb_buf p) - rb_filled p) c = (b, c2)" by (cases "conn_read (length (rb_buf p) - rb_filled p) c")
      show ?thesis
      proof (cases "\<exists>bs. b = Inr bs \<and> bs \<noteq> []")
        case True
        then obtain bs where bs: "b = Inr bs" "bs \<noteq> []" by blast
        note r = b [unfolded bs(1)]
        have f: "rb_ok (fill p bs)" "unread (fill p bs) = unread rb @ bs" using fill_ok [OF p(1) conn_read_length [OF r]] p(2) by simp_all
        have s: "unread (fill p bs) @ arriving c2 = ?s" using conn_read_arriving [OF r bs(2)] f(2) by simp
        have "read_message de grow (fill p bs) c2 = (r, rb', c')"
          using less.prems(2) Inl d b bs by (simp add: read_message.simps [of de grow rb c] p_def [symmetric] Let_def)
        from less.hyps [OF conn_read_size [OF r bs(2)] f(1) this] show ?thesis unfolding s .
      next
        case False
        have "arriving c = []"
          using False b p(3) conn_read_end conn_read_empty [of "length (rb_buf p) - rb_filled p" c c2] by (cases b) auto
        then show ?thesis
          using less.prems(2) Inl d b False by (cases b) (auto simp: read_message.simps [of de grow rb c] p_def [symmetric] Let_def)
      qed
    qed
  qed
qed

text \<open>Several messages, one after the other.\<close>

lemma read_messages_stream:
  assumes "rb_ok rb" "reserves grow" "decode de k (unread rb @ arriving c) = Some (ms, rest)"
  shows "\<exists>rb' c'. read_messages de grow k rb c = (Inr ms, rb', c') \<and> rb_ok rb' \<and> unread rb' @ arriving c' = rest"
  using assms(1,3)
proof (induction k arbitrary: rb c ms)
  case (Suc k)
  obtain r rb1 c1 where r: "read_message de grow rb c = (r, rb1, c1)" by (cases "read_message de grow rb c")
  obtain m n ms' where d: "de (unread rb @ arriving c) = Inr (m, n)" "ms = m # ms'" "decode de k (drop n (unread rb @ arriving c)) = Some (ms', rest)"
    using Suc.prems(2) by (auto split: sum.splits)
  then have "r = Inr m" "rb_ok rb1" "unread rb1 @ arriving c1 = drop n (unread rb @ arriving c)"
    using read_message_stream [OF Suc.prems(1) assms(2) r] by simp_all
  moreover from this obtain rb' c' where "read_messages de grow k rb1 c1 = (Inr ms', rb', c')" "rb_ok rb'" "unread rb' @ arriving c' = rest"
    using Suc.IH [of rb1 c1 ms'] d(3) by auto
  ultimately show ?case using r d(2) by simp
qed simp

end

lemma decode_written:
  "\<forall>m \<in> set ms. msg_ok W m \<Longrightarrow> decode (deserialize W) (length ms) (concat (map (written W my_ids) ms) @ rest) = Some (ms, rest)"
proof (induction ms)
  case (Cons m ms)
  then show ?case using message_roundtrip [of W m "concat (map (written W my_ids) ms) @ rest"] by auto
qed simp

text \<open>C25: What one side writes the other side reads: the messages of a connection, encoded one after the other and received in portions of
  any size, are decoded to the same messages in the same order, and what comes after them stays in the connection.\<close>

theorem sent_messages_are_read:
  assumes "\<forall>m \<in> set ms. msg_ok W m" "reserves grow" "arriving c = concat (map (written W my_ids) ms) @ rest"
  shows "\<exists>rb c'. read_messages (deserialize W) grow (length ms) read_buf_new c = (Inr ms, rb, c') \<and> unread rb @ arriving c' = rest"
  using wire.read_messages_stream [OF read_buf_new_ok(1) assms(2), of W "length ms" c ms rest] decode_written [OF assms(1), of rest]
    read_buf_new_ok(2) assms(3) by auto

definition ex_bencode :: bencode_env where
  "ex_bencode = \<lparr>be_ser_handshake = (\<lambda>_. []), be_de_handshake = (\<lambda>_. Inl (Bail ''none'')), be_ser_metadata = (\<lambda>_. []),
     be_de_metadata = (\<lambda>_. Inl (Bail ''none'')), be_ser_pex = (\<lambda>_. []), be_de_pex = (\<lambda>_. Inl (Bail ''none'')), be_de_dyn = Inr\<rparr>"

theorem sent_messages_are_read_witness:
  "\<exists>rb c'. read_messages (deserialize ex_bencode) (+) (Suc (Suc 0)) read_buf_new [Arrives [0, 0], Arrives [0, 1, 1, 0, 0, 0], Arrives [5, 4, 0, 0, 0, 7, 9], Arrives []]
     = (Inr [MUnchoke, MHave 7], rb, c') \<and> unread rb @ arriving c' = [9]"
proof -
  have "reserves (+)" by (simp add: reserves_def)
  moreover have "written ex_bencode my_ids MUnchoke = [0, 0, 0, 1, 1]" "written ex_bencode my_ids (MHave 7) = [0, 0, 0, 5, 4, 0, 0, 0, 7]"
    by (simp_all add: written_def serialize_def be32_def PREAMBLE_LEN_def)
  ultimately show ?thesis
    using sent_messages_are_read [of "[MUnchoke, MHave 7]" ex_bencode "(+)" "[Arrives [0, 0], Arrives [0, 1, 1, 0, 0, 0], Arrives [5, 4, 0, 0, 0, 7, 9], Arrives []]" "[9]"]
    by (simp del: read_messages.simps)
qed

end
