(* ===== verification/Peer_Connection.thy ===== *)
theory Peer_Connection
  imports Read_Buf
begin

text \<open>
  One connection to a peer: the handshake of an incoming and of an outgoing connection, and then a reader that hands every message to
  a handler and a writer that sends what it is asked to, in any order of the two. The handler is the interface of the source: the
  running torrent and the reader of metadata implement it. What is written to the socket is collected; a write may fail, which ends
  the connection. Time limits are such failures, and a keep-alive is sent whenever the clock says so.

  Shown is that the peer can read all that is sent: the bytes are the handshake and complete messages, exactly those asked for in
  their order, and that only a peer of the same torrent that is not this client itself gets past the handshake.

  Source: \<^verbatim>\<open>peer_connection.rs\<close>.
\<close>

subsection \<open>Handlers\<close>

record 'h connection_handler =
  ch_on_connected :: "'h \<Rightarrow> 'h"
  ch_should_send_bitfield :: "'h \<Rightarrow> bool"
  ch_bitfield :: "'h \<Rightarrow> nat list res"
  ch_on_handshake :: "handshake \<Rightarrow> 'h \<Rightarrow> unit res \<times> 'h"
  ch_on_extended_handshake :: "extended_handshake \<Rightarrow> 'h \<Rightarrow> unit res \<times> 'h"
  ch_on_received_message :: "message \<Rightarrow> 'h \<Rightarrow> unit res \<times> 'h"
  ch_should_transmit_have :: "'h \<Rightarrow> nat \<Rightarrow> bool"
  ch_on_uploaded_bytes :: "nat \<Rightarrow> 'h \<Rightarrow> 'h"
  ch_read_chunk :: "'h \<Rightarrow> chunk_info \<Rightarrow> nat list res"
  ch_update_my_extended_handshake :: "'h \<Rightarrow> extended_handshake \<Rightarrow> extended_handshake"

text \<open>The fields of the connection that do not change, with the encoder, the allocator and the socket.\<close>

record peer_connection =
  pc_addr :: socket_addr
  pc_info_hash :: id20
  pc_peer_id :: id20
  pc_client :: string
  pc_bencode :: bencode_env
  pc_grow :: "nat \<Rightarrow> nat \<Rightarrow> nat"
  pc_write_ok :: "nat \<Rightarrow> bool"

record 'h connection =
  cx_handler :: 'h
  cx_sent :: "nat list"
  cx_extended :: "extended_handshake option"
  cx_rb :: read_buf
  cx_conn :: conn
  cx_broadcast_closed :: bool

definition on_handler :: "('h \<Rightarrow> 'a \<times> 'h) \<Rightarrow> 'h connection \<Rightarrow> 'a \<times> 'h connection" where
  "on_handler f s = (let r = f (cx_handler s) in (fst r, s\<lparr>cx_handler := snd r\<rparr>))"

definition socket_write :: "peer_connection \<Rightarrow> nat list \<Rightarrow> 'h connection \<Rightarrow> unit res \<times> 'h connection" where
  "socket_write C bs s =
     (if pc_write_ok C (length (cx_sent s)) then (Inr (), s\<lparr>cx_sent := cx_sent s @ bs\<rparr>) else (Inl (Bail ''error writing to peer''), s))"

subsection \<open>The handshake\<close>

definition my_extended_handshake :: "peer_connection \<Rightarrow> 'h connection_handler \<Rightarrow> 'h \<Rightarrow> extended_handshake" where
  "my_extended_handshake C H h =
     ch_update_my_extended_handshake H h (extended_handshake_new\<lparr>eh_v := Some (pc_client C), eh_yourip := Some (fst (pc_addr C))\<rparr>)"

definition send_extended_handshake :: "peer_connection \<Rightarrow> 'h connection_handler \<Rightarrow> bool \<Rightarrow> 'h connection \<Rightarrow> unit res \<times> 'h connection" where
  "send_extended_handshake C H supports_ext s =
     (if supports_ext then
        (case serialize (pc_bencode C) no_extended_messages (MExtended (ExtHandshake (my_extended_handshake C H (cx_handler s)))) of
           Inl _ \<Rightarrow> (Inl Panic, s)
         | Inr (_, out) \<Rightarrow> socket_write C out s)
      else (Inr (), s))"

text \<open>The own handshake hides that of the peer in the second half of \<^verbatim>\<open>manage_peer_incoming\<close>.\<close>

definition manage_peer_incoming :: "peer_connection \<Rightarrow> 'h connection_handler \<Rightarrow> handshake \<Rightarrow> 'h connection \<Rightarrow> unit res \<times> 'h connection" where
  "manage_peer_incoming C H hs s =
     (if hs_info_hash hs \<noteq> pc_info_hash C then (Inl (Bail ''wrong info hash''), s)
      else if hs_peer_id hs = pc_peer_id C then (Inl (Bail ''looks like we are connecting to ourselves''), s)
      else
        let hs = handshake_new (pc_info_hash C) (pc_peer_id C)
        in abind (socket_write C (handshake_serialize hs) s) (\<lambda>_ s.
           abind (on_handler (ch_on_handshake H hs) s) (\<lambda>_ s. send_extended_handshake C H (supports_extended hs) s)))"

definition read_peer_handshake :: "'h connection \<Rightarrow> handshake res \<times> 'h connection" where
  "read_peer_handshake s = (let (r, rb, c) = read_handshake read_buf_new (cx_conn s) in (r, s\<lparr>cx_rb := rb, cx_conn := c\<rparr>))"

definition manage_peer_outgoing :: "peer_connection \<Rightarrow> 'h connection_handler \<Rightarrow> conn res \<Rightarrow> 'h connection \<Rightarrow> unit res \<times> 'h connection" where
  "manage_peer_outgoing C H connected s =
     (case connected of
        Inl e \<Rightarrow> (Inl e, s)
      | Inr conn \<Rightarrow>
          let s = s\<lparr>cx_conn := conn, cx_handler := ch_on_connected H (cx_handler s)\<rparr>
          in abind (socket_write C (handshake_serialize (handshake_new (pc_info_hash C) (pc_peer_id C))) s) (\<lambda>_ s.
             abind (read_peer_handshake s) (\<lambda>h s.
               if hs_info_hash h \<noteq> pc_info_hash C then (Inl (Bail ''info hash does not match''), s)
               else if hs_peer_id h = pc_peer_id C then (Inl (Bail ''looks like we are connecting to ourselves''), s)
               else abind (on_handler (ch_on_handshake H h) s) (\<lambda>_ s. send_extended_handshake C H (supports_extended h) s))))"

subsection \<open>The writer\<close>

text \<open>The writer first says what it has and that the peer may ask for it.\<close>

definition send_bitfield :: "peer_connection \<Rightarrow> 'h connection_handler \<Rightarrow> 'h connection \<Rightarrow> unit res \<times> 'h connection" where
  "send_bitfield C H s =
     (if ch_should_send_bitfield H (cx_handler s) then
        (case ch_bitfield H (cx_handler s) of Inl e \<Rightarrow> (Inl e, s) | Inr bs \<Rightarrow> socket_write C bs s)
      else (Inr (), s))"

definition write_message :: "peer_connection \<Rightarrow> peer_extended_message_ids \<Rightarrow> message \<Rightarrow> 'h connection \<Rightarrow> unit res \<times> 'h connection" where
  "write_message C ids m s =
     (case serialize (pc_bencode C) ids m of Inl e \<Rightarrow> (Inl e, s) | Inr (len, out) \<Rightarrow> socket_write C (take len out) s)"

definition writer_start :: "peer_connection \<Rightarrow> 'h connection_handler \<Rightarrow> 'h connection \<Rightarrow> unit res \<times> 'h connection" where
  "writer_start C H s = abind (send_bitfield C H s) (\<lambda>_ s. write_message C no_extended_messages MUnchoke s)"

text \<open>What the writer waits for: a verified piece, the end of these or one that was missed, a request, the end of the requests or
  the time for a keep-alive.\<close>

datatype writer_event =
    HaveBroadcast nat
  | BroadcastClosed
  | BroadcastLagged
  | Outgoing writer_request
  | ChannelClosed
  | KeepAliveDue

definition next_request :: "'h connection_handler \<Rightarrow> 'h connection \<Rightarrow> writer_event \<Rightarrow> writer_request option res \<times> 'h connection" where
  "next_request H s ev =
     (case ev of
        HaveBroadcast i \<Rightarrow>
          (Inr (if \<not> cx_broadcast_closed s \<and> ch_should_transmit_have H (cx_handler s) i then Some (WMessage (MHave i)) else None), s)
      | BroadcastClosed \<Rightarrow> (Inr None, s\<lparr>cx_broadcast_closed := True\<rparr>)
      | BroadcastLagged \<Rightarrow> (Inr None, s)
      | Outgoing rq \<Rightarrow> (Inr (Some rq), s)
      | ChannelClosed \<Rightarrow> (Inl (Bail ''closing writer, channel closed''), s)
      | KeepAliveDue \<Rightarrow> (Inr (Some (WMessage MKeepAlive)), s))"

definition peer_ids :: "'h connection \<Rightarrow> peer_extended_message_ids" where
  "peer_ids s = (case cx_extended s of Some e \<Rightarrow> peer_extended_messages e | None \<Rightarrow> no_extended_messages)"

text \<open>The result is \<open>Some r\<close> when the writer ends with \<open>r\<close>.\<close>

definition perform :: "peer_connection \<Rightarrow> 'h connection_handler \<Rightarrow> writer_request \<Rightarrow> 'h connection \<Rightarrow> unit res option \<times> 'h connection" where
  "perform C H rq s =
     (let continue = (\<lambda>(r, s). (case r of Inl e \<Rightarrow> Some (Inl e) | Inr _ \<Rightarrow> None, s))
      in case rq of
           WMessage m \<Rightarrow> continue (write_message C (peer_ids s) m s)
         | ReadChunkRequest chunk \<Rightarrow>
             continue (case ch_read_chunk H (cx_handler s) chunk of
                         Inl e \<Rightarrow> (Inl e, s)
                       | Inr data \<Rightarrow>
                           abind (socket_write C (serialize_piece_preamble chunk @ data) s) (\<lambda>_ s.
                             (Inr (), s\<lparr>cx_handler := ch_on_uploaded_bytes H (ci_size chunk) (cx_handler s)\<rparr>)))
         | Disconnect r \<Rightarrow> (Some r, s))"

definition writer_step :: "peer_connection \<Rightarrow> 'h connection_handler \<Rightarrow> writer_event \<Rightarrow> 'h connection \<Rightarrow> unit res option \<times> 'h connection" where
  "writer_step C H ev s =
     (case next_request H s ev of
        (Inl e, s) \<Rightarrow> (Some (Inl e), s)
      | (Inr None, s) \<Rightarrow> (None, s)
      | (Inr (Some rq), s) \<Rightarrow> perform C H rq s)"

subsection \<open>The reader\<close>

definition dispatch :: "'h connection_handler \<Rightarrow> message \<Rightarrow> 'h connection \<Rightarrow> unit res \<times> 'h connection" where
  "dispatch H message s =
     (case message of
        MExtended (ExtHandshake h) \<Rightarrow> on_handler (ch_on_extended_handshake H h) (s\<lparr>cx_extended := Some h\<rparr>)
      | _ \<Rightarrow> on_handler (ch_on_received_message H message) s)"

definition reader_step :: "peer_connection \<Rightarrow> 'h connection_handler \<Rightarrow> 'h connection \<Rightarrow> unit res \<times> 'h connection" where
  "reader_step C H s =
     (case read_message (deserialize (pc_bencode C)) (pc_grow C) (cx_rb s) (cx_conn s) of
        (Inl e, rb, c) \<Rightarrow> (Inl e, s\<lparr>cx_rb := rb, cx_conn := c\<rparr>)
      | (Inr message, rb, c) \<Rightarrow> dispatch H message (s\<lparr>cx_rb := rb, cx_conn := c\<rparr>))"

subsection \<open>Runs of a connection\<close>

definition chunk_message :: "chunk_info \<Rightarrow> nat list \<Rightarrow> message" where
  "chunk_message c data = MPiece \<lparr>pm_index = ci_piece_index c, pm_begin = ci_offset c, pm_block = data\<rparr>"

text \<open>The message an event makes the writer send.\<close>

definition sent_by :: "'h connection_handler \<Rightarrow> 'h connection \<Rightarrow> writer_event \<Rightarrow> message list" where
  "sent_by H s ev =
     (case next_request H s ev of
        (Inr (Some (WMessage m)), _) \<Rightarrow> [m]
      | (Inr (Some (ReadChunkRequest c)), s) \<Rightarrow> (case ch_read_chunk H (cx_handler s) c of Inr data \<Rightarrow> [chunk_message c data] | Inl _ \<Rightarrow> [])
      | _ \<Rightarrow> [])"

text \<open>The messages the writer starts with.\<close>

definition start_messages :: "peer_connection \<Rightarrow> 'h connection_handler \<Rightarrow> 'h connection \<Rightarrow> message list \<Rightarrow> bool" where
  "start_messages C H s ms \<longleftrightarrow>
     (if ch_should_send_bitfield H (cx_handler s)
      then \<exists>b. ch_bitfield H (cx_handler s) = Inr (written (pc_bencode C) no_extended_messages (MBitfield b)) \<and> ms = [MBitfield b, MUnchoke]
      else ms = [MUnchoke])"

text \<open>The reader and the writer alternate in any order, and others may change what the handler works on (\<open>R\<close>). The flag says whether the
  writer has started, the list what it has sent.\<close>

inductive crun :: "peer_connection \<Rightarrow> 'h connection_handler \<Rightarrow> ('h \<Rightarrow> 'h \<Rightarrow> bool) \<Rightarrow> 'h connection \<Rightarrow> bool \<Rightarrow> message list \<Rightarrow> 'h connection \<Rightarrow> bool"
  for C H R s where
  connected: "crun C H R s False [] s"
| writer_starts: "crun C H R s False log s1 \<Longrightarrow> writer_start C H s1 = (Inr (), s2) \<Longrightarrow> start_messages C H s1 ms \<Longrightarrow> crun C H R s True (log @ ms) s2"
| writes: "crun C H R s True log s1 \<Longrightarrow> writer_step C H ev s1 = (None, s2) \<Longrightarrow> crun C H R s True (log @ sent_by H s1 ev) s2"
| reads: "crun C H R s started log s1 \<Longrightarrow> reader_step C H s1 = (Inr (), s2) \<Longrightarrow> crun C H R s started log s2"
| others: "crun C H R s started log s1 \<Longrightarrow> R (cx_handler s1) h \<Longrightarrow> crun C H R s started log (s1\<lparr>cx_handler := h\<rparr>)"

subsection \<open>What is sent\<close>

text \<open>Messages that look the same to every peer; those of extensions carry an id the peer has chosen.\<close>

fun plain :: "message \<Rightarrow> bool" where
  "plain (MExtended (UtMetadata _)) \<longleftrightarrow> False"
| "plain (MExtended (UtPex _)) \<longleftrightarrow> False"
| "plain _ \<longleftrightarrow> True"

lemma serialize_plain: "plain m \<Longrightarrow> serialize W ids m = serialize W my_ids m"
proof (cases m)
  case (MExtended e)
  then show "plain m \<Longrightarrow> serialize W ids m = serialize W my_ids m" by (cases e) (simp_all add: serialize_def)
qed (simp_all add: serialize_def)

lemma written_plain: "plain m \<Longrightarrow> written W ids m = written W my_ids m"
  unfolding written_def using serialize_plain [of m W ids] by simp

lemma socket_write_Inr: "socket_write C bs s = (Inr x, s') \<longleftrightarrow> pc_write_ok C (length (cx_sent s)) \<and> s' = s\<lparr>cx_sent := cx_sent s @ bs\<rparr>"
  by (auto simp: socket_write_def)

lemma socket_write_handler [simp]: "cx_handler (snd (socket_write C bs s)) = cx_handler s"
  by (simp add: socket_write_def)

lemma write_message_Inr:
  "write_message C ids m s = (Inr x, s') \<Longrightarrow> s' = s\<lparr>cx_sent := cx_sent s @ written (pc_bencode C) ids m\<rparr>"
  by (auto simp: write_message_def written_def socket_write_Inr split: sum.splits)

lemma chunk_message_written:
  assumes "length data = ci_size c" "ci_size c + 9 < 2 ^ 32"
  shows "serialize_piece_preamble c @ data = written W ids (chunk_message c data)"
proof -
  have "add32 9 (as_u32 (length data)) = add32 9 (ci_size c)" using assms by (simp add: as_u32_exact)
  then show ?thesis
    by (simp add: serialize_piece_preamble_def written_def serialize_def chunk_message_def piece_bytes_def PREAMBLE_LEN_def)
qed

text \<open>What a connection needs of its handler: an invariant that every call and every change by others keeps, chunks of the size asked for,
  and a bitfield that is a message.\<close>

locale connection_interface =
  fixes C :: peer_connection and H :: "'h connection_handler" and R :: "'h \<Rightarrow> 'h \<Rightarrow> bool" and inv :: "'h \<Rightarrow> bool"
  assumes on_connected: "inv h \<Longrightarrow> inv (ch_on_connected H h)"
    and on_handshake: "inv h \<Longrightarrow> inv (snd (ch_on_handshake H hs h))"
    and on_extended_handshake: "inv h \<Longrightarrow> inv (snd (ch_on_extended_handshake H ehs h))"
    and on_received_message: "inv h \<Longrightarrow> inv (snd (ch_on_received_message H m h))"
    and on_uploaded_bytes: "inv h \<Longrightarrow> inv (ch_on_uploaded_bytes H n h)"
    and others_keep: "inv h \<Longrightarrow> R h h' \<Longrightarrow> inv h'"
    and read_chunk: "inv h \<Longrightarrow> ch_read_chunk H h c = Inr data \<Longrightarrow> length data = ci_size c"
begin

lemma on_handler_inv: "inv (cx_handler s) \<Longrightarrow> (\<And>h. inv h \<Longrightarrow> inv (snd (f h))) \<Longrightarrow> inv (cx_handler (snd (on_handler f s)))"
  by (simp add: on_handler_def Let_def)

lemma dispatch_keeps: "inv (cx_handler s) \<Longrightarrow> inv (cx_handler (snd (dispatch H m s))) \<and> cx_sent (snd (dispatch H m s)) = cx_sent s"
  by (auto simp: dispatch_def on_handler_def Let_def on_received_message on_extended_handshake split: message.split extended_message.split)

lemma reader_step_keeps:
  "inv (cx_handler s) \<Longrightarrow> reader_step C H s = (r, s') \<Longrightarrow> inv (cx_handler s') \<and> cx_sent s' = cx_sent s"
proof -
  assume i: "inv (cx_handler s)" and "reader_step C H s = (r, s')"
  moreover obtain x rb c where "read_message (deserialize (pc_bencode C)) (pc_grow C) (cx_rb s) (cx_conn s) = (x, rb, c)"
    by (cases "read_message (deserialize (pc_bencode C)) (pc_grow C) (cx_rb s) (cx_conn s)")
  ultimately show ?thesis
    using dispatch_keeps [of "s\<lparr>cx_rb := rb, cx_conn := c\<rparr>" "projr x"] by (cases x) (auto simp: reader_step_def)
qed

lemma next_request_keeps: "next_request H s ev = (q, s1) \<Longrightarrow> cx_handler s1 = cx_handler s \<and> cx_sent s1 = cx_sent s"
  by (auto simp: next_request_def split: writer_event.splits)

lemma writer_step_sends:
  assumes "inv (cx_handler s)" "writer_step C H ev s = (None, s')" "\<forall>m \<in> set (sent_by H s ev). msg_ok (pc_bencode C) m \<and> plain m"
  shows "inv (cx_handler s') \<and> cx_sent s' = cx_sent s @ concat (map (written (pc_bencode C) my_ids) (sent_by H s ev))"
proof -
  obtain q s1 where q: "next_request H s ev = (q, s1)" by (cases "next_request H s ev")
  note k = next_request_keeps [OF q]
  show ?thesis
  proof (cases q)
    case (Inl e)
    then show ?thesis using assms(2) q by (simp add: writer_step_def)
  next
    case (Inr rq)
    show ?thesis
    proof (cases rq)
      case None
      then show ?thesis using assms(1,2) q k Inr by (simp add: writer_step_def sent_by_def)
    next
      case (Some w)
      then have p: "perform C H w s1 = (None, s')" using assms(2) q Inr by (simp add: writer_step_def)
      show ?thesis
      proof (cases w)
        case (WMessage m)
        then have s: "sent_by H s ev = [m]" using q Inr Some by (simp add: sent_by_def)
        obtain u where "write_message C (peer_ids s1) m s1 = (Inr u, s')" using p WMessage by (auto simp: perform_def split: prod.splits sum.splits)
        from write_message_Inr [OF this] show ?thesis using k s assms(1,3) written_plain [of m "pc_bencode C" "peer_ids s1"] by simp
      next
        case (ReadChunkRequest c)
        obtain data where d: "ch_read_chunk H (cx_handler s1) c = Inr data" using p ReadChunkRequest by (auto simp: perform_def split: sum.splits)
        have s: "sent_by H s ev = [chunk_message c data]" using q Inr Some ReadChunkRequest d by (simp add: sent_by_def)
        have l: "length data = ci_size c" using read_chunk [OF _ d] k assms(1) by simp
        then have "ci_size c + 9 < 2 ^ 32" using assms(3) s by (simp add: chunk_message_def)
        note b = chunk_message_written [OF l this, of "pc_bencode C" my_ids]
        have "s' = s1\<lparr>cx_sent := cx_sent s1 @ serialize_piece_preamble c @ data, cx_handler := ch_on_uploaded_bytes H (ci_size c) (cx_handler s1)\<rparr>"
          using p ReadChunkRequest d by (auto simp: perform_def socket_write_def split: if_splits)
        then show ?thesis using k s b assms(1) on_uploaded_bytes by simp
      next
        case (Disconnect r)
        then show ?thesis using p by (simp add: perform_def)
      qed
    qed
  qed
qed

lemma writer_step_inv: "inv (cx_handler s) \<Longrightarrow> writer_step C H ev s = (r, s') \<Longrightarrow> inv (cx_handler s')"
proof -
  assume i: "inv (cx_handler s)" and w: "writer_step C H ev s = (r, s')"
  obtain q s1 where q: "next_request H s ev = (q, s1)" by (cases "next_request H s ev")
  have h: "inv (cx_handler s1)" using next_request_keeps [OF q] i by simp
  have p: "inv (cx_handler (snd (perform C H rq s1)))" for rq
    using h on_uploaded_bytes
    by (cases rq) (auto simp: perform_def write_message_def socket_write_def Let_def split: sum.split if_split)
  show ?thesis
    using w q h p [of "the (projr q)"] by (cases q) (auto simp: writer_step_def split: option.splits)
qed

lemma writer_start_sends:
  assumes "writer_start C H s = (Inr u, s')" "start_messages C H s ms"
  shows "cx_handler s' = cx_handler s \<and> cx_sent s' = cx_sent s @ concat (map (written (pc_bencode C) my_ids) ms)"
proof -
  obtain s1 where s1: "send_bitfield C H s = (Inr (), s1)" "write_message C no_extended_messages MUnchoke s1 = (Inr u, s')"
    using assms(1) by (cases "send_bitfield C H s"; cases "fst (send_bitfield C H s)") (auto simp: writer_start_def)
  note w = write_message_Inr [OF s1(2)] written_plain [of MUnchoke "pc_bencode C" no_extended_messages]
  show ?thesis
  proof (cases "ch_should_send_bitfield H (cx_handler s)")
    case True
    then obtain b where b: "ch_bitfield H (cx_handler s) = Inr (written (pc_bencode C) no_extended_messages (MBitfield b))" "ms = [MBitfield b, MUnchoke]"
      using assms(2) by (auto simp: start_messages_def)
    then have "s1 = s\<lparr>cx_sent := cx_sent s @ written (pc_bencode C) no_extended_messages (MBitfield b)\<rparr>"
      using s1(1) True by (simp add: send_bitfield_def socket_write_Inr)
    then show ?thesis using w b(2) written_plain [of "MBitfield b" "pc_bencode C" no_extended_messages] by simp
  next
    case False
    then have "s1 = s" "ms = [MUnchoke]" using s1(1) assms(2) by (simp_all add: send_bitfield_def start_messages_def)
    then show ?thesis using w by simp
  qed
qed

lemma crun_inv: "crun C H R s started log s' \<Longrightarrow> inv (cx_handler s) \<Longrightarrow> inv (cx_handler s')"
proof (induction rule: crun.induct)
  case (writer_starts log s1 s2 ms)
  then show ?case using writer_start_sends [OF writer_starts.hyps(2,3)] by simp
next
  case (writes log s1 ev s2)
  then show ?case using writer_step_inv [of s1 ev None s2] by simp
next
  case (reads started log s1 s2)
  then show ?case using reader_step_keeps [OF _ reads.hyps(2)] by simp
next
  case (others started log s1 h)
  then show ?case using others_keep [of "cx_handler s1" h] by simp
qed simp

lemma send_extended_sends:
  assumes "send_extended_handshake C H b s = (Inr u, s')"
  shows "cx_handler s' = cx_handler s \<and> cx_sent s' = cx_sent s @ concat (map (written (pc_bencode C) my_ids)
    (if b then [MExtended (ExtHandshake (my_extended_handshake C H (cx_handler s)))] else []))"
proof (cases b)
  case True
  define e where "e = ExtHandshake (my_extended_handshake C H (cx_handler s))"
  obtain n out where o: "serialize (pc_bencode C) no_extended_messages (MExtended e) = Inr (n, out)" "s' = s\<lparr>cx_sent := cx_sent s @ out\<rparr>"
    using assms True by (auto simp: send_extended_handshake_def e_def socket_write_Inr split: sum.splits)
  then have "out = written (pc_bencode C) no_extended_messages (MExtended e)"
    by (auto simp: written_def serialize_def e_def PREAMBLE_LEN_def)
  then show ?thesis using o(2) True written_plain [of "MExtended e" "pc_bencode C" no_extended_messages] by (simp add: e_def)
qed (use assms in \<open>simp add: send_extended_handshake_def\<close>)

lemma outgoing_sends:
  assumes "inv (cx_handler s)" "manage_peer_outgoing C H connected s = (Inr u, s')"
  shows "\<exists>hs h. hs_info_hash hs = pc_info_hash C \<and> hs_peer_id hs \<noteq> pc_peer_id C \<and> inv h \<and> cx_handler s' = h \<and>
    cx_sent s' = cx_sent s @ handshake_serialize (handshake_new (pc_info_hash C) (pc_peer_id C)) @ concat (map (written (pc_bencode C) my_ids)
      (if supports_extended hs then [MExtended (ExtHandshake (my_extended_handshake C H h))] else []))"
proof -
  obtain conn where c: "connected = Inr conn" using assms(2) by (cases connected) (simp_all add: manage_peer_outgoing_def)
  define s1 where "s1 = s\<lparr>cx_conn := conn, cx_handler := ch_on_connected H (cx_handler s),
    cx_sent := cx_sent s @ handshake_serialize (handshake_new (pc_info_hash C) (pc_peer_id C))\<rparr>"
  obtain r s2 where r: "read_peer_handshake s1 = (r, s2)" by (cases "read_peer_handshake s1")
  have k: "cx_handler s2 = ch_on_connected H (cx_handler s)" "cx_sent s2 = cx_sent s1"
    using r by (auto simp: read_peer_handshake_def s1_def split: prod.splits)
  obtain hs where hs: "r = Inr hs" "hs_info_hash hs = pc_info_hash C" "hs_peer_id hs \<noteq> pc_peer_id C"
    and e: "abind (on_handler (ch_on_handshake H hs) s2) (\<lambda>_. send_extended_handshake C H (supports_extended hs)) = (Inr u, s')"
    using assms(2) c r by (cases r) (auto simp: manage_peer_outgoing_def socket_write_def s1_def Let_def split: if_splits)
  obtain s3 where s3: "on_handler (ch_on_handshake H hs) s2 = (Inr (), s3)" "send_extended_handshake C H (supports_extended hs) s3 = (Inr u, s')"
    using e by (cases "on_handler (ch_on_handshake H hs) s2"; cases "fst (on_handler (ch_on_handshake H hs) s2)") auto
  have i: "inv (cx_handler s3)" "cx_sent s3 = cx_sent s1"
    using s3(1) k on_handshake [OF on_connected [OF assms(1)], of hs] by (auto simp: on_handler_def Let_def)
  show ?thesis using send_extended_sends [OF s3(2)] hs i by (intro exI [of _ hs] exI [of _ "cx_handler s3"]) (simp add: s1_def)
qed

lemma incoming_sends:
  assumes "inv (cx_handler s)" "manage_peer_incoming C H hs s = (Inr u, s')"
  shows "hs_info_hash hs = pc_info_hash C \<and> hs_peer_id hs \<noteq> pc_peer_id C \<and> inv (cx_handler s') \<and>
    cx_sent s' = cx_sent s @ handshake_serialize (handshake_new (pc_info_hash C) (pc_peer_id C)) @
      written (pc_bencode C) my_ids (MExtended (ExtHandshake (my_extended_handshake C H (cx_handler s'))))"
proof -
  let ?hs = "handshake_new (pc_info_hash C) (pc_peer_id C)"
  define s1 where "s1 = s\<lparr>cx_sent := cx_sent s @ handshake_serialize ?hs\<rparr>"
  have g: "hs_info_hash hs = pc_info_hash C" "hs_peer_id hs \<noteq> pc_peer_id C"
    and e: "abind (on_handler (ch_on_handshake H ?hs) s1) (\<lambda>_. send_extended_handshake C H (supports_extended ?hs)) = (Inr u, s')"
    using assms(2) by (auto simp: manage_peer_incoming_def socket_write_def s1_def Let_def split: if_splits)
  obtain s3 where s3: "on_handler (ch_on_handshake H ?hs) s1 = (Inr (), s3)" "send_extended_handshake C H (supports_extended ?hs) s3 = (Inr u, s')"
    using e by (cases "on_handler (ch_on_handshake H ?hs) s1"; cases "fst (on_handler (ch_on_handshake H ?hs) s1)") auto
  have i: "inv (cx_handler s3)" "cx_sent s3 = cx_sent s1"
    using s3(1) on_handshake [OF assms(1), of ?hs] by (auto simp: on_handler_def Let_def s1_def)
  have "supports_extended ?hs" by (simp add: supports_extended_def handshake_new_def)
  then show ?thesis using send_extended_sends [OF s3(2)] g i by (simp add: s1_def)
qed

lemma crun_sends:
  assumes "crun C H R s started log s'" "inv (cx_handler s)" "\<forall>m \<in> set log. msg_ok (pc_bencode C) m \<and> plain m"
  shows "inv (cx_handler s') \<and> cx_sent s' = cx_sent s @ concat (map (written (pc_bencode C) my_ids) log)"
  using assms
proof (induction rule: crun.induct)
  case (writer_starts log s1 s2 ms)
  then show ?case using writer_start_sends [OF writer_starts.hyps(2,3)] by simp
next
  case (writes log s1 ev s2)
  then show ?case using writer_step_sends [of s1 ev s2] by simp
next
  case (reads started log s1 s2)
  then show ?case using reader_step_keeps [OF _ reads.hyps(2)] by simp
next
  case (others started log s1 h)
  then show ?case using others_keep [of "cx_handler s1" h] by simp
qed simp

end

text \<open>A reader that has a message before it hands it to the handler.\<close>

lemma reader_step_reads:
  assumes "rb_ok (cx_rb s)" "reserves (pc_grow C)" "msg_ok (pc_bencode C) m"
    and "unread (cx_rb s) @ arriving (cx_conn s) = written (pc_bencode C) my_ids m @ rest"
  shows "\<exists>rb c. reader_step C H s = dispatch H m (s\<lparr>cx_rb := rb, cx_conn := c\<rparr>) \<and> rb_ok rb \<and> unread rb @ arriving c = rest"
proof -
  obtain r rb c where r: "read_message (deserialize (pc_bencode C)) (pc_grow C) (cx_rb s) (cx_conn s) = (r, rb, c)"
    by (cases "read_message (deserialize (pc_bencode C)) (pc_grow C) (cx_rb s) (cx_conn s)")
  have "deserialize (pc_bencode C) (unread (cx_rb s) @ arriving (cx_conn s)) = Inr (m, length (written (pc_bencode C) my_ids m))"
    using message_roundtrip [OF assms(3), of rest] assms(4) by auto
  then have "r = Inr m" "rb_ok rb" "unread rb @ arriving c = rest"
    using wire.read_message_stream [OF assms(1,2) r] assms(4) by simp_all
  then show ?thesis using r by (auto simp: reader_step_def)
qed

text \<open>A peer whose handshake arrives in one portion is connected to.\<close>

lemma read_handshake_reads:
  assumes "length ih = 20" "length pid = 20" "bs \<noteq> []" "bs = handshake_serialize (handshake_new ih pid) @ extra"
  shows "\<exists>rb c. read_handshake read_buf_new (Arrives bs # es) = (Inr (handshake_new ih pid), rb, c) \<and> rb_ok rb \<and>
    unread rb @ arriving c = extra @ arriving es"
proof -
  let ?h = "handshake_serialize (handshake_new ih pid)" and ?space = "PIECE_MESSAGE_DEFAULT_LEN * 2"
  note h = handshake_roundtrip [OF assms(1,2)]
  have sp: "68 \<le> ?space" by (simp add: PIECE_MESSAGE_DEFAULT_LEN_def PIECE_MESSAGE_PREAMBLE_LEN_def PREAMBLE_LEN_def CHUNK_SIZE_def)
  obtain got c where r: "conn_read ?space (Arrives bs # es) = (Inr got, c)" by (cases "length bs \<le> ?space") auto
  then have g: "got = take ?space bs" by (auto split: if_splits)
  then have got: "got = ?h @ take (?space - 68) extra" using assms(4) h(2) sp by simp
  then have ne: "got \<noteq> []" using h(2) by auto
  have a: "take (?space - 68) extra @ arriving c = extra @ arriving es"
    using conn_read_arriving [OF r ne] got assms(3,4) h(2) by (cases "?h = []") auto
  define rb where "rb = (fill read_buf_new got)\<lparr>rb_processed := 68\<rparr>"
  have l: "length got \<le> ?space" by (rule conn_read_length [OF r])
  have "take (rb_filled (fill read_buf_new got)) (rb_buf (fill read_buf_new got)) = got" by (simp add: fill_def read_buf_new_def)
  then have "read_handshake read_buf_new (Arrives bs # es) = (Inr (handshake_new ih pid), rb, c)"
    using r ne h(1) got by (simp add: read_handshake_def read_buf_new_def Let_def rb_def del: conn_read.simps)
  moreover have "68 \<le> length got" using got h(2) by simp
  then have "rb_ok rb" "unread rb = drop 68 got" using l by (simp_all add: rb_def rb_ok_def unread_def fill_def read_buf_new_def)
  moreover have "drop 68 got = take (?space - 68) extra" using got h(2) by simp
  ultimately show ?thesis using a by auto
qed

lemma send_extended_ok:
  "\<forall>n. pc_write_ok C n \<Longrightarrow> \<exists>s'. send_extended_handshake C H b s = (Inr (), s') \<and> cx_handler s' = cx_handler s \<and> cx_rb s' = cx_rb s \<and> cx_conn s' = cx_conn s"
  by (simp add: send_extended_handshake_def serialize_def socket_write_def)

lemma outgoing_connects:
  assumes "\<forall>n. pc_write_ok C n" "length (pc_info_hash C) = 20" "length pid = 20" "pid \<noteq> pc_peer_id C"
    and "ch_on_handshake H (handshake_new (pc_info_hash C) pid) (ch_on_connected H (cx_handler s)) = (Inr (), h)"
  shows "\<exists>s'. manage_peer_outgoing C H (Inr (Arrives (handshake_serialize (handshake_new (pc_info_hash C) pid) @ extra) # es)) s = (Inr (), s') \<and>
    cx_handler s' = h \<and> rb_ok (cx_rb s') \<and> unread (cx_rb s') @ arriving (cx_conn s') = extra @ arriving es"
proof -
  let ?hs = "handshake_new (pc_info_hash C) pid"
  have ne: "handshake_serialize ?hs @ extra \<noteq> []" by (simp add: handshake_serialize_def)
  obtain rb c where r: "read_handshake read_buf_new (Arrives (handshake_serialize ?hs @ extra) # es) = (Inr ?hs, rb, c)" "rb_ok rb"
    "unread rb @ arriving c = extra @ arriving es"
    using read_handshake_reads [OF assms(2,3) ne refl] by blast
  define s2 where "s2 = s\<lparr>cx_sent := cx_sent s @ handshake_serialize (handshake_new (pc_info_hash C) (pc_peer_id C)), cx_rb := rb, cx_conn := c, cx_handler := h\<rparr>"
  obtain s' where s': "send_extended_handshake C H (supports_extended ?hs) s2 = (Inr (), s')" "cx_handler s' = h" "cx_rb s' = rb" "cx_conn s' = c"
    using send_extended_ok [OF assms(1), of H "supports_extended ?hs" s2] by (auto simp: s2_def)
  have "manage_peer_outgoing C H (Inr (Arrives (handshake_serialize ?hs @ extra) # es)) s = (Inr (), s')"
    using r(1) assms(1,4,5) s'(1)
    by (simp add: manage_peer_outgoing_def socket_write_def read_peer_handshake_def on_handler_def s2_def Let_def)
      (simp add: handshake_new_def)
  then show ?thesis using s' r by auto
qed

end
