(* ===== verification/Peer_Info.thy ===== *)
theory Peer_Info
  imports Peer_Connection Metadata
begin

text \<open>
  Reading the metadata of a magnet link from a peer: after the extension handshake the metadata is requested in chunks, collected in a
  buffer of the announced size and, once complete, checked against the info hash of the link and decoded. The digest and the decoder
  are parameters. Shown is that whatever a peer sends, what is returned has the digest of the link, and that a peer which sends the
  metadata, its chunks in any order, is read to the end.

  Source: \<^verbatim>\<open>peer_info_reader/mod.rs\<close>.
\<close>

subsection \<open>The chunks of the metadata\<close>

record handler_locked =
  hl_metadata_size :: nat
  hl_total_pieces :: nat
  hl_buffer :: "nat list"
  hl_received_pieces :: "bool list"

definition handler_locked_new :: "nat \<Rightarrow> handler_locked res" where
  "handler_locked_new metadata_size =
     (if metadata_size > 32 * 1024 * 1024 then Inl (Bail ''metadata size is too big'')
      else
        let n = div_ceil metadata_size CHUNK_SIZE
        in Inr \<lparr>hl_metadata_size = metadata_size, hl_total_pieces = n, hl_buffer = replicate metadata_size 0,
                hl_received_pieces = replicate n False\<rparr>)"

definition hl_piece_size :: "handler_locked \<Rightarrow> nat \<Rightarrow> nat" where
  "hl_piece_size hl index =
     (if index = sub64 (hl_total_pieces hl) 1 then last_element_size (hl_metadata_size hl) CHUNK_SIZE else CHUNK_SIZE)"

definition record_piece :: "(nat list \<Rightarrow> id20) \<Rightarrow> handler_locked \<Rightarrow> nat \<Rightarrow> nat list \<Rightarrow> id20 \<Rightarrow> bool res \<times> handler_locked" where
  "record_piece sha1 hl index data info_hash =
     (if index \<ge> hl_total_pieces hl then (Inl (Bail ''wrong index''), hl)
      else
        let offset = mul32 index CHUNK_SIZE; n = hl_piece_size hl index
        in if length data \<noteq> n then (Inl (Bail ''unexpected length of piece''), hl)
           else if hl_received_pieces hl ! index then (Inl (Bail ''already received piece''), hl)
           else if offset + n > length (hl_buffer hl) then (Inl Panic, hl)
           else
             let hl = hl\<lparr>hl_buffer := take offset (hl_buffer hl) @ data @ drop (offset + n) (hl_buffer hl),
                         hl_received_pieces := (hl_received_pieces hl)[index := True]\<rparr>
             in if list_all (\<lambda>p. p) (hl_received_pieces hl) then
                  if sha1 (hl_buffer hl) \<noteq> info_hash then (Inl (Bail ''info checksum invalid''), hl) else (Inr True, hl)
                else (Inr False, hl))"

subsection \<open>The handler\<close>

text \<open>What is sent to the writer is collected; the result goes over a channel that takes one.\<close>

record meta_handler =
  mh_info_hash :: id20
  mh_writer :: "writer_request list"
  mh_result_tx :: bool
  mh_result :: "(meta_info \<times> nat list) res option"
  mh_locked :: "handler_locked option"

definition meta_handler_new :: "id20 \<Rightarrow> meta_handler" where
  "meta_handler_new info_hash = \<lparr>mh_info_hash = info_hash, mh_writer = [], mh_result_tx = True, mh_result = None, mh_locked = None\<rparr>"

definition meta_on_handshake :: "handshake \<Rightarrow> meta_handler \<Rightarrow> unit res \<times> meta_handler" where
  "meta_on_handshake hs h =
     (if \<not> supports_extended hs then
        (Inl (Bail ''this peer does not support extended handshaking, which is a prerequisite to download metadata''), h)
      else (Inr (), h))"

definition send_result :: "(meta_info \<times> nat list) res \<Rightarrow> meta_handler \<Rightarrow> unit res \<times> meta_handler" where
  "send_result info h =
     (if \<not> mh_result_tx h then (Inl (Bail ''oneshot is consumed''), h) else (Inr (), h\<lparr>mh_result_tx := False, mh_result := Some info\<rparr>))"

definition meta_on_received_message ::
  "(nat list \<Rightarrow> id20) \<Rightarrow> (nat list \<Rightarrow> meta_info res) \<Rightarrow> message \<Rightarrow> meta_handler \<Rightarrow> unit res \<times> meta_handler" where
  "meta_on_received_message sha1 parse msg h =
     (case msg of
        MExtended (UtMetadata (UtData piece _ data)) \<Rightarrow>
          (case mh_locked h of
             None \<Rightarrow> (Inl Panic, h)
           | Some hl \<Rightarrow>
               (case record_piece sha1 hl piece data (mh_info_hash h) of
                  (Inl e, hl) \<Rightarrow> (Inl e, h\<lparr>mh_locked := Some hl\<rparr>)
                | (Inr piece_ready, hl) \<Rightarrow>
                    if piece_ready then
                      send_result (rbind (parse (hl_buffer hl)) (\<lambda>i. Inr (i, hl_buffer hl))) (h\<lparr>mh_locked := None\<rparr>)
                    else (Inr (), h\<lparr>mh_locked := Some hl\<rparr>)))
      | _ \<Rightarrow> (Inr (), h))"

definition metadata_requests :: "nat \<Rightarrow> writer_request list" where
  "metadata_requests n = map (\<lambda>i. WMessage (MExtended (UtMetadata (UtRequest i)))) [0..<n]"

definition meta_on_extended_handshake :: "extended_handshake \<Rightarrow> meta_handler \<Rightarrow> unit res \<times> meta_handler" where
  "meta_on_extended_handshake eh h =
     (case eh_metadata_size eh of
        None \<Rightarrow> (Inl (Bail ''peer does not have metadata_size''), h)
      | Some metadata_size \<Rightarrow>
          if eh_ut_metadata eh = None then (Inl (Bail ''peer does not support ut_metadata''), h)
          else
            let h = h\<lparr>mh_writer := mh_writer h @ [WMessage MUnchoke, WMessage MInterested]\<rparr>
            in (case handler_locked_new metadata_size of
                  Inl e \<Rightarrow> (Inl e, h)
                | Inr inner \<Rightarrow>
                    (Inr (), h\<lparr>mh_locked := Some inner, mh_writer := mh_writer h @ metadata_requests (hl_total_pieces inner)\<rparr>)))"

definition metadata_reader :: "(nat list \<Rightarrow> id20) \<Rightarrow> (nat list \<Rightarrow> meta_info res) \<Rightarrow> meta_handler connection_handler" where
  "metadata_reader sha1 parse =
     \<lparr>ch_on_connected = (\<lambda>h. h), ch_should_send_bitfield = (\<lambda>h. False), ch_bitfield = (\<lambda>h. Inr []), ch_on_handshake = meta_on_handshake,
      ch_on_extended_handshake = meta_on_extended_handshake, ch_on_received_message = meta_on_received_message sha1 parse,
      ch_should_transmit_have = (\<lambda>h i. False), ch_on_uploaded_bytes = (\<lambda>n h. h),
      ch_read_chunk = (\<lambda>h c. Inl (Bail ''the peer is not supposed to be requesting chunks'')), ch_update_my_extended_handshake = (\<lambda>h e. e)\<rparr>"

text \<open>The connection and the result are awaited together, and the result is taken as soon as it is there. \<open>n\<close> bounds the number of
  messages read.\<close>

fun read_until_result :: "peer_connection \<Rightarrow> meta_handler connection_handler \<Rightarrow> nat \<Rightarrow> meta_handler connection \<Rightarrow> (meta_info \<times> nat list) res option" where
  "read_until_result C H 0 s = None"
| "read_until_result C H (Suc n) s =
     (case reader_step C H s of
        (Inl e, s) \<Rightarrow> (case mh_result (cx_handler s) of Some r \<Rightarrow> Some r | None \<Rightarrow> Some (Inl e))
      | (Inr _, s) \<Rightarrow> (case mh_result (cx_handler s) of Some r \<Rightarrow> Some r | None \<Rightarrow> read_until_result C H n s))"

definition read_metainfo_from_peer ::
  "peer_connection \<Rightarrow> (nat list \<Rightarrow> id20) \<Rightarrow> (nat list \<Rightarrow> meta_info res) \<Rightarrow> conn res \<Rightarrow> nat \<Rightarrow> (meta_info \<times> nat list) res option" where
  "read_metainfo_from_peer C sha1 parse connected n =
     (let H = metadata_reader sha1 parse;
          s = \<lparr>cx_handler = meta_handler_new (pc_info_hash C), cx_sent = [], cx_extended = None, cx_rb = read_buf_new, cx_conn = [],
               cx_broadcast_closed = False\<rparr>
      in case manage_peer_outgoing C H connected s of
           (Inl e, _) \<Rightarrow> Some (Inl e)
         | (Inr _, s) \<Rightarrow> read_until_result C H n s)"

subsection \<open>What is returned is what was asked for\<close>

definition meta_inv :: "(nat list \<Rightarrow> id20) \<Rightarrow> (nat list \<Rightarrow> meta_info res) \<Rightarrow> id20 \<Rightarrow> meta_handler \<Rightarrow> bool" where
  "meta_inv sha1 parse ih h \<longleftrightarrow> mh_info_hash h = ih \<and>
     (\<forall>r. mh_result h = Some r \<longrightarrow> (\<exists>buf. sha1 buf = ih \<and> r = rbind (parse buf) (\<lambda>i. Inr (i, buf))))"

lemma record_piece_ready: "record_piece sha1 hl index data ih = (Inr True, hl') \<Longrightarrow> sha1 (hl_buffer hl') = ih"
  by (auto simp: record_piece_def Let_def split: if_splits)

lemma meta_message_inv: "meta_inv sha1 parse ih h \<Longrightarrow> meta_inv sha1 parse ih (snd (meta_on_received_message sha1 parse m h))"
  by (auto simp: meta_on_received_message_def meta_inv_def send_result_def dest: record_piece_ready
      split: message.split extended_message.split ut_metadata.split option.split prod.split sum.split)

lemma meta_handshake_inv: "meta_inv sha1 parse ih h \<Longrightarrow> meta_inv sha1 parse ih (snd (meta_on_extended_handshake e h))"
  by (auto simp: meta_on_extended_handshake_def meta_inv_def Let_def split: option.split sum.split)

interpretation metadata: connection_interface C "metadata_reader sha1 parse" "(=)" "meta_inv sha1 parse ih" for C sha1 parse ih
  by unfold_locales (simp_all add: metadata_reader_def meta_message_inv meta_handshake_inv meta_on_handshake_def)

lemma meta_new_inv: "meta_inv sha1 parse ih (meta_handler_new ih)"
  by (simp add: meta_inv_def meta_handler_new_def)

lemma metadata_read_authentic:
  assumes "manage_peer_outgoing C (metadata_reader sha1 parse) connected
      \<lparr>cx_handler = meta_handler_new (pc_info_hash C), cx_sent = [], cx_extended = None, cx_rb = read_buf_new, cx_conn = [], cx_broadcast_closed = False\<rparr>
      = (Inr u, s)"
    and "crun C (metadata_reader sha1 parse) (=) s started log s'" "mh_result (cx_handler s') = Some (Inr (info, bytes))"
  shows "sha1 bytes = pc_info_hash C \<and> parse bytes = Inr info"
proof -
  have "meta_inv sha1 parse (pc_info_hash C) (cx_handler s)"
    using metadata.outgoing_sends [OF _ assms(1), of "pc_info_hash C"] meta_new_inv by auto
  from metadata.crun_inv [OF assms(2) this] obtain buf where "sha1 buf = pc_info_hash C" "rbind (parse buf) (\<lambda>i. Inr (i, buf)) = Inr (info, bytes)"
    using assms(3) by (fastforce simp: meta_inv_def)
  then show ?thesis by (auto simp: rbind_eq_Inr)
qed

text \<open>Whatever a peer sends and in whatever portions and order, metadata that is returned for a magnet link has the info hash of the link
  as its digest and is decoded from exactly those bytes.\<close>

theorem metadata_authentic:
  assumes "manage_peer_outgoing C (metadata_reader sha1 parse) connected
      \<lparr>cx_handler = meta_handler_new (pc_info_hash C), cx_sent = [], cx_extended = None, cx_rb = read_buf_new, cx_conn = [], cx_broadcast_closed = False\<rparr>
      = (Inr u, s)"
    and "crun C (metadata_reader sha1 parse) (=) s started log s'" "mh_result (cx_handler s') = Some (Inr (info, bytes))"
  shows "sha1 bytes = pc_info_hash C \<and> parse bytes = Inr info"
  by (rule metadata_read_authentic [OF assms])

subsection \<open>Complete metadata is found\<close>

text \<open>The chunk of the metadata a peer answers a request with.\<close>

definition metadata_chunk :: "nat list \<Rightarrow> nat \<Rightarrow> nat list" where
  "metadata_chunk meta i = take CHUNK_SIZE (drop (i * CHUNK_SIZE) meta)"

definition metadata_message :: "nat list \<Rightarrow> nat \<Rightarrow> message" where
  "metadata_message meta i = MExtended (UtMetadata (UtData i (length meta) (metadata_chunk meta i)))"

definition collected :: "nat list \<Rightarrow> nat set \<Rightarrow> handler_locked \<Rightarrow> bool" where
  "collected meta S hl \<longleftrightarrow>
     hl_metadata_size hl = length meta \<and> hl_total_pieces hl = div_ceil (length meta) CHUNK_SIZE \<and> length (hl_buffer hl) = length meta \<and>
     length (hl_received_pieces hl) = hl_total_pieces hl \<and> (\<forall>i < hl_total_pieces hl. hl_received_pieces hl ! i \<longleftrightarrow> i \<in> S) \<and>
     (\<forall>j < length meta. j div CHUNK_SIZE \<in> S \<longrightarrow> hl_buffer hl ! j = meta ! j)"

lemma chunk_bounds:
  assumes "i < div_ceil n CHUNK_SIZE" "n \<le> 32 * 1024 * 1024"
  shows "i * CHUNK_SIZE < n" "mul32 i CHUNK_SIZE = i * CHUNK_SIZE"
proof -
  show "i * CHUNK_SIZE < n" using assms(1) by (simp add: less_div_ceil_iff)
  then show "mul32 i CHUNK_SIZE = i * CHUNK_SIZE" using assms(2) by (intro mul32_exact) simp
qed

lemma length_metadata_chunk:
  assumes "collected meta S hl" "i < hl_total_pieces hl" "length meta \<le> 32 * 1024 * 1024"
  shows "length (metadata_chunk meta i) = hl_piece_size hl i" "i * CHUNK_SIZE + length (metadata_chunk meta i) \<le> length meta"
proof -
  define n where "n = div_ceil (length meta) CHUNK_SIZE"
  have n: "hl_total_pieces hl = n" "hl_metadata_size hl = length meta" "i < n" using assms by (simp_all add: collected_def n_def)
  have i: "i * CHUNK_SIZE < length meta" using chunk_bounds(1) assms(3) n(3) by (simp add: n_def)
  have "n \<le> length meta" unfolding n_def by (subst div_ceil_le_iff) (simp_all add: le_mult_pos)
  then have s: "sub64 n 1 = n - 1" using assms(3) n(3) by (simp add: sub64_exact)
  have l: "length (metadata_chunk meta i) = min CHUNK_SIZE (length meta - i * CHUNK_SIZE)" by (simp add: metadata_chunk_def)
  then show "i * CHUNK_SIZE + length (metadata_chunk meta i) \<le> length meta" using i by simp
  show "length (metadata_chunk meta i) = hl_piece_size hl i"
  proof (cases "i = n - 1")
    case True
    have "length meta \<le> n * CHUNK_SIZE" using div_ceil_le_iff [of CHUNK_SIZE "length meta" n] by (simp add: n_def)
    moreover have "n * CHUNK_SIZE = i * CHUNK_SIZE + CHUNK_SIZE" using True n(3) by (cases n) simp_all
    moreover have "last_element_size (length meta) CHUNK_SIZE = length meta - i * CHUNK_SIZE"
      using last_element_size_eq [of "length meta" CHUNK_SIZE] i True by (cases "meta = []") (simp_all add: n_def)
    ultimately show ?thesis using l s n True by (simp add: hl_piece_size_def)
  next
    case False
    then have "Suc i < n" using n(3) by simp
    then have "Suc i * CHUNK_SIZE < length meta" unfolding n_def by (simp only: less_div_ceil_iff [OF CHUNK_SIZE_pos])
    then show ?thesis using l s n False by (simp add: hl_piece_size_def)
  qed
qed

lemma nth_overwrite:
  assumes "off + length d \<le> length buf" "j < length buf"
  shows "(take off buf @ d @ drop (off + length d) buf) ! j = (if off \<le> j \<and> j < off + length d then d ! (j - off) else buf ! j)"
  using assms by (auto simp: nth_append)

lemma record_piece_collects:
  assumes "collected meta S hl" "i < hl_total_pieces hl" "i \<notin> S" "length meta \<le> 32 * 1024 * 1024" "sha1 meta = ih"
  shows "\<exists>hl'. record_piece sha1 hl i (metadata_chunk meta i) ih = (Inr (\<forall>k < hl_total_pieces hl. k \<in> insert i S), hl') \<and> collected meta (insert i S) hl' \<and>
    ((\<forall>k < hl_total_pieces hl. k \<in> insert i S) \<longrightarrow> hl_buffer hl' = meta)"
proof -
  let ?d = "metadata_chunk meta i" and ?off = "i * CHUNK_SIZE"
  note l = length_metadata_chunk [OF assms(1,2,4)]
  have off: "mul32 i CHUNK_SIZE = ?off" using chunk_bounds(2) assms(1,2,4) by (simp add: collected_def)
  define hl' where "hl' = hl\<lparr>hl_buffer := take ?off (hl_buffer hl) @ ?d @ drop (?off + length ?d) (hl_buffer hl),
    hl_received_pieces := (hl_received_pieces hl)[i := True]\<rparr>"
  have "hl_buffer hl' ! j = meta ! j" if j: "j < length meta" "j div CHUNK_SIZE \<in> insert i S" for j
  proof (cases "?off \<le> j \<and> j < ?off + length ?d")
    case True
    then have "?d ! (j - ?off) = meta ! (?off + (j - ?off))" unfolding metadata_chunk_def by (subst nth_take) auto
    then show ?thesis using True nth_overwrite [of ?off ?d "hl_buffer hl" j] assms(1) l(2) j(1) by (simp add: hl'_def collected_def)
  next
    case False
    have "j div CHUNK_SIZE \<noteq> i"
    proof
      assume "j div CHUNK_SIZE = i"
      then have "?off \<le> j" "j < ?off + CHUNK_SIZE" using dividend_less_div_times [of CHUNK_SIZE j] by (auto simp: add.commute)
      then show False using False j(1) by (simp add: metadata_chunk_def)
    qed
    then show ?thesis using False nth_overwrite [of ?off ?d "hl_buffer hl" j] assms(1) l(2) j by (auto simp: hl'_def collected_def)
  qed
  then have c: "collected meta (insert i S) hl'"
    using assms(1,2) l by (auto simp: collected_def hl'_def nth_list_update)
  have a: "list_all (\<lambda>p. p) (hl_received_pieces hl') \<longleftrightarrow> (\<forall>k < hl_total_pieces hl. k \<in> insert i S)"
    using c by (simp add: collected_def list_all_length hl'_def)
  have b: "hl_buffer hl' = meta" if "\<forall>k < hl_total_pieces hl. k \<in> insert i S"
  proof (rule nth_equalityI)
    fix j assume "j < length (hl_buffer hl')"
    then have j: "j < length meta" using c by (simp add: collected_def)
    have "j div CHUNK_SIZE * CHUNK_SIZE < length meta" by (rule le_less_trans [OF _ j]) simp
    then have "j div CHUNK_SIZE < hl_total_pieces hl" using assms(1) by (simp add: collected_def less_div_ceil_iff)
    then have "j div CHUNK_SIZE \<in> insert i S" using that by blast
    then show "hl_buffer hl' ! j = meta ! j" using c j by (simp add: collected_def del: insert_iff)
  qed (use c in \<open>simp add: collected_def\<close>)
  have "record_piece sha1 hl i ?d ih = (if list_all (\<lambda>p. p) (hl_received_pieces hl')
      then if sha1 (hl_buffer hl') \<noteq> ih then (Inl (Bail ''info checksum invalid''), hl') else (Inr True, hl') else (Inr False, hl'))"
    using assms(1-3) l off by (simp add: record_piece_def Let_def collected_def hl'_def)
  then show ?thesis using a b c assms(5) by auto
qed

lemma meta_message_collects:
  assumes "mh_locked h = Some hl" "collected meta S hl" "i < hl_total_pieces hl" "i \<notin> S" "length meta \<le> 32 * 1024 * 1024" "sha1 meta = mh_info_hash h"
    "mh_result_tx h"
  shows "\<exists>h'. meta_on_received_message sha1 parse (metadata_message meta i) h = (Inr (), h') \<and>
    (if \<forall>k < hl_total_pieces hl. k \<in> insert i S then mh_result h' = Some (rbind (parse meta) (\<lambda>i. Inr (i, meta)))
     else mh_result h' = mh_result h \<and> mh_result_tx h' \<and> mh_info_hash h' = mh_info_hash h \<and>
       (\<exists>hl'. mh_locked h' = Some hl' \<and> collected meta (insert i S) hl'))"
proof -
  let ?all = "\<forall>k < hl_total_pieces hl. k \<in> insert i S"
  obtain hl' where "record_piece sha1 hl i (metadata_chunk meta i) (mh_info_hash h) = (Inr ?all, hl')" "collected meta (insert i S) hl'"
    "?all \<longrightarrow> hl_buffer hl' = meta"
    using record_piece_collects [OF assms(2-5), of sha1 "mh_info_hash h"] assms(6) by blast
  moreover have "meta_on_received_message sha1 parse (metadata_message meta i) h = (if ?all
      then (Inr (), h\<lparr>mh_locked := None, mh_result_tx := False, mh_result := Some (rbind (parse (hl_buffer hl')) (\<lambda>i. Inr (i, hl_buffer hl')))\<rparr>)
      else (Inr (), h\<lparr>mh_locked := Some hl'\<rparr>))"
    using calculation(1) assms(1,7) by (simp add: meta_on_received_message_def metadata_message_def send_result_def del: insert_iff) blast
  ultimately show ?thesis using assms(7) by (cases ?all) (auto simp del: insert_iff)
qed

lemma collected_new: "handler_locked_new (length meta) = Inr hl \<Longrightarrow> collected meta {} hl"
  by (auto simp: handler_locked_new_def collected_def Let_def split: if_splits)

lemma read_chunks:
  assumes "reserves (pc_grow C)" "length meta \<le> 32 * 1024 * 1024" "sha1 meta = mh_info_hash (cx_handler s)"
    and "js \<noteq> []" "distinct js" "set js \<inter> S = {}" "set js \<union> S = {..<hl_total_pieces hl}" "\<forall>i \<in> set js. msg_ok (pc_bencode C) (metadata_message meta i)"
    and "mh_locked (cx_handler s) = Some hl" "collected meta S hl" "mh_result (cx_handler s) = None" "mh_result_tx (cx_handler s)"
    and "rb_ok (cx_rb s)" "unread (cx_rb s) @ arriving (cx_conn s) = concat (map (written (pc_bencode C) my_ids) (map (metadata_message meta) js)) @ rest"
  shows "read_until_result C (metadata_reader sha1 parse) (length js) s = Some (rbind (parse meta) (\<lambda>i. Inr (i, meta)))"
  using assms(3-)
proof (induction js arbitrary: s S hl)
  case (Cons i js)
  let ?H = "metadata_reader sha1 parse"
  obtain rb c where r: "reader_step C ?H s = dispatch ?H (metadata_message meta i) (s\<lparr>cx_rb := rb, cx_conn := c\<rparr>)" "rb_ok rb"
    "unread rb @ arriving c = concat (map (written (pc_bencode C) my_ids) (map (metadata_message meta) js)) @ rest"
    using reader_step_reads [of s C "metadata_message meta i" "concat (map (written (pc_bencode C) my_ids) (map (metadata_message meta) js)) @ rest" ?H]
      Cons.prems(6,11,12) assms(1) by auto
  have i: "i < hl_total_pieces hl" "i \<notin> S" using Cons.prems(4,5) by auto
  let ?all = "\<forall>k < hl_total_pieces hl. k \<in> insert i S"
  obtain h' where h': "meta_on_received_message sha1 parse (metadata_message meta i) (cx_handler s) = (Inr (), h')"
    "if ?all then mh_result h' = Some (rbind (parse meta) (\<lambda>i. Inr (i, meta)))
     else mh_result h' = mh_result (cx_handler s) \<and> mh_result_tx h' \<and> mh_info_hash h' = mh_info_hash (cx_handler s) \<and>
       (\<exists>hl'. mh_locked h' = Some hl' \<and> collected meta (insert i S) hl')"
    using meta_message_collects [OF Cons.prems(7,8) i assms(2), of sha1 parse] Cons.prems(1,10) by blast
  define s' where "s' = s\<lparr>cx_rb := rb, cx_conn := c, cx_handler := h'\<rparr>"
  have step: "reader_step C ?H s = (Inr (), s')"
    using r(1) h'(1) by (simp add: dispatch_def metadata_message_def on_handler_def metadata_reader_def s'_def)
  show ?case
  proof (cases ?all)
    case True
    then show ?thesis using step h'(2) by (simp add: s'_def)
  next
    case False
    then obtain hl' where hl': "mh_locked h' = Some hl'" "collected meta (insert i S) hl'" "mh_result h' = None" "mh_result_tx h'"
      "mh_info_hash h' = mh_info_hash (cx_handler s)" using h'(2) Cons.prems(9) by (auto simp only: if_False)
    have t: "hl_total_pieces hl' = hl_total_pieces hl" using hl'(2) Cons.prems(8) by (simp add: collected_def)
    have "js \<noteq> []"
    proof
      assume "js = []"
      then have "insert i S = {..<hl_total_pieces hl}" using Cons.prems(5) by simp
      then show False using False by (simp only: lessThan_iff) blast
    qed
    then have "read_until_result C ?H (length js) s' = Some (rbind (parse meta) (\<lambda>i. Inr (i, meta)))"
      using Cons.IH [of s' "insert i S" hl'] Cons.prems hl' t r(2,3) by (auto simp: s'_def)
    then show ?thesis using step hl'(3) by (simp add: s'_def)
  qed
qed simp

lemma meta_handshake_starts:
  assumes "eh_metadata_size eh = Some (length meta)" "eh_ut_metadata eh \<noteq> None" "length meta \<le> 32 * 1024 * 1024"
  shows "\<exists>h' hl. meta_on_extended_handshake eh h = (Inr (), h') \<and> mh_locked h' = Some hl \<and> collected meta {} hl \<and> mh_info_hash h' = mh_info_hash h \<and>
    mh_result h' = mh_result h \<and> mh_result_tx h' = mh_result_tx h"
proof -
  obtain hl where "handler_locked_new (length meta) = Inr hl" using assms(3) by (simp add: handler_locked_new_def Let_def)
  then show ?thesis using assms(1,2) collected_new [of meta hl] by (simp add: meta_on_extended_handshake_def)
qed

lemma complete_metadata_read:
  assumes "sha1 meta = pc_info_hash C" "meta \<noteq> []" "length meta \<le> 32 * 1024 * 1024" "eh_metadata_size eh = Some (length meta)" "eh_ut_metadata eh \<noteq> None"
    and "distinct js" "set js = {..<div_ceil (length meta) CHUNK_SIZE}"
    and "\<forall>n. pc_write_ok C n" "reserves (pc_grow C)" "length (pc_info_hash C) = 20" "length pid = 20" "pid \<noteq> pc_peer_id C"
  defines "ms \<equiv> MExtended (ExtHandshake eh) # map (metadata_message meta) js"
  assumes "\<forall>m \<in> set ms. msg_ok (pc_bencode C) m" "extra @ arriving es = concat (map (written (pc_bencode C) my_ids) ms) @ rest"
  defines "s0 \<equiv> \<lparr>cx_handler = meta_handler_new (pc_info_hash C), cx_sent = [], cx_extended = None, cx_rb = read_buf_new, cx_conn = [], cx_broadcast_closed = False\<rparr>"
  shows "\<exists>s. manage_peer_outgoing C (metadata_reader sha1 parse) (Inr (Arrives (handshake_serialize (handshake_new (pc_info_hash C) pid) @ extra) # es)) s0 = (Inr (), s) \<and>
    mh_result (cx_handler s) = None \<and> read_until_result C (metadata_reader sha1 parse) (Suc (length js)) s = Some (rbind (parse meta) (\<lambda>i. Inr (i, meta)))"
proof -
  let ?H = "metadata_reader sha1 parse"
  let ?s = s0
  have "ch_on_handshake ?H (handshake_new (pc_info_hash C) pid) (ch_on_connected ?H (cx_handler ?s)) = (Inr (), meta_handler_new (pc_info_hash C))"
    using handshake_roundtrip(3) [OF assms(10,11)] by (simp add: metadata_reader_def meta_on_handshake_def s0_def)
  from outgoing_connects [OF assms(8,10-12) this, of extra es] obtain s where
    s: "manage_peer_outgoing C ?H (Inr (Arrives (handshake_serialize (handshake_new (pc_info_hash C) pid) @ extra) # es)) ?s = (Inr (), s)"
      "cx_handler s = meta_handler_new (pc_info_hash C)" "rb_ok (cx_rb s)" "unread (cx_rb s) @ arriving (cx_conn s) = extra @ arriving es"
    by blast
  let ?rest = "concat (map (written (pc_bencode C) my_ids) (map (metadata_message meta) js)) @ rest"
  obtain rb c where r: "reader_step C ?H s = dispatch ?H (MExtended (ExtHandshake eh)) (s\<lparr>cx_rb := rb, cx_conn := c\<rparr>)" "rb_ok rb"
    "unread rb @ arriving c = ?rest"
    using reader_step_reads [OF s(3) assms(9), of "MExtended (ExtHandshake eh)" ?rest ?H] assms(14,15) s(4) by (auto simp: ms_def)
  obtain h hl where h: "meta_on_extended_handshake eh (cx_handler s) = (Inr (), h)" "mh_locked h = Some hl" "collected meta {} hl"
    "mh_info_hash h = pc_info_hash C" "mh_result h = None" "mh_result_tx h"
    using meta_handshake_starts [OF assms(4,5,3), of "cx_handler s"] s(2) by (auto simp: meta_handler_new_def)
  define s1 where "s1 = s\<lparr>cx_rb := rb, cx_conn := c, cx_extended := Some eh, cx_handler := h\<rparr>"
  have step: "reader_step C ?H s = (Inr (), s1)" using r(1) h(1) by (simp add: dispatch_def on_handler_def metadata_reader_def s1_def)
  have "0 < div_ceil (length meta) CHUNK_SIZE" using assms(2) by (intro div_ceil_pos) simp_all
  then have "0 \<in> set js" by (simp only: assms(7) lessThan_iff)
  then have ne: "js \<noteq> []" by (cases js) simp_all
  have t: "set js \<union> {} = {..<hl_total_pieces hl}" using h(3) assms(7) by (simp add: collected_def)
  have "sha1 meta = mh_info_hash (cx_handler s1)" "\<forall>i \<in> set js. msg_ok (pc_bencode C) (metadata_message meta i)"
    "mh_locked (cx_handler s1) = Some hl" "mh_result (cx_handler s1) = None" "mh_result_tx (cx_handler s1)" "rb_ok (cx_rb s1)"
    "unread (cx_rb s1) @ arriving (cx_conn s1) = ?rest"
    using assms(1,14) h r(2,3) by (simp_all add: s1_def ms_def)
  note k = this
  have "read_until_result C ?H (length js) s1 = Some (rbind (parse meta) (\<lambda>i. Inr (i, meta)))"
    using read_chunks [OF assms(9,3), of sha1 s1 js "{}" hl rest parse] k ne assms(6) t h(3) by simp
  then show ?thesis using s(1,2) step h(5) by (simp add: s1_def meta_handler_new_def)
qed

text \<open>C6: The metadata of a magnet link is read from a peer that has it: when the peer answers the handshake, announces the size of the
  metadata and sends its chunks, each once and in any order, however the bytes are divided into portions, the metadata is returned
  after as many messages as there are chunks and one.\<close>

theorem metadata_is_read:
  assumes "sha1 meta = pc_info_hash C" "meta \<noteq> []" "length meta \<le> 32 * 1024 * 1024" "eh_metadata_size eh = Some (length meta)" "eh_ut_metadata eh \<noteq> None"
    and "distinct js" "set js = {..<div_ceil (length meta) CHUNK_SIZE}"
    and "\<forall>n. pc_write_ok C n" "reserves (pc_grow C)" "length (pc_info_hash C) = 20" "length pid = 20" "pid \<noteq> pc_peer_id C"
  defines "ms \<equiv> MExtended (ExtHandshake eh) # map (metadata_message meta) js"
  assumes "\<forall>m \<in> set ms. msg_ok (pc_bencode C) m" "extra @ arriving es = concat (map (written (pc_bencode C) my_ids) ms) @ rest"
  shows "read_metainfo_from_peer C sha1 parse (Inr (Arrives (handshake_serialize (handshake_new (pc_info_hash C) pid) @ extra) # es)) (Suc (length js)) =
    Some (rbind (parse meta) (\<lambda>i. Inr (i, meta)))"
  using complete_metadata_read [of sha1 meta C eh js pid extra es rest parse] assms unfolding ms_def
  by (auto simp: read_metainfo_from_peer_def Let_def simp del: read_until_result.simps)

text \<open>Data that arrives before the size is known, or after all of it has arrived, finds no buffer.\<close>

lemma data_without_buffer: "mh_locked h = None \<Longrightarrow> meta_on_received_message sha1 parse (MExtended (UtMetadata (UtData i n data))) h = (Inl Panic, h)"
  by (simp add: meta_on_received_message_def)

text \<open>An announced size of 0 leaves nothing to ask for, so that no result is ever found.\<close>

lemma empty_metadata_requests_nothing: "eh_metadata_size eh = Some 0 \<Longrightarrow> eh_ut_metadata eh \<noteq> None \<Longrightarrow>
    snd (meta_on_extended_handshake eh h) = h\<lparr>mh_writer := mh_writer h @ [WMessage MUnchoke, WMessage MInterested],
      mh_locked := Some \<lparr>hl_metadata_size = 0, hl_total_pieces = 0, hl_buffer = [], hl_received_pieces = []\<rparr>\<rparr>"
  by (auto simp: meta_on_extended_handshake_def handler_locked_new_def metadata_requests_def div_ceil_def Let_def)

subsection \<open>An example\<close>

lemma failed_step_no_result: "reader_step C (metadata_reader sha1 parse) s = (Inl e, s') \<Longrightarrow> mh_result (cx_handler s') = mh_result (cx_handler s)"
proof -
  assume a: "reader_step C (metadata_reader sha1 parse) s = (Inl e, s')"
  have m: "meta_on_received_message sha1 parse m h = (Inl e, h') \<Longrightarrow> mh_result h' = mh_result h" for m h h'
    by (auto simp: meta_on_received_message_def send_result_def split: message.splits extended_message.splits ut_metadata.splits option.splits prod.splits sum.splits if_splits)
  have x: "mh_result (snd (meta_on_extended_handshake eh h)) = mh_result h" for eh h
    by (auto simp: meta_on_extended_handshake_def Let_def split: option.split sum.split)
  have d: "dispatch (metadata_reader sha1 parse) m s1 = (Inl e, s') \<Longrightarrow> mh_result (cx_handler s') = mh_result (cx_handler s1)" for m s1
    using m [of m "cx_handler s1"] x [of _ "cx_handler s1"]
    by (auto simp: dispatch_def on_handler_def metadata_reader_def Let_def prod_eq_iff split: message.splits extended_message.splits)
  obtain r rb c where "read_message (deserialize (pc_bencode C)) (pc_grow C) (cx_rb s) (cx_conn s) = (r, rb, c)"
    by (cases "read_message (deserialize (pc_bencode C)) (pc_grow C) (cx_rb s) (cx_conn s)")
  then show ?thesis using a d [of "projr r" "s\<lparr>cx_rb := rb, cx_conn := c\<rparr>"] by (cases r) (auto simp: reader_step_def)
qed

lemma result_of_run:
  assumes "read_until_result C (metadata_reader sha1 parse) n s = Some (Inr r)" "mh_result (cx_handler s) = None"
    and "crun C (metadata_reader sha1 parse) (=) s0 False [] s"
  shows "\<exists>s'. crun C (metadata_reader sha1 parse) (=) s0 False [] s' \<and> mh_result (cx_handler s') = Some (Inr r)"
  using assms
proof (induction n arbitrary: s)
  case (Suc n)
  obtain x s1 where x: "reader_step C (metadata_reader sha1 parse) s = (x, s1)" by (cases "reader_step C (metadata_reader sha1 parse) s")
  show ?case
  proof (cases x)
    case (Inl e)
    then show ?thesis using x failed_step_no_result [of C sha1 parse s e s1] Suc.prems(1,2) by simp
  next
    case (Inr u)
    then have "crun C (metadata_reader sha1 parse) (=) s0 False [] s1" using x crun.reads [OF Suc.prems(3), of s1] by simp
    then show ?thesis using x Inr Suc by (cases "mh_result (cx_handler s1)") auto
  qed
qed simp

text \<open>Metadata of one byte in one chunk.\<close>

definition ex_announcement :: extended_handshake where
  "ex_announcement = extended_handshake_new\<lparr>eh_metadata_size := Some (Suc 0)\<rparr>"

definition ex_codec :: bencode_env where
  "ex_codec = \<lparr>be_ser_handshake = (\<lambda>_. [1, 2, 3, 4, 5]), be_de_handshake = (\<lambda>_. Inr ex_announcement),
     be_ser_metadata = (\<lambda>(t, i, n). case n of None \<Rightarrow> [t, i, 0, 0, 0] | Some k \<Rightarrow> [t, i, 1, k, 0]),
     be_de_metadata = (\<lambda>bs. Inr ((bs ! 0, bs ! 1, if bs ! 2 = 0 then None else Some (bs ! 3)), drop 5 bs)),
     be_ser_pex = (\<lambda>_. []), be_de_pex = (\<lambda>_. Inl (Bail ''none'')), be_de_dyn = Inr\<rparr>"

definition ex_connection :: peer_connection where
  "ex_connection = \<lparr>pc_addr = (V4 1, 6881), pc_info_hash = replicate 20 7, pc_peer_id = replicate 20 1, pc_client = ''bt'', pc_bencode = ex_codec,
     pc_grow = (+), pc_write_ok = (\<lambda>_. True)\<rparr>"

definition ex_meta_info :: meta_info where
  "ex_meta_info = \<lparr>mi_name = None, mi_pieces = replicate 20 0, mi_piece_length = 1, mi_length = Some 1, mi_attr = None, mi_files = None, mi_private = False\<rparr>"

definition ex_arrivals :: "conn res" where
  "ex_arrivals = Inr [Arrives (handshake_serialize (handshake_new (replicate 20 7) (replicate 20 2))),
     Arrives (written ex_codec my_ids (MExtended (ExtHandshake ex_announcement))), Arrives (written ex_codec my_ids (metadata_message [9] 0))]"

lemma ex_codec_ok: "msg_ok ex_codec (MExtended (ExtHandshake ex_announcement))" "msg_ok ex_codec (metadata_message [9] 0)"
  by (auto simp: ex_codec_def metadata_message_def metadata_chunk_def CHUNK_SIZE_def split: option.split)

lemma ex_arrivals_bytes:
  "arriving [Arrives (written ex_codec my_ids (MExtended (ExtHandshake ex_announcement))), Arrives (written ex_codec my_ids (metadata_message [9] 0))] =
    concat (map (written ex_codec my_ids) (MExtended (ExtHandshake ex_announcement) # map (metadata_message [9]) [0])) @ []"
proof -
  have "written ex_codec my_ids (MExtended (ExtHandshake ex_announcement)) \<noteq> []" "written ex_codec my_ids (metadata_message [9] 0) \<noteq> []"
    using message_roundtrip [OF ex_codec_ok(1), of "[]"] message_roundtrip [OF ex_codec_ok(2), of "[]"] by (auto simp: deserialize_def)
  then show ?thesis by simp
qed

lemma ex_connection_ok:
  "eh_metadata_size ex_announcement = Some (length [9 :: nat])" "eh_ut_metadata ex_announcement \<noteq> None" "distinct [0 :: nat]"
  "set [0] = {..<div_ceil (length [9 :: nat]) CHUNK_SIZE}" "\<forall>n. pc_write_ok ex_connection n" "reserves (pc_grow ex_connection)"
  "pc_info_hash ex_connection = replicate 20 7" "pc_bencode ex_connection = ex_codec" "pc_peer_id ex_connection = replicate 20 1"
  by (auto simp: div_ceil_def CHUNK_SIZE_def reserves_def ex_connection_def ex_announcement_def extended_handshake_new_def eh_ut_metadata_def)

theorem metadata_is_read_witness:
  "read_metainfo_from_peer ex_connection (\<lambda>_. replicate 20 7) (\<lambda>_. Inr ex_meta_info) ex_arrivals (Suc (length [0 :: nat])) = Some (Inr (ex_meta_info, [9]))"
  using metadata_is_read [of "\<lambda>_. replicate 20 7" "[9]" ex_connection ex_announcement "[0]" "replicate 20 2" "[]"
      "[Arrives (written ex_codec my_ids (MExtended (ExtHandshake ex_announcement))), Arrives (written ex_codec my_ids (metadata_message [9] 0))]" "[]"
      "\<lambda>_. Inr ex_meta_info"] ex_connection_ok ex_codec_ok ex_arrivals_bytes
  unfolding ex_arrivals_def by (simp del: arriving.simps)

lemma ex_connection_run:
  "\<exists>s s'. manage_peer_outgoing ex_connection (metadata_reader (\<lambda>_. replicate 20 7) (\<lambda>_. Inr ex_meta_info)) ex_arrivals
      \<lparr>cx_handler = meta_handler_new (pc_info_hash ex_connection), cx_sent = [], cx_extended = None, cx_rb = read_buf_new, cx_conn = [], cx_broadcast_closed = False\<rparr>
      = (Inr (), s) \<and> crun ex_connection (metadata_reader (\<lambda>_. replicate 20 7) (\<lambda>_. Inr ex_meta_info)) (=) s False [] s' \<and>
      mh_result (cx_handler s') = Some (Inr (ex_meta_info, [9]))"
proof -
  let ?H = "metadata_reader (\<lambda>_. replicate 20 7) (\<lambda>_. Inr ex_meta_info)"
  let ?s = "\<lparr>cx_handler = meta_handler_new (pc_info_hash ex_connection), cx_sent = [], cx_extended = None, cx_rb = read_buf_new, cx_conn = [], cx_broadcast_closed = False\<rparr>"
  obtain s where s: "manage_peer_outgoing ex_connection ?H ex_arrivals ?s = (Inr (), s)" "mh_result (cx_handler s) = None"
    "read_until_result ex_connection ?H (Suc (length [0 :: nat])) s = Some (Inr (ex_meta_info, [9]))"
    using complete_metadata_read [of "\<lambda>_. replicate 20 7" "[9]" ex_connection ex_announcement "[0]" "replicate 20 2" "[]"
      "[Arrives (written ex_codec my_ids (MExtended (ExtHandshake ex_announcement))), Arrives (written ex_codec my_ids (metadata_message [9] 0))]" "[]"
      "\<lambda>_. Inr ex_meta_info"] ex_connection_ok ex_codec_ok ex_arrivals_bytes
    unfolding ex_arrivals_def by (auto simp del: arriving.simps read_until_result.simps)
  from result_of_run [OF s(3,2) crun.connected] s(1) show ?thesis by blast
qed

theorem metadata_authentic_witness:
  "\<exists>u s s'. manage_peer_outgoing ex_connection (metadata_reader (\<lambda>_. replicate 20 7) (\<lambda>_. Inr ex_meta_info)) ex_arrivals
      \<lparr>cx_handler = meta_handler_new (pc_info_hash ex_connection), cx_sent = [], cx_extended = None, cx_rb = read_buf_new, cx_conn = [], cx_broadcast_closed = False\<rparr>
      = (Inr u, s) \<and> crun ex_connection (metadata_reader (\<lambda>_. replicate 20 7) (\<lambda>_. Inr ex_meta_info)) (=) s False [] s' \<and>
      mh_result (cx_handler s') = Some (Inr (ex_meta_info, [9])) \<and> replicate 20 7 = pc_info_hash ex_connection"
  using ex_connection_run metadata_authentic [of ex_connection "\<lambda>_. replicate 20 7" "\<lambda>_. Inr ex_meta_info" ex_arrivals] by blast

end
