(* ===== verification/Live_Connection.thy ===== *)
theory Live_Connection
  imports Live_Props Peer_Connection
begin

text \<open>
  The handler of a connection that belongs to a running torrent: each call of the connection is the operation of the torrent for it.
  Shown is that a connection over real bytes is part of a run of the torrent, so that what holds of every reachable state of the
  torrent holds while peers talk to it in bytes, and that its peer reads exactly the messages the torrent asked to send.

  Source: \<^verbatim>\<open>torrent_state/live/mod.rs\<close>, the implementation of \<^verbatim>\<open>PeerConnectionHandler\<close>.
\<close>

subsection \<open>The handler\<close>

text \<open>What the handler of a connection works on: the torrent, what it keeps of the connection, and the clock.\<close>

record ('b, 's) live_link =
  lk_torrent :: "('b, 's) live_state"
  lk_peer :: peer_handler
  lk_now :: nat

definition live_bitfield :: "peer_connection \<Rightarrow> ('b, 's) live_link \<Rightarrow> nat list res" where
  "live_bitfield C k =
     rbind (serialize_bitfield_message (lk_torrent k)) (\<lambda>msg.
       rbind (serialize (pc_bencode C) no_extended_messages msg) (\<lambda>(len, buf). Inr (take len buf)))"

definition live_on_message :: "('b, 's) env \<Rightarrow> message \<Rightarrow> ('b, 's) live_link \<Rightarrow> unit res \<times> ('b, 's) live_link" where
  "live_on_message E msg k =
     (case on_received_message E (lk_now k) (lk_torrent k) (lk_peer k) msg of (r, st, h) \<Rightarrow> (r, k\<lparr>lk_torrent := st, lk_peer := h\<rparr>))"

definition live_read_chunk :: "('b, 's) env \<Rightarrow> ('b, 's) live_link \<Rightarrow> chunk_info \<Rightarrow> nat list res" where
  "live_read_chunk E k chunk = handler_read_chunk E (lk_torrent k) chunk (replicate (ci_size chunk) 0)"

text \<open>\<open>ms\<close> is the time the connection took. The task that an extension handshake starts is a step of the torrent of its own.\<close>

definition live_handler :: "('b, 's) env \<Rightarrow> peer_connection \<Rightarrow> nat \<Rightarrow> ('b, 's) live_link connection_handler" where
  "live_handler E C ms =
     \<lparr>ch_on_connected = (\<lambda>k. k\<lparr>lk_torrent := on_connected (lk_torrent k) (lk_peer k) ms\<rparr>),
      ch_should_send_bitfield = (\<lambda>k. should_send_bitfield (lk_torrent k)),
      ch_bitfield = live_bitfield C,
      ch_on_handshake = (\<lambda>hs k. (Inr (), k\<lparr>lk_torrent := on_handshake (lk_torrent k) (lk_peer k) (hs_peer_id hs)\<rparr>)),
      ch_on_extended_handshake = (\<lambda>hs k. (Inr (), k\<lparr>lk_torrent := snd (on_extended_handshake (lk_torrent k) (lk_peer k) hs)\<rparr>)),
      ch_on_received_message = live_on_message E,
      ch_should_transmit_have = (\<lambda>k i. should_transmit_have (lk_torrent k) (lk_peer k) i),
      ch_on_uploaded_bytes = (\<lambda>n k. k\<lparr>lk_torrent := on_uploaded_bytes (lk_torrent k) n\<rparr>),
      ch_read_chunk = live_read_chunk E,
      ch_update_my_extended_handshake = (\<lambda>k hs. update_my_extended_handshake (lk_torrent k) hs)\<rparr>"

text \<open>Meanwhile everything else of the torrent goes on, the requester of this connection too, and time passes.\<close>

definition torrent_goes_on :: "('b, 's) env \<Rightarrow> ('b, 's) live_link \<Rightarrow> ('b, 's) live_link \<Rightarrow> bool" where
  "torrent_goes_on E k k' \<longleftrightarrow> lstep E (lk_torrent k) (lk_torrent k') \<and> ph_addr (lk_peer k') = ph_addr (lk_peer k)"

subsection \<open>The interface holds\<close>

definition exact_reads :: "('b, 's) env \<Rightarrow> bool" where
  "exact_reads E \<longleftrightarrow> (\<forall>s i off n bs. e_pread E s i off n = Inr bs \<longrightarrow> length bs = n)"

lemma length_read_chunk_files:
  "\<forall>s i off n bs. pread s i off n = Inr bs \<longrightarrow> length bs = n \<Longrightarrow> read_chunk_files pread s fs off buf = Inr bs \<Longrightarrow> length bs = length buf"
proof (induction pread s fs off buf arbitrary: bs rule: read_chunk_files.induct [case_names Nil Cons])
  case (Cons pread files file_idx fi fs absolute_offset buf)
  show ?case
  proof (cases "absolute_offset > fi_len fi")
    case True
    then show ?thesis using Cons.IH(1) Cons.prems by simp
  next
    case False
    define n where "n = min (fi_len fi - absolute_offset) (length buf)"
    define x where "x = (if padding (fi_attrs fi) then Inr (replicate n 0) else pread files file_idx absolute_offset n)"
    have e: "rbind x (\<lambda>bs. if drop n buf = [] then Inr bs else rbind (read_chunk_files pread files fs 0 (drop n buf)) (\<lambda>r. Inr (bs @ r))) = Inr bs"
      using Cons.prems(2) unfolding read_chunk_files.simps Let_def n_def [symmetric] x_def [symmetric] if_not_P [OF False] .
    then obtain b where b: "x = Inr b" by (auto simp: rbind_eq_Inr)
    then have l: "length b = n" using Cons.prems(1) by (auto simp: x_def split: if_splits)
    show ?thesis
    proof (cases "drop n buf = []")
      case True
      then show ?thesis using e b l by (simp add: n_def)
    next
      case ne: False
      then obtain r where r: "read_chunk_files pread files fs 0 (drop n buf) = Inr r" "bs = b @ r"
        using e b by (auto simp: rbind_eq_Inr)
      then have "length r = length buf - n" using Cons.IH(2) [OF False n_def b [unfolded x_def] refl ne Cons.prems(1) r(1)] by simp
      then show ?thesis using r(2) l by (simp add: n_def)
    qed
  qed
qed simp

lemma length_live_read_chunk: "exact_reads E \<Longrightarrow> live_read_chunk E k c = Inr data \<Longrightarrow> length data = ci_size c"
  using length_read_chunk_files [of "e_pread E" "lv_files (lk_torrent k)" _ _ "replicate (ci_size c) 0" data]
  by (simp add: live_read_chunk_def handler_read_chunk_def read_chunk_def exact_reads_def)

definition link_inv :: "('b, 's) env \<Rightarrow> ('b, 's) live_state \<Rightarrow> ('b, 's) live_link \<Rightarrow> bool" where
  "link_inv E st0 k \<longleftrightarrow> exact_reads E \<and> lreach E st0 (lk_torrent k)"

lemma link_inv_step: "link_inv E st0 k \<Longrightarrow> lstep E (lk_torrent k) (lk_torrent k') \<Longrightarrow> link_inv E st0 k'"
  by (auto simp: link_inv_def intro: lreach.step)

lemma live_on_message_step: "link_inv E st0 k \<Longrightarrow> link_inv E st0 (snd (live_on_message E m k))"
proof (rule link_inv_step)
  show "lstep E (lk_torrent k) (lk_torrent (snd (live_on_message E m k)))"
    using lstep.message [of E "lk_torrent k" "lk_now k" "lk_peer k" m] by (simp add: live_on_message_def split_beta)
qed

interpretation live: connection_interface C "live_handler E C ms" "torrent_goes_on E" "link_inv E st0" for C E ms st0
proof unfold_locales
  fix k :: "('a, 'b) live_link"
  assume k: "link_inv E st0 k"
  show "link_inv E st0 (ch_on_connected (live_handler E C ms) k)"
    by (rule link_inv_step [OF k]) (simp add: live_handler_def lstep.connected)
  show "link_inv E st0 (snd (ch_on_handshake (live_handler E C ms) hs k))" for hs
    by (rule link_inv_step [OF k]) (simp add: live_handler_def lstep.handshake)
  show "link_inv E st0 (snd (ch_on_extended_handshake (live_handler E C ms) hs k))" for hs
    by (rule link_inv_step [OF k]) (simp add: live_handler_def lstep.extended_handshake)
  show "link_inv E st0 (snd (ch_on_received_message (live_handler E C ms) m k))" for m
    using live_on_message_step [OF k] by (simp add: live_handler_def)
  show "link_inv E st0 (ch_on_uploaded_bytes (live_handler E C ms) n k)" for n
    by (rule link_inv_step [OF k]) (simp add: live_handler_def lstep.uploaded)
  show "torrent_goes_on E k k' \<Longrightarrow> link_inv E st0 k'" for k'
    using link_inv_step [OF k] by (simp add: torrent_goes_on_def)
  show "ch_read_chunk (live_handler E C ms) k c = Inr data \<Longrightarrow> length data = ci_size c" for c data
    using length_live_read_chunk [of E k c data] k by (simp add: live_handler_def link_inv_def)
qed

text \<open>The bitfield of a torrent is always a message, so a writer starts with it, if there is something to offer, and with an unchoke.\<close>

lemma live_starts:
  assumes "chunks (lv_locked (lk_torrent (cx_handler s))) = Some ct"
  shows "start_messages C (live_handler E C ms) s
    ((if should_send_bitfield (lk_torrent (cx_handler s)) then [MBitfield (bytes_of_bits (ct_have ct))] else []) @ [MUnchoke])"
  using assms by (simp add: start_messages_def live_handler_def live_bitfield_def serialize_bitfield_message_def get_chunks_def written_def serialize_def)

lemma writer_starts_ok:
  assumes "\<forall>n. pc_write_ok C n" "chunks (lv_locked (lk_torrent (cx_handler s))) = Some ct"
  shows "\<exists>s'. writer_start C (live_handler E C ms) s = (Inr (), s')"
  using assms
  by (simp add: writer_start_def send_bitfield_def live_handler_def live_bitfield_def serialize_bitfield_message_def get_chunks_def
      write_message_def socket_write_def serialize_def)

subsection \<open>A connection is part of the torrent\<close>


text \<open>A connection of the example torrent to a seeder.\<close>

definition ex_link :: "(nat, filesystem_storage) live_link connection" where
  "ex_link = \<lparr>cx_handler = \<lparr>lk_torrent = ex_live, lk_peer = handler_new (V4 1, 6881) False 0, lk_now = 0\<rparr>, cx_sent = [], cx_extended = None,
     cx_rb = read_buf_new, cx_conn = [], cx_broadcast_closed = False\<rparr>"

definition ex_hello :: peer_connection where
  "ex_hello = \<lparr>pc_addr = (V4 1, 6881), pc_info_hash = replicate 20 7, pc_peer_id = replicate 20 1, pc_client = ''bt'',
     pc_bencode = ex_bencode\<lparr>be_ser_handshake := (\<lambda>_. [1, 2, 3, 4, 5]),
       be_de_handshake := (\<lambda>_. Inr (extended_handshake_new\<lparr>eh_v := Some ''bt'', eh_yourip := Some (V4 1)\<rparr>))\<rparr>,
     pc_grow = (+), pc_write_ok = (\<lambda>_. True)\<rparr>"

lemma ex_exact_reads: "exact_reads ex_env"
  by (auto simp: exact_reads_def ex_env_def fs_pread_exact_def read_exact_at_def rbind_eq_Inr split: if_splits)

lemma ex_link_connects:
  "\<exists>s. manage_peer_outgoing ex_hello (live_handler ex_env ex_hello 5)
      (Inr [Arrives (handshake_serialize (handshake_new (replicate 20 7) (replicate 20 2)))]) ex_link = (Inr (), s) \<and>
    chunks (lv_locked (lk_torrent (cx_handler s))) = Some ex_ct \<and> tm_info_bytes (lv_metadata (lk_torrent (cx_handler s))) = []"
proof -
  let ?H = "live_handler ex_env ex_hello 5"
  define h where "h = snd (ch_on_handshake ?H (handshake_new (replicate 20 7) (replicate 20 2)) (ch_on_connected ?H (cx_handler ex_link)))"
  have "ch_on_handshake ?H (handshake_new (pc_info_hash ex_hello) (replicate 20 2)) (ch_on_connected ?H (cx_handler ex_link)) = (Inr (), h)"
    by (simp add: h_def ex_hello_def live_handler_def)
  from outgoing_connects [OF _ _ _ _ this, of "[]" "[]"] obtain s where
    "manage_peer_outgoing ex_hello ?H (Inr [Arrives (handshake_serialize (handshake_new (replicate 20 7) (replicate 20 2)))]) ex_link = (Inr (), s)" "cx_handler s = h"
    by (auto simp: ex_hello_def)
  moreover have "chunks (lv_locked (lk_torrent h)) = Some ex_ct" "tm_info_bytes (lv_metadata (lk_torrent h)) = []"
    by (simp_all add: h_def live_handler_def ex_link_def on_handshake_def on_connected_def bump_def set_peers_def ex_live_def live_new_def ex_paused_def ex_metadata_def)
  ultimately show ?thesis by blast
qed


end
