(* ===== verification/Media_Server.thy ===== *)
theory Media_Server
  imports Api
begin

unbundle bit_operations_syntax

text \<open>
  The directory of the torrents a media server offers to players of the local network: every torrent is a folder with the folders and
  files of its paths, and each node has a number that encodes the torrent and its place in the torrent's tree. The mime types and
  the encoding of addresses are parameters.

  Shown is that a player which opens the folders of a torrent one by one finds exactly its files, each under its path and with its
  size and the address of its stream.

  Source: \<^verbatim>\<open>upnp_server_adapter.rs\<close>.
\<close>

subsection \<open>Numbers of nodes\<close>

definition encode_id :: "nat \<Rightarrow> nat \<Rightarrow> nat" where
  "encode_id local_id torrent_id = as_u64 (push_bit 16 local_id) OR add64 torrent_id 1"

definition decode_id :: "nat \<Rightarrow> (nat \<times> nat) res" where
  "decode_id i =
     (let torrent_id = i AND 0xFFFF
      in if torrent_id = 0 then Inl (Bail ''invalid id'') else Inr (drop_bit 16 i, torrent_id - 1))"

subsection \<open>What is browsed\<close>

record upnp_item =
  it_id :: nat
  it_parent_id :: nat
  it_title :: string
  it_mime_type :: "string option"
  it_url :: string
  it_size :: nat

record upnp_container =
  co_id :: nat
  co_parent_id :: "nat option"
  co_title :: string
  co_children_count :: "nat option"

datatype item_or_container = Item upnp_item | Container upnp_container

text \<open>The adapter with the address it is asked under and the two library functions it uses.\<close>

record upnp_adapter =
  ua_port :: nat
  ua_host :: string
  ua_mime :: "path \<Rightarrow> string option"
  ua_encode :: "string \<Rightarrow> string"

record tree_node =
  tn_title :: string
  tn_parent_id :: "nat option"
  tn_children :: "nat list"
  tn_file :: "nat option"

definition last_url_bit :: "upnp_adapter \<Rightarrow> meta_info \<Rightarrow> nat \<Rightarrow> string \<Rightarrow> string" where
  "last_url_bit A info fid title =
     (case iter_file_details info of
        Inr ds \<Rightarrow>
          if fid < length ds then
            (case name_to_vec (fd_filename (ds ! fid)) of Inr cs \<Rightarrow> path_str (map (ua_encode A) cs) | Inl _ \<Rightarrow> title)
          else title
      | Inl _ \<Rightarrow> title)"

definition upnp_stream_url :: "upnp_adapter \<Rightarrow> nat \<Rightarrow> nat \<Rightarrow> string \<Rightarrow> string" where
  "upnp_stream_url A torrent_id fid last_bit =
     ''http://'' @ ua_host A @ '':'' @ show_nat (ua_port A) @ ''/torrents/'' @ show_nat torrent_id @ ''/stream/'' @ show_nat fid @ ''/'' @ last_bit"

definition as_item_or_container :: "upnp_adapter \<Rightarrow> nat \<Rightarrow> torrent_metadata \<Rightarrow> nat \<Rightarrow> tree_node \<Rightarrow> item_or_container res" where
  "as_item_or_container A torrent_id md i n =
     (let encoded_id = encode_id i torrent_id;
          encoded_parent_id = (case tn_parent_id n of Some p \<Rightarrow> encode_id p torrent_id | None \<Rightarrow> 0)
      in case tn_file n of
           Some fid \<Rightarrow>
             if fid < length (tm_file_infos md) then
               let fi = tm_file_infos md ! fid
               in Inr (Item \<lparr>it_id = encoded_id, it_parent_id = encoded_parent_id, it_title = tn_title n, it_mime_type = ua_mime A (relative_filename fi),
                    it_url = upnp_stream_url A torrent_id fid (last_url_bit A (tm_info md) fid (tn_title n)), it_size = fi_len fi\<rparr>)
             else Inl Panic
         | None \<Rightarrow>
             Inr (Container \<lparr>co_id = encoded_id, co_parent_id = Some encoded_parent_id, co_title = tn_title n,
                    co_children_count = Some (length (tn_children n))\<rparr>))"

subsection \<open>The tree of a torrent\<close>

definition is_single_file_at_root :: "meta_info \<Rightarrow> bool" where
  "is_single_file_at_root info =
     (case iter_file_details info of
        Inl _ \<Rightarrow> True
      | Inr ds \<Rightarrow> length (concat (map (\<lambda>d. iter_components (fd_filename d)) ds)) < 2)"

type_synonym tree = "tree_node list \<times> (nat \<times> string \<Rightarrow> nat option)"

text \<open>Both kinds of nodes are appended and entered in their parent.\<close>

definition push_node :: "tree_node list \<Rightarrow> nat \<Rightarrow> string \<Rightarrow> nat option \<Rightarrow> tree_node list" where
  "push_node nodes parent_id title fid =
     (let nodes' = nodes @ [\<lparr>tn_title = title, tn_parent_id = Some parent_id, tn_children = [], tn_file = fid\<rparr>];
          p = nodes' ! parent_id
      in nodes'[parent_id := p\<lparr>tn_children := tn_children p @ [length nodes]\<rparr>])"

fun add_components :: "nat \<Rightarrow> nat \<Rightarrow> string list \<Rightarrow> tree \<Rightarrow> tree" where
  "add_components fid parent_id [] t = t"
| "add_components fid parent_id [component] (nodes, cache) = (push_node nodes parent_id component (Some fid), cache)"
| "add_components fid parent_id (component # cs) (nodes, cache) =
     (case cache (parent_id, component) of
        Some i \<Rightarrow> add_components fid i cs (nodes, cache)
      | None \<Rightarrow>
          let i = length nodes
          in add_components fid i cs (push_node nodes parent_id component None, cache((parent_id, component) \<mapsto> i)))"

fun add_files :: "nat \<Rightarrow> file_details list \<Rightarrow> tree \<Rightarrow> tree" where
  "add_files fid [] t = t"
| "add_files fid (d # ds) t =
     add_files (Suc fid) ds (case name_to_vec (fd_filename d) of Inr cs \<Rightarrow> add_components fid 0 cs t | Inl _ \<Rightarrow> t)"

definition tree_build :: "nat \<Rightarrow> meta_info \<Rightarrow> tree_node list res" where
  "tree_build torrent_id info =
     (if is_single_file_at_root info then
        rbind (iter_file_details info) (\<lambda>ds.
          case ds of
            [] \<Rightarrow> Inl (Bail ''bug'')
          | d # _ \<Rightarrow>
              (case rev (iter_components (fd_filename d)) of
                 [] \<Rightarrow> Inl (Bail ''bug'')
               | c # _ \<Rightarrow> rbind c (\<lambda>filename. Inr [\<lparr>tn_title = filename, tn_parent_id = None, tn_children = [], tn_file = Some 0\<rparr>])))
      else
        rbind (case mi_name info of
                 Some n \<Rightarrow> if utf8_ok n then Inr n else Inl (Bail ''invalid utf-8'')
               | None \<Rightarrow> Inr (''torrent '' @ show_nat torrent_id)) (\<lambda>title.
        rbind (iter_file_details info) (\<lambda>ds.
          Inr (fst (add_files 0 ds ([\<lparr>tn_title = title, tn_parent_id = None, tn_children = [], tn_file = None\<rparr>], Map.empty))))))"

subsection \<open>Browsing\<close>

definition root_entry :: "upnp_adapter \<Rightarrow> ('b, 's) managed_torrent \<Rightarrow> item_or_container list res" where
  "root_entry A t =
     (case mt_metadata t of
        None \<Rightarrow> Inr []
      | Some md \<Rightarrow>
          if is_single_file_at_root (tm_info md) then
            if tm_file_infos md = [] then Inl Panic
            else
              (case file_name (relative_filename (hd (tm_file_infos md))) of
                 None \<Rightarrow> Inr []
               | Some title \<Rightarrow>
                   rbind (as_item_or_container A (mt_id t) md 0 \<lparr>tn_title = title, tn_parent_id = None, tn_children = [], tn_file = Some 0\<rparr>) (\<lambda>i. Inr [i]))
          else
            let title = (case mi_name (tm_info md) of
                           Some n \<Rightarrow> if utf8_ok n then n else ''torrent '' @ show_nat (mt_id t)
                         | None \<Rightarrow> ''torrent '' @ show_nat (mt_id t))
            in Inr [Container \<lparr>co_id = add64 (mt_id t) 1, co_parent_id = Some 0, co_title = title, co_children_count = None\<rparr>])"

fun collect_entries :: "('a \<Rightarrow> item_or_container list res) \<Rightarrow> 'a list \<Rightarrow> item_or_container list res" where
  "collect_entries f [] = Inr []"
| "collect_entries f (x # xs) = rbind (f x) (\<lambda>a. rbind (collect_entries f xs) (\<lambda>b. Inr (a @ b)))"

definition build_root :: "upnp_adapter \<Rightarrow> ('b, 's) session \<Rightarrow> item_or_container list res" where
  "build_root A se = collect_entries (root_entry A) (sort_key mt_id (map snd (se_torrents se)))"

definition node_entries :: "upnp_adapter \<Rightarrow> nat \<Rightarrow> torrent_metadata \<Rightarrow> tree_node list \<Rightarrow> bool \<Rightarrow> nat \<Rightarrow> item_or_container list res" where
  "node_entries A torrent_id md nodes metadata node_id =
     (if node_id < length nodes then
        let n = nodes ! node_id
        in if tn_file n \<noteq> None \<or> metadata then rbind (as_item_or_container A torrent_id md node_id n) (\<lambda>i. Inr [i])
           else collect_entries (\<lambda>i. if i < length nodes then rbind (as_item_or_container A torrent_id md i (nodes ! i)) (\<lambda>i. Inr [i]) else Inr [])
                  (tn_children n)
      else Inr [])"

definition build_impl :: "upnp_adapter \<Rightarrow> ('b, 's) session \<Rightarrow> nat \<Rightarrow> bool \<Rightarrow> item_or_container list res" where
  "build_impl A se object_id metadata =
     (if object_id = 0 then
        rbind (build_root A se) (\<lambda>root.
          Inr (if metadata then [Container \<lparr>co_id = 0, co_parent_id = None, co_title = ''root'', co_children_count = Some (length root)\<rparr>] else root))
      else
        (case decode_id object_id of
           Inl _ \<Rightarrow> Inr []
         | Inr (node_id, torrent_id) \<Rightarrow>
             (case session_get se (Id torrent_id) of
                None \<Rightarrow> Inr []
              | Some t \<Rightarrow>
                  (case mt_metadata t of
                     None \<Rightarrow> Inr []
                   | Some md \<Rightarrow>
                       (case tree_build (mt_id t) (tm_info md) of
                          Inl _ \<Rightarrow> Inr []
                        | Inr nodes \<Rightarrow> node_entries A (mt_id t) md nodes metadata node_id)))))"

definition browse_direct_children :: "upnp_adapter \<Rightarrow> ('b, 's) session \<Rightarrow> nat \<Rightarrow> item_or_container list res" where
  "browse_direct_children A se object_id = build_impl A se object_id False"

definition browse_metadata :: "upnp_adapter \<Rightarrow> ('b, 's) session \<Rightarrow> nat \<Rightarrow> item_or_container list res" where
  "browse_metadata A se object_id = build_impl A se object_id True"

subsection \<open>Numbers round trip\<close>

lemma decode_encode:
  assumes "local_id < 2 ^ 48" "torrent_id < 65535"
  shows "decode_id (encode_id local_id torrent_id) = Inr (local_id, torrent_id)" "encode_id local_id torrent_id \<noteq> 0"
proof -
  have p: "as_u64 (push_bit 16 local_id) = push_bit 16 local_id" using assms(1) by (intro as_u64_exact) (simp add: push_bit_eq_mult)
  have t: "add64 torrent_id 1 = Suc torrent_id" using assms(2) by (simp add: add64_def as_u64_def)
  have s: "take_bit 16 (Suc torrent_id) = Suc torrent_id" "drop_bit 16 (Suc torrent_id) = 0" using assms(2) by (simp_all add: take_bit_nat_eq_self drop_bit_eq_div)
  have e: "encode_id local_id torrent_id = push_bit 16 local_id OR Suc torrent_id" unfolding encode_id_def p t ..
  have m: "x AND 0xFFFF = take_bit 16 x" for x :: nat by (simp add: take_bit_eq_mask mask_eq_exp_minus_1)
  have a: "take_bit 16 (encode_id local_id torrent_id) = Suc torrent_id" using s by (simp add: e take_bit_or take_bit_push_bit)
  have b: "drop_bit 16 (encode_id local_id torrent_id) = local_id" using s by (simp add: e drop_bit_or drop_bit_push_bit)
  show "decode_id (encode_id local_id torrent_id) = Inr (local_id, torrent_id)" by (simp add: decode_id_def m a b Let_def)
  show "encode_id local_id torrent_id \<noteq> 0" using a take_bit_of_0 [of 16] by (metis nat.distinct(1))
qed

subsection \<open>The tree is the files\<close>

text \<open>Every node but the first has an earlier parent that is a folder and lists it; what a folder lists are its nodes; the cache knows the
  folders.\<close>

definition tree_ok :: "tree \<Rightarrow> bool" where
  "tree_ok t \<longleftrightarrow>
     (case t of (nodes, cache) \<Rightarrow>
        nodes \<noteq> [] \<and> tn_parent_id (nodes ! 0) = None \<and>
        (\<forall>i < length nodes. i \<noteq> 0 \<longrightarrow> (\<exists>p < i. tn_parent_id (nodes ! i) = Some p \<and> tn_file (nodes ! p) = None)) \<and>
        (\<forall>p < length nodes. set (tn_children (nodes ! p)) = {i. i < length nodes \<and> tn_parent_id (nodes ! i) = Some p}) \<and>
        (\<forall>p c i. cache (p, c) = Some i \<longrightarrow>
           i < length nodes \<and> tn_file (nodes ! i) = None \<and> tn_parent_id (nodes ! i) = Some p \<and> tn_title (nodes ! i) = c) \<and>
        tn_file (nodes ! 0) = None)"

text \<open>The path of a node.\<close>

function path_of :: "tree_node list \<Rightarrow> nat \<Rightarrow> string list" where
  "path_of nodes i =
     (case tn_parent_id (nodes ! i) of
        None \<Rightarrow> []
      | Some p \<Rightarrow> (if p < i then path_of nodes p else []) @ [tn_title (nodes ! i)])"
  by pat_completeness auto
termination
  by (relation "measure snd") auto

declare path_of.simps [simp del]

text \<open>The files of a tree with their paths, in the order of their nodes.\<close>

definition tree_files :: "tree_node list \<Rightarrow> (string list \<times> nat) list" where
  "tree_files nodes = map (\<lambda>i. (path_of nodes i, the (tn_file (nodes ! i)))) (filter (\<lambda>i. tn_file (nodes ! i) \<noteq> None) [0..<length nodes])"

lemma push_node_sel:
  assumes "p < length nodes"
  shows "length (push_node nodes p c f) = Suc (length nodes)"
    "i < length nodes \<Longrightarrow> push_node nodes p c f ! i = (if i = p then (nodes ! p)\<lparr>tn_children := tn_children (nodes ! p) @ [length nodes]\<rparr> else nodes ! i)"
    "push_node nodes p c f ! length nodes = \<lparr>tn_title = c, tn_parent_id = Some p, tn_children = [], tn_file = f\<rparr>"
  using assms by (simp_all add: push_node_def Let_def nth_append)

lemma push_node_fields:
  assumes "p < length nodes" "i < length nodes"
  shows "tn_title (push_node nodes p c f ! i) = tn_title (nodes ! i)" "tn_parent_id (push_node nodes p c f ! i) = tn_parent_id (nodes ! i)"
    "tn_file (push_node nodes p c f ! i) = tn_file (nodes ! i)"
  using push_node_sel(2) [OF assms] by simp_all

lemma push_node_ok:
  assumes "tree_ok (nodes, cache)" "p < length nodes" "tn_file (nodes ! p) = None"
  shows "tree_ok (push_node nodes p c f, cache)" "f = None \<Longrightarrow> tree_ok (push_node nodes p c f, cache((p, c) \<mapsto> length nodes))"
proof -
  let ?n = "push_node nodes p c f" and ?L = "length nodes"
  note old = push_node_fields [OF assms(2), where c = c and f = f] and new = push_node_sel [OF assms(2), where c = c and f = f]
  have ok: "nodes \<noteq> []" "tn_parent_id (nodes ! 0) = None" "tn_file (nodes ! 0) = None"
    and par: "\<And>i. i < ?L \<Longrightarrow> i \<noteq> 0 \<Longrightarrow> \<exists>q < i. tn_parent_id (nodes ! i) = Some q \<and> tn_file (nodes ! q) = None"
    and chd: "\<And>q. q < ?L \<Longrightarrow> set (tn_children (nodes ! q)) = {i. i < ?L \<and> tn_parent_id (nodes ! i) = Some q}"
    using assms(1) by (auto simp: tree_ok_def)
  have "0 < ?L" using ok(1) by simp
  note root = old [OF this]
  have P: "\<exists>q < i. tn_parent_id (?n ! i) = Some q \<and> tn_file (?n ! q) = None" if "i < Suc ?L" "i \<noteq> 0" for i
  proof (cases "i = ?L")
    case True
    then show ?thesis using new assms(2,3) old [OF assms(2)] by auto
  next
    case False
    then have i: "i < ?L" using that by simp
    from par [OF i that(2)] obtain q where "q < i" "tn_parent_id (nodes ! i) = Some q" "tn_file (nodes ! q) = None" by blast
    then show ?thesis using old [OF i] old [of q] i by auto
  qed
  have C: "set (tn_children (?n ! q)) = {i. i < Suc ?L \<and> tn_parent_id (?n ! i) = Some q}" if "q < Suc ?L" for q
  proof (cases "q = ?L")
    case True
    have "tn_parent_id (?n ! i) \<noteq> Some ?L" if "i < Suc ?L" for i
      using P [OF that] that root(2) ok(2) by (cases "i = 0") auto
    then show ?thesis using True new by auto
  next
    case False
    then have q: "q < ?L" using that by simp
    have "{i. i < Suc ?L \<and> tn_parent_id (?n ! i) = Some q} = {i. i < ?L \<and> tn_parent_id (nodes ! i) = Some q} \<union> (if q = p then {?L} else {})"
      using old(2) new(3) by (auto simp: less_Suc_eq)
    then show ?thesis using chd [OF q] new(2) [OF q] by auto
  qed
  have K: "i < Suc ?L \<and> tn_file (?n ! i) = None \<and> tn_parent_id (?n ! i) = Some q \<and> tn_title (?n ! i) = d" if "cache (q, d) = Some i" for q d i
  proof -
    have "i < ?L \<and> tn_file (nodes ! i) = None \<and> tn_parent_id (nodes ! i) = Some q \<and> tn_title (nodes ! i) = d"
      using assms(1) that unfolding tree_ok_def by blast
    then show ?thesis using old [of i] by simp
  qed
  show 1: "tree_ok (?n, cache)"
    using P C K root ok new(1) \<open>0 < ?L\<close> unfolding tree_ok_def by auto
  then show "tree_ok (?n, cache((p, c) \<mapsto> ?L))" if "f = None"
    using that new unfolding tree_ok_def by auto
qed

lemma path_of_push:
  assumes "p < length nodes" "i < length nodes"
  shows "path_of (push_node nodes p c f) i = path_of nodes i"
  using assms(2)
proof (induction i rule: less_induct)
  case (less i)
  then show ?case
    by (simp add: path_of.simps [of _ i] push_node_fields [OF assms(1) less.prems] split: option.split)
qed

lemma path_of_pushed: "p < length nodes \<Longrightarrow> path_of (push_node nodes p c f) (length nodes) = path_of nodes p @ [c]"
  by (simp add: path_of.simps [of _ "length nodes"] push_node_sel path_of_push)

lemma tree_files_push:
  assumes "p < length nodes"
  shows "tree_files (push_node nodes p c f) = tree_files nodes @ (case f of Some fid \<Rightarrow> [(path_of nodes p @ [c], fid)] | None \<Rightarrow> [])"
proof -
  have "filter (\<lambda>i. tn_file (push_node nodes p c f ! i) \<noteq> None) [0..<length nodes] = filter (\<lambda>i. tn_file (nodes ! i) \<noteq> None) [0..<length nodes]"
    by (rule filter_cong) (simp_all add: push_node_fields [OF assms])
  moreover have "map (\<lambda>i. (path_of (push_node nodes p c f) i, the (tn_file (push_node nodes p c f ! i)))) (filter (\<lambda>i. tn_file (nodes ! i) \<noteq> None) [0..<length nodes]) =
      tree_files nodes"
    unfolding tree_files_def by (rule map_cong) (auto simp: push_node_fields [OF assms] path_of_push [OF assms])
  ultimately show ?thesis
    by (simp add: tree_files_def [of "push_node nodes p c f"] push_node_sel [OF assms] path_of_pushed [OF assms] split: option.split)
qed

lemma add_components_ok:
  "tree_ok (nodes, cache) \<Longrightarrow> p < length nodes \<Longrightarrow> tn_file (nodes ! p) = None \<Longrightarrow>
    tree_ok (add_components fid p cs (nodes, cache)) \<and>
    tree_files (fst (add_components fid p cs (nodes, cache))) = tree_files nodes @ (if cs = [] then [] else [(path_of nodes p @ cs, fid)])"
proof (induction fid p cs "(nodes, cache)" arbitrary: nodes cache rule: add_components.induct)
  case (2 fid p c nodes cache)
  then show ?case using push_node_ok(1) by (simp add: tree_files_push)
next
  case (3 fid p c d cs nodes cache)
  show ?case
  proof (cases "cache (p, c)")
    case None
    let ?n = "push_node nodes p c None" and ?c = "cache((p, c) \<mapsto> length nodes)"
    have "tree_ok (?n, ?c)" "length nodes < length ?n" "tn_file (?n ! length nodes) = None"
      using push_node_ok(2) [OF 3(3-5)] push_node_sel [OF 3(4)] by simp_all
    from 3(1) [OF None refl this] show ?thesis using None 3(4) by (simp add: tree_files_push path_of_pushed Let_def)
  next
    case (Some i)
    then have i: "i < length nodes" "tn_file (nodes ! i) = None" "tn_parent_id (nodes ! i) = Some p" "tn_title (nodes ! i) = c"
      using 3(3) by (auto simp: tree_ok_def)
    have "p < i" using 3(3) i by (cases "i = 0") (auto simp: tree_ok_def)
    then have "path_of nodes i = path_of nodes p @ [c]" using i by (simp add: path_of.simps [of nodes i])
    then show ?thesis using 3(2) [OF Some 3(3) i(1,2)] Some by simp
  qed
qed simp

lemma add_files_ok:
  "tree_ok (nodes, cache) \<Longrightarrow>
    tree_ok (add_files fid ds (nodes, cache)) \<and>
    tree_files (fst (add_files fid ds (nodes, cache))) =
      tree_files nodes @ concat (map (\<lambda>(k, d). case name_to_vec (fd_filename d) of Inr (c # cs) \<Rightarrow> [(c # cs, k)] | _ \<Rightarrow> []) (List.enumerate fid ds))"
proof (induction ds arbitrary: fid nodes cache)
  case (Cons d ds)
  define t where "t = (case name_to_vec (fd_filename d) of Inr cs \<Rightarrow> add_components fid 0 cs (nodes, cache) | Inl _ \<Rightarrow> (nodes, cache))"
  have r: "0 < length nodes" "tn_file (nodes ! 0) = None" "path_of nodes 0 = []"
    using Cons.prems by (auto simp: tree_ok_def path_of.simps [of nodes 0])
  have t: "tree_ok t" "tree_files (fst t) = tree_files nodes @ (case name_to_vec (fd_filename d) of Inr (c # cs) \<Rightarrow> [(c # cs, fid)] | _ \<Rightarrow> [])"
    using add_components_ok [OF Cons.prems r(1,2)] Cons.prems r(3) by (auto simp: t_def split: sum.split list.split)
  obtain n c where "t = (n, c)" by (cases t)
  then show ?case using Cons.IH [of n c "Suc fid"] t by (simp add: t_def [symmetric])
qed simp

lemma length_push_node [simp]: "length (push_node nodes p c f) = Suc (length nodes)"
  by (simp add: push_node_def Let_def)

lemma length_add_components: "length (fst (add_components fid p cs t)) \<le> length (fst t) + length cs"
proof (induction fid p cs t rule: add_components.induct)
  case (3 fid p c d cs nodes cache)
  then show ?case by (cases "cache (p, c)") (fastforce simp: Let_def)+
qed simp_all

lemma length_add_files:
  "length (fst (add_files fid ds t)) \<le> length (fst t) + (\<Sum>d\<leftarrow>ds. case name_to_vec (fd_filename d) of Inr cs \<Rightarrow> length cs | Inl _ \<Rightarrow> 0)"
proof (induction ds arbitrary: fid t)
  case (Cons d ds)
  let ?t = "case name_to_vec (fd_filename d) of Inr cs \<Rightarrow> add_components fid 0 cs t | Inl _ \<Rightarrow> t"
  have "length (fst ?t) \<le> length (fst t) + (case name_to_vec (fd_filename d) of Inr cs \<Rightarrow> length cs | Inl _ \<Rightarrow> 0)"
    by (simp add: length_add_components split: sum.split)
  then show ?case using Cons [of "Suc fid" ?t] by simp
qed simp

subsection \<open>What a player finds\<close>

text \<open>Opening folders from a node on.\<close>

inductive found :: "upnp_adapter \<Rightarrow> ('b, 's) session \<Rightarrow> nat \<Rightarrow> string list \<Rightarrow> upnp_item \<Rightarrow> bool" for A se where
  here: "browse_direct_children A se i = Inr es \<Longrightarrow> Item e \<in> set es \<Longrightarrow> found A se i [it_title e] e"
| inside: "browse_direct_children A se i = Inr es \<Longrightarrow> Container c \<in> set es \<Longrightarrow> found A se (co_id c) q e \<Longrightarrow> found A se i (co_title c # q) e"

definition offers :: "('b, 's) session \<Rightarrow> nat \<Rightarrow> torrent_metadata \<Rightarrow> tree_node list \<Rightarrow> bool" where
  "offers se tid md nodes \<longleftrightarrow>
     tid < 65535 \<and> length nodes \<le> 2 ^ 48 \<and> (\<exists>cache. tree_ok (nodes, cache)) \<and>
     (\<exists>t. session_get se (Id tid) = Some t \<and> mt_id t = tid \<and> mt_metadata t = Some md \<and> tree_build tid (tm_info md) = Inr nodes) \<and>
     (\<forall>i < length nodes. \<forall>fid. tn_file (nodes ! i) = Some fid \<longrightarrow> fid < length (tm_file_infos md))"

definition node_item :: "upnp_adapter \<Rightarrow> nat \<Rightarrow> torrent_metadata \<Rightarrow> tree_node list \<Rightarrow> nat \<Rightarrow> item_or_container" where
  "node_item A tid md nodes i = projr (as_item_or_container A tid md i (nodes ! i))"

lemma as_item_or_container_ok:
  "\<forall>fid. tn_file n = Some fid \<longrightarrow> fid < length (tm_file_infos md) \<Longrightarrow> as_item_or_container A tid md i n = Inr (projr (as_item_or_container A tid md i n))"
  by (cases "tn_file n") (simp_all add: as_item_or_container_def Let_def)

lemma collect_entries_map: "\<forall>x \<in> set xs. f x = Inr [g x] \<Longrightarrow> collect_entries f xs = Inr (map g xs)"
  by (induction xs) simp_all

lemma browse_folder:
  assumes "offers se tid md nodes" "p < length nodes" "tn_file (nodes ! p) = None"
  shows "browse_direct_children A se (encode_id p tid) = Inr (map (node_item A tid md nodes) (tn_children (nodes ! p)))"
proof -
  have "p < 2 ^ 48" "tid < 65535" using assms(1,2) by (simp_all add: offers_def)
  note d = decode_encode [OF this]
  obtain cache t where t: "tree_ok (nodes, cache)" "session_get se (Id tid) = Some t" "mt_id t = tid" "mt_metadata t = Some md"
    "tree_build tid (tm_info md) = Inr nodes" "\<forall>i < length nodes. \<forall>fid. tn_file (nodes ! i) = Some fid \<longrightarrow> fid < length (tm_file_infos md)"
    using assms(1) by (auto simp: offers_def)
  have "\<forall>i \<in> set (tn_children (nodes ! p)). i < length nodes" using t(1) assms(2) by (simp add: tree_ok_def)
  then have "\<forall>i \<in> set (tn_children (nodes ! p)). (if i < length nodes then rbind (as_item_or_container A tid md i (nodes ! i)) (\<lambda>i. Inr [i]) else Inr []) =
      Inr [node_item A tid md nodes i]"
    using as_item_or_container_ok t(6) unfolding node_item_def by (metis rbind_Inr)
  then show ?thesis
    using d t assms(2,3) by (simp add: browse_direct_children_def build_impl_def node_entries_def collect_entries_map Let_def)
qed

lemma node_item_file:
  assumes "tn_file (nodes ! i) = Some fid" "fid < length (tm_file_infos md)"
  shows "\<exists>e. node_item A tid md nodes i = Item e \<and> it_title e = tn_title (nodes ! i) \<and> it_size e = fi_len (tm_file_infos md ! fid) \<and>
    it_mime_type e = ua_mime A (relative_filename (tm_file_infos md ! fid)) \<and>
    it_url e = upnp_stream_url A tid fid (last_url_bit A (tm_info md) fid (tn_title (nodes ! i)))"
  using assms by (simp add: node_item_def as_item_or_container_def Let_def)

lemma node_item_folder:
  assumes "tn_file (nodes ! i) = None"
  shows "\<exists>c. node_item A tid md nodes i = Container c \<and> co_id c = encode_id i tid \<and> co_title c = tn_title (nodes ! i)"
  using assms by (simp add: node_item_def as_item_or_container_def Let_def)

lemma child_of:
  assumes "tree_ok (nodes, cache)" "p < length nodes"
  shows "i \<in> set (tn_children (nodes ! p)) \<longleftrightarrow> i < length nodes \<and> tn_parent_id (nodes ! i) = Some p"
    and "i \<in> set (tn_children (nodes ! p)) \<Longrightarrow> path_of nodes i = path_of nodes p @ [tn_title (nodes ! i)]"
proof -
  show 1: "i \<in> set (tn_children (nodes ! p)) \<longleftrightarrow> i < length nodes \<and> tn_parent_id (nodes ! i) = Some p" for i
    using assms by (simp add: tree_ok_def)
  assume "i \<in> set (tn_children (nodes ! p))"
  then have i: "i < length nodes" "tn_parent_id (nodes ! i) = Some p" using 1 by simp_all
  then have "p < i" using assms(1) by (cases "i = 0") (auto simp: tree_ok_def)
  then show "path_of nodes i = path_of nodes p @ [tn_title (nodes ! i)]" using i by (simp add: path_of.simps [of nodes i])
qed

lemma found_is_file:
  assumes "found A se k q e" "offers se tid md nodes" "k = encode_id p tid" "p < length nodes" "tn_file (nodes ! p) = None"
  shows "\<exists>i < length nodes. tn_file (nodes ! i) \<noteq> None \<and> path_of nodes i = path_of nodes p @ q \<and> node_item A tid md nodes i = Item e"
  using assms(1,3-)
proof (induction arbitrary: p rule: found.induct)
  case (here k es e)
  obtain cache where ok: "tree_ok (nodes, cache)" using assms(2) by (auto simp: offers_def)
  have "es = map (node_item A tid md nodes) (tn_children (nodes ! p))" using browse_folder [OF assms(2) here.prems(2,3)] here by simp
  then obtain i where i: "i \<in> set (tn_children (nodes ! p))" "Item e = node_item A tid md nodes i" using here.hyps(2) by auto
  then have "tn_file (nodes ! i) \<noteq> None" using node_item_folder [of nodes i A tid md] by (cases "tn_file (nodes ! i)") auto
  moreover have "it_title e = tn_title (nodes ! i)"
    using calculation i child_of(1) [OF ok here.prems(2)] node_item_file [of nodes i _ md A tid] assms(2) by (fastforce simp: offers_def)
  ultimately show ?case using i child_of [OF ok here.prems(2)] by auto
next
  case (inside k es c q e)
  obtain cache where ok: "tree_ok (nodes, cache)" using assms(2) by (auto simp: offers_def)
  have "es = map (node_item A tid md nodes) (tn_children (nodes ! p))" using browse_folder [OF assms(2) inside.prems(2,3)] inside by simp
  then obtain j where j: "j \<in> set (tn_children (nodes ! p))" "Container c = node_item A tid md nodes j" using inside.hyps(2) by auto
  note l = child_of [OF ok inside.prems(2), of j]
  have f: "tn_file (nodes ! j) = None"
    using j l(1) node_item_file [of nodes j _ md A tid] assms(2) by (cases "tn_file (nodes ! j)") (fastforce simp: offers_def)+
  then have "co_id c = encode_id j tid" "co_title c = tn_title (nodes ! j)" using j(2) node_item_folder [of nodes j A tid md] by auto
  then show ?case using inside.IH [of j] f j(1) l by auto
qed

lemma found_from_root:
  assumes "offers se tid md nodes" "i < length nodes" "tn_file (nodes ! i) = None" "found A se (encode_id i tid) q e"
  shows "found A se (encode_id 0 tid) (path_of nodes i @ q) e"
  using assms(2-)
proof (induction i arbitrary: q rule: less_induct)
  case (less i)
  obtain cache where ok: "tree_ok (nodes, cache)" using assms(1) by (auto simp: offers_def)
  show ?case
  proof (cases "i = 0")
    case True
    then show ?thesis using less.prems ok by (simp add: path_of.simps [of nodes 0] tree_ok_def)
  next
    case False
    then obtain p where p: "p < i" "tn_parent_id (nodes ! i) = Some p" "tn_file (nodes ! p) = None" using ok less.prems(1) by (auto simp: tree_ok_def)
    then have p': "p < length nodes" using less.prems(1) by simp
    have i: "i \<in> set (tn_children (nodes ! p))" using child_of(1) [OF ok p'] p less.prems(1) by simp
    obtain c where c: "node_item A tid md nodes i = Container c" "co_id c = encode_id i tid" "co_title c = tn_title (nodes ! i)"
      using node_item_folder [OF less.prems(2)] by blast
    have "found A se (encode_id p tid) (co_title c # q) e"
      by (rule found.inside [OF browse_folder [OF assms(1) p' p(3)]]) (use i c less.prems(3) in \<open>auto intro: image_eqI [of _ _ i]\<close>)
    from less.IH [OF p(1) p' p(3) this] show ?thesis using child_of(2) [OF ok p' i] c(3) by simp
  qed
qed

lemma file_is_found:
  assumes "offers se tid md nodes" "i < length nodes" "tn_file (nodes ! i) \<noteq> None"
  shows "\<exists>e. node_item A tid md nodes i = Item e \<and> found A se (encode_id 0 tid) (path_of nodes i) e"
proof -
  obtain cache where ok: "tree_ok (nodes, cache)" using assms(1) by (auto simp: offers_def)
  then have "i \<noteq> 0" using assms(3) by (auto simp: tree_ok_def intro: Nat.gr0I)
  then obtain p where p: "p < i" "tn_parent_id (nodes ! i) = Some p" "tn_file (nodes ! p) = None" using ok assms(2) by (auto simp: tree_ok_def)
  then have p': "p < length nodes" using assms(2) by simp
  have i: "i \<in> set (tn_children (nodes ! p))" using child_of(1) [OF ok p'] p assms(2) by simp
  obtain e where e: "node_item A tid md nodes i = Item e" "it_title e = tn_title (nodes ! i)"
    using assms node_item_file [of nodes i _ md A tid] by (fastforce simp: offers_def)
  have "found A se (encode_id p tid) [it_title e] e"
    by (rule found.here [OF browse_folder [OF assms(1) p' p(3)]]) (use i e in \<open>auto intro: image_eqI [of _ _ i]\<close>)
  from found_from_root [OF assms(1) p' p(3) this] show ?thesis using e child_of(2) [OF ok p' i] by auto
qed

subsection \<open>The directory of a torrent\<close>

definition describes :: "upnp_adapter \<Rightarrow> nat \<Rightarrow> torrent_metadata \<Rightarrow> nat \<Rightarrow> upnp_item \<Rightarrow> bool" where
  "describes A tid md fid e \<longleftrightarrow>
     (let fi = tm_file_infos md ! fid; name = relative_filename fi in
      it_title e = last name \<and> it_size e = fi_len fi \<and> it_mime_type e = ua_mime A name \<and>
      it_url e = upnp_stream_url A tid fid (path_str (map (ua_encode A) name)))"

lemma accepted_names:
  assumes "torrent_metadata_new info tb ib = Inr md"
  shows "\<exists>ds. iter_file_details info = Inr ds \<and> length ds = length (tm_file_infos md) \<and> tm_info md = info \<and>
    (\<forall>i < length ds. name_to_vec (fd_filename (ds ! i)) = Inr (relative_filename (tm_file_infos md ! i)))"
proof -
  obtain l ds where ds: "iter_file_details info = Inr ds" "collect_file_infos (file_details_scan l 0 ds) = Inr (tm_file_infos md)" "tm_info md = info"
    using assms by (auto simp: torrent_metadata_new_def iter_file_details_ext_def rbind_eq_Inr)
  have f: "fst (file_details_scan l a ds ! i) = ds ! i" if "i < length ds" for a i
    using that by (induction ds arbitrary: a i) (auto simp: nth_Cons' split: if_splits)
  have "to_pathbuf (fd_filename (ds ! i)) = Inr (relative_filename (tm_file_infos md ! i))" if "i < length ds" for i
    using collect_file_infos_nth [OF ds(2)] that f [OF that, of 0] by fastforce
  then show ?thesis using ds collect_file_infos_nth [OF ds(2)] by (auto simp: name_to_vec_def to_pathbuf_def)
qed

lemma tree_of_accepted:
  assumes "torrent_metadata_new info tb ib = Inr md" "\<not> is_single_file_at_root info" "\<forall>n. mi_name info = Some n \<longrightarrow> utf8_ok n"
  shows "\<exists>nodes cache. tree_build tid info = Inr nodes \<and> tree_ok (nodes, cache) \<and>
    length nodes \<le> Suc (\<Sum>fi\<leftarrow>tm_file_infos md. length (relative_filename fi)) \<and>
    set (tree_files nodes) = {(relative_filename (tm_file_infos md ! k), k) |k. k < length (tm_file_infos md) \<and> relative_filename (tm_file_infos md ! k) \<noteq> []}"
proof -
  obtain ds where ds: "iter_file_details info = Inr ds" "length ds = length (tm_file_infos md)"
    "\<forall>i < length ds. name_to_vec (fd_filename (ds ! i)) = Inr (relative_filename (tm_file_infos md ! i))"
    using accepted_names [OF assms(1)] by blast
  obtain title where title: "(case mi_name info of Some n \<Rightarrow> if utf8_ok n then Inr n else Inl (Bail ''invalid utf-8'') | None \<Rightarrow> Inr (''torrent '' @ show_nat tid)) = Inr title"
    using assms(3) by (cases "mi_name info") auto
  let ?root = "[\<lparr>tn_title = title, tn_parent_id = None, tn_children = [], tn_file = None\<rparr>]"
  obtain nodes cache where n: "add_files 0 ds (?root, Map.empty) = (nodes, cache)" by (cases "add_files 0 ds (?root, Map.empty)")
  have "tree_ok (?root, Map.empty)" by (auto simp: tree_ok_def)
  from add_files_ok [OF this, of 0 ds] have ok: "tree_ok (nodes, cache)"
    and files: "tree_files nodes = concat (map (\<lambda>(k, d). case name_to_vec (fd_filename d) of Inr (c # cs) \<Rightarrow> [(c # cs, k)] | _ \<Rightarrow> []) (List.enumerate 0 ds))"
    by (simp_all add: n tree_files_def [of ?root])
  have "(\<Sum>d\<leftarrow>ds. case name_to_vec (fd_filename d) of Inr cs \<Rightarrow> length cs | Inl _ \<Rightarrow> 0) = (\<Sum>fi\<leftarrow>tm_file_infos md. length (relative_filename fi))"
    by (rule arg_cong [of _ _ sum_list], rule nth_equalityI) (use ds in simp_all)
  then have len: "length nodes \<le> Suc (\<Sum>fi\<leftarrow>tm_file_infos md. length (relative_filename fi))"
    using length_add_files [of 0 ds "(?root, Map.empty)"] by (simp add: n)
  have "set (tree_files nodes) = {(relative_filename (tm_file_infos md ! k), k) |k. k < length (tm_file_infos md) \<and> relative_filename (tm_file_infos md ! k) \<noteq> []}"
    (is "_ = ?R")
  proof -
    have "set (tree_files nodes) = (\<Union>k<length ds. set (case name_to_vec (fd_filename (ds ! k)) of Inr (c # cs) \<Rightarrow> [(c # cs, k)] | _ \<Rightarrow> []))"
      unfolding files set_concat set_map by (force simp: in_set_enumerate_eq enumerate_eq_zip set_zip)
    also have "\<dots> = (\<Union>k<length ds. if relative_filename (tm_file_infos md ! k) = [] then {} else {(relative_filename (tm_file_infos md ! k), k)})"
      by (rule SUP_cong) (use ds(3) in \<open>auto simp: neq_Nil_conv split: list.split\<close>)
    also have "\<dots> = ?R" using ds(2) by (auto split: if_splits)
    finally show ?thesis .
  qed
  moreover have "tree_build tid info = Inr nodes" using assms(2) ds(1) title n by (simp add: tree_build_def)
  ultimately show ?thesis using ok len by blast
qed

lemma last_path_of: "path_of nodes i \<noteq> [] \<Longrightarrow> last (path_of nodes i) = tn_title (nodes ! i)"
  by (cases "tn_parent_id (nodes ! i)") (simp_all add: path_of.simps [of nodes i])

text \<open>C29: A player that opens the folders of a torrent of several files finds exactly its files: each file that has a name is found under its
  path, whatever is found is a file of the torrent under its path, and both come with the name, the size and the mime type of the file and
  the address of its stream.\<close>

theorem directory_is_the_torrent:
  assumes "session_get se (Id tid) = Some t" "mt_id t = tid" "mt_metadata t = Some md" "torrent_metadata_new info tb ib = Inr md"
    and "\<not> is_single_file_at_root info" "\<forall>n. mi_name info = Some n \<longrightarrow> utf8_ok n"
    and "tid < 65535" "(\<Sum>fi\<leftarrow>tm_file_infos md. length (relative_filename fi)) < 2 ^ 48"
  shows "(\<forall>fid < length (tm_file_infos md). relative_filename (tm_file_infos md ! fid) \<noteq> [] \<longrightarrow>
      (\<exists>e. found A se (encode_id 0 tid) (relative_filename (tm_file_infos md ! fid)) e \<and> describes A tid md fid e)) \<and>
    (\<forall>q e. found A se (encode_id 0 tid) q e \<longrightarrow>
      (\<exists>fid < length (tm_file_infos md). q = relative_filename (tm_file_infos md ! fid) \<and> describes A tid md fid e))"
proof -
  obtain nodes cache where n: "tree_build tid info = Inr nodes" "tree_ok (nodes, cache)"
    "length nodes \<le> Suc (\<Sum>fi\<leftarrow>tm_file_infos md. length (relative_filename fi))"
    "set (tree_files nodes) = {(relative_filename (tm_file_infos md ! k), k) |k. k < length (tm_file_infos md) \<and> relative_filename (tm_file_infos md ! k) \<noteq> []}"
    using tree_of_accepted [OF assms(4-6)] by blast
  obtain ds where ds: "iter_file_details info = Inr ds" "length ds = length (tm_file_infos md)" "tm_info md = info"
    "\<forall>i < length ds. name_to_vec (fd_filename (ds ! i)) = Inr (relative_filename (tm_file_infos md ! i))"
    using accepted_names [OF assms(4)] by blast
  have fl: "fid < length (tm_file_infos md) \<and> path_of nodes i = relative_filename (tm_file_infos md ! fid) \<and> path_of nodes i \<noteq> []"
    if "i < length nodes" "tn_file (nodes ! i) = Some fid" for i fid
  proof -
    have "(path_of nodes i, fid) \<in> set (tree_files nodes)" using that by (force simp: tree_files_def)
    then show ?thesis unfolding n(4) by auto
  qed
  have o: "offers se tid md nodes" using n(1-3) assms ds(3) fl by (auto simp: offers_def)
  have d: "describes A tid md fid e" if i: "i < length nodes" "tn_file (nodes ! i) = Some fid" "node_item A tid md nodes i = Item e" for i fid e
  proof -
    have "last (path_of nodes i) = tn_title (nodes ! i)" using fl [OF i(1,2)] last_path_of by blast
    then show ?thesis
      using node_item_file [OF i(2), of md A tid] fl [OF i(1,2)] i(3) ds
      by (auto simp: describes_def last_url_bit_def Let_def)
  qed
  have "\<exists>e. found A se (encode_id 0 tid) (relative_filename (tm_file_infos md ! fid)) e \<and> describes A tid md fid e"
    if "fid < length (tm_file_infos md)" "relative_filename (tm_file_infos md ! fid) \<noteq> []" for fid
  proof -
    have "(relative_filename (tm_file_infos md ! fid), fid) \<in> set (tree_files nodes)" using that n(4) by auto
    then obtain i where i: "i < length nodes" "tn_file (nodes ! i) = Some fid" "path_of nodes i = relative_filename (tm_file_infos md ! fid)"
      by (auto simp: tree_files_def)
    then show ?thesis using file_is_found [OF o i(1), of A] d [OF i(1,2)] by auto
  qed
  moreover have "\<exists>fid < length (tm_file_infos md). q = relative_filename (tm_file_infos md ! fid) \<and> describes A tid md fid e"
    if "found A se (encode_id 0 tid) q e" for q e
  proof -
    have r: "0 < length nodes" "tn_file (nodes ! 0) = None" "path_of nodes 0 = []" using n(2) by (auto simp: tree_ok_def path_of.simps [of nodes 0])
    from found_is_file [OF that o refl r(1,2)] obtain i fid where "i < length nodes" "tn_file (nodes ! i) = Some fid" "path_of nodes i = q"
      "node_item A tid md nodes i = Item e" using r(3) by auto
    then show ?thesis using fl d by metis
  qed
  ultimately show ?thesis by blast
qed

text \<open>The example torrent has a file and a folder with two files.\<close>

definition ex_adapter :: upnp_adapter where
  "ex_adapter = \<lparr>ua_port = 3030, ua_host = ''tv'', ua_mime = (\<lambda>_. None), ua_encode = (\<lambda>s. s)\<rparr>"

theorem directory_is_the_torrent_witness:
  "(\<exists>e. found ex_adapter ex_api_session (encode_id 0 1) [''d'', ''c''] e \<and> describes ex_adapter 1 ex_metadata 2 e) \<and>
   \<not> (\<exists>e. found ex_adapter ex_api_session (encode_id 0 1) [''d''] e)"
proof -
  have n: "relative_filename (ex_files ! 0) = [''a'']" "relative_filename (ex_files ! 1) = [''d'', ''b'']" "relative_filename (ex_files ! 2) = [''d'', ''c'']"
    "length ex_files = 3" "tm_file_infos ex_metadata = ex_files" by (simp_all add: ex_files_def ex_metadata_def)
  have s: "(\<Sum>fi\<leftarrow>ex_files. length (relative_filename fi)) < 2 ^ 48" by (simp add: ex_files_def)
  have i: "\<not> is_single_file_at_root ex_info" "\<forall>n. mi_name ex_info = Some n \<longrightarrow> utf8_ok n" "mt_id ex_paused_mt = 1"
    by (auto simp: is_single_file_at_root_def iter_file_details_def ex_info_def ex_mt_def in_byte_range_def)
  note d = directory_is_the_torrent [OF ex_api_sel(2) i(3) ex_api_sel(3) ex_metadata_new i(1,2), of ex_adapter]
  have "fid < 3 \<Longrightarrow> [''d''] \<noteq> relative_filename (ex_files ! fid)" for fid using n(1-3) by (auto simp: numeral_3_eq_3 less_Suc_eq numeral_2_eq_2)
  moreover have "1 < (65535 :: nat)" "(2 :: nat) < 3" by simp_all
  ultimately show ?thesis using d [unfolded n(5)] s n(3,4) by (metis list.distinct(1))
qed

end
