(* ===== verification/Create_Torrent.thy ===== *)
theory Create_Torrent
  imports File_Ops Session
begin

text \<open>
  Making a torrent of a file or a folder: the files are read one after the other, in reads of any size, and hashed in pieces that cross
  their boundaries. What the operating system says of paths and files, the digest and the encoder are parameters; a failure to open or
  to read a file is the failure of the whole.

  Shown is that the torrent describes its files: a client that is given the torrent and these files finds every piece verified.

  Source: \<^verbatim>\<open>create_torrent_file.rs\<close>.
\<close>

subsection \<open>Reading and hashing\<close>

record create_env =
  ce_try_exists :: "path \<Rightarrow> bool res"
  ce_is_dir :: "path \<Rightarrow> bool"
  ce_walk :: "path \<Rightarrow> path list" \<comment> \<open>the regular files below a folder that could be listed\<close>
  ce_open :: "path \<Rightarrow> nat list res"
  ce_read :: "nat \<Rightarrow> nat" \<comment> \<open>how much a read returns at most\<close>

record create_options =
  cr_name :: "string option"
  cr_piece_length :: "nat option"

record create_state =
  cs_length :: nat
  cs_remaining :: nat
  cs_checksum :: "nat list" \<comment> \<open>the bytes hashed so far\<close>
  cs_hashes :: "nat list"
  cs_files :: "meta_file list"

definition READ_SIZE :: nat where
  "READ_SIZE = 8192"

definition choose_piece_length :: nat where
  "choose_piece_length = 2 * 1024 * 1024"

text \<open>A read into a buffer of \<open>n\<close> bytes returns nothing only at the end of the file or for an empty buffer.\<close>

definition fd_read :: "(nat \<Rightarrow> nat) \<Rightarrow> nat list \<Rightarrow> nat \<Rightarrow> nat" where
  "fd_read S rest n = (if n = 0 \<or> rest = [] then 0 else max 1 (min (S (length rest)) (min n (length rest))))"

definition hash_bytes :: "(nat list \<Rightarrow> nat list) \<Rightarrow> nat \<Rightarrow> nat list \<Rightarrow> create_state \<Rightarrow> create_state" where
  "hash_bytes sha1 plen bs st =
     (let st = st\<lparr>cs_length := add64 (cs_length st) (length bs), cs_checksum := cs_checksum st @ bs, cs_remaining := cs_remaining st - length bs\<rparr>
      in if cs_remaining st = 0
         then st\<lparr>cs_remaining := plen, cs_hashes := cs_hashes st @ sha1 (cs_checksum st), cs_checksum := []\<rparr>
         else st)"

lemma fd_read_nonempty: "fd_read S rest n \<noteq> 0 \<Longrightarrow> rest \<noteq> []"
  by (auto simp: fd_read_def)

function hash_file :: "(nat \<Rightarrow> nat) \<Rightarrow> (nat list \<Rightarrow> nat list) \<Rightarrow> nat \<Rightarrow> nat list \<Rightarrow> create_state \<Rightarrow> create_state" where
  "hash_file S sha1 plen rest st =
     (let size = fd_read S rest (min (cs_remaining st) READ_SIZE)
      in if size = 0 then st else hash_file S sha1 plen (drop size rest) (hash_bytes sha1 plen (take size rest) st))"
  by pat_completeness auto
termination
proof (relation "measure (\<lambda>(S, sha1, n, rest, st). length rest)")
  fix S :: "nat \<Rightarrow> nat" and sha1 :: "nat list \<Rightarrow> nat list" and n :: nat and rest :: "nat list" and st :: create_state and sz :: nat
  assume "sz = fd_read S rest (min (cs_remaining st) READ_SIZE)" "sz \<noteq> 0"
  then have "0 < length rest" "0 < sz" using fd_read_nonempty [of S rest "min (cs_remaining st) READ_SIZE"] by auto
  then show "((S, sha1, n, drop sz rest, hash_bytes sha1 n (take sz rest) st), S, sha1, n, rest, st) \<in> measure (\<lambda>(S, sha1, n, rest, st). length rest)"
    by simp
qed simp

declare hash_file.simps [simp del]

definition osstr_to_bytes :: "string \<Rightarrow> string res" where
  "osstr_to_bytes o' = (if utf8_ok o' then Inr o' else Inl Panic)"

definition strip_prefix :: "path \<Rightarrow> path \<Rightarrow> path res" where
  "strip_prefix prefix p =
     (if take (length prefix) p = prefix then Inr (drop (length prefix) p) else Inl (Bail ''internal error, can't strip prefix''))"

definition add_input_file ::
  "create_env \<Rightarrow> (nat list \<Rightarrow> nat list) \<Rightarrow> path \<Rightarrow> nat \<Rightarrow> path \<Rightarrow> create_state \<Rightarrow> create_state res" where
  "add_input_file E sha1 path plen filename st =
     rbind (ce_open E filename) (\<lambda>content.
       let st = hash_file (ce_read E) sha1 plen content (st\<lparr>cs_length := 0\<rparr>)
       in rbind (strip_prefix path filename) (\<lambda>name.
          rbind (push_components [] (map osstr_to_bytes name)) (\<lambda>p.
            Inr (st\<lparr>cs_files := cs_files st @ [\<lparr>mf_length = cs_length st, mf_path = p, mf_attr = None\<rparr>]\<rparr>))))"

fun add_input_files ::
  "create_env \<Rightarrow> (nat list \<Rightarrow> nat list) \<Rightarrow> path \<Rightarrow> nat \<Rightarrow> path list \<Rightarrow> create_state \<Rightarrow> create_state res" where
  "add_input_files E sha1 path plen [] st = Inr st"
| "add_input_files E sha1 path plen (f # fs) st =
     rbind (add_input_file E sha1 path plen f st) (add_input_files E sha1 path plen fs)"

definition input_files :: "create_env \<Rightarrow> path \<Rightarrow> path list" where
  "input_files E path = (if ce_is_dir E path then ce_walk E path else [path])"

definition create_torrent_raw :: "create_env \<Rightarrow> (nat list \<Rightarrow> nat list) \<Rightarrow> path \<Rightarrow> create_options \<Rightarrow> meta_info res" where
  "create_torrent_raw E sha1 path options =
     rbind (ce_try_exists E path) (\<lambda>_.
     rbind (of_option (Bail ''cannot determine basename'') (file_name path)) (\<lambda>basename.
     rbind (case cr_name options of Some n \<Rightarrow> Inr n | None \<Rightarrow> osstr_to_bytes basename) (\<lambda>name.
       let plen = (case cr_piece_length options of Some n \<Rightarrow> n | None \<Rightarrow> choose_piece_length)
       in rbind (add_input_files E sha1 path plen (input_files E path)
                  \<lparr>cs_length = 0, cs_remaining = plen, cs_checksum = [], cs_hashes = [], cs_files = []\<rparr>) (\<lambda>st.
            let hashes = (if cs_remaining st > 0 \<and> cs_length st > 0 then cs_hashes st @ sha1 (cs_checksum st) else cs_hashes st)
            in Inr \<lparr>mi_name = Some name, mi_pieces = hashes, mi_piece_length = plen,
                    mi_length = (if ce_is_dir E path then None else Some (cs_length st)), mi_attr = None,
                    mi_files = (if ce_is_dir E path then Some (cs_files st) else None), mi_private = False\<rparr>))))"

definition compute_info_hash :: "(meta_info \<Rightarrow> nat list res) \<Rightarrow> (nat list \<Rightarrow> nat list) \<Rightarrow> meta_info \<Rightarrow> id20 res" where
  "compute_info_hash ser sha1 t = rbind (ser t) (\<lambda>bs. Inr (sha1 bs))"

definition create_torrent ::
  "(meta_info \<Rightarrow> nat list res) \<Rightarrow> create_env \<Rightarrow> (nat list \<Rightarrow> nat list) \<Rightarrow> path \<Rightarrow> create_options \<Rightarrow> (meta_info \<times> id20) res" where
  "create_torrent ser E sha1 path options =
     rbind (create_torrent_raw E sha1 path options) (\<lambda>info.
     rbind (compute_info_hash ser sha1 info) (\<lambda>info_hash. Inr (info, info_hash)))"

subsection \<open>The hashes are those of the pieces\<close>

definition full_pieces :: "nat \<Rightarrow> nat list \<Rightarrow> nat list list" where
  "full_pieces n d = map (\<lambda>i. take n (drop (i * n) d)) [0..<length d div n]"

definition hashed :: "(nat list \<Rightarrow> nat list) \<Rightarrow> nat \<Rightarrow> nat list \<Rightarrow> create_state \<Rightarrow> bool" where
  "hashed sha1 n d st \<longleftrightarrow>
     cs_remaining st = n - length d mod n \<and> cs_checksum st = drop (length d div n * n) d \<and> cs_hashes st = concat (map sha1 (full_pieces n d))"

lemma piece_append: "(i + 1) * n \<le> length d \<Longrightarrow> take n (drop (i * n) (d @ bs)) = take n (drop (i * n) d)"
  by simp

lemma full_pieces_append:
  assumes "q = length d div n" "q * n \<le> length d"
  shows "map (\<lambda>i. take n (drop (i * n) (d @ bs))) [0..<q] = full_pieces n d"
  unfolding full_pieces_def assms(1) [symmetric]
proof (rule map_cong)
  fix i assume "i \<in> set [0..<q]"
  then have "(i + 1) * n \<le> q * n" by (intro mult_le_mono1) simp
  then show "take n (drop (i * n) (d @ bs)) = take n (drop (i * n) d)" using assms(2) by (intro piece_append) simp
qed simp

lemma hash_bytes_hashed:
  assumes "0 < n" "hashed sha1 n d st" "length bs \<le> cs_remaining st"
  shows "hashed sha1 n (d @ bs) (hash_bytes sha1 n bs st)"
proof -
  define q r where "q = length d div n" and "r = length d mod n"
  have L: "length d = q * n + r" "r < n" "q * n \<le> length d" using assms(1) by (simp_all add: q_def r_def)
  have h: "cs_remaining st = n - r" "cs_checksum st = drop (q * n) d" "cs_hashes st = concat (map sha1 (full_pieces n d))"
    using assms(2) by (simp_all add: hashed_def q_def r_def)
  have d: "drop (q * n) (d @ bs) = drop (q * n) d @ bs" using L(3) by simp
  show ?thesis
  proof (cases "r + length bs = n")
    case True
    then have "length (d @ bs) = Suc q * n" using L(1) by simp
    then have m: "length (d @ bs) div n = Suc q" "length (d @ bs) mod n = 0" using assms(1) by (simp_all only: nonzero_mult_div_cancel_right mod_mult_self2_is_0 neq0_conv)
    have "full_pieces n (d @ bs) = full_pieces n d @ [drop (q * n) d @ bs]"
      unfolding full_pieces_def [of n "d @ bs"] m(1) using full_pieces_append [OF q_def L(3), of bs] d L(1) True by simp
    moreover have "cs_remaining st - length bs = 0" using h(1) True by simp
    moreover have "drop (length (d @ bs)) (d @ bs) = []" by simp
    ultimately show ?thesis using h d m \<open>length (d @ bs) = Suc q * n\<close> by (simp add: hashed_def hash_bytes_def Let_def)
  next
    case False
    then have lt: "r + length bs < n" using assms(3) h(1) L(2) by simp
    have "length (d @ bs) = (r + length bs) + q * n" using L(1) by simp
    then have m: "length (d @ bs) div n = q" "length (d @ bs) mod n = r + length bs"
      using lt assms(1) by (simp_all only: div_mult_self1 mod_mult_self1 div_less mod_less neq0_conv add_0_right)
    have "full_pieces n (d @ bs) = full_pieces n d"
      unfolding full_pieces_def [of n "d @ bs"] m(1) by (rule full_pieces_append [OF q_def L(3)])
    moreover have "cs_remaining st - length bs = n - (r + length bs)" "n - (r + length bs) \<noteq> 0" using h(1) lt by simp_all
    ultimately show ?thesis using h d m by (simp add: hashed_def hash_bytes_def Let_def)
  qed
qed

lemma hash_file_hashed:
  assumes "0 < n" "hashed sha1 n d st" "cs_length st + length c < 2 ^ 64"
  shows "hashed sha1 n (d @ c) (hash_file S sha1 n c st) \<and> cs_length (hash_file S sha1 n c st) = cs_length st + length c \<and>
    cs_files (hash_file S sha1 n c st) = cs_files st"
  using assms(2,3)
proof (induction c arbitrary: d st rule: length_induct)
  case (1 c)
  define k where "k = fd_read S c (min (cs_remaining st) READ_SIZE)"
  have rem: "0 < cs_remaining st" using 1(2) assms(1) by (simp add: hashed_def)
  have le: "k \<le> cs_remaining st" "k \<le> length c" using rem by (auto simp: k_def fd_read_def READ_SIZE_def Suc_le_eq)
  show ?case
  proof (cases "k = 0")
    case True
    then have "c = []" using rem by (auto simp: k_def fd_read_def READ_SIZE_def split: if_splits)
    then show ?thesis using 1(2) by (simp add: hash_file.simps [of S sha1 n "[]" st] fd_read_def)
  next
    case False
    let ?st = "hash_bytes sha1 n (take k c) st"
    have e: "hash_file S sha1 n c st = hash_file S sha1 n (drop k c) ?st" using False unfolding hash_file.simps [of S sha1 n c st] k_def Let_def by simp
    have s: "cs_length ?st = cs_length st + k" "cs_files ?st = cs_files st"
      using le(2) 1(3) by (simp_all add: hash_bytes_def Let_def add64_exact)
    have "hashed sha1 n (d @ take k c) ?st" using hash_bytes_hashed [OF assms(1) 1(2), of "take k c"] le by simp
    then show ?thesis using 1(1) [rule_format, of "drop k c" "d @ take k c" ?st] False le s 1(3) e by simp
  qed
qed

lemma add_input_files_hashed:
  assumes "0 < n" "hashed sha1 n d st" "add_input_files E sha1 path n fs st = Inr st'" "\<forall>f \<in> set fs. \<forall>c. ce_open E f = Inr c \<longrightarrow> length c < 2 ^ 64"
  shows "\<exists>cs. map (ce_open E) fs = map Inr cs \<and> hashed sha1 n (d @ concat cs) st' \<and>
    map mf_length (cs_files st') = map mf_length (cs_files st) @ map length cs \<and> (\<forall>m \<in> set (cs_files st'). m \<in> set (cs_files st) \<or> mf_attr m = None) \<and>
    cs_length st' = (if cs = [] then cs_length st else length (last cs))"
  using assms(2-)
proof (induction fs arbitrary: d st)
  case (Cons f fs)
  obtain st1 where s1: "add_input_file E sha1 path n f st = Inr st1" "add_input_files E sha1 path n fs st1 = Inr st'"
    using Cons.prems(2) by (auto simp: rbind_eq_Inr)
  obtain c p where c: "ce_open E f = Inr c"
    "st1 = (let st = hash_file (ce_read E) sha1 n c (st\<lparr>cs_length := 0\<rparr>) in st\<lparr>cs_files := cs_files st @ [\<lparr>mf_length = cs_length st, mf_path = p, mf_attr = None\<rparr>]\<rparr>)"
    using s1(1) by (auto simp: add_input_file_def Let_def rbind_eq_Inr)
  have "hashed sha1 n d (st\<lparr>cs_length := 0\<rparr>)" using Cons.prems(1) by (simp add: hashed_def)
  moreover have "cs_length (st\<lparr>cs_length := 0\<rparr>) + length c < 2 ^ 64" using Cons.prems(3) c(1) by simp
  ultimately have h: "hashed sha1 n (d @ c) st1" "cs_length st1 = length c"
    "cs_files st1 = cs_files st @ [\<lparr>mf_length = length c, mf_path = p, mf_attr = None\<rparr>]"
    using hash_file_hashed [OF assms(1), of sha1 d "st\<lparr>cs_length := 0\<rparr>" c "ce_read E"] c(2) by (auto simp: Let_def hashed_def)
  obtain cs where cs: "map (ce_open E) fs = map Inr cs" "hashed sha1 n ((d @ c) @ concat cs) st'"
    "map mf_length (cs_files st') = map mf_length (cs_files st1) @ map length cs" "\<forall>m \<in> set (cs_files st'). m \<in> set (cs_files st1) \<or> mf_attr m = None"
    "cs_length st' = (if cs = [] then cs_length st1 else length (last cs))"
    using Cons.IH [OF h(1) s1(2)] Cons.prems(3) by auto
  show ?case
    by (rule exI [of _ "c # cs"]) (use c(1) cs h in auto)
qed simp

text \<open>The digests lie one after the other.\<close>

lemma nth_block:
  assumes "\<forall>b \<in> set bs. length b = k" "p < length bs"
  shows "take k (drop (p * k) (concat bs)) = bs ! p \<and> p * k + k \<le> length (concat bs)"
  using assms
proof (induction bs arbitrary: p)
  case (Cons b bs)
  then show ?case by (cases p) auto
qed simp

text \<open>The files a torrent of a folder (\<open>d\<close>) or of a single file lists.\<close>

definition describes_files :: "bool \<Rightarrow> meta_info \<Rightarrow> nat list list \<Rightarrow> bool" where
  "describes_files d info cs \<longleftrightarrow>
     (d \<longrightarrow> mi_length info = None \<and> (\<exists>ms. mi_files info = Some ms \<and> map mf_length ms = map length cs \<and> (\<forall>m \<in> set ms. mf_attr m = None))) \<and>
     (\<not> d \<longrightarrow> mi_files info = None \<and> mi_attr info = None \<and> (\<exists>c. cs = [c] \<and> mi_length info = Some (length c)))"

lemma created_hashes:
  assumes "create_torrent_raw E sha1 path options = Inr info" "\<forall>f \<in> set (input_files E path). \<forall>c. ce_open E f = Inr c \<longrightarrow> length c < 2 ^ 64"
    and "0 < mi_piece_length info" "\<And>x. length (sha1 x) = 20"
  shows "\<exists>cs. map (ce_open E) (input_files E path) = map Inr cs \<and>
    describes_files (ce_is_dir E path) info cs \<and>
    ((cs \<noteq> [] \<and> last cs \<noteq> []) \<or> length (concat cs) mod mi_piece_length info = 0 \<longrightarrow>
      (\<forall>p < div_ceil (length (concat cs)) (mi_piece_length info).
        get_hash info p = Some (sha1 (take (mi_piece_length info) (drop (p * mi_piece_length info) (concat cs))))))"
proof -
  define n where "n = mi_piece_length info"
  let ?st0 = "\<lparr>cs_length = 0, cs_remaining = n, cs_checksum = [], cs_hashes = [], cs_files = []\<rparr>"
  obtain st where st: "add_input_files E sha1 path n (input_files E path) ?st0 = Inr st"
    "mi_pieces info = (if cs_remaining st > 0 \<and> cs_length st > 0 then cs_hashes st @ sha1 (cs_checksum st) else cs_hashes st)"
    "mi_length info = (if ce_is_dir E path then None else Some (cs_length st))" "mi_files info = (if ce_is_dir E path then Some (cs_files st) else None)" "mi_attr info = None"
    using assms(1) by (auto simp: create_torrent_raw_def Let_def rbind_eq_Inr n_def)
  have "0 < n" "hashed sha1 n [] ?st0" using assms(3) by (simp_all add: n_def hashed_def full_pieces_def)
  note pos = this(1)
  obtain cs where cs: "map (ce_open E) (input_files E path) = map Inr cs" "hashed sha1 n (concat cs) st" "map mf_length (cs_files st) = map length cs"
    "\<forall>m \<in> set (cs_files st). mf_attr m = None" "cs_length st = (if cs = [] then 0 else length (last cs))"
    using add_input_files_hashed [OF \<open>0 < n\<close> \<open>hashed sha1 n [] ?st0\<close> st(1) assms(2)] by auto
  define D q where "D = concat cs" and "q = length D div n"
  define bs where "bs = full_pieces n D @ (if cs \<noteq> [] \<and> last cs \<noteq> [] then [drop (q * n) D] else [])"
  have m: "mi_pieces info = concat (map sha1 bs)"
    using st(2) cs(2,5) pos by (auto simp: bs_def hashed_def D_def [symmetric] q_def)
  have "get_hash info p = Some (sha1 (take n (drop (p * n) D)))"
    if l: "(cs \<noteq> [] \<and> last cs \<noteq> []) \<or> length D mod n = 0" and p: "p < div_ceil (length D) n" for p
  proof -
    have b: "p < length bs \<and> bs ! p = take n (drop (p * n) D)"
    proof (cases "p < q")
      case True
      then show ?thesis by (simp add: bs_def full_pieces_def q_def nth_append)
    next
      case False
      then have e: "p = q" "length D mod n \<noteq> 0" using p by (auto simp: div_ceil_def q_def split: if_splits)
      have "length (drop (q * n) D) \<le> n" using pos by (simp add: q_def minus_div_mult_eq_mod less_imp_le)
      then show ?thesis using e l by (simp add: bs_def full_pieces_def q_def nth_append)
    qed
    then show ?thesis
      using nth_block [of "map sha1 bs" 20 p] assms(4) m by (simp add: get_hash_def Let_def)
  qed
  then show ?thesis using cs st(3-5) unfolding n_def [symmetric]
    by (intro exI [of _ cs]) (auto simp: D_def [symmetric] input_files_def describes_files_def split: if_splits)
qed

subsection \<open>The torrent describes its files\<close>

lemma nth_concat_offset: "i < length cs \<Longrightarrow> j < length (cs ! i) \<Longrightarrow> concat cs ! ((\<Sum>k<i. length (cs ! k)) + j) = cs ! i ! j"
proof (induction cs arbitrary: i)
  case (Cons c cs)
  show ?case
  proof (cases i)
    case (Suc k)
    have "(\<Sum>m<i. length ((c # cs) ! m)) = length c + (\<Sum>m<k. length (cs ! m))"
      unfolding Suc by (simp add: sum.lessThan_Suc_shift del: sum.lessThan_Suc)
    then show ?thesis using Cons.IH [of k] Cons.prems Suc by (simp add: nth_append add.assoc)
  qed (use Cons.prems in \<open>simp add: nth_append\<close>)
qed simp

lemma stored_byte:
  assumes "wf_lengths l" "wf_file_infos l fis" "map fi_len fis = map length cs" "opened_files s = map Some cs" "y < total_length l"
  shows "fs_tb l fis s y = Some (concat cs ! y) \<and> (\<exists>i < length fis. owner fis y = Some i)"
proof -
  obtain i where i: "i < length fis" "offset_in_torrent (fis ! i) \<le> y" "y < offset_in_torrent (fis ! i) + fi_len (fis ! i)"
    using files.owner_exists [of "(l, fis)" y] assms(1,2,5) by auto
  note o = owner_eq [OF assms(1,2) i]
  have len: "length fis = length cs" "\<And>k. k < length cs \<Longrightarrow> fi_len (fis ! k) = length (cs ! k)"
    using assms(3) by (auto simp: list_eq_iff_nth_eq dest: map_eq_imp_length_eq)
  have off: "offset_in_torrent (fis ! i) = (\<Sum>k<i. length (cs ! k))"
    using assms(2) i(1) len by (simp add: wf_file_infos_def)
  have "y - offset_in_torrent (fis ! i) < length (cs ! i)" using i len by simp
  moreover from this have "concat cs ! y = cs ! i ! (y - offset_in_torrent (fis ! i))"
    using nth_concat_offset [of i cs "y - offset_in_torrent (fis ! i)"] i len(1) off by simp
  ultimately show ?thesis using o i(1) len(1) assms(4) by (simp add: fs_tb_def Let_def)
qed

lemma stored_bytes:
  assumes "wf_lengths l" "wf_file_infos l fis" "map fi_len fis = map length cs" "opened_files s = map Some cs"
    and "\<forall>fi \<in> set fis. \<not> padding (fi_attrs fi)" "x + k \<le> total_length l" "total_length l = length (concat cs)"
  shows "seen_bytes fis (fs_tb l fis s) x k = take k (drop x (concat cs))"
proof (rule nth_equalityI)
  fix j assume "j < length (seen_bytes fis (fs_tb l fis s) x k)"
  then have j: "j < k" "x + j < total_length l" using assms(6) by simp_all
  then obtain i where "i < length fis" "owner fis (x + j) = Some i" "fs_tb l fis s (x + j) = Some (concat cs ! (x + j))"
    using stored_byte [OF assms(1-4), of "x + j"] by blast
  then show "seen_bytes fis (fs_tb l fis s) x k ! j = take k (drop x (concat cs)) ! j"
    using j assms(5,7) by (simp add: seen_bytes_def seen_def)
qed (use assms(6,7) in simp)

lemma collect_file_infos_attrs:
  "collect_file_infos exts = Inr fis \<Longrightarrow> map fi_attrs fis = map (\<lambda>x. attrs_of (fst x)) exts \<and> map fi_len fis = map (\<lambda>x. fd_len (fst x)) exts"
  by (induction exts arbitrary: fis rule: collect_file_infos.induct) (auto simp: rbind_eq_Inr)

lemma file_details_scan_fst: "map fst (file_details_scan l a ds) = ds"
  by (induction ds arbitrary: a) simp_all

lemma metadata_of_plain_files:
  assumes "torrent_metadata_new info tb ib = Inr md" "iter_file_details info = Inr ds" "\<forall>d \<in> set ds. fd_attr d = None"
  shows "map fi_len (tm_file_infos md) = map fd_len ds" "\<forall>fi \<in> set (tm_file_infos md). \<not> padding (fi_attrs fi)"
proof -
  obtain l where l: "collect_file_infos (file_details_scan l 0 ds) = Inr (tm_file_infos md)"
    using assms(1,2) by (auto simp: torrent_metadata_new_def iter_file_details_ext_def rbind_eq_Inr)
  have "map f (map fst (file_details_scan l 0 ds)) = map f ds" for f :: "file_details \<Rightarrow> 'c" by (simp only: file_details_scan_fst)
  then have m: "map fi_len (tm_file_infos md) = map fd_len ds" "map fi_attrs (tm_file_infos md) = map attrs_of ds"
    using collect_file_infos_attrs [OF l] by (simp_all add: comp_def)
  then show "map fi_len (tm_file_infos md) = map fd_len ds" by simp
  have "fi_attrs fi \<in> attrs_of ` set ds" if "fi \<in> set (tm_file_infos md)" for fi
    using that m(2) by (metis image_eqI list.set_map)
  then show "\<forall>fi \<in> set (tm_file_infos md). \<not> padding (fi_attrs fi)"
    using assms(3) by (fastforce simp: attrs_of_def default_attrs_def)
qed

lemma created_file_details:
  assumes "describes_files d info cs"
    and "torrent_metadata_new info tb ib = Inr md"
  shows "\<exists>ds. iter_file_details info = Inr ds \<and> map fd_len ds = map length cs \<and> (\<forall>x \<in> set ds. fd_attr x = None)"
proof (cases d)
  case True
  then obtain ms where ms: "mi_length info = None" "mi_files info = Some ms" "map mf_length ms = map length cs" "\<forall>m \<in> set ms. mf_attr m = None"
    using assms(1) unfolding describes_files_def by blast
  have "ms \<noteq> []" using assms(2) ms by (auto simp: torrent_metadata_new_def lengths_from_torrent_def iter_file_lengths_def iter_file_details_def)
  then show ?thesis using ms by (simp add: iter_file_details_def comp_def)
next
  case False
  then show ?thesis using assms(1) by (auto simp: iter_file_details_def describes_files_def)
qed

text \<open>The bytes of a piece of a torrent that lie one after the other.\<close>

lemma piece_of_concat:
  assumes wf: "wf_lengths l" and p: "p < total_pieces l" and n: "default_piece_length l = n" and D: "total_length l = length D"
  shows "piece_offset l p = p * n" "p < div_ceil (length D) n" "take (piece_length l p) (drop (p * n) D) = take n (drop (p * n) D)"
proof -
  note sp = piece_span(1) [OF wf p]
  show o: "piece_offset l p = p * n" using piece_offset_eq [OF wf piece_index_u32 [OF wf p]] n by simp
  have "p * n < length D" using sp o D piece_length_bounds(1) [OF wf, of p] by simp
  then show "p < div_ceil (length D) n" using wf_dpl [OF wf] n by (simp add: less_div_ceil_iff)
  show "take (piece_length l p) (drop (p * n) D) = take n (drop (p * n) D)"
  proof (cases "p = last_piece_id l")
    case True
    then have "p * n + piece_length l p = length D" using last_piece_bounds(5) [OF wf] D n by (simp add: piece_length_def)
    then show ?thesis using piece_length_bounds(2) [OF wf, of p] n by simp
  next
    case False
    then show ?thesis using n by (simp add: piece_length_def)
  qed
qed

text \<open>C9: A torrent made of a file or a folder describes it: a client that is given the torrent and the same files finds every piece
  verified, whatever the sizes of the reads, the files and the pieces were. The exception is a last file that is empty, unless the rest
  is a whole number of pieces.\<close>

theorem created_torrent_is_complete:
  assumes "create_torrent_raw E sha1 path options = Inr info" "torrent_metadata_new info tb ib = Inr md"
    and "map (ce_open E) (input_files E path) = map Inr cs" "opened_files s = map Some cs" "\<And>x. length (sha1 x) = 20"
    and "length (concat cs) < 2 ^ 64" "0 < mi_piece_length info" "mi_piece_length info < 2 ^ 32"
    and "div_ceil (length (concat cs)) (mi_piece_length info) * div_ceil (mi_piece_length info) CHUNK_SIZE < 2 ^ 32"
    and "(cs \<noteq> [] \<and> last cs \<noteq> []) \<or> length (concat cs) mod mi_piece_length info = 0"
  shows "\<exists>bf pr'. initial_check fs_pread_exact sha1 info (tm_file_infos md) (tm_lengths md) s pr = Inr (bf, pr') \<and>
    total_pieces (tm_lengths md) \<le> length bf \<and> (\<forall>p < total_pieces (tm_lengths md). bf ! p)"
proof -
  let ?l = "tm_lengths md" and ?fis = "tm_file_infos md" and ?n = "mi_piece_length info" and ?D = "concat cs"
  have "length c \<le> length ?D" if "c \<in> set cs" for c using that by (simp add: length_concat member_le_sum_list)
  moreover have "c \<in> set cs" if "f \<in> set (input_files E path)" "ce_open E f = Inr c" for f c
    using that assms(3) by (metis (no_types, lifting) image_iff list.set_map sum.inject(2))
  ultimately have b: "\<forall>f \<in> set (input_files E path). \<forall>c. ce_open E f = Inr c \<longrightarrow> length c < 2 ^ 64" using assms(6) by (meson le_less_trans)
  have inj: "cs' = cs" if "map (ce_open E) (input_files E path) = map Inr cs'" for cs'
    using that assms(3) by (simp add: inj_map_eq_map)
  have cr: "describes_files (ce_is_dir E path) info cs"
    and hashes: "\<forall>p < div_ceil (length ?D) ?n. get_hash info p = Some (sha1 (take ?n (drop (p * ?n) ?D)))"
  proof -
    obtain cs' where c: "map (ce_open E) (input_files E path) = map Inr cs'"
      "describes_files (ce_is_dir E path) info cs'"
      "(cs' \<noteq> [] \<and> last cs' \<noteq> []) \<or> length (concat cs') mod ?n = 0 \<longrightarrow>
       (\<forall>p < div_ceil (length (concat cs')) ?n. get_hash info p = Some (sha1 (take ?n (drop (p * ?n) (concat cs')))))"
      using created_hashes [OF assms(1) b assms(7,5)] by metis
    note e = inj [OF c(1)]
    show "describes_files (ce_is_dir E path) info cs" using c(2) unfolding e .
    show "\<forall>p < div_ceil (length ?D) ?n. get_hash info p = Some (sha1 (take ?n (drop (p * ?n) ?D)))" using c(3) assms(10) unfolding e by blast
  qed
  obtain ds where ds: "iter_file_details info = Inr ds" "map fd_len ds = map length cs" "\<forall>d \<in> set ds. fd_attr d = None"
    using created_file_details [OF cr assms(2)] by blast
  have T: "sum_list (map fd_len ds) = length ?D" by (simp add: ds(2) length_concat)
  note wf = torrent_metadata_new_wf [OF assms(2) ds(1) _ assms(7,8), unfolded T, OF assms(6,9)]
  note fis = metadata_of_plain_files [OF assms(2) ds(1,3), unfolded ds(2)]
  have inv: "fs_inv ?l ?fis s" using assms(4) fis by (auto simp: fs_inv_def dest: map_eq_imp_length_eq)
  have some: "fs_tb ?l ?fis s y \<noteq> None" if "y < total_length ?l" for y using stored_byte [OF wf(1,2) fis(1) assms(4) that] by simp
  have piece: "get_hash info p = Some (sha1 (seen_bytes ?fis (fs_tb ?l ?fis s) (piece_offset ?l p) (piece_length ?l p)))" if p: "p < total_pieces ?l" for p
  proof -
    note c = piece_of_concat [OF wf(1) p wf(4,3)]
    have "get_hash info p = Some (sha1 (take ?n (drop (p * ?n) ?D)))" using hashes c(2) by blast
    then show ?thesis using stored_bytes [OF wf(1,2) fis(1) assms(4) fis(2) piece_span(1) [OF wf(1) p] wf(3)] c(1,3) by simp
  qed
  have check: "check_piece fs_pread_exact sha1 info ?fis ?l s p = Inr True" if p: "p < total_pieces ?l" for p
    using filesystem.check_piece_correct [OF wf(1,2) inv p, of sha1 info] some piece_span(1) [OF wf(1) p] piece [OF p]
    by (simp add: compare_hash_def of_option_def)
  obtain bf pr' where "initial_check fs_pread_exact sha1 info ?fis ?l s pr = Inr (bf, pr')" "length bf = 8 * piece_bitfield_bytes ?l"
    "\<forall>p < length bf. bf ! p \<longleftrightarrow> p < total_pieces ?l \<and> check_piece fs_pread_exact sha1 info ?fis ?l s p = Inr True"
    using filesystem.initial_check_correct [OF wf(1,2) inv, of info sha1 pr] some piece by blast
  then show ?thesis using check total_pieces_le_bits [of ?l] by (intro exI [of _ bf] exI [of _ pr']) simp
qed

text \<open>Two files in a folder, and pieces of two bytes.\<close>

definition ex_folder :: create_env where
  "ex_folder = \<lparr>ce_try_exists = (\<lambda>_. Inr True), ce_is_dir = (\<lambda>_. True), ce_walk = (\<lambda>p. [p @ [''a''], p @ [''b'']]),
     ce_open = (\<lambda>p. if p = [''t'', ''a''] then Inr [1, 2, 3] else Inr [4, 5]), ce_read = (\<lambda>_. 1)\<rparr>"

definition ex_created :: meta_info where
  "ex_created = \<lparr>mi_name = Some ''t'', mi_pieces = replicate 60 0, mi_piece_length = 2, mi_length = None, mi_attr = None,
     mi_files = Some [\<lparr>mf_length = 3, mf_path = [''a''], mf_attr = None\<rparr>, \<lparr>mf_length = 2, mf_path = [''b''], mf_attr = None\<rparr>], mi_private = False\<rparr>"

lemma hash_file_bytes:
  "hash_file (\<lambda>_. 1) sha1 n [] st = st"
  "0 < cs_remaining st \<Longrightarrow> hash_file (\<lambda>_. 1) sha1 n (b # bs) st = hash_file (\<lambda>_. 1) sha1 n bs (hash_bytes sha1 n [b] st)"
  unfolding hash_file.simps [of _ _ _ "[]"] hash_file.simps [of _ _ _ "b # bs"] Let_def by (simp_all add: fd_read_def READ_SIZE_def)

lemma ex_created: "create_torrent_raw ex_folder (\<lambda>_. replicate 20 0) [''t''] \<lparr>cr_name = None, cr_piece_length = Some 2\<rparr> = Inr ex_created"
proof -
  have "replicate 60 (0 :: nat) = replicate 20 0 @ replicate 20 0 @ replicate 20 0" by (simp add: replicate_add [symmetric])
  then show ?thesis
    by (simp add: create_torrent_raw_def ex_folder_def ex_created_def file_name_def osstr_to_bytes_def in_byte_range_def input_files_def add_input_file_def
      hash_file_bytes [unfolded One_nat_def] hash_bytes_def strip_prefix_def add64_def as_u64_def Let_def)
qed

theorem created_torrent_is_complete_witness:
  "\<exists>md bf pr'. torrent_metadata_new ex_created [] [] = Inr md \<and>
     initial_check fs_pread_exact (\<lambda>_. replicate 20 0) ex_created (tm_file_infos md) (tm_lengths md) \<lparr>output_folder = [''t''], opened_files = [Some [1, 2, 3], Some [4, 5]]\<rparr> 0 = Inr (bf, pr') \<and>
     (\<forall>p < 3. bf ! p)"
proof -
  obtain md where md: "torrent_metadata_new ex_created [] [] = Inr md" "total_pieces (tm_lengths md) = 3"
    by (simp add: torrent_metadata_new_def lengths_from_torrent_def iter_file_lengths_def iter_file_details_def iter_file_details_ext_def ex_created_def
        lengths_new_def to_pathbuf_def check_component_def in_byte_range_def total_pieces_def div_ceil_def as_u64_def add32_def sub32_def as_u32_def Let_def)
  let ?cs = "[[1, 2, 3], [4, 5 :: nat]]"
  have "map (ce_open ex_folder) (input_files ex_folder [''t'']) = map Inr ?cs" by (simp add: ex_folder_def input_files_def)
  then show ?thesis
    using created_torrent_is_complete [OF ex_created md(1), of ?cs "\<lparr>output_folder = [''t''], opened_files = [Some [1, 2, 3], Some [4, 5]]\<rparr>" 0] md
    by (auto simp: ex_created_def div_ceil_def CHUNK_SIZE_def)
qed

end
