(* ===== verification/Metainfo_Search.thy ===== *)
theory Metainfo_Search
  imports Peer_Info Session
begin

text \<open>
  Asking many peers for the metadata of a magnet link: addresses arrive on a stream, every new one is asked by a task of its own, and the
  first answer ends the search. Which task answers next, and when the next address arrives, is arbitrary. The semaphore only delays
  tasks. Shown is that the search ends, that it gives up only after every peer was asked and failed, and that what it finds is the
  metadata of the link.

  Source: \<^verbatim>\<open>dht_utils.rs\<close>.
\<close>

subsection \<open>The search\<close>

datatype read_metainfo_result =
    MetainfoFound meta_info "nat list" "socket_addr list" "socket_addr list" \<comment> \<open>info, its bytes, the rest of the stream, the addresses seen\<close>
  | MetainfoChannelClosed "socket_addr list"

record metainfo_search =
  ms_seen :: "socket_addr list"
  ms_unordered :: "socket_addr list" \<comment> \<open>the tasks that run\<close>
  ms_addrs :: "socket_addr list" \<comment> \<open>what the stream still holds\<close>
  ms_completed :: bool

definition search_start :: "socket_addr list \<Rightarrow> socket_addr list \<Rightarrow> metainfo_search" where
  "search_start initial_addrs addrs_stream =
     \<lparr>ms_seen = fold List.insert initial_addrs [], ms_unordered = initial_addrs, ms_addrs = addrs_stream, ms_completed = False\<rparr>"

text \<open>The task with a number is done, or the stream is polled.\<close>

datatype search_event = TaskDone nat "(meta_info \<times> nat list) res" | PollAddrs

definition remove_nth :: "nat \<Rightarrow> 'a list \<Rightarrow> 'a list" where
  "remove_nth i xs = take i xs @ drop (Suc i) xs"

definition search_step :: "search_event \<Rightarrow> metainfo_search \<Rightarrow> read_metainfo_result + metainfo_search" where
  "search_step ev s =
     (case ev of
        TaskDone i (Inr (info, info_bytes)) \<Rightarrow> Inl (MetainfoFound info info_bytes (ms_addrs s) (ms_seen s))
      | TaskDone i (Inl e) \<Rightarrow> Inr (s\<lparr>ms_unordered := remove_nth i (ms_unordered s)\<rparr>)
      | PollAddrs \<Rightarrow>
          (case ms_addrs s of
             addr # rest \<Rightarrow>
               Inr (if addr \<in> set (ms_seen s) then s\<lparr>ms_addrs := rest\<rparr>
                    else s\<lparr>ms_addrs := rest, ms_seen := ms_seen s @ [addr], ms_unordered := ms_unordered s @ [addr]\<rparr>)
           | [] \<Rightarrow> Inr (s\<lparr>ms_completed := True\<rparr>)))"

fun search_loop :: "search_event list \<Rightarrow> metainfo_search \<Rightarrow> read_metainfo_result + metainfo_search" where
  "search_loop evs s =
     (if ms_completed s \<and> ms_unordered s = [] then Inl (MetainfoChannelClosed (ms_seen s))
      else case evs of
             [] \<Rightarrow> Inr s
           | ev # evs \<Rightarrow> (case search_step ev s of Inl r \<Rightarrow> Inl r | Inr s \<Rightarrow> search_loop evs s))"

declare search_loop.simps [simp del]

subsection \<open>Schedules\<close>

text \<open>What may happen next: a task that runs gives an answer of its peer, or the stream is polled that has not ended.\<close>

fun enabled :: "(socket_addr \<Rightarrow> (meta_info \<times> nat list) res \<Rightarrow> bool) \<Rightarrow> metainfo_search \<Rightarrow> search_event \<Rightarrow> bool" where
  "enabled ans s (TaskDone i r) \<longleftrightarrow> i < length (ms_unordered s) \<and> ans (ms_unordered s ! i) r"
| "enabled ans s PollAddrs \<longleftrightarrow> \<not> ms_completed s"

fun schedule :: "(socket_addr \<Rightarrow> (meta_info \<times> nat list) res \<Rightarrow> bool) \<Rightarrow> metainfo_search \<Rightarrow> search_event list \<Rightarrow> bool" where
  "schedule ans s [] \<longleftrightarrow> True"
| "schedule ans s (ev # evs) \<longleftrightarrow>
     \<not> (ms_completed s \<and> ms_unordered s = []) \<and> enabled ans s ev \<and> (case search_step ev s of Inl r \<Rightarrow> evs = [] | Inr s \<Rightarrow> schedule ans s evs)"

subsection \<open>Nobody is forgotten\<close>

text \<open>Every address was seen or is still to come; a seen one is being asked or has failed; the stream was polled to its end when it counts
  as completed.\<close>

definition search_ok :: "(socket_addr \<Rightarrow> (meta_info \<times> nat list) res \<Rightarrow> bool) \<Rightarrow> socket_addr set \<Rightarrow> metainfo_search \<Rightarrow> bool" where
  "search_ok ans all s \<longleftrightarrow>
     set (ms_seen s) \<union> set (ms_addrs s) = all \<and> set (ms_unordered s) \<subseteq> set (ms_seen s) \<and>
     (\<forall>a \<in> set (ms_seen s). a \<in> set (ms_unordered s) \<or> (\<exists>e. ans a (Inl e))) \<and> (ms_completed s \<longrightarrow> ms_addrs s = [])"

lemma set_remove_nth: "i < length xs \<Longrightarrow> set xs = insert (xs ! i) (set (remove_nth i xs))"
  unfolding remove_nth_def by (subst id_take_nth_drop [of i xs]) auto

lemma search_start_ok: "search_ok ans (set initial \<union> set stream) (search_start initial stream)"
proof -
  have "set (fold List.insert initial xs) = set initial \<union> set xs" for xs by (induction initial arbitrary: xs) auto
  then show ?thesis by (simp add: search_ok_def search_start_def)
qed

lemma search_step_ok:
  assumes "search_ok ans all s" "enabled ans s ev" "search_step ev s = Inr s'"
  shows "search_ok ans all s'"
proof (cases ev)
  case (TaskDone i r)
  then obtain e where e: "r = Inl e" "s' = s\<lparr>ms_unordered := remove_nth i (ms_unordered s)\<rparr>"
    using assms(3) by (cases r) (auto simp: search_step_def)
  then show ?thesis
    using assms(1,2) TaskDone set_remove_nth [of i "ms_unordered s"] by (auto simp: search_ok_def)
next
  case PollAddrs
  then show ?thesis
    using assms by (auto simp: search_ok_def search_step_def split: list.splits if_splits)
qed

text \<open>What a search may return.\<close>

definition search_outcome ::
  "(socket_addr \<Rightarrow> (meta_info \<times> nat list) res \<Rightarrow> bool) \<Rightarrow> socket_addr set \<Rightarrow> read_metainfo_result \<Rightarrow> bool" where
  "search_outcome ans all r \<longleftrightarrow>
     (case r of
        MetainfoFound info bytes rx asked \<Rightarrow> (\<exists>a \<in> set asked. ans a (Inr (info, bytes))) \<and> set asked \<union> set rx = all
      | MetainfoChannelClosed asked \<Rightarrow> set asked = all \<and> (\<forall>a \<in> all. \<exists>e. ans a (Inl e)))"

lemma search_loop_outcome:
  "search_ok ans all s \<Longrightarrow> schedule ans s evs \<Longrightarrow> search_loop evs s = Inl r \<Longrightarrow> search_outcome ans all r"
proof (induction evs arbitrary: s)
  case Nil
  then show ?case by (auto simp: search_loop.simps search_outcome_def search_ok_def split: if_splits)
next
  case (Cons ev evs)
  then have g: "\<not> (ms_completed s \<and> ms_unordered s = [])" "enabled ans s ev" by simp_all
  show ?case
  proof (cases "search_step ev s")
    case (Inl r')
    then have "r' = r" using Cons.prems(3) g(1) by (simp add: search_loop.simps [of "ev # evs"])
    moreover obtain i info bytes where "ev = TaskDone i (Inr (info, bytes))" "r' = MetainfoFound info bytes (ms_addrs s) (ms_seen s)"
      using Inl by (auto simp: search_step_def split: search_event.splits sum.splits list.splits)
    moreover have "ms_unordered s ! i \<in> set (ms_seen s)" "ans (ms_unordered s ! i) (Inr (info, bytes))"
      using calculation(2) Cons.prems(1) g(2) by (auto simp: search_ok_def dest: nth_mem)
    ultimately show ?thesis using Cons.prems(1) by (auto simp: search_outcome_def search_ok_def)
  next
    case (Inr s')
    then have "search_loop evs s' = Inl r" "schedule ans s' evs" using Cons.prems(2,3) g(1) by (simp_all add: search_loop.simps [of "ev # evs"])
    then show ?thesis using Cons.IH search_step_ok [OF Cons.prems(1) g(2) Inr] by blast
  qed
qed

subsection \<open>The search ends\<close>

definition search_work :: "metainfo_search \<Rightarrow> nat" where
  "search_work s = length (ms_unordered s) + 2 * length (ms_addrs s) + (if ms_completed s then 0 else 1)"

lemma search_step_work: "enabled ans s ev \<Longrightarrow> search_step ev s = Inr s' \<Longrightarrow> search_work s' < search_work s"
proof (cases ev)
  case (TaskDone i r)
  assume "enabled ans s ev" "search_step ev s = Inr s'"
  then show ?thesis using TaskDone by (cases r) (auto simp: search_step_def search_work_def remove_nth_def)
next
  case PollAddrs
  assume "enabled ans s ev" "search_step ev s = Inr s'"
  then show ?thesis using PollAddrs by (auto simp: search_step_def search_work_def split: list.splits if_splits)
qed

lemma schedule_length: "schedule ans s evs \<Longrightarrow> length evs \<le> Suc (search_work s)"
proof (induction evs arbitrary: s)
  case (Cons ev evs)
  then have e: "enabled ans s ev" by simp
  show ?case
  proof (cases "search_step ev s")
    case (Inr s')
    then have "length evs \<le> Suc (search_work s')" using Cons by simp
    then show ?thesis using search_step_work [OF e Inr] by simp
  qed (use Cons in simp)
qed simp

text \<open>A schedule that has not come to a result can go on, as long as every peer answers.\<close>

lemma schedule_goes_on:
  "\<forall>a. \<exists>r. ans a r \<Longrightarrow> schedule ans s evs \<Longrightarrow> search_loop evs s = Inr s' \<Longrightarrow> \<exists>ev. schedule ans s (evs @ [ev])"
proof (induction evs arbitrary: s)
  case Nil
  then have n: "\<not> (ms_completed s \<and> ms_unordered s = [])" by (auto simp: search_loop.simps split: if_splits)
  have "\<exists>ev. enabled ans s ev"
  proof (cases "ms_unordered s")
    case Nil
    then show ?thesis using n by (intro exI [of _ PollAddrs]) simp
  next
    case (Cons a as)
    then obtain r where "enabled ans s (TaskDone 0 r)" using \<open>\<forall>a. \<exists>r. ans a r\<close> by (metis enabled.simps(1) length_greater_0_conv list.discI nth_Cons_0)
    then show ?thesis ..
  qed
  then show ?case using n by (auto split: sum.split)
next
  case (Cons ev evs)
  then have g: "\<not> (ms_completed s \<and> ms_unordered s = [])" "enabled ans s ev" by simp_all
  show ?case
  proof (cases "search_step ev s")
    case (Inl r)
    then show ?thesis using Cons.prems(3) g(1) by (simp add: search_loop.simps [of "ev # evs"])
  next
    case (Inr t)
    then have "search_loop evs t = Inr s'" "schedule ans t evs" using Cons.prems g(1) by (simp_all add: search_loop.simps [of "ev # evs"])
    then obtain ev' where "schedule ans t (evs @ [ev'])" using Cons.IH Cons.prems(1) by blast
    then show ?thesis using g Inr by auto
  qed
qed


definition ex_peer :: "nat \<Rightarrow> socket_addr" where
  "ex_peer n = (V4 n, 6881)"


subsection \<open>What is found is the metadata of the link\<close>

text \<open>The answers of the peer at an address: a failure, or the result of a connection to it in whatever way that runs.\<close>

definition peer_answers :: "peer_connection \<Rightarrow> (nat list \<Rightarrow> id20) \<Rightarrow> (nat list \<Rightarrow> meta_info res) \<Rightarrow> socket_addr \<Rightarrow> (meta_info \<times> nat list) res \<Rightarrow> bool" where
  "peer_answers C sha1 parse a r \<longleftrightarrow>
     (case r of
        Inl e \<Rightarrow> True
      | Inr v \<Rightarrow>
          \<exists>connected s started log s'.
            manage_peer_outgoing (C\<lparr>pc_addr := a\<rparr>) (metadata_reader sha1 parse) connected
              \<lparr>cx_handler = meta_handler_new (pc_info_hash C), cx_sent = [], cx_extended = None, cx_rb = read_buf_new, cx_conn = [],
               cx_broadcast_closed = False\<rparr> = (Inr (), s) \<and>
            crun (C\<lparr>pc_addr := a\<rparr>) (metadata_reader sha1 parse) (=) s started log s' \<and> mh_result (cx_handler s') = Some (Inr v))"

lemma peer_answers_authentic:
  assumes "peer_answers C sha1 parse a (Inr (info, bytes))"
  shows "sha1 bytes = pc_info_hash C \<and> parse bytes = Inr info"
proof -
  obtain connected s started log s' where
    o: "manage_peer_outgoing (C\<lparr>pc_addr := a\<rparr>) (metadata_reader sha1 parse) connected
      \<lparr>cx_handler = meta_handler_new (pc_info_hash C), cx_sent = [], cx_extended = None, cx_rb = read_buf_new, cx_conn = [], cx_broadcast_closed = False\<rparr>
      = (Inr (), s)"
    and r: "crun (C\<lparr>pc_addr := a\<rparr>) (metadata_reader sha1 parse) (=) s started log s'" "mh_result (cx_handler s') = Some (Inr (info, bytes))"
    using assms by (auto simp: peer_answers_def)
  show ?thesis using metadata_read_authentic [of "C\<lparr>pc_addr := a\<rparr>"] o r by simp
qed

text \<open>C7: The metadata a magnet link is resolved to is that of the link: whatever peers the search asks, whatever they send and in whatever
  order they answer, the digest of the metadata the torrent is added with is the info hash of the link, and its description is decoded
  from exactly those bytes.\<close>

theorem resolved_magnet_authentic:
  assumes "schedule (peer_answers C sha1 parse) (search_start [] stream) evs"
    and "search_loop evs (search_start [] stream) = Inl (MetainfoFound info bytes rx asked)"
    and "sv_read_metainfo V (pc_info_hash C) = Some (info, bytes, asked)" "resolve_magnet V (pc_info_hash C) trackers = Inr (md, peers)"
  shows "sha1 (tm_info_bytes md) = pc_info_hash C \<and> parse (tm_info_bytes md) = Inr (tm_info md) \<and> set peers \<subseteq> set stream"
proof -
  have "search_outcome (peer_answers C sha1 parse) (set stream) (MetainfoFound info bytes rx asked)"
    using search_loop_outcome [OF search_start_ok assms(1,2)] by simp
  then obtain a where a: "peer_answers C sha1 parse a (Inr (info, bytes))" "set asked \<subseteq> set stream" by (auto simp: search_outcome_def)
  have "tm_info_bytes md = bytes" "tm_info md = info" "peers = asked"
    using assms(3,4) by (auto simp: resolve_magnet_def torrent_metadata_new_def rbind_eq_Inr)
  then show ?thesis using peer_answers_authentic [OF a(1)] a(2) by simp
qed

theorem resolved_magnet_authentic_witness:
  "\<exists>md. resolve_magnet (ex_senv\<lparr>sv_read_metainfo := \<lambda>_. Some (ex_meta_info, [9], [ex_peer 1])\<rparr>) (replicate 20 7) [] = Inr (md, [ex_peer 1]) \<and>
     replicate 20 7 = pc_info_hash ex_connection \<and> tm_info md = ex_meta_info"
proof -
  let ?V = "ex_senv\<lparr>sv_read_metainfo := \<lambda>_. Some (ex_meta_info, [9], [ex_peer 1])\<rparr>"
  have h: "pc_info_hash ex_connection = replicate 20 7" "ex_connection\<lparr>pc_addr := ex_peer 1\<rparr> = ex_connection" by (simp_all add: ex_connection_def ex_peer_def)
  then have p: "peer_answers ex_connection (\<lambda>_. replicate 20 7) (\<lambda>_. Inr ex_meta_info) (ex_peer 1) (Inr (ex_meta_info, [9]))"
    using ex_connection_run unfolding peer_answers_def by fastforce
  let ?evs = "[PollAddrs, TaskDone 0 (Inr (ex_meta_info, [9]))]"
  have s: "schedule (peer_answers ex_connection (\<lambda>_. replicate 20 7) (\<lambda>_. Inr ex_meta_info)) (search_start [] [ex_peer 1]) ?evs"
    using p by (simp add: search_start_def search_step_def)
  have l: "search_loop ?evs (search_start [] [ex_peer 1]) = Inl (MetainfoFound ex_meta_info [9] [] [ex_peer 1])"
    by (simp add: search_loop.simps search_start_def search_step_def)
  obtain md where md: "resolve_magnet ?V (pc_info_hash ex_connection) [] = Inr (md, [ex_peer 1])" "tm_info md = ex_meta_info"
    by (simp add: resolve_magnet_def ex_senv_def torrent_metadata_new_def lengths_from_torrent_def iter_file_lengths_def iter_file_details_def
        iter_file_details_ext_def ex_meta_info_def lengths_new_def to_pathbuf_def as_u64_def Let_def)
  have "sv_read_metainfo ?V (pc_info_hash ex_connection) = Some (ex_meta_info, [9], [ex_peer 1])" by simp
  from resolved_magnet_authentic [OF s l this md(1)] show ?thesis using md h(1) by simp
qed

end
