(* ===== verification/Postgres_Store.thy ===== *)
theory Postgres_Store
  imports Json_Store
begin

text \<open>
  The interface of the stores a session may be kept in, and the store in a PostgreSQL database. A database is a table of rows with a
  sequence; each statement of the code is written out as what it does to them. A statement may fail before it takes effect, or take effect
  without its answer arriving. Bitfields are written by tasks of their own, which the store does not wait for.

  Shown is that both stores are one and the same to the session: what they hold is what the operations made of it, except that an
  operation that reported an error may have had its effect or not. The law is proved once, in the locale \<open>session_store\<close>, for the
  JSON store (\<open>json_session\<close>) and the database (\<open>postgres\<close>).

  Sources: \<^verbatim>\<open>session_persistence/mod.rs\<close>, \<^verbatim>\<open>session_persistence/postgres.rs\<close>.
\<close>

subsection \<open>The interface of a store\<close>

text \<open>\<open>'e\<close> is what the surroundings do during one operation.\<close>

record ('e, 'st, 'b, 's) persistence_store =
  sp_next_id :: "'e \<Rightarrow> 'st \<Rightarrow> nat res \<times> 'st"
  sp_store :: "'e \<Rightarrow> 'st \<Rightarrow> nat \<Rightarrow> ('b, 's) managed_torrent \<Rightarrow> unit res \<times> 'st"
  sp_delete :: "'e \<Rightarrow> 'st \<Rightarrow> nat \<Rightarrow> unit res \<times> 'st"
  sp_get :: "'e \<Rightarrow> 'st \<Rightarrow> nat \<Rightarrow> serialized_torrent res"
  sp_update_metadata :: "'e \<Rightarrow> 'st \<Rightarrow> nat \<Rightarrow> ('b, 's) managed_torrent \<Rightarrow> unit res \<times> 'st"
  sp_stream_all :: "'e \<Rightarrow> 'st \<Rightarrow> (nat \<times> serialized_torrent) res list res"

definition json_persistence :: "(json_env, json_store, 'b, 's) persistence_store" where
  "json_persistence = \<lparr>sp_next_id = (\<lambda>J st. (Inr (json_next_id st), st)), sp_store = json_store_torrent, sp_delete = json_delete,
     sp_get = json_get, sp_update_metadata = json_update_metadata, sp_stream_all = (\<lambda>J st. Inr (json_stream_all J st))\<rparr>"

subsection \<open>The database\<close>

record torrents_table_record =
  pr_id :: int
  pr_info_hash :: "nat list"
  pr_torrent_bytes :: "nat list"
  pr_trackers :: "string list"
  pr_output_folder :: string
  pr_only_files :: "int list option"
  pr_is_paused :: bool
  pr_have_bitfield :: "nat list option"

datatype pg_stmt =
    Connect | CreateSequence | CreateTable | AddColumn | SelectNextval | InsertTorrent | DeleteTorrent | UpdateTorrent | SelectTorrents
  | UpdateBitfield | SelectBitfield | ClearBitfield

record pg_env =
  pg_runs :: "pg_stmt \<Rightarrow> bool" \<comment> \<open>the statement takes effect\<close>
  pg_answers :: "pg_stmt \<Rightarrow> bool" \<comment> \<open>its answer arrives\<close>
  pg_to_str :: "path \<Rightarrow> string option"
  pg_pathbuf :: "string \<Rightarrow> path"

text \<open>The sequence is its last value. The tasks are the updates of bitfields that were spawned and have not run.\<close>

record postgres_session_storage =
  pg_sequence :: "nat option"
  pg_table :: "torrents_table_record list option"
  pg_column :: bool
  pg_tasks :: "(torrent_id_or_hash \<times> nat list) list"

definition try_i32 :: "nat \<Rightarrow> int option" where
  "try_i32 n = (if n < 2 ^ 31 then Some (int n) else None)"

definition as_usize :: "int \<Rightarrow> nat" where
  "as_usize i = nat (i mod 2 ^ 64)"

definition bind_i32 :: "nat \<Rightarrow> int res" where
  "bind_i32 n = of_option (Bail ''out of range integral type conversion attempted'') (try_i32 n)"

definition into_serialized_torrent :: "pg_env \<Rightarrow> torrents_table_record \<Rightarrow> (nat \<times> serialized_torrent) option" where
  "into_serialized_torrent E r =
     (if length (pr_info_hash r) = 20
      then Some (as_usize (pr_id r),
        \<lparr>sz_info_hash = pr_info_hash r, sz_torrent_bytes = pr_torrent_bytes r, sz_trackers = pr_trackers r,
         sz_output_folder = pg_pathbuf E (pr_output_folder r), sz_only_files = map_option (map as_usize) (pr_only_files r),
         sz_is_paused = pr_is_paused r\<rparr>)
      else None)"

text \<open>A statement on the table: it changes the rows and has an answer.\<close>

definition pg_exec ::
  "pg_env \<Rightarrow> pg_stmt \<Rightarrow> string \<Rightarrow> (torrents_table_record list \<Rightarrow> 'a res \<times> torrents_table_record list) \<Rightarrow>
   postgres_session_storage \<Rightarrow> 'a res \<times> postgres_session_storage" where
  "pg_exec E q ctx f st =
     (case pg_table st of
        None \<Rightarrow> (Inl (Bail ctx), st)
      | Some rows \<Rightarrow>
          if \<not> pg_runs E q then (Inl (Bail ctx), st)
          else (if pg_answers E q then fst (f rows) else Inl (Bail ctx), st\<lparr>pg_table := Some (snd (f rows))\<rparr>))"

definition pg_new :: "pg_env \<Rightarrow> postgres_session_storage \<Rightarrow> unit res \<times> postgres_session_storage" where
  "pg_new E st =
     (if \<not> pg_runs E Connect then (Inl (Bail ''error connecting''), st)
      else if \<not> pg_runs E CreateSequence then (Inl (Bail ''error running query''), st)
      else
        let st = st\<lparr>pg_sequence := Some (case pg_sequence st of Some n \<Rightarrow> n | None \<Rightarrow> 0)\<rparr>
        in if \<not> pg_answers E CreateSequence \<or> \<not> pg_runs E CreateTable then (Inl (Bail ''error running query''), st)
           else
             let st = (case pg_table st of Some _ \<Rightarrow> st | None \<Rightarrow> st\<lparr>pg_table := Some [], pg_column := False\<rparr>)
             in if \<not> pg_answers E CreateTable \<or> \<not> pg_runs E AddColumn then (Inl (Bail ''error running query''), st)
                else
                  let st = (if pg_column st then st
                            else st\<lparr>pg_column := True, pg_table := map_option (map (\<lambda>r. r\<lparr>pr_have_bitfield := None\<rparr>)) (pg_table st)\<rparr>)
                  in (if pg_answers E AddColumn then Inr () else Inl (Bail ''error running query''), st))"

text \<open>A sequence of integers starts at 1 and fails when it has reached its maximum.\<close>

definition pg_next_id :: "pg_env \<Rightarrow> postgres_session_storage \<Rightarrow> nat res \<times> postgres_session_storage" where
  "pg_next_id E st =
     (case pg_sequence st of
        Some n \<Rightarrow>
          if \<not> pg_runs E SelectNextval \<or> 2 ^ 31 - 1 \<le> n then (Inl (Bail ''error executing SELECT nextval''), st)
          else (if pg_answers E SelectNextval then Inr (as_usize (int (Suc n))) else Inl (Bail ''error executing SELECT nextval''),
                st\<lparr>pg_sequence := Some (Suc n)\<rparr>)
      | None \<Rightarrow> (Inl (Bail ''error executing SELECT nextval''), st))"

definition pg_only_files :: "('b, 's) managed_torrent \<Rightarrow> int list option" where
  "pg_only_files torrent = map_option (List.map_filter try_i32) (mt_only_files torrent)"

definition pg_store_torrent ::
  "pg_env \<Rightarrow> postgres_session_storage \<Rightarrow> nat \<Rightarrow> ('b, 's) managed_torrent \<Rightarrow> unit res \<times> postgres_session_storage" where
  "pg_store_torrent E st tid torrent =
     (let torrent_bytes = (case mt_metadata torrent of Some i \<Rightarrow> tm_torrent_bytes i | None \<Rightarrow> [])
      in case bind_i32 tid of
           Inl e \<Rightarrow> (Inl e, st)
         | Inr i \<Rightarrow>
             (case pg_to_str E (mt_output_folder torrent) of
                None \<Rightarrow> (Inl (Bail ''output_folder''), st)
              | Some folder \<Rightarrow>
                  pg_exec E InsertTorrent ''error executing INSERT INTO torrents'' (\<lambda>rows.
                    (Inr (),
                     if i \<in> pr_id ` set rows then rows
                     else rows @ [\<lparr>pr_id = i, pr_info_hash = mt_info_hash torrent, pr_torrent_bytes = torrent_bytes,
                       pr_trackers = mt_trackers torrent, pr_output_folder = folder, pr_only_files = pg_only_files torrent,
                       pr_is_paused = mt_paused torrent, pr_have_bitfield = None\<rparr>])) st))"

definition pg_delete :: "pg_env \<Rightarrow> postgres_session_storage \<Rightarrow> nat \<Rightarrow> unit res \<times> postgres_session_storage" where
  "pg_delete E st tid =
     (case bind_i32 tid of
        Inl e \<Rightarrow> (Inl e, st)
      | Inr i \<Rightarrow> pg_exec E DeleteTorrent ''error executing DELETE FROM torrents'' (\<lambda>rows. (Inr (), filter (\<lambda>r. pr_id r \<noteq> i) rows)) st)"

text \<open>The statement has the placeholder \<^verbatim>\<open>?\<close>, which PostgreSQL refuses.\<close>

definition pg_get :: "pg_env \<Rightarrow> postgres_session_storage \<Rightarrow> nat \<Rightarrow> serialized_torrent res" where
  "pg_get E st tid = rbind (bind_i32 tid) (\<lambda>_. Inl (Bail ''error executing SELECT * FROM torrents''))"

definition pg_update_metadata ::
  "pg_env \<Rightarrow> postgres_session_storage \<Rightarrow> nat \<Rightarrow> ('b, 's) managed_torrent \<Rightarrow> unit res \<times> postgres_session_storage" where
  "pg_update_metadata E st tid torrent =
     (case bind_i32 tid of
        Inl e \<Rightarrow> (Inl e, st)
      | Inr i \<Rightarrow>
          pg_exec E UpdateTorrent ''error executing UPDATE torrents'' (\<lambda>rows.
            (Inr (), map (\<lambda>r. if pr_id r = i then r\<lparr>pr_only_files := pg_only_files torrent, pr_is_paused := mt_paused torrent\<rparr> else r) rows)) st)"

definition pg_stream_all :: "pg_env \<Rightarrow> postgres_session_storage \<Rightarrow> (nat \<times> serialized_torrent) res list res" where
  "pg_stream_all E st =
     fst (pg_exec E SelectTorrents ''error executing SELECT * FROM torrents''
       (\<lambda>rows. (Inr (map Inr (List.map_filter (into_serialized_torrent E) rows)), rows)) st)"

definition pg_persistence :: "(pg_env, postgres_session_storage, 'b, 's) persistence_store" where
  "pg_persistence = \<lparr>sp_next_id = pg_next_id, sp_store = pg_store_torrent, sp_delete = pg_delete, sp_get = pg_get,
     sp_update_metadata = pg_update_metadata, sp_stream_all = pg_stream_all\<rparr>"

subsection \<open>Bitfields in the database\<close>

definition row_matches :: "torrent_id_or_hash \<Rightarrow> torrents_table_record \<Rightarrow> bool" where
  "row_matches i r = (case i of Id n \<Rightarrow> try_i32 n = Some (pr_id r) | Hash h \<Rightarrow> pr_info_hash r = h)"

definition id_fits :: "torrent_id_or_hash \<Rightarrow> bool" where
  "id_fits i = (case i of Id n \<Rightarrow> try_i32 n \<noteq> None | Hash _ \<Rightarrow> True)"

text \<open>\<^verbatim>\<open>flush\<close> spawns a task with a copy of the bits; the task runs some time later, its result is lost.\<close>

definition pg_flush :: "torrent_id_or_hash \<Rightarrow> bits \<Rightarrow> postgres_session_storage \<Rightarrow> unit res \<times> postgres_session_storage" where
  "pg_flush i b st = (Inr (), st\<lparr>pg_tasks := pg_tasks st @ [(i, bytes_of_bits b)]\<rparr>)"

definition set_bitfield :: "torrent_id_or_hash \<Rightarrow> nat list option \<Rightarrow> torrents_table_record list \<Rightarrow> torrents_table_record list" where
  "set_bitfield i hb rows = map (\<lambda>r. if row_matches i r then r\<lparr>pr_have_bitfield := hb\<rparr> else r) rows"

definition pg_flush_task :: "pg_env \<Rightarrow> nat \<Rightarrow> postgres_session_storage \<Rightarrow> postgres_session_storage" where
  "pg_flush_task E k st =
     (if k < length (pg_tasks st) then
        let (i, hb) = pg_tasks st ! k; st = st\<lparr>pg_tasks := take k (pg_tasks st) @ drop (Suc k) (pg_tasks st)\<rparr>
        in if id_fits i then snd (pg_exec E UpdateBitfield ''error executing query'' (\<lambda>rows. (Inr (), set_bitfield i (Some hb) rows)) st)
           else st
      else st)"

definition pg_load :: "pg_env \<Rightarrow> postgres_session_storage \<Rightarrow> torrent_id_or_hash \<Rightarrow> bits option res" where
  "pg_load E st i =
     (if \<not> id_fits i then Inl (Bail ''out of range integral type conversion attempted'')
      else fst (pg_exec E SelectBitfield ''error executing query'' (\<lambda>rows.
        (case List.find (row_matches i) rows of
           Some r \<Rightarrow> Inr (map_option bits_of_bytes (pr_have_bitfield r))
         | None \<Rightarrow> Inl (Bail ''error executing query''), rows)) st))"

definition pg_store_initial_check ::
  "postgres_session_storage \<Rightarrow> torrent_id_or_hash \<Rightarrow> bits \<Rightarrow> bits res \<times> postgres_session_storage" where
  "pg_store_initial_check st i b = abind (pg_flush i b st) (\<lambda>_ st. (Inr b, st))"

definition pg_clear :: "pg_env \<Rightarrow> postgres_session_storage \<Rightarrow> torrent_id_or_hash \<Rightarrow> unit res \<times> postgres_session_storage" where
  "pg_clear E st i =
     (if \<not> id_fits i then (Inl (Bail ''out of range integral type conversion attempted''), st)
      else pg_exec E ClearBitfield ''error executing query'' (\<lambda>rows. (Inr (), set_bitfield i None rows)) st)"

definition pg_bitv :: "pg_env \<Rightarrow> postgres_session_storage bitv_factory" where
  "pg_bitv E = \<lparr>bv_load = pg_load E, bv_clear = pg_clear E, bv_store_initial_check = pg_store_initial_check\<rparr>"

subsection \<open>What a session does to a store\<close>

datatype ('b, 's) store_op = SNextId | SStore nat "('b, 's) managed_torrent" | SUpdate nat "('b, 's) managed_torrent" | SDelete nat

definition perform_op ::
  "('e, 'st, 'b, 's) persistence_store \<Rightarrow> 'e \<Rightarrow> ('b, 's) store_op \<Rightarrow> 'st \<Rightarrow> unit res \<times> 'st" where
  "perform_op P E op st =
     (case op of
        SNextId \<Rightarrow> abind (sp_next_id P E st) (\<lambda>_ st. (Inr (), st))
      | SStore i mt \<Rightarrow> sp_store P E st i mt
      | SUpdate i mt \<Rightarrow> sp_update_metadata P E st i mt
      | SDelete i \<Rightarrow> sp_delete P E st i)"

text \<open>A run of a session on a store: each operation in its own surroundings, and whether it succeeded.\<close>

fun perform_ops ::
  "('e, 'st, 'b, 's) persistence_store \<Rightarrow> ('e \<times> ('b, 's) store_op) list \<Rightarrow> 'st \<Rightarrow> (('b, 's) store_op \<times> bool) list \<times> 'st" where
  "perform_ops P [] st = ([], st)"
| "perform_ops P ((E, op) # ops) st =
     (let r = perform_op P E op st; rs = perform_ops P ops (snd r) in ((op, fst r = Inr ()) # fst rs, snd rs))"

text \<open>What the operations mean for the torrents of the session, the metadata files left aside.\<close>

type_synonym stored_session = "nat \<Rightarrow> serialized_torrent option"

fun spec_op :: "('b, 's) store_op \<Rightarrow> stored_session \<Rightarrow> stored_session" where
  "spec_op SNextId m = m"
| "spec_op (SStore i mt) m = m(i \<mapsto> sz_of mt)"
| "spec_op (SUpdate i mt) m =
     m(i := map_option (\<lambda>sz. sz\<lparr>sz_only_files := mt_only_files mt, sz_is_paused := mt_paused mt\<rparr>) (m i))"
| "spec_op (SDelete i) m = m(i := None)"

text \<open>Operations that succeeded had their effect, others had it or not.\<close>

fun explains :: "(('b, 's) store_op \<times> bool) list \<Rightarrow> stored_session \<Rightarrow> stored_session \<Rightarrow> bool" where
  "explains [] m m' \<longleftrightarrow> m' = m"
| "explains ((op, ok) # log) m m' \<longleftrightarrow> explains log (spec_op op m) m' \<or> \<not> ok \<and> explains log m m'"

text \<open>How the session uses a store: a torrent is stored under a new number the store gave out, and updated under its own.\<close>

definition same_identity :: "serialized_torrent \<Rightarrow> ('b, 's) managed_torrent \<Rightarrow> bool" where
  "same_identity sz mt \<longleftrightarrow>
     sz_info_hash sz = mt_info_hash mt \<and> sz_trackers sz = mt_trackers mt \<and> sz_output_folder sz = mt_output_folder mt \<and> sz_torrent_bytes sz = []"

definition storable :: "('b, 's) managed_torrent \<Rightarrow> bool" where
  "storable mt \<longleftrightarrow> length (mt_info_hash mt) = 20 \<and> (\<forall>f \<in> set (case mt_only_files mt of Some fs \<Rightarrow> fs | None \<Rightarrow> []). f < 2 ^ 31)"

definition legal_op :: "(nat \<Rightarrow> bool) \<Rightarrow> stored_session \<Rightarrow> ('b, 's) store_op \<Rightarrow> bool" where
  "legal_op issued m op \<longleftrightarrow>
     (case op of
        SStore i mt \<Rightarrow> issued i \<and> m i = None \<and> storable mt
      | SUpdate i mt \<Rightarrow> storable mt \<and> (case m i of Some sz \<Rightarrow> same_identity sz mt | None \<Rightarrow> False)
      | _ \<Rightarrow> True)"

fun legal_ops ::
  "('e, 'st, 'b, 's) persistence_store \<Rightarrow> ('e \<Rightarrow> bool) \<Rightarrow> ('st \<Rightarrow> nat \<Rightarrow> bool) \<Rightarrow> ('st \<Rightarrow> stored_session) \<Rightarrow>
   ('e \<times> ('b, 's) store_op) list \<Rightarrow> 'st \<Rightarrow> bool" where
  "legal_ops P sane issued stored [] st \<longleftrightarrow> True"
| "legal_ops P sane issued stored ((E, op) # ops) st \<longleftrightarrow>
     sane E \<and> legal_op (issued st) (stored st) op \<and> legal_ops P sane issued stored ops (snd (perform_op P E op st))"

locale session_store =
  fixes P :: "('e, 'st, 'b, 's) persistence_store" and sane :: "'e \<Rightarrow> bool" and wf :: "'st \<Rightarrow> bool"
    and issued :: "'st \<Rightarrow> nat \<Rightarrow> bool" and stored :: "'st \<Rightarrow> stored_session"
  assumes op_wf: "wf st \<Longrightarrow> sane E \<Longrightarrow> legal_op (issued st) (stored st) op \<Longrightarrow> wf (snd (perform_op P E op st))"
    and op_effect: "wf st \<Longrightarrow> sane E \<Longrightarrow> legal_op (issued st) (stored st) op \<Longrightarrow> perform_op P E op st = (r, st') \<Longrightarrow>
      stored st' = spec_op op (stored st) \<or> r \<noteq> Inr () \<and> stored st' = stored st"
    and next_id_new: "wf st \<Longrightarrow> sp_next_id P E st = (Inr i, st') \<Longrightarrow> stored st' i = None \<and> (i < 2 ^ 31 \<longrightarrow> issued st' i)"
begin

lemma log_explains:
  "wf st \<Longrightarrow> legal_ops P sane issued stored ops st \<Longrightarrow> perform_ops P ops st = (log, st') \<Longrightarrow> wf st' \<and> explains log (stored st) (stored st')"
proof (induction ops arbitrary: st log)
  case (Cons a ops)
  obtain E op where a: "a = (E, op)" by fastforce
  obtain r st1 where r: "perform_op P E op st = (r, st1)" by fastforce
  obtain rs where rs: "perform_ops P ops st1 = (rs, st')" "log = (op, r = Inr ()) # rs"
    using Cons.prems(3) by (auto simp: a r Let_def prod_eq_iff)
  have l: "sane E" "legal_op (issued st) (stored st) op" "legal_ops P sane issued stored ops st1" using Cons.prems(2) by (simp_all add: a r)
  have "wf st1" using op_wf [OF Cons.prems(1) l(1,2)] by (simp add: r)
  then have "wf st' \<and> explains rs (stored st1) (stored st')" using Cons.IH l(3) rs(1) by blast
  then show ?case using op_effect [OF Cons.prems(1) l(1,2) r] rs(2) by auto
qed auto

end

subsection \<open>The JSON store\<close>

definition json_wf :: "json_store \<Rightarrow> bool" where
  "json_wf st \<longleftrightarrow> js_ok st \<and> (\<forall>e \<in> set (js_db st). fst e < 2 ^ 31)"

lemma flush_db: "js_db (snd (flush J st)) = js_db st"
  using flush_cases(1) [of J st "fst (flush J st)" "snd (flush J st)"] by simp

lemma update_db_db:
  "js_db (snd (update_db J st tid mt w)) = (if mt_fs_factory mt then AList.update tid (sz_of mt) (js_db st) else js_db st)"
  "fst (update_db J st tid mt w) = Inr () \<Longrightarrow> mt_fs_factory mt"
  using update_db_flush [of mt J st tid w] by (auto simp: flush_db update_db_def split: if_splits)

lemma json_delete_db:
  "js_db (snd (json_delete J st tid)) = (if map_of (js_db st) tid = None then js_db st else AList.delete tid (js_db st))"
  using flush_db [of J "st\<lparr>js_db := AList.delete tid (js_db st)\<rparr>"]
  by (auto simp: json_delete_def Let_def abind_def split: option.split sum.split prod.split)

lemma json_next_id_new: "json_wf st \<Longrightarrow> map_of (js_db st) (json_next_id st) = None"
proof (cases "map fst (js_db st)")
  case (Cons i js)
  assume wf: "json_wf st"
  let ?m = "fold max js i"
  have m: "?m = Max (set (i # js))" by (rule Max.set_eq_fold [symmetric])
  have "?m \<in> set (map fst (js_db st))" unfolding Cons m by (rule Max_in) auto
  then have "?m < 2 ^ 31" using wf by (auto simp: json_wf_def)
  then have n: "json_next_id st = Suc ?m" using Cons by (simp add: json_next_id_def add64_exact)
  have "x \<le> ?m" if "x \<in> set (map fst (js_db st))" for x using that unfolding Cons m by (intro Max_ge) auto
  then have "Suc ?m \<notin> fst ` set (js_db st)" by force
  then show ?thesis by (simp add: n map_of_eq_None_iff)
qed simp

lemma json_op_effect:
  assumes "json_wf st" "legal_op (\<lambda>i. i < 2 ^ 31) (map_of (js_db st)) op" "perform_op json_persistence J op st = (r, st')"
  shows "map_of (js_db st') = spec_op op (map_of (js_db st)) \<or> r \<noteq> Inr () \<and> map_of (js_db st') = map_of (js_db st)"
proof -
  have upd: "map_of (js_db st) i = Some sz \<Longrightarrow> same_identity sz mt \<Longrightarrow>
      sz_of mt = sz\<lparr>sz_only_files := mt_only_files mt, sz_is_paused := mt_paused mt\<rparr>" for i sz and mt :: "('a, 'b) managed_torrent"
    by (simp add: same_identity_def sz_of_def)
  have st': "st' = snd (perform_op json_persistence J op st)" "r = fst (perform_op json_persistence J op st)" using assms(3) by simp_all
  show ?thesis
  proof (cases op)
    case SNextId
    then show ?thesis by (simp add: st' perform_op_def json_persistence_def)
  next
    case (SStore i mt)
    then show ?thesis using update_db_db(2) [of J st i mt True]
      by (auto simp: st' perform_op_def json_persistence_def json_store_torrent_def update_db_db(1) update_conv')
  next
    case (SUpdate i mt)
    then obtain sz where "map_of (js_db st) i = Some sz" "same_identity sz mt"
      using assms(2) by (auto simp: legal_op_def split: option.splits)
    then show ?thesis using SUpdate update_db_db(2) [of J st i mt False] upd [of i sz mt]
      by (auto simp: st' perform_op_def json_persistence_def json_update_metadata_def update_db_db(1) update_conv')
  next
    case (SDelete i)
    then show ?thesis
      by (auto simp: st' perform_op_def json_persistence_def json_delete_db delete_conv' fun_upd_idem)
  qed
qed

lemma json_op_wf:
  assumes "json_wf st" "legal_op (\<lambda>i. i < 2 ^ 31) (map_of (js_db st)) op"
  shows "json_wf (snd (perform_op json_persistence J op st))"
proof -
  have upd: "json_wf (snd (update_db J st i mt w))" if "i < 2 ^ 31" for i w and mt :: "('a, 'b) managed_torrent"
    using assms(1) that by (auto simp: json_wf_def js_ok_def update_db_db(1) sz_of_def dest!: set_alist_update)
  show ?thesis
  proof (cases op)
    case SNextId
    then show ?thesis using assms(1) by (simp add: perform_op_def json_persistence_def)
  next
    case (SStore i mt)
    then show ?thesis using upd assms(2) by (simp add: perform_op_def json_persistence_def json_store_torrent_def legal_op_def)
  next
    case (SUpdate i mt)
    then obtain sz where "map_of (js_db st) i = Some sz" using assms(2) by (auto simp: legal_op_def split: option.splits)
    then have "i < 2 ^ 31" using assms(1) map_of_SomeD by (fastforce simp: json_wf_def)
    then show ?thesis using upd SUpdate by (simp add: perform_op_def json_persistence_def json_update_metadata_def)
  next
    case (SDelete i)
    then show ?thesis using assms(1)
      by (auto simp: perform_op_def json_persistence_def json_wf_def js_ok_def json_delete_db AList.delete_eq)
  qed
qed

interpretation json_session: session_store json_persistence "\<lambda>_. True" json_wf "\<lambda>_ i. i < 2 ^ 31" "\<lambda>st. map_of (js_db st)"
  by (rule session_store.intro, blast intro: json_op_wf, blast dest: json_op_effect) (auto simp: json_persistence_def json_next_id_new)

text \<open>The session file after a run whose last operation succeeded is read as what the operations made of the session.\<close>

lemma json_keeps_session:
  assumes "codec_ok J" "json_wf st" "legal_ops json_persistence (\<lambda>_. True) (\<lambda>_ i. i < 2 ^ 31) (\<lambda>st. map_of (js_db st)) ops st"
    and "perform_ops json_persistence ops st = (log, st1)" "json_store_torrent J st1 tid mt = (Inr (), st')"
  shows "\<exists>st2. json_new (no_failures J) (js_disk st') (js_output_folder st1) = Inr st2 \<and>
    (\<exists>m. explains log (map_of (js_db st)) m \<and> map_of (js_db st2) = spec_op (SStore tid mt) m)"
proof -
  have w: "json_wf st1" "explains log (map_of (js_db st)) (map_of (js_db st1))" using json_session.log_explains [OF assms(2-4)] by simp_all
  have "mt_fs_factory mt" using update_db_db(2) [of J st1 tid mt True] assms(5) by (simp add: json_store_torrent_def)
  then have "map_of (js_db st') = (map_of (js_db st1))(tid \<mapsto> sz_of mt)"
    using update_db_db(1) [of J st1 tid mt True] assms(5) by (simp add: json_store_torrent_def update_conv')
  moreover have "json_new (no_failures J) (js_disk st') (js_output_folder st1) = Inr st'"
    using update_db_replaces [of J st1 tid mt True] assms(1,5) w(1) by (simp add: replaces_session_def json_store_torrent_def json_wf_def)
  ultimately show ?thesis using w(2) by auto
qed

subsection \<open>The torrents in the database\<close>

definition pg_wf :: "postgres_session_storage \<Rightarrow> bool" where
  "pg_wf st \<longleftrightarrow>
     (\<exists>n rows. pg_sequence st = Some n \<and> n < 2 ^ 31 \<and> pg_table st = Some rows \<and> distinct (map pr_id rows) \<and>
       (\<forall>r \<in> set rows. 0 \<le> pr_id r \<and> pr_id r \<le> int n \<and> length (pr_info_hash r) = 20))"

definition pg_issued :: "postgres_session_storage \<Rightarrow> nat \<Rightarrow> bool" where
  "pg_issued st i \<longleftrightarrow> (case pg_sequence st of Some n \<Rightarrow> i \<le> n | None \<Rightarrow> False)"

definition pg_row :: "torrents_table_record list \<Rightarrow> nat \<Rightarrow> torrents_table_record option" where
  "pg_row rows i = List.find (\<lambda>r. pr_id r = int i) rows"

definition pg_entry :: "pg_env \<Rightarrow> torrents_table_record \<Rightarrow> serialized_torrent" where
  "pg_entry E r =
     \<lparr>sz_info_hash = pr_info_hash r, sz_torrent_bytes = [], sz_trackers = pr_trackers r, sz_output_folder = pg_pathbuf E (pr_output_folder r),
      sz_only_files = map_option (map as_usize) (pr_only_files r), sz_is_paused = pr_is_paused r\<rparr>"

definition pg_stored :: "pg_env \<Rightarrow> postgres_session_storage \<Rightarrow> stored_session" where
  "pg_stored E st i = (case pg_table st of Some rows \<Rightarrow> map_option (pg_entry E) (pg_row rows i) | None \<Rightarrow> None)"

text \<open>The law of paths: a path that is text is that text. All operations of a run read text as the same paths.\<close>

definition pg_sane :: "pg_env \<Rightarrow> pg_env \<Rightarrow> bool" where
  "pg_sane E0 E \<longleftrightarrow> pg_pathbuf E = pg_pathbuf E0 \<and> (\<forall>p s. pg_to_str E p = Some s \<longrightarrow> pg_pathbuf E s = p)"

lemma pg_row_append: "pg_row (rows @ [r]) i = (case pg_row rows i of Some x \<Rightarrow> Some x | None \<Rightarrow> if pr_id r = int i then Some r else None)"
  by (induction rows) (auto simp: pg_row_def)

lemma pg_row_filter: "pg_row (filter (\<lambda>r. pr_id r \<noteq> int k) rows) i = (if i = k then None else pg_row rows i)"
  by (induction rows) (auto simp: pg_row_def)

lemma pg_row_map: "(\<And>r. pr_id (f r) = pr_id r) \<Longrightarrow> pg_row (map f rows) i = map_option f (pg_row rows i)"
  by (induction rows) (auto simp: pg_row_def)

lemma pg_row_id: "pg_row rows i = Some r \<Longrightarrow> r \<in> set rows \<and> pr_id r = int i"
  by (auto simp: pg_row_def find_Some_iff)

lemma pg_row_None: "pg_row rows i = None \<longleftrightarrow> int i \<notin> pr_id ` set rows"
  by (force simp: pg_row_def find_None_iff)

lemma as_usize_int [simp]: "n < 2 ^ 31 \<Longrightarrow> as_usize (int n) = n"
  by (simp add: as_usize_def)

lemma map_filter_try_i32: "\<forall>f \<in> set fs. f < 2 ^ 31 \<Longrightarrow> map as_usize (List.map_filter try_i32 fs) = fs"
  by (induction fs) (simp_all add: try_i32_def List.map_filter_simps)

lemma pg_only_files_back: "storable mt \<Longrightarrow> map_option (map as_usize) (pg_only_files mt) = mt_only_files mt"
  using map_filter_try_i32 by (cases "mt_only_files mt") (auto simp: storable_def pg_only_files_def)

text \<open>A statement has its effect, or none and an error.\<close>

lemma pg_exec_cases:
  assumes "pg_table st = Some rows" "\<And>rows. fst (f rows) = Inr ()"
  shows "pg_exec E q ctx f st \<in> {(Inr (), st\<lparr>pg_table := Some (snd (f rows))\<rparr>), (Inl (Bail ctx), st\<lparr>pg_table := Some (snd (f rows))\<rparr>), (Inl (Bail ctx), st)}"
  using assms by (simp add: pg_exec_def)

text \<open>The new rows are fine, and each number has the row it should have.\<close>

definition pg_rows_ok :: "nat \<Rightarrow> torrents_table_record list \<Rightarrow> bool" where
  "pg_rows_ok n rows \<longleftrightarrow> distinct (map pr_id rows) \<and> (\<forall>r \<in> set rows. 0 \<le> pr_id r \<and> pr_id r \<le> int n \<and> length (pr_info_hash r) = 20)"

lemma pg_wf_alt: "pg_wf st \<longleftrightarrow> (\<exists>n rows. pg_sequence st = Some n \<and> n < 2 ^ 31 \<and> pg_table st = Some rows \<and> pg_rows_ok n rows)"
  by (simp add: pg_wf_def pg_rows_ok_def)

definition has_effect :: "pg_env \<Rightarrow> ('b, 's) store_op \<Rightarrow> postgres_session_storage \<Rightarrow> unit res \<times> postgres_session_storage \<Rightarrow> bool" where
  "has_effect E0 op st x \<longleftrightarrow> pg_wf (snd x) \<and>
     (pg_stored E0 (snd x) = spec_op op (pg_stored E0 st) \<or> fst x \<noteq> Inr () \<and> pg_stored E0 (snd x) = pg_stored E0 st)"

lemma pg_exec_effect:
  assumes wf: "pg_wf st" and f: "\<And>rows. fst (f rows) = Inr ()"
    and ok: "\<And>n rows. pg_sequence st = Some n \<Longrightarrow> n < 2 ^ 31 \<Longrightarrow> pg_table st = Some rows \<Longrightarrow> pg_rows_ok n rows \<Longrightarrow>
      pg_rows_ok n (snd (f rows)) \<and> (\<lambda>i. map_option (pg_entry E0) (pg_row (snd (f rows)) i)) = spec_op op (pg_stored E0 st)"
  shows "has_effect E0 op st (pg_exec E q ctx f st)"
proof -
  obtain n rows where r: "pg_sequence st = Some n" "n < 2 ^ 31" "pg_table st = Some rows" "pg_rows_ok n rows" using wf by (auto simp: pg_wf_alt)
  have "pg_wf (st\<lparr>pg_table := Some (snd (f rows))\<rparr>)" using r ok [OF r] by (simp add: pg_wf_alt)
  moreover have "pg_stored E0 (st\<lparr>pg_table := Some (snd (f rows))\<rparr>) = spec_op op (pg_stored E0 st)"
    unfolding ok [OF r, THEN conjunct2, symmetric] by (rule ext) (simp add: pg_stored_def)
  ultimately show ?thesis using pg_exec_cases [of st rows f E q ctx, OF r(3) f] wf by (auto simp: has_effect_def)
qed

lemma pg_store_effect:
  assumes wf: "pg_wf st" and sane: "pg_sane E0 E" and legal: "legal_op (pg_issued st) (pg_stored E0 st) (SStore i mt)"
  shows "has_effect E0 (SStore i mt) st (pg_store_torrent E st i mt)"
proof -
  have none: "has_effect E0 (SStore i mt) st (Inl e, st)" for e using wf by (simp add: has_effect_def)
  obtain n where n: "pg_sequence st = Some n" "n < 2 ^ 31" using wf by (auto simp: pg_wf_def)
  have l: "i \<le> n" "pg_stored E0 st i = None" "storable mt" using legal n by (simp_all add: legal_op_def pg_issued_def)
  have b: "bind_i32 i = Inr (int i)" using l(1) n(2) by (simp add: bind_i32_def try_i32_def)
  show ?thesis
  proof (cases "pg_to_str E (mt_output_folder mt)")
    case None
    then show ?thesis using none b by (simp add: pg_store_torrent_def)
  next
    case (Some folder)
    then have p: "pg_pathbuf E0 folder = mt_output_folder mt" using sane by (auto simp: pg_sane_def)
    show ?thesis
      unfolding pg_store_torrent_def Let_def b sum.case Some option.case
    proof (rule pg_exec_effect [OF wf], goal_cases)
      case (2 m rows)
      then have new: "pg_row rows i = None" "int i \<notin> pr_id ` set rows" using l(2) by (simp_all add: pg_stored_def pg_row_None [symmetric])
      moreover have "m = n" using 2(1) n(1) by simp
      moreover have "length (mt_info_hash mt) = 20" using l(3) by (simp add: storable_def)
      ultimately have "pg_rows_ok m (rows @ [r])" if "pr_id r = int i" "pr_info_hash r = mt_info_hash mt" for r
        using 2(4) l(1) that by (auto simp: pg_rows_ok_def)
      moreover have "map_option (pg_entry E0) (pg_row (rows @ [r]) k) = spec_op (SStore i mt) (pg_stored E0 st) k"
        if "pr_id r = int i" "pg_entry E0 r = sz_of mt" for r k
        using new(1) 2(3) that by (auto simp: pg_row_append pg_stored_def split: option.split)
      ultimately show ?case using new(2) pg_only_files_back [OF l(3)] p by (simp add: fun_eq_iff pg_entry_def sz_of_def del: spec_op.simps)
    qed simp
  qed
qed

lemma pg_update_effect:
  assumes wf: "pg_wf st" and legal: "legal_op (pg_issued st) (pg_stored E0 st) (SUpdate i mt)"
  shows "has_effect E0 (SUpdate i mt) st (pg_update_metadata E st i mt)"
proof -
  obtain n rows where r: "pg_sequence st = Some n" "n < 2 ^ 31" "pg_table st = Some rows" "pg_rows_ok n rows" using wf by (auto simp: pg_wf_alt)
  have l: "storable mt" "pg_stored E0 st i \<noteq> None" using legal by (auto simp: legal_op_def split: option.splits)
  then obtain x where "pg_row rows i = Some x" using r(3) by (auto simp: pg_stored_def)
  then have "i \<le> n" using pg_row_id [of rows i x] r(4) by (auto simp: pg_rows_ok_def)
  then have b: "bind_i32 i = Inr (int i)" using r(2) by (simp add: bind_i32_def try_i32_def)
  show ?thesis
    unfolding pg_update_metadata_def b sum.case
  proof (rule pg_exec_effect [OF wf], goal_cases)
    case (2 m rows)
    let ?f = "\<lambda>r. if pr_id r = int i then r\<lparr>pr_only_files := pg_only_files mt, pr_is_paused := mt_paused mt\<rparr> else r"
    have "map pr_id (map ?f rows) = map pr_id rows" by (simp add: comp_def)
    then have "distinct (map pr_id (map ?f rows))" using 2(4) by (simp add: pg_rows_ok_def del: map_map)
    then have "pg_rows_ok m (map ?f rows)" using 2(4) by (auto simp: pg_rows_ok_def simp del: map_map)
    moreover have "map_option (pg_entry E0) (pg_row (map ?f rows) k) = spec_op (SUpdate i mt) (pg_stored E0 st) k" for k
      using 2(3) pg_only_files_back [OF l(1)] pg_row_id [of rows k]
      by (cases "pg_row rows k") (auto simp: pg_row_map pg_stored_def pg_entry_def)
    ultimately show ?case by (simp add: fun_eq_iff)
  qed simp
qed

lemma pg_delete_effect:
  assumes wf: "pg_wf st"
  shows "has_effect E0 (SDelete i) st (pg_delete E st i)"
proof (cases "i < 2 ^ 31")
  case True
  then have b: "bind_i32 i = Inr (int i)" by (simp add: bind_i32_def try_i32_def)
  show ?thesis
    unfolding pg_delete_def b sum.case
  proof (rule pg_exec_effect [OF wf], goal_cases)
    case (2 m rows)
    then show ?case by (auto simp: pg_rows_ok_def distinct_map inj_on_def pg_row_filter pg_stored_def fun_eq_iff)
  qed simp
qed (simp add: pg_delete_def bind_i32_def try_i32_def has_effect_def wf of_option_def)

lemma pg_next_id_effect:
  assumes wf: "pg_wf st"
  shows "has_effect E0 SNextId st (abind (pg_next_id E st) (\<lambda>_ st. (Inr (), st)))"
    and "pg_next_id E st = (Inr i, st') \<Longrightarrow> pg_stored E0 st' i = None \<and> pg_issued st' i"
proof -
  obtain n rows where r: "pg_sequence st = Some n" "n < 2 ^ 31" "pg_table st = Some rows" "pg_rows_ok n rows" using wf by (auto simp: pg_wf_alt)
  then have ok: "pg_rows_ok (Suc n) rows" by (auto simp: pg_rows_ok_def)
  have same: "pg_stored E0 (st\<lparr>pg_sequence := s\<rparr>) = pg_stored E0 st" for s by (rule ext) (simp add: pg_stored_def)
  show "has_effect E0 SNextId st (abind (pg_next_id E st) (\<lambda>_ st. (Inr (), st)))"
    using r ok wf by (simp add: has_effect_def pg_next_id_def abind_def same) (simp add: pg_wf_alt)
  assume "pg_next_id E st = (Inr i, st')"
  then have i: "i = Suc n" "st' = st\<lparr>pg_sequence := Some (Suc n)\<rparr>" using r(1,2)
    by (auto simp: pg_next_id_def as_usize_int [of "Suc n", simplified] split: if_splits)
  have "pg_row rows (Suc n) = None" using r(4) unfolding pg_row_None pg_rows_ok_def by force
  then show "pg_stored E0 st' i = None \<and> pg_issued st' i" using r(3) by (simp add: i same pg_issued_def) (simp add: pg_stored_def)
qed

lemma pg_op_effect:
  assumes "pg_wf st" "pg_sane E0 E" "legal_op (pg_issued st) (pg_stored E0 st) op"
  shows "has_effect E0 op st (perform_op pg_persistence E op st)"
  using assms pg_store_effect [of st E0 E] pg_update_effect [of st E0] pg_delete_effect [of st E0] pg_next_id_effect(1) [of st E0]
  by (cases op) (simp_all add: perform_op_def pg_persistence_def)

interpretation postgres: session_store pg_persistence "pg_sane E0" pg_wf pg_issued "pg_stored E0" for E0
  using pg_op_effect [of _ E0] pg_next_id_effect(2) [of _ _ _ _ E0]
  by (unfold_locales) (fastforce simp: has_effect_def pg_persistence_def)+

lemma pg_rows_listed:
  fixes E :: pg_env
  assumes "pg_rows_ok n rows" "n < 2 ^ 31"
  defines "l \<equiv> List.map_filter (into_serialized_torrent E) rows"
  shows "distinct (map fst l)" "map_of (map (apsnd (\<lambda>sz. sz\<lparr>sz_torrent_bytes := []\<rparr>)) l) i = map_option (pg_entry E) (pg_row rows i)"
proof -
  have ids: "int (as_usize (pr_id r)) = pr_id r" if "r \<in> set rows" for r
    using assms(1,2) that as_usize_int [of "nat (pr_id r)"] by (fastforce simp: pg_rows_ok_def)
  have l: "l = map (\<lambda>r. the (into_serialized_torrent E r)) rows"
    using assms(1) unfolding l_def pg_rows_ok_def by (induction rows) (auto simp: List.map_filter_simps into_serialized_torrent_def)
  have s: "the (into_serialized_torrent E r) = (as_usize (pr_id r), (pg_entry E r)\<lparr>sz_torrent_bytes := pr_torrent_bytes r\<rparr>)"
    if "r \<in> set rows" for r
    using assms(1) that by (auto simp: pg_rows_ok_def into_serialized_torrent_def pg_entry_def)
  have "map (int \<circ> fst) l = map pr_id rows" using ids s by (simp add: l)
  then show "distinct (map fst l)" using assms(1) distinct_map [of int "map fst l"] by (simp add: pg_rows_ok_def)
  have "map (apsnd (\<lambda>sz. sz\<lparr>sz_torrent_bytes := []\<rparr>)) l = map (\<lambda>r. (as_usize (pr_id r), pg_entry E r)) rows"
    using s by (auto simp: l pg_entry_def)
  moreover have "map_of (map (\<lambda>r. (as_usize (pr_id r), pg_entry E r)) rs) i = map_option (pg_entry E) (pg_row rs i)"
    if "\<forall>r \<in> set rs. int (as_usize (pr_id r)) = pr_id r" for rs
    using that by (induction rs) (auto simp: pg_row_def)
  ultimately show "map_of (map (apsnd (\<lambda>sz. sz\<lparr>sz_torrent_bytes := []\<rparr>)) l) i = map_option (pg_entry E) (pg_row rows i)"
    using ids by simp
qed

lemma pg_new_fresh:
  assumes "pg_new E \<lparr>pg_sequence = None, pg_table = None, pg_column = False, pg_tasks = []\<rparr> = (Inr (), st)"
  shows "pg_wf st" "pg_stored E0 st = (\<lambda>_. None)"
  using assms by (auto simp: pg_new_def pg_wf_def pg_stored_def pg_row_def Let_def fun_eq_iff split: if_splits)

text \<open>A bitfield comes back when the task that writes it was the last to run.\<close>

lemma pg_bitfield_comes_back:
  assumes "pg_store_initial_check st i b = (Inr b', st')" "length b mod 8 = 0" "id_fits i"
    and "pg_table st = Some rows" "\<exists>r \<in> set rows. row_matches i r" "pg_runs E UpdateBitfield"
    and "pg_runs E' SelectBitfield" "pg_answers E' SelectBitfield"
  shows "b' = b \<and> pg_load E' (pg_flush_task E (length (pg_tasks st)) st') i = Inr (Some b)"
proof -
  have m: "row_matches i (r\<lparr>pr_have_bitfield := x\<rparr>) = row_matches i r" for r x
    by (simp add: row_matches_def split: torrent_id_or_hash.split)
  have "\<exists>r. List.find (row_matches i) (set_bitfield i (Some bs) rows) = Some r \<and> pr_have_bitfield r = Some bs" for bs
    using assms(5) by (induction rows) (auto simp: set_bitfield_def m)
  then obtain r where r: "List.find (row_matches i) (set_bitfield i (Some (bytes_of_bits b)) rows) = Some r"
    "pr_have_bitfield r = Some (bytes_of_bits b)" by blast
  have "b' = b" "st' = st\<lparr>pg_tasks := pg_tasks st @ [(i, bytes_of_bits b)]\<rparr>"
    using assms(1) by (auto simp: pg_store_initial_check_def pg_flush_def)
  then show ?thesis using assms(3,4,6-8) r bits_of_bytes_of_bits [OF assms(2)] by (simp add: pg_flush_task_def pg_load_def pg_exec_def)
qed


subsection \<open>Examples\<close>

definition ex_pg :: pg_env where
  "ex_pg = \<lparr>pg_runs = (\<lambda>_. True), pg_answers = (\<lambda>_. True), pg_to_str = (\<lambda>p. case p of [s] \<Rightarrow> Some s | _ \<Rightarrow> None), pg_pathbuf = (\<lambda>s. [s])\<rparr>"

definition ex_pg_mt :: "(nat, filesystem_storage) managed_torrent" where
  "ex_pg_mt = ex_mt_stored\<lparr>mt_info_hash := replicate 20 3, mt_output_folder := [''dl''], mt_only_files := Some [0]\<rparr>"

definition ex_pg_store :: postgres_session_storage where
  "ex_pg_store = \<lparr>pg_sequence = Some 0, pg_table = Some [], pg_column = True, pg_tasks = []\<rparr>"


end
