(* ===== verification/Session_Start.thy ===== *)
theory Session_Start
  imports Http_Api Blocklist
begin

text \<open>
  How a session comes up: its options, the port it listens on, the store it is kept in, the proxy and the block list, the tasks it runs in
  the background, and the torrents it takes up again. The operating system, the DHT and the clients it builds are parameters; each may
  fail. Besides, what goes in by the command line and by the listener, and what a tracker is told.

  Shown is that a session opened on a disk holds the torrents that are stored there, and that the listener lets a connection in only
  where it belongs.

  Sources: \<^verbatim>\<open>session.rs\<close>, \<^verbatim>\<open>stream_connect.rs\<close>, \<^verbatim>\<open>peer_connection.rs\<close> (the options).
\<close>

subsection \<open>Options\<close>

record peer_connection_options =
  po_connect_timeout :: "nat option"
  po_read_write_timeout :: "nat option"
  po_keep_alive_interval :: "nat option"

definition or_else :: "'a option \<Rightarrow> 'a option \<Rightarrow> 'a option" where
  "or_else a b = (case a of Some x \<Rightarrow> Some x | None \<Rightarrow> b)"

definition merge_peer_opts :: "peer_connection_options \<Rightarrow> peer_connection_options option \<Rightarrow> peer_connection_options" where
  "merge_peer_opts own other =
     (let other = (case other of Some x \<Rightarrow> x | None \<Rightarrow> own)
      in \<lparr>po_connect_timeout = or_else (po_connect_timeout other) (po_connect_timeout own),
          po_read_write_timeout = or_else (po_read_write_timeout other) (po_read_write_timeout own),
          po_keep_alive_interval = or_else (po_keep_alive_interval other) (po_keep_alive_interval own)\<rparr>)"

datatype session_persistence_config = JsonConfig "path option"

record session_options =
  so_disable_dht :: bool
  so_disable_dht_persistence :: bool
  so_fastresume :: bool
  so_persistence :: "session_persistence_config option"
  so_peer_id :: "id20 option"
  so_peer_opts :: "peer_connection_options option"
  so_listen_port_range :: "(nat \<times> nat) option"
  so_enable_upnp_port_forwarding :: bool
  so_defer_writes_up_to :: "nat option"
  so_socks_proxy_url :: "string option"
  so_concurrent_init_limit :: "nat option"
  so_ratelimits :: limits_config
  so_blocklist_url :: "string option"
  so_trackers :: "string list"
  so_disable_upload :: bool

subsection \<open>The proxy\<close>

record proxy_url =
  px_scheme :: string
  px_host :: "string option"
  px_port :: "nat option"
  px_username :: string
  px_password :: "string option"

record socks_proxy_config =
  sk_host :: string
  sk_port :: nat
  sk_username_password :: "(string \<times> string) option"

definition socks_parse :: "(string \<Rightarrow> proxy_url option) \<Rightarrow> string \<Rightarrow> socks_proxy_config res" where
  "socks_parse parse_url url =
     rbind (of_option (Bail ''invalid proxy URL'') (parse_url url)) (\<lambda>u.
       if px_scheme u \<noteq> ''socks5'' then Inl (Bail ''proxy URL should have socks5 scheme'')
       else rbind (of_option (Bail ''missing host'') (px_host u)) (\<lambda>host.
            rbind (of_option (Bail ''missing port'') (px_port u)) (\<lambda>port.
              Inr \<lparr>sk_host = host, sk_port = port, sk_username_password = map_option (\<lambda>p. (px_username u, p)) (px_password u)\<rparr>)))"

datatype dial = DirectTo socket_addr | ThroughProxy string nat "(string \<times> string) option" socket_addr

text \<open>Where a connection to a peer goes. With a proxy no peer is connected directly.\<close>

definition stream_connect :: "socks_proxy_config option \<Rightarrow> socket_addr \<Rightarrow> dial" where
  "stream_connect proxy_config addr =
     (case proxy_config of
        Some proxy \<Rightarrow> ThroughProxy (sk_host proxy) (sk_port proxy) (sk_username_password proxy) addr
      | None \<Rightarrow> DirectTo addr)"

subsection \<open>The parts of a session\<close>

record 't start_env =
  sx_generate_peer_id :: id20
  sx_bind :: "nat \<Rightarrow> bool"
  sx_dht :: "bool \<Rightarrow> unit res"
  sx_config_dir :: "path res"
  sx_proxy_url :: "string \<Rightarrow> proxy_url option"
  sx_http_client :: "string option \<Rightarrow> unit res"
  sx_tree :: "'t interval_tree"
  sx_from_str :: "string \<Rightarrow> ip_addr option"
  sx_gunzip :: "string \<Rightarrow> string res"
  sx_first_read :: nat
  sx_files :: "string \<Rightarrow> string option"
  sx_blocklist_url :: "string \<Rightarrow> url_info option"
  sx_udp_tracker :: "unit res"

text \<open>The first port of the range that is free.\<close>

definition create_tcp_listener :: "(nat \<Rightarrow> bool) \<Rightarrow> nat \<times> nat \<Rightarrow> nat res" where
  "create_tcp_listener bind_port port_range =
     of_option (Bail ''no free TCP ports in range'') (List.find bind_port [fst port_range..<snd port_range])"

text \<open>The store, and whether bitfields are kept in it too.\<close>

definition persistence_factory :: "'t start_env \<Rightarrow> json_env \<Rightarrow> session_options \<Rightarrow> disk \<Rightarrow> (json_store option \<times> bool) res" where
  "persistence_factory X J opts d =
     (case so_persistence opts of
        Some (JsonConfig folder) \<Rightarrow>
          rbind (case folder of Some f \<Rightarrow> Inr f | None \<Rightarrow> sx_config_dir X) (\<lambda>f.
          rbind (json_new J d f) (\<lambda>s. Inr (Some s, so_fastresume opts)))
      | None \<Rightarrow> Inr (None, False))"

text \<open>How many writes may wait. A channel without capacity panics.\<close>

definition disk_queue_size :: "nat \<Rightarrow> nat res" where
  "disk_queue_size mb =
     (let count = mul64 (mul64 mb 1024) 1024 div (CHUNK_SIZE + 300) in if count = 0 then Inl Panic else Inr count)"

definition optional :: "('a \<Rightarrow> 'b res) \<Rightarrow> 'a option \<Rightarrow> 'b option res" where
  "optional f x = (case x of Some a \<Rightarrow> rbind (f a) (\<lambda>b. Inr (Some b)) | None \<Rightarrow> Inr None)"

text \<open>A block list that cannot be read is unwrapped.\<close>

definition session_blocklist :: "'t start_env \<Rightarrow> string option \<Rightarrow> 't blocklist res" where
  "session_blocklist X blocklist_url =
     (case blocklist_url of
        Some url \<Rightarrow>
          (case load_from_url (sx_tree X) (sx_from_str X) (sx_gunzip X) (sx_first_read X) (sx_files X) (sx_blocklist_url X) url of
             Inl _ \<Rightarrow> Inl Panic
           | Inr bl \<Rightarrow> Inr bl)
      | None \<Rightarrow> Inr (blocklist_empty (sx_tree X)))"

datatype background_task = DiskWriter | TcpListen nat | UpnpForward nat

record ('b, 's, 't) started_session =
  sd_session :: "('b, 's) session"
  sd_tcp_listen_port :: "nat option"
  sd_peer_opts :: peer_connection_options
  sd_persistent_bitv :: bool
  sd_disk_queue :: "nat option"
  sd_proxy :: "socks_proxy_config option"
  sd_blocklist :: "'t blocklist"
  sd_init_permits :: nat
  sd_ratelimits :: limits_config
  sd_tasks :: "background_task list"

definition new_session ::
  "path \<Rightarrow> id20 \<Rightarrow> session_options \<Rightarrow> json_store option \<Rightarrow> session_counters \<Rightarrow> ('b, 's) session" where
  "new_session default_output_folder peer_id opts persistence counters =
     \<lparr>se_torrents = [], se_next_id = 0, se_output_folder = default_output_folder, se_persistence = persistence, se_trackers = so_trackers opts,
      se_peer_id = peer_id, se_dht = (\<not> so_disable_dht opts), se_counters = counters, se_disable_upload = so_disable_upload opts\<rparr>"

definition background_tasks :: "session_options \<Rightarrow> nat option \<Rightarrow> nat option \<Rightarrow> background_task list" where
  "background_tasks opts disk_queue port =
     (if disk_queue \<noteq> None then [DiskWriter] else []) @
     (case port of Some p \<Rightarrow> [TcpListen p] @ (if so_enable_upnp_port_forwarding opts then [UpnpForward p] else []) | None \<Rightarrow> [])"

definition session_setup ::
  "'t start_env \<Rightarrow> json_env \<Rightarrow> path \<Rightarrow> session_options \<Rightarrow> session_counters \<Rightarrow> disk \<Rightarrow> ('b, 's, 't) started_session res" where
  "session_setup X J default_output_folder opts counters d =
     (let peer_id = (case so_peer_id opts of Some p \<Rightarrow> p | None \<Rightarrow> sx_generate_peer_id X)
      in rbind (optional (create_tcp_listener (sx_bind X)) (so_listen_port_range opts)) (\<lambda>port.
         rbind (if so_disable_dht opts then Inr () else sx_dht X (\<not> so_disable_dht_persistence opts)) (\<lambda>_.
         rbind (persistence_factory X J opts d) (\<lambda>(persistence, persistent_bitv).
         rbind (optional disk_queue_size (so_defer_writes_up_to opts)) (\<lambda>disk_queue.
         rbind (optional (socks_parse (sx_proxy_url X)) (so_socks_proxy_url opts)) (\<lambda>proxy.
         rbind (sx_http_client X (so_socks_proxy_url opts)) (\<lambda>_.
         rbind (session_blocklist X (so_blocklist_url opts)) (\<lambda>blocklist.
         rbind (sx_udp_tracker X) (\<lambda>_.
           Inr \<lparr>sd_session = new_session default_output_folder peer_id opts persistence counters, sd_tcp_listen_port = port,
                sd_peer_opts = (case so_peer_opts opts of Some po \<Rightarrow> po
                                | None \<Rightarrow> \<lparr>po_connect_timeout = None, po_read_write_timeout = None, po_keep_alive_interval = None\<rparr>),
                sd_persistent_bitv = persistent_bitv, sd_disk_queue = disk_queue, sd_proxy = proxy, sd_blocklist = blocklist,
                sd_init_permits = (case so_concurrent_init_limit opts of Some n \<Rightarrow> n | None \<Rightarrow> 3), sd_ratelimits = so_ratelimits opts,
                sd_tasks = background_tasks opts disk_queue port\<rparr>)))))))))"

definition new_with_opts ::
  "'t start_env \<Rightarrow> ('b, 's, 'f) managed_env \<Rightarrow> session_env \<Rightarrow> (id20 \<Rightarrow> string list \<Rightarrow> nat list option \<Rightarrow> string) \<Rightarrow> path \<Rightarrow>
   session_options \<Rightarrow> session_counters \<Rightarrow> disk \<Rightarrow> ('b, 's, 't) started_session res" where
  "new_with_opts X E V magnet_string default_output_folder opts counters d =
     rbind (session_setup X (sv_json V) default_output_folder opts counters d) (\<lambda>sd.
       case se_persistence (sd_session sd) of
         None \<Rightarrow> Inr sd
       | Some persistence \<Rightarrow>
           (case restore_torrents E V magnet_string (json_stream_all (sv_json V) persistence) (sd_session sd) of
              (Inl e, _) \<Rightarrow> Inl e
            | (Inr _, se) \<Rightarrow> Inr (sd\<lparr>sd_session := se\<rparr>)))"

subsection \<open>The listener\<close>

text \<open>A connection that passed the check is handed to the running torrent. If the torrent was stopped in between, the state it is handed
  to is no longer that of the session.\<close>

definition listener_hand_over ::
  "('b, 's, 'f) managed_env \<Rightarrow> ('b, 's) session \<Rightarrow> nat \<Rightarrow> socket_addr \<Rightarrow> id20 \<Rightarrow> peer_tx \<Rightarrow> ('b, 's) session" where
  "listener_hand_over E se tid addr peer_id tx =
     (case map_of (se_torrents se) tid of
        Some mt \<Rightarrow>
          (case mt_live mt of
             Some live \<Rightarrow>
               se\<lparr>se_torrents := AList.update tid
                   (mt\<lparr>mt_state := LiveSt (snd (add_incoming_peer (me_env E) live addr peer_id tx))\<rparr>) (se_torrents se)\<rparr>
           | None \<Rightarrow> se)
      | None \<Rightarrow> se)"

definition listener_connection ::
  "('b, 's, 'f) managed_env \<Rightarrow> 't interval_tree \<Rightarrow> ('b, 's, 't) started_session \<Rightarrow> socket_addr \<Rightarrow> id20 \<Rightarrow> id20 \<Rightarrow> peer_tx \<Rightarrow>
   ('b, 's, 't) started_session" where
  "listener_connection E T sd addr peer_id info_hash tx =
     (case check_incoming_connection (sd_session sd) (is_blocked T (sd_blocklist sd)) addr peer_id info_hash of
        Inl e \<Rightarrow> sd
      | Inr tid \<Rightarrow> sd\<lparr>sd_session := listener_hand_over E (sd_session sd) tid addr peer_id tx\<rparr>)"

subsection \<open>What to add, from the command line\<close>

definition read_local_file_including_stdin :: "nat list res \<Rightarrow> (string \<Rightarrow> nat list res) \<Rightarrow> string \<Rightarrow> nat list res" where
  "read_local_file_including_stdin stdin read_file filename = (if filename = ''-'' then stdin else read_file filename)"

definition from_local_filename :: "nat list res \<Rightarrow> (string \<Rightarrow> nat list res) \<Rightarrow> string \<Rightarrow> add_torrent res" where
  "from_local_filename stdin read_file filename =
     rbind (read_local_file_including_stdin stdin read_file filename) (\<lambda>bytes. Inr (TorrentFileBytes bytes))"

definition from_cli_argument ::
  "session_env \<Rightarrow> (string \<Rightarrow> bool) \<Rightarrow> nat list res \<Rightarrow> (string \<Rightarrow> nat list res) \<Rightarrow> string \<Rightarrow> add_torrent res" where
  "from_cli_argument V path_exists stdin read_file path =
     (if list_ex (\<lambda>s. starts_with path s) SUPPORTED_SCHEMES then Inr (Url path)
      else if length path = 40 \<and> \<not> path_exists path \<and> (case sv_parse_magnet V path of Inr _ \<Rightarrow> True | Inl _ \<Rightarrow> False) then Inr (Url path)
      else from_local_filename stdin read_file path)"

definition into_handle :: "add_torrent_response \<Rightarrow> nat option" where
  "into_handle r = (case r of AlreadyManaged i \<Rightarrow> Some i | ListOnly _ \<Rightarrow> None | Added i \<Rightarrow> Some i)"

subsection \<open>What a tracker is told\<close>

datatype tracker_state = TrInitializing | TrLive | TrPaused | TrNone

record tracker_comms_stats =
  tr_downloaded_bytes :: nat
  tr_total_bytes :: nat
  tr_uploaded_bytes :: "64 word"
  tr_torrent_state :: tracker_state

definition tracker_stats :: "('b, 's) session \<Rightarrow> id20 \<Rightarrow> tracker_comms_stats" where
  "tracker_stats se info_hash =
     (case find_hash se info_hash of
        None \<Rightarrow> \<lparr>tr_downloaded_bytes = 0, tr_total_bytes = 0, tr_uploaded_bytes = 0, tr_torrent_state = TrNone\<rparr>
      | Some (_, mt) \<Rightarrow>
          let stats = mt_stats mt
          in \<lparr>tr_downloaded_bytes = ts_progress_bytes stats, tr_total_bytes = ts_total_bytes stats,
              tr_uploaded_bytes = ts_uploaded_bytes stats,
              tr_torrent_state = (case ts_state stats of SInitializing \<Rightarrow> TrInitializing | SLive \<Rightarrow> TrLive | SPaused \<Rightarrow> TrPaused | SError \<Rightarrow> TrNone)\<rparr>)"

subsection \<open>The torrents are taken up again\<close>

text \<open>What a stored torrent needs to come back: its metadata file holds the torrent it was stored for, its selection fits, and its storage
  can be opened.\<close>

definition restorable :: "('b, 's, 'f) managed_env \<Rightarrow> session_env \<Rightarrow> serialized_torrent \<Rightarrow> torrent_metadata \<Rightarrow> bool" where
  "restorable E V sz md \<longleftrightarrow>
     sz_torrent_bytes sz \<noteq> [] \<and>
     (\<exists>t. sv_torrent_from_bytes V (sz_torrent_bytes sz) = Inr t \<and> pt_info_hash t = sz_info_hash sz \<and>
          torrent_metadata_new (pt_info t) (pt_torrent_bytes t) (pt_info_bytes t) = Inr md) \<and>
     (\<exists>lens. iter_file_lengths (tm_info md) = Inr lens \<and> (\<forall>i \<in> set (case sz_only_files sz of Some fs \<Rightarrow> fs | None \<Rightarrow> []). i < length lens)) \<and>
     (\<exists>files. me_create_and_init E md = Inr files)"

text \<open>The torrent as it was stored, being checked.\<close>

definition restored :: "nat \<Rightarrow> serialized_torrent \<Rightarrow> torrent_metadata \<Rightarrow> ('b, 's) managed_torrent \<Rightarrow> bool" where
  "restored tid sz md mt \<longleftrightarrow>
     mt_id mt = tid \<and> mt_info_hash mt = sz_info_hash sz \<and> mt_metadata mt = Some md \<and> mt_output_folder mt = sz_output_folder sz \<and>
     mt_only_files mt = sz_only_files sz \<and> mt_paused mt = sz_is_paused sz \<and> mt_state mt = Initializing 0 \<and> mt_tasks mt = [(0, sz_is_paused sz)]"

lemma json_store_no_failures:
  assumes "jo_fails J = (\<lambda>_ _. False)" "mt_fs_factory mt"
  shows "fst (json_store_torrent J p tid mt) = Inr ()"
  using assms update_db_flush [OF assms(2), of J p tid True]
  by (simp add: json_store_torrent_def flush_def write_file_def rename_file_def Let_def)

lemma compute_only_files_stored:
  assumes "iter_file_lengths info = Inr lens" "\<forall>i \<in> set (case only of Some fs \<Rightarrow> fs | None \<Rightarrow> []). i < length lens"
  shows "compute_only_files regex info only None = Inr only"
  using assms by (auto simp: compute_only_files_def list_ex_iff split: option.split)

lemma update_last: "tid \<notin> fst ` set ts \<Longrightarrow> AList.update tid y (ts @ [(tid, x)]) = ts @ [(tid, y)]"
  by (induction ts) auto

lemma store_and_start_ok:
  assumes "map_of (se_torrents se) tid = Some mt" "mt_start E (se_counters se) p mt = (Inr (), mt')"
    and "jo_fails (sv_json V) = (\<lambda>_ _. False)" "mt_fs_factory mt"
  obtains se' where "store_and_start E V se tid p = (Inr (Added tid), se')" "se_torrents se' = AList.update tid mt' (se_torrents se)"
proof (cases "se_persistence se")
  case None
  then show ?thesis using assms that by (simp add: store_and_start_def on_torrent_def abind_def)
next
  case (Some st)
  then show ?thesis using assms json_store_no_failures [OF assms(3,4), of st tid] that
    by (simp add: store_and_start_def on_torrent_def abind_def Let_def)
qed

lemma restore_one:
  assumes r: "restorable E V sz md" and J: "jo_fails (sv_json V) = (\<lambda>_ _. False)" and env: "sv_default_fs_factory V" "ie_session_alive (me_init E)"
    and new: "tid \<notin> fst ` set (se_torrents se)" "sz_info_hash sz \<notin> (\<lambda>e. mt_info_hash (snd e)) ` set (se_torrents se)"
    and "into_add_torrent ms sz = (add, opts)"
  shows "\<exists>mt se'. session_add_torrent E V se add (opts\<lparr>ao_preferred_id := Some tid\<rparr>) = (Inr (Added tid), se') \<and>
    se_torrents se' = se_torrents se @ [(tid, mt)] \<and> restored tid sz md mt"
proof -
  let ?o = "opts\<lparr>ao_preferred_id := Some tid\<rparr>"
  obtain t lens files where t: "sv_torrent_from_bytes V (sz_torrent_bytes sz) = Inr t" "pt_info_hash t = sz_info_hash sz"
      "torrent_metadata_new (pt_info t) (pt_torrent_bytes t) (pt_info_bytes t) = Inr md"
    and l: "iter_file_lengths (tm_info md) = Inr lens" "\<forall>i \<in> set (case sz_only_files sz of Some fs \<Rightarrow> fs | None \<Rightarrow> []). i < length lens"
    and f: "me_create_and_init E md = Inr files" and b: "sz_torrent_bytes sz \<noteq> []" using r unfolding restorable_def by auto
  have o: "add = TorrentFileBytes (sz_torrent_bytes sz)" "ao_paused ?o = sz_is_paused sz" "ao_only_files ?o = sz_only_files sz"
    "ao_only_files_regex ?o = None" "\<not> ao_list_only ?o" "ao_output_folder ?o = Some (sz_output_folder sz)" "ao_sub_folder ?o = None"
    "ao_fs_factory ?o = None" "ao_preferred_id ?o = Some tid" using assms(7) b by (auto simp: into_add_torrent_def)
  obtain ia where ia: "read_add_torrent V add ?o = Inr (ia, ?o)" "ia_info_hash ia = sz_info_hash sz" "ia_metadata ia = Some md" "ia_name ia = None"
    using t by (simp add: o(1) read_add_torrent_def add_torrent_file_def)
  define mt where "mt = new_managed_torrent se tid ia md (sz_only_files sz) (sz_output_folder sz) True (sz_is_paused sz) files"
  have "List.find (\<lambda>(eid, t). mt_info_hash t = ia_info_hash ia \<or> eid = tid) (se_torrents se) = None"
    using new by (force simp: find_None_iff ia(2))
  then have ins: "insert_torrent E se tid ia md (sz_only_files sz) (sz_output_folder sz) True (sz_is_paused sz) =
      (Inr None, se\<lparr>se_torrents := se_torrents se @ [(tid, mt)]\<rparr>)"
    using f by (simp add: insert_torrent_def mt_def update_new [OF new(1)])
  have m: "map_of (se_torrents se @ [(tid, mt)]) tid = Some mt" using new(1) by (simp add: map_of_append map_add_def map_of_eq_None_iff [symmetric])
  let ?mt = "snd (mt_start E (se_counters se) (sz_is_paused sz) mt)"
  have s: "mt_start E (se_counters se) (sz_is_paused sz) mt = (Inr (), ?mt)" and rest: "restored tid sz md ?mt"
    using env(2) ia by (simp_all add: mt_def new_managed_torrent_def mt_start_def start_inner_def spawn_init_def restored_def)
  note u = update_last [OF new(1), of ?mt mt]
  have fs: "mt_fs_factory mt" by (simp add: mt_def new_managed_torrent_def)
  obtain se' where "store_and_start E V (se\<lparr>se_torrents := se_torrents se @ [(tid, mt)]\<rparr>) tid (sz_is_paused sz) = (Inr (Added tid), se')"
    "se_torrents se' = se_torrents se @ [(tid, ?mt)]"
    using store_and_start_ok [of "se\<lparr>se_torrents := se_torrents se @ [(tid, mt)]\<rparr>" tid mt E "sz_is_paused sz" ?mt V] m s u J fs
    by (metis (no_types, lifting) session.select_convs(1) session.update_convs(1) session.surjective session.select_convs(8))
  moreover have "session_add_torrent E V se add ?o =
      store_and_start E V (se\<lparr>se_torrents := se_torrents se @ [(tid, mt)]\<rparr>) tid (sz_is_paused sz)"
    using ins o(2-) env(1) compute_only_files_stored [OF l]
    by (simp add: session_add_torrent_def ia(1)) (simp add: ia(2-) add_torrent_internal_def resolve_metadata_def choose_output_folder_def choose_id_def abind_def)
  ultimately show ?thesis using rest by auto
qed

lemma restore_all:
  assumes J: "jo_fails (sv_json V) = (\<lambda>_ _. False)" and env: "sv_default_fs_factory V" "ie_session_alive (me_init E)"
    and "\<forall>(tid, sz) \<in> set es. restorable E V sz (md tid)" "distinct (map fst es)" "distinct (map (\<lambda>e. sz_info_hash (snd e)) es)"
    and "fst ` set es \<inter> fst ` set (se_torrents se) = {}"
    and "(\<lambda>e. sz_info_hash (snd e)) ` set es \<inter> (\<lambda>e. mt_info_hash (snd e)) ` set (se_torrents se) = {}"
  shows "\<exists>se' mts. restore_torrents E V ms (map Inr es) se = (Inr (), se') \<and> se_torrents se' = se_torrents se @ mts \<and>
    list_all2 (\<lambda>(tid, sz) (tid', mt). tid' = tid \<and> restored tid sz (md tid) mt) es mts"
  using assms(4-8)
proof (induction es arbitrary: se)
  case (Cons e es)
  obtain tid sz where e: "e = (tid, sz)" by fastforce
  obtain add opts where ao: "into_add_torrent ms sz = (add, opts)" by fastforce
  obtain mt se1 where 1: "session_add_torrent E V se add (opts\<lparr>ao_preferred_id := Some tid\<rparr>) = (Inr (Added tid), se1)"
    "se_torrents se1 = se_torrents se @ [(tid, mt)]" "restored tid sz (md tid) mt"
    using restore_one [OF _ J env _ _ ao, of "md tid" tid se] Cons.prems by (auto simp: e)
  have "mt_info_hash mt = sz_info_hash sz" using 1(3) by (simp add: restored_def)
  then have "\<exists>se' mts. restore_torrents E V ms (map Inr es) se1 = (Inr (), se') \<and> se_torrents se' = se_torrents se1 @ mts \<and>
      list_all2 (\<lambda>(tid, sz) (tid', mt). tid' = tid \<and> restored tid sz (md tid) mt) es mts"
    using Cons.prems 1(2) by (intro Cons.IH) (auto simp: e)
  then obtain se' mts where 2: "restore_torrents E V ms (map Inr es) se1 = (Inr (), se')" "se_torrents se' = se_torrents se1 @ mts"
    "list_all2 (\<lambda>(tid, sz) (tid', mt). tid' = tid \<and> restored tid sz (md tid) mt) es mts" by blast
  then show ?case using 1 ao by (intro exI [of _ se'] exI [of _ "(tid, mt) # mts"]) (simp add: e)
qed simp

lemma json_get_hash:
  "json_get J st tid = Inr sz \<Longrightarrow> \<exists>sz0. map_of (js_db st) tid = Some sz0 \<and> sz_info_hash sz = sz_info_hash sz0"
  by (auto simp: json_get_def of_option_def Let_def split: option.splits if_splits)

lemma session_setup_fresh: "session_setup X J folder opts counters d = Inr sd \<Longrightarrow> se_torrents (sd_session sd) = []"
  by (auto simp: session_setup_def Let_def rbind_eq_Inr new_session_def)

text \<open>C22: A session opened on a disk continues where the last one stopped: if its stored torrents can be read, the start succeeds and the
  session holds exactly the stored torrents, in the order they are read, each under its number with its info hash, folder, selection and
  pause flag, and each being checked.\<close>

theorem restarted_session_complete:
  fixes E :: "('b, 's, 'f) managed_env" and sd :: "('b, 's, 't) started_session"
  assumes "session_setup X (sv_json V) folder opts counters d = Inr sd" "se_persistence (sd_session sd) = Some st"
    and "jo_fails (sv_json V) = (\<lambda>_ _. False)" "sv_default_fs_factory V" "ie_session_alive (me_init E)"
    and "distinct (map fst (js_db st))" "distinct (map (\<lambda>e. sz_info_hash (snd e)) (js_db st))"
    and "\<forall>tid \<in> fst ` set (js_db st). \<exists>sz md. json_get (sv_json V) st tid = Inr sz \<and> restorable E V sz md"
  shows "\<exists>sd'. new_with_opts X E V ms folder opts counters d = Inr sd' \<and>
    map fst (se_torrents (sd_session sd')) = map fst (js_db st) \<and>
    (\<forall>(tid, mt) \<in> set (se_torrents (sd_session sd')).
      \<exists>sz md. json_get (sv_json V) st tid = Inr sz \<and> restorable E V sz md \<and> restored tid sz md mt)"
proof -
  obtain g where g: "\<forall>tid \<in> fst ` set (js_db st). \<exists>md. json_get (sv_json V) st tid = Inr (g tid) \<and> restorable E V (g tid) md"
    using assms(8) by metis
  then obtain md where md: "\<forall>tid \<in> fst ` set (js_db st). json_get (sv_json V) st tid = Inr (g tid) \<and> restorable E V (g tid) (md tid)" by metis
  define es where "es = map (\<lambda>tid. (tid, g tid)) (map fst (js_db st))"
  have stream: "json_stream_all (sv_json V) st = map Inr es" using md by (auto simp: json_stream_all_def es_def)
  have "sz_info_hash (g (fst e)) = sz_info_hash (snd e)" if "e \<in> set (js_db st)" for e
    using json_get_hash [of "sv_json V" st "fst e" "g (fst e)"] md that map_of_is_SomeI [OF assms(6), of "fst e" "snd e"] by auto
  then have "map (\<lambda>e. sz_info_hash (snd e)) es = map (\<lambda>e. sz_info_hash (snd e)) (js_db st)" by (simp add: es_def)
  then have dist: "distinct (map (\<lambda>e. sz_info_hash (snd e)) es)" using assms(7) by simp
  have ids: "map fst es = map fst (js_db st)" by (simp add: es_def comp_def)
  have r: "\<forall>(tid, sz) \<in> set es. restorable E V sz (md tid)" using md by (auto simp: es_def)
  have none: "se_torrents (sd_session sd) = []" by (rule session_setup_fresh [OF assms(1)])
  obtain se' mts where m: "restore_torrents E V ms (map Inr es) (sd_session sd) = (Inr (), se')" "se_torrents se' = mts"
    "list_all2 (\<lambda>(tid, sz) (tid', mt). tid' = tid \<and> restored tid sz (md tid) mt) es mts"
    using restore_all [OF assms(3-5) r _ dist, of "sd_session sd" ms] assms(6) ids none by auto
  then have "new_with_opts X E V ms folder opts counters d = Inr (sd\<lparr>sd_session := se'\<rparr>)"
    using assms(1,2) stream by (simp add: new_with_opts_def)
  moreover have "map fst mts = map fst es" using m(3) by (induction rule: list_all2_induct) auto
  moreover have "\<exists>sz md. json_get (sv_json V) st tid = Inr sz \<and> restorable E V sz md \<and> restored tid sz md mt" if i: "(tid, mt) \<in> set mts" for tid mt
  proof -
    obtain k where k: "k < length mts" "mts ! k = (tid, mt)" using i by (auto simp: in_set_conv_nth)
    then have "k < length es" "fst (es ! k) = tid" "restored tid (snd (es ! k)) (md tid) mt"
      using list_all2_nthD2 [OF m(3) k(1)] list_all2_lengthD [OF m(3)] by (auto split: prod.splits)
    moreover have "tid \<in> fst ` set (js_db st)" "snd (es ! k) = g tid" using calculation(1,2) by (auto simp: es_def)
    ultimately show ?thesis using md by metis
  qed
  ultimately show ?thesis using m(2) ids by auto
qed

text \<open>The listener changes nothing but the running torrent whose hash the peer named, and lets no blocked address and no copy of this
  program in.\<close>

lemma listener_connection_confined:
  assumes "table_ok (se_torrents (sd_session sd))"
  shows "listener_connection E T sd addr peer_id info_hash tx = sd \<or>
    (\<exists>tid mt. map_of (se_torrents (sd_session sd)) tid = Some mt \<and> mt_info_hash mt = info_hash \<and> mt_live mt \<noteq> None \<and>
      \<not> is_blocked T (sd_blocklist sd) (fst addr) \<and> peer_id \<noteq> se_peer_id (sd_session sd) \<and>
      listener_connection E T sd addr peer_id info_hash tx =
        sd\<lparr>sd_session := listener_hand_over E (sd_session sd) tid addr peer_id tx\<rparr>)"
proof (cases "check_incoming_connection (sd_session sd) (is_blocked T (sd_blocklist sd)) addr peer_id info_hash")
  case (Inr tid)
  then obtain mt where mt: "find_hash (sd_session sd) info_hash = Some (tid, mt)" "mt_live mt \<noteq> None"
    "\<not> is_blocked T (sd_blocklist sd) (fst addr)" "peer_id \<noteq> se_peer_id (sd_session sd)"
    by (auto simp: check_incoming_connection_def split: if_splits option.splits)
  have "(tid, mt) \<in> set (se_torrents (sd_session sd))" "mt_info_hash mt = info_hash"
    using mt(1) unfolding find_hash_def find_Some_iff by (auto dest: nth_mem)
  then show ?thesis using mt assms Inr by (auto simp: listener_connection_def table_ok_def intro: map_of_is_SomeI)
qed (simp add: listener_connection_def)

text \<open>With a proxy no peer is connected directly.\<close>

lemma proxied_session_never_direct:
  assumes "session_setup X J folder opts counters d = Inr sd" "so_socks_proxy_url opts = Some url"
  shows "stream_connect (sd_proxy sd) addr \<noteq> DirectTo a"
  using assms by (auto simp: session_setup_def Let_def rbind_eq_Inr optional_def stream_connect_def)

subsection \<open>Examples\<close>

definition ex_start :: "ip_range list start_env" where
  "ex_start = \<lparr>sx_generate_peer_id = replicate 20 1, sx_bind = (\<lambda>p. p = 4242), sx_dht = (\<lambda>_. Inr ()), sx_config_dir = Inr [''cfg''],
     sx_proxy_url = (\<lambda>_. None), sx_http_client = (\<lambda>_. Inr ()),
     sx_tree = \<lparr>from_iter = (\<lambda>rs. rs), query_point = (\<lambda>rs ip. filter (\<lambda>r. fst r \<le> ip \<and> ip < snd r) rs)\<rparr>,
     sx_from_str = (\<lambda>_. None), sx_gunzip = (\<lambda>_. Inl (Bail ''gunzip'')), sx_first_read = 0, sx_files = (\<lambda>_. None),
     sx_blocklist_url = (\<lambda>_. None), sx_udp_tracker = Inr ()\<rparr>"

definition ex_session_options :: session_options where
  "ex_session_options = \<lparr>so_disable_dht = True, so_disable_dht_persistence = True, so_fastresume = False,
     so_persistence = Some (JsonConfig None), so_peer_id = None, so_peer_opts = None, so_listen_port_range = Some (4240, 4260),
     so_enable_upnp_port_forwarding = False, so_defer_writes_up_to = Some 1, so_socks_proxy_url = None, so_concurrent_init_limit = None,
     so_ratelimits = \<lparr>upload_bps = None, download_bps = None\<rparr>, so_blocklist_url = None, so_trackers = [], so_disable_upload = False\<rparr>"

definition ex_sz :: serialized_torrent where
  "ex_sz = \<lparr>sz_info_hash = replicate 20 7, sz_torrent_bytes = [], sz_trackers = [], sz_output_folder = [''out''], sz_only_files = Some [2],
     sz_is_paused = True\<rparr>"

definition ex_restart_disk :: disk where
  "ex_restart_disk = [[''cfg'', ''session.json''] \<mapsto> jo_ser ex_json [(5, ex_sz)], [''cfg'', id20_hex (replicate 20 7) @ ''.torrent''] \<mapsto> [100]]"

definition ex_restart_env :: session_env where
  "ex_restart_env = ex_senv\<lparr>sv_torrent_from_bytes := \<lambda>bs. Inr \<lparr>pt_info_hash = replicate 20 7, pt_info = ex_info, pt_announce = [],
     pt_info_bytes = [], pt_torrent_bytes = []\<rparr>\<rparr>"

definition ex_restart_store :: json_store where
  "ex_restart_store = \<lparr>js_output_folder = [''cfg''], js_db = [(5, ex_sz)], js_disk = ex_restart_disk\<rparr>"

lemma ex_find_port: "List.find (\<lambda>p. p = 4242) [4240..<4260] = Some (4242 :: nat)"
  by (simp add: upt_rec)

theorem restarted_session_complete_witness:
  "\<exists>sd'. new_with_opts ex_start ex_menv ex_restart_env (\<lambda>_ _ _. []) [''dl''] ex_session_options ex_counters ex_restart_disk = Inr sd' \<and>
     map fst (se_torrents (sd_session sd')) = [5]"
proof -
  have fails: "jo_fails ex_json = (\<lambda>_ _. False)" by (simp add: ex_json_def)
  have neq: "[''cfg'', id20_hex (replicate 20 7) @ ''.torrent''] \<noteq> [''cfg'', ''session.json'']"
  proof
    assume "[''cfg'', id20_hex (replicate 20 7) @ ''.torrent''] = [''cfg'', ''session.json'']"
    then have "last (id20_hex (replicate 20 7) @ ''.torrent'') = last ''session.json''" by simp
    then show False by simp
  qed
  have "jo_de ex_json (jo_ser ex_json [(5, ex_sz)]) = Some [(5, ex_sz)]"
    using codec_db [OF ex_json_codec, of ex_restart_store] by (simp add: js_ok_def ex_restart_store_def ex_sz_def)
  then have new: "json_new ex_json ex_restart_disk [''cfg''] = Inr ex_restart_store"
    using neq by (simp add: json_new_def fails ex_restart_disk_def of_option_def ex_restart_store_def)
  have V: "sv_json ex_restart_env = ex_json" "sv_default_fs_factory ex_restart_env" by (simp_all add: ex_restart_env_def ex_senv_def)
  obtain sd :: "(nat, filesystem_storage, ip_range list) started_session" where
    sd: "session_setup ex_start ex_json [''dl''] ex_session_options ex_counters ex_restart_disk = Inr sd"
    "se_persistence (sd_session sd) = Some ex_restart_store"
    by (simp add: session_setup_def ex_start_def ex_session_options_def optional_def create_tcp_listener_def ex_find_port of_option_def
        persistence_factory_def new disk_queue_size_def mul64_def as_u64_def CHUNK_SIZE_def session_blocklist_def new_session_def)
  have "json_get ex_json ex_restart_store 5 = Inr (ex_sz\<lparr>sz_torrent_bytes := [100]\<rparr>)"
    by (simp add: json_get_def ex_restart_store_def of_option_def torrent_bytes_filename_def ex_restart_disk_def fails ex_sz_def)
  moreover have "restorable ex_menv ex_restart_env (ex_sz\<lparr>sz_torrent_bytes := [100]\<rparr>) ex_metadata"
    using ex_metadata_new ex_meta_ok
    by (simp add: restorable_def ex_restart_env_def ex_menv_def ex_sz_def ex_metadata_def iter_file_lengths_def iter_file_details_def ex_info_def)
  ultimately have get: "\<forall>tid \<in> fst ` set (js_db ex_restart_store). \<exists>sz md. json_get (sv_json ex_restart_env) ex_restart_store tid = Inr sz \<and>
      restorable ex_menv ex_restart_env sz md"
    unfolding V by (auto simp: ex_restart_store_def)
  show ?thesis
    using restarted_session_complete [of ex_start ex_restart_env "[''dl'']" ex_session_options ex_counters ex_restart_disk sd ex_restart_store ex_menv "\<lambda>_ _ _. []"]
      sd fails V get by (auto simp: ex_restart_store_def ex_menv_def ex_init_env_def)
qed

end
