(* ===== verification/Storage_Variants.thy ===== *)
theory Storage_Variants
  imports File_Ops
begin

text \<open>
  Storages beside the two of \<open>Storage\<close>: files mapped into memory, and wrappers of another storage that slow it down, time it or cache
  what is written.

  The mapped files and the timed file system keep the promises of the locale \<open>torrent_storage\<close>, so everything that is shown of piece
  input and output holds of them. The cache does not: it takes the number of a piece for an offset, and \<open>cache_returns_other_bytes\<close>
  shows what comes of it.

  Sources: \<^verbatim>\<open>storage/filesystem/mmap.rs\<close>, \<^verbatim>\<open>storage/middleware/slow.rs\<close>, \<^verbatim>\<open>storage/middleware/timing.rs\<close>,
  \<^verbatim>\<open>storage/middleware/write_through_cache.rs\<close>.
\<close>

subsection \<open>Files mapped into memory\<close>

text \<open>A mapping is the bytes of its file.\<close>

record mmap_filesystem_storage =
  opened_mmaps :: "nat list list"
  mm_fs :: filesystem_storage

definition slice_range :: "nat \<Rightarrow> nat \<Rightarrow> nat list \<Rightarrow> nat list option" where
  "slice_range a b xs = (if a \<le> b \<and> b \<le> length xs then Some (take (b - a) (drop a xs)) else None)"

definition mm_pread_exact :: "mmap_filesystem_storage \<Rightarrow> nat \<Rightarrow> nat \<Rightarrow> nat \<Rightarrow> nat list res" where
  "mm_pread_exact s file_id offset n =
     (if file_id < length (opened_mmaps s)
      then of_option (Bail ''bug'') (slice_range offset (add64 offset n) (opened_mmaps s ! file_id))
      else Inl (Bail ''no such file''))"

definition mm_pwrite_all :: "mmap_filesystem_storage \<Rightarrow> nat \<Rightarrow> nat \<Rightarrow> nat list \<Rightarrow> mmap_filesystem_storage res" where
  "mm_pwrite_all s file_id offset buf =
     (if file_id < length (opened_mmaps s) then
        let g = opened_mmaps s ! file_id; e = add64 offset (length buf)
        in case slice_range offset e g of
             None \<Rightarrow> Inl (Bail ''bug'')
           | Some _ \<Rightarrow> Inr (s\<lparr>opened_mmaps := (opened_mmaps s)[file_id := take offset g @ buf @ drop e g]\<rparr>)
      else Inl (Bail ''no such file''))"

definition mm_ensure_file_length :: "mmap_filesystem_storage \<Rightarrow> nat \<Rightarrow> nat \<Rightarrow> mmap_filesystem_storage res" where
  "mm_ensure_file_length s file_id len = rbind (fs_ensure_file_length (mm_fs s) file_id len) (\<lambda>f. Inr (s\<lparr>mm_fs := f\<rparr>))"

text \<open>What is left behind is a mapping of one byte per file.\<close>

definition mm_take :: "mmap_filesystem_storage \<Rightarrow> mmap_filesystem_storage \<times> mmap_filesystem_storage" where
  "mm_take s =
     (\<lparr>opened_mmaps = opened_mmaps s, mm_fs = fst (fs_take (mm_fs s))\<rparr>,
      \<lparr>opened_mmaps = map (\<lambda>_. [0]) (opened_mmaps s), mm_fs = snd (fs_take (mm_fs s))\<rparr>)"

text \<open>Every opened file is brought to its length and mapped. A padding file has none and fails the whole.\<close>

fun mm_map_files :: "opened_file list \<Rightarrow> file_info list \<Rightarrow> nat list list res" where
  "mm_map_files [] fis = Inr []"
| "mm_map_files (f # fs) fis =
     rbind (of_option (Bail ''file is None'') f) (\<lambda>content.
       case fis of
         [] \<Rightarrow> Inl Panic
       | fi # fis \<Rightarrow>
           rbind (mm_map_files fs fis) (\<lambda>ms. Inr ((take (fi_len fi) content @ replicate (fi_len fi - length content) 0) # ms)))"

definition mm_init ::
  "(string list \<Rightarrow> nat list option) \<Rightarrow> bool \<Rightarrow> mmap_filesystem_storage \<Rightarrow> torrent_metadata \<Rightarrow> mmap_filesystem_storage res" where
  "mm_init disk allow_overwrite s metadata =
     rbind (fs_init disk allow_overwrite (mm_fs s) metadata) (\<lambda>f.
     rbind (mm_map_files (opened_files f) (tm_file_infos metadata)) (\<lambda>ms.
       Inr \<lparr>opened_mmaps = ms, mm_fs = f\<rparr>))"

definition mm_inv :: "lengths \<Rightarrow> file_info list \<Rightarrow> mmap_filesystem_storage \<Rightarrow> bool" where
  "mm_inv l fis s \<longleftrightarrow> map length (opened_mmaps s) = map fi_len fis"

definition mm_tb :: "lengths \<Rightarrow> file_info list \<Rightarrow> mmap_filesystem_storage \<Rightarrow> nat \<Rightarrow> nat option" where
  "mm_tb l fis s y = map_option (\<lambda>i. opened_mmaps s ! i ! (y - offset_in_torrent (fis ! i))) (owner fis y)"

lemma mm_inv_nth: "mm_inv l fis s \<Longrightarrow> i < length fis \<Longrightarrow> i < length (opened_mmaps s) \<and> length (opened_mmaps s ! i) = fi_len (fis ! i)"
  unfolding mm_inv_def by (metis length_map nth_map)

lemma access_end:
  assumes "access l fis f off n y"
  shows "add64 off n = off + n"
proof -
  have a: "wf_lengths l" "wf_file_infos l fis" "f < length fis" "off + n \<le> fi_len (fis ! f)" using assms by (auto simp: access_def)
  have "offset_in_torrent (fis ! f) + fi_len (fis ! f) \<le> total_length l"
    using files.end_le_total [of "(l, fis)" f] a by simp
  then have "off + n < 2 ^ 64" using wf_total [OF a(1)] a(4) by linarith
  then show ?thesis by (simp add: add64_exact)
qed

lemma mm_tb_access: "access l fis f off n y \<Longrightarrow> i < n \<Longrightarrow> mm_tb l fis s (y + i) = Some (opened_mmaps s ! f ! (off + i))"
  using access_owner [of l fis f off n y i] by (auto simp: mm_tb_def access_def add.assoc)

lemma mm_pread_law:
  assumes "mm_inv l fis s" "access l fis f off n y"
  shows "mm_pread_exact s f off n = Inr (map (\<lambda>i. the (mm_tb l fis s (y + i))) [0..<n])"
proof -
  have f: "f < length fis" "off + n \<le> fi_len (fis ! f)" using assms(2) by (auto simp: access_def)
  note g = mm_inv_nth [OF assms(1) f(1)]
  have "map (\<lambda>i. the (mm_tb l fis s (y + i))) [0..<n] = take n (drop off (opened_mmaps s ! f))"
    using f(2) g mm_tb_access [OF assms(2)] by (intro nth_equalityI) auto
  then show ?thesis using f(2) g access_end [OF assms(2)] by (simp add: mm_pread_exact_def slice_range_def)
qed

lemma mm_pwrite_law:
  assumes inv: "mm_inv l fis s" and a: "access l fis f off (length bs) y"
  shows "\<exists>s'. mm_pwrite_all s f off bs = Inr s' \<and> mm_inv l fis s' \<and>
        (\<forall>z. y \<le> z \<and> z < y + length bs \<longrightarrow> mm_tb l fis s' z = Some (bs ! (z - y))) \<and>
        (\<forall>z. \<not> (y \<le> z \<and> z < y + length bs) \<and> mm_tb l fis s z \<noteq> None \<longrightarrow> mm_tb l fis s' z = mm_tb l fis s z)"
proof -
  have f: "f < length fis" "off + length bs \<le> fi_len (fis ! f)" "y = offset_in_torrent (fis ! f) + off" using a by (auto simp: access_def)
  note g = mm_inv_nth [OF inv f(1)]
  let ?g = "opened_mmaps s ! f"
  let ?s' = "s\<lparr>opened_mmaps := (opened_mmaps s)[f := take off ?g @ bs @ drop (off + length bs) ?g]\<rparr>"
  have "mm_pwrite_all s f off bs = Inr ?s'" using f(2) g access_end [OF a] by (simp add: mm_pwrite_all_def slice_range_def Let_def)
  moreover have "map length (opened_mmaps ?s') = map length (opened_mmaps s)"
    using f(2) g by (simp add: map_update list_update_same_conv)
  then have "mm_inv l fis ?s'" using inv by (simp add: mm_inv_def)
  moreover have "mm_tb l fis ?s' z = Some (bs ! (z - y))" if z: "y \<le> z" "z < y + length bs" for z
  proof -
    obtain i where i: "z = y + i" "i < length bs" using z by (metis add_less_cancel_left le_Suc_ex)
    then show ?thesis using mm_tb_access [OF a i(2), of ?s'] g f(2) by (simp add: nth_append)
  qed
  moreover have "mm_tb l fis ?s' z = mm_tb l fis s z" if z: "\<not> (y \<le> z \<and> z < y + length bs)" for z
  proof (cases "owner fis z")
    case (Some i)
    let ?j = "z - offset_in_torrent (fis ! i)"
    have "i = f \<Longrightarrow> ?j < off \<or> off + length bs \<le> ?j \<and> ?j < fi_len (fis ! f)" using owner_Some [OF Some] z f(3) by auto
    then show ?thesis using Some g f(2) owner_Some [OF Some] mm_inv_nth [OF inv] by (cases "i = f") (auto simp: mm_tb_def nth_append)
  qed (simp add: mm_tb_def)
  ultimately show ?thesis by (intro exI [of _ ?s']) blast
qed

interpretation mmap: torrent_storage mm_pread_exact mm_pwrite_all mm_inv mm_tb
  by unfold_locales (erule (1) mm_pread_law, erule (1) mm_pwrite_law)

lemma mm_init_inv: "mm_init disk ow s md = Inr s' \<Longrightarrow> length (opened_files (mm_fs s')) = length (tm_file_infos md) \<Longrightarrow> mm_inv l (tm_file_infos md) s'"
proof -
  have "mm_map_files fs fis = Inr ms \<Longrightarrow> length fs = length fis \<Longrightarrow> map length ms = map fi_len fis" for fs fis ms
    by (induction fs arbitrary: fis ms) (auto simp: rbind_eq_Inr Suc_length_conv)
  moreover assume "mm_init disk ow s md = Inr s'" "length (opened_files (mm_fs s')) = length (tm_file_infos md)"
  ultimately show ?thesis by (auto simp: mm_init_def rbind_eq_Inr mm_inv_def)
qed

subsection \<open>A storage that is timed\<close>

record 's timing_storage =
  tg_name :: string
  tg_underlying :: 's

definition timing_pread_exact :: "('s \<Rightarrow> nat \<Rightarrow> nat \<Rightarrow> nat \<Rightarrow> nat list res) \<Rightarrow> 's timing_storage \<Rightarrow> nat \<Rightarrow> nat \<Rightarrow> nat \<Rightarrow> nat list res" where
  "timing_pread_exact pread s file_id offset n = pread (tg_underlying s) file_id offset n"

definition timing_pwrite_all ::
  "('s \<Rightarrow> nat \<Rightarrow> nat \<Rightarrow> nat list \<Rightarrow> 's res) \<Rightarrow> 's timing_storage \<Rightarrow> nat \<Rightarrow> nat \<Rightarrow> nat list \<Rightarrow> 's timing_storage res" where
  "timing_pwrite_all pwrite s file_id offset buf = rbind (pwrite (tg_underlying s) file_id offset buf) (\<lambda>u. Inr (s\<lparr>tg_underlying := u\<rparr>))"

definition timing_take :: "('s \<Rightarrow> ('s \<times> 's) res) \<Rightarrow> 's timing_storage \<Rightarrow> ('s timing_storage \<times> 's timing_storage) res" where
  "timing_take take_storage s = rbind (take_storage (tg_underlying s)) (\<lambda>(taken, left). Inr (s\<lparr>tg_underlying := taken\<rparr>, s\<lparr>tg_underlying := left\<rparr>))"

context torrent_storage
begin

lemma timed:
  "torrent_storage (timing_pread_exact pread) (timing_pwrite_all pwrite) (\<lambda>l fis s. invar l fis (tg_underlying s)) (\<lambda>l fis s. tb l fis (tg_underlying s))"
proof (unfold_locales, goal_cases)
  case (1 l fis s f off n y)
  then show ?case unfolding timing_pread_exact_def by (intro pread_law)
next
  case (2 l fis s f off bs y)
  then show ?case using pwrite_law [OF 2] by (fastforce simp: timing_pwrite_all_def)
qed

end

interpretation timed_filesystem: torrent_storage
  "timing_pread_exact fs_pread_exact" "timing_pwrite_all fs_pwrite_all" "\<lambda>l fis s. fs_inv l fis (tg_underlying s)"
  "\<lambda>l fis s. fs_tb l fis (tg_underlying s)"
  by (rule filesystem.timed)

subsection \<open>A storage that is slow\<close>

text \<open>The delays come from a file; when it is used up the storage panics.\<close>

record 's slow_storage =
  sl_underlying :: 's
  sl_pwrite_delays :: "nat list"
  sl_pread_delays :: "nat list"

definition slow_pread_exact ::
  "('s \<Rightarrow> nat \<Rightarrow> nat \<Rightarrow> nat \<Rightarrow> nat list res) \<Rightarrow> 's slow_storage \<Rightarrow> nat \<Rightarrow> nat \<Rightarrow> nat \<Rightarrow> nat list res \<times> 's slow_storage" where
  "slow_pread_exact pread s file_id offset n =
     (case sl_pread_delays s of
        [] \<Rightarrow> (Inl Panic, s)
      | _ # ds \<Rightarrow> (pread (sl_underlying s) file_id offset n, s\<lparr>sl_pread_delays := ds\<rparr>))"

definition slow_pwrite_all ::
  "('s \<Rightarrow> nat \<Rightarrow> nat \<Rightarrow> nat list \<Rightarrow> 's res) \<Rightarrow> 's slow_storage \<Rightarrow> nat \<Rightarrow> nat \<Rightarrow> nat list \<Rightarrow> unit res \<times> 's slow_storage" where
  "slow_pwrite_all pwrite s file_id offset buf =
     (case sl_pwrite_delays s of
        [] \<Rightarrow> (Inl Panic, s)
      | _ # ds \<Rightarrow>
          (case pwrite (sl_underlying s) file_id offset buf of
             Inl e \<Rightarrow> (Inl e, s\<lparr>sl_pwrite_delays := ds\<rparr>)
           | Inr u \<Rightarrow> (Inr (), s\<lparr>sl_pwrite_delays := ds, sl_underlying := u\<rparr>)))"

subsection \<open>A storage with a cache\<close>

text \<open>The cache holds at most \<open>wc_pieces\<close> pieces, the last used one first.\<close>

record 's write_through_cache_storage =
  wc_pieces :: nat
  wc_lru :: "(valid_piece_index \<times> nat list) list"
  wc_lengths :: lengths
  wc_file_infos :: "file_info list"
  wc_underlying :: 's

definition wc_create :: "nat \<Rightarrow> 's \<Rightarrow> torrent_metadata \<Rightarrow> 's write_through_cache_storage res" where
  "wc_create max_cache_bytes underlying metadata =
     (if default_piece_length (tm_lengths metadata) = 0 then Inl Panic
      else let pieces = div_ceil max_cache_bytes (default_piece_length (tm_lengths metadata))
           in if pieces = 0 then Inl (Bail ''bug: pieces == 0'')
              else Inr \<lparr>wc_pieces = pieces, wc_lru = [], wc_lengths = tm_lengths metadata, wc_file_infos = tm_file_infos metadata,
                        wc_underlying = underlying\<rparr>)"

definition wc_current :: "'s write_through_cache_storage \<Rightarrow> nat \<Rightarrow> nat \<Rightarrow> current_piece res" where
  "wc_current s file_id offset =
     (if file_id < length (wc_file_infos s)
      then of_option (Bail ''wrong piece'') (compute_current_piece (wc_lengths s) offset (offset_in_torrent (wc_file_infos s ! file_id)))
      else Inl (Bail ''wrong file''))"

definition lru_put :: "nat \<Rightarrow> 'k \<Rightarrow> 'v \<Rightarrow> ('k \<times> 'v) list \<Rightarrow> ('k \<times> 'v) list" where
  "lru_put cap k v lru = take cap ((k, v) # AList.delete k lru)"

definition wc_pread_exact ::
  "('s \<Rightarrow> nat \<Rightarrow> nat \<Rightarrow> nat \<Rightarrow> nat list res) \<Rightarrow> 's write_through_cache_storage \<Rightarrow> nat \<Rightarrow> nat \<Rightarrow> nat \<Rightarrow>
   nat list res \<times> 's write_through_cache_storage" where
  "wc_pread_exact pread s file_id offset n =
     (case wc_current s file_id offset of
        Inl e \<Rightarrow> (Inl e, s)
      | Inr current \<Rightarrow>
          (case map_of (wc_lru s) (cp_id current) of
             Some p \<Rightarrow>
               (of_option (Bail ''bugged length'') (slice_range (cp_piece_offset current) (cp_piece_offset current + n) p),
                s\<lparr>wc_lru := lru_put (wc_pieces s) (cp_id current) p (wc_lru s)\<rparr>)
           | None \<Rightarrow> (pread (wc_underlying s) file_id offset n, s)))"

definition wc_pwrite_all ::
  "('s \<Rightarrow> nat \<Rightarrow> nat \<Rightarrow> nat list \<Rightarrow> 's res) \<Rightarrow> 's write_through_cache_storage \<Rightarrow> nat \<Rightarrow> nat \<Rightarrow> nat list \<Rightarrow>
   unit res \<times> 's write_through_cache_storage" where
  "wc_pwrite_all pwrite s file_id offset buf =
     (case wc_current s file_id offset of
        Inl e \<Rightarrow> (Inl e, s)
      | Inr current \<Rightarrow>
          let pbuf = (case map_of (wc_lru s) (cp_id current) of Some p \<Rightarrow> p | None \<Rightarrow> replicate (piece_length (wc_lengths s) (cp_id current)) 0);
              start = cp_piece_offset current; e = start + length buf
          in if slice_range start e pbuf = None
             then (Inl (Bail ''bugged range''), s\<lparr>wc_lru := lru_put (wc_pieces s) (cp_id current) pbuf (wc_lru s)\<rparr>)
             else
               let s = s\<lparr>wc_lru := lru_put (wc_pieces s) (cp_id current) (take start pbuf @ buf @ drop e pbuf) (wc_lru s)\<rparr>
               in case pwrite (wc_underlying s) file_id offset buf of
                    Inl e \<Rightarrow> (Inl e, s)
                  | Inr u \<Rightarrow> (Inr (), s\<lparr>wc_underlying := u\<rparr>))"

definition wc_take ::
  "('s \<Rightarrow> ('s \<times> 's) res) \<Rightarrow> 's write_through_cache_storage \<Rightarrow>
   ('s write_through_cache_storage \<times> 's write_through_cache_storage) res" where
  "wc_take take_storage s =
     rbind (take_storage (wc_underlying s)) (\<lambda>(taken, left).
       Inr (s\<lparr>wc_underlying := taken\<rparr>, s\<lparr>wc_pieces := 1, wc_lru := [], wc_underlying := left\<rparr>))"

text \<open>A byte written at position 5 is returned for position 0, where the storage below holds another.\<close>

theorem cache_returns_other_bytes:
  "\<exists>s s1 s2. wc_create 1000 ex_storage ex_metadata = Inr s \<and> wc_pwrite_all fs_pwrite_all s 0 5 [9] = (Inr (), s1) \<and>
     wc_pread_exact fs_pread_exact s1 0 0 1 = (Inr [9], s2) \<and> fs_pread_exact (wc_underlying s1) 0 0 1 = Inr [1]"
proof -
  have pl: "piece_length ex_lengths 0 = 40" by (simp add: piece_length_def)
  have c: "compute_current_piece ex_lengths 5 0 = Some \<lparr>cp_id = 0, cp_piece_remaining = 35, cp_piece_offset = 0\<rparr>"
    "compute_current_piece ex_lengths 0 0 = Some \<lparr>cp_id = 0, cp_piece_remaining = 40, cp_piece_offset = 0\<rparr>"
    by (simp_all add: compute_current_piece_def width_defs try_u32_def validate_piece_index_def pl)
  have f: "fs_pwrite_all ex_storage 0 5 [9] = Inr (ex_storage\<lparr>opened_files := (opened_files ex_storage)[0 := Some (write_all_at (replicate 30 1) 5 [9])]\<rparr>)"
    by (simp add: fs_pwrite_all_def get_opened_def ex_storage_def of_option_def)
  let ?s = "\<lparr>wc_pieces = 25, wc_lru = [], wc_lengths = ex_lengths, wc_file_infos = ex_files, wc_underlying = ex_storage\<rparr>"
  have 1: "wc_create 1000 ex_storage ex_metadata = Inr ?s" by (simp add: wc_create_def ex_metadata_def div_ceil_def)
  let ?s1 = "?s\<lparr>wc_lru := [(0, 9 # replicate 39 0)],
    wc_underlying := ex_storage\<lparr>opened_files := (opened_files ex_storage)[0 := Some (write_all_at (replicate 30 1) 5 [9])]\<rparr>\<rparr>"
  have 2: "wc_pwrite_all fs_pwrite_all ?s 0 5 [9] = (Inr (), ?s1)"
    by (simp add: wc_pwrite_all_def wc_current_def ex_files_def c pl f of_option_def slice_range_def lru_put_def)
  have "fst (wc_pread_exact fs_pread_exact ?s1 0 0 1) = Inr [9]"
    by (simp add: wc_pread_exact_def wc_current_def ex_files_def c of_option_def slice_range_def)
  moreover have "fs_pread_exact (wc_underlying ?s1) 0 0 1 = Inr [1]"
    by (simp add: fs_pread_exact_def get_opened_def ex_storage_def of_option_def read_exact_at_def write_all_at_def numeral_eq_Suc)
  ultimately show ?thesis using 1 2 by (metis prod.collapse)
qed

end
