(* ===== verification/Watch.thy ===== *)
theory Watch
  imports Session
begin

text \<open>
  Watched folders: torrent files and magnet links that lie in a folder, or appear in it, are queued and added to the session one after the
  other. Reading files, the notifications and the parsers are parameters.

  Shown is that only files that were read and parsed are queued, and that the session stays consistent.

  Source: \<^verbatim>\<open>watch.rs\<close>.
\<close>

subsection \<open>What is found\<close>

definition extension :: "path \<Rightarrow> string option" where
  "extension p =
     (case file_name p of
        None \<Rightarrow> None
      | Some n \<Rightarrow> if CHR ''.'' \<in> set (drop 1 n) then Some (rev (takeWhile (\<lambda>c. c \<noteq> CHR ''.'') (rev n))) else None)"

record watch_env =
  wv_read :: "path \<Rightarrow> nat list res"
  wv_text :: "nat list \<Rightarrow> string option"

definition read_and_validate_magnet :: "watch_env \<Rightarrow> session_env \<Rightarrow> path \<Rightarrow> add_torrent res" where
  "read_and_validate_magnet W V path =
     rbind (wv_read W path) (\<lambda>bytes.
     rbind (of_option (Bail ''error reading'') (wv_text W bytes)) (\<lambda>url.
     rbind (sv_parse_magnet V url) (\<lambda>_. Inr (Url url))))"

definition read_and_validate_torrent :: "watch_env \<Rightarrow> session_env \<Rightarrow> path \<Rightarrow> add_torrent res" where
  "read_and_validate_torrent W V path =
     rbind (wv_read W path) (\<lambda>buf.
     rbind (sv_torrent_from_bytes V buf) (\<lambda>_. Inr (TorrentFileBytes buf)))"

type_synonym watch_queue = "(add_torrent \<times> path) list"

definition ok_item :: "path \<Rightarrow> add_torrent res \<Rightarrow> (add_torrent \<times> path) option" where
  "ok_item path r = (case r of Inr add \<Rightarrow> Some (add, path) | Inl _ \<Rightarrow> None)"

definition watch_path :: "watch_env \<Rightarrow> session_env \<Rightarrow> path \<Rightarrow> (add_torrent \<times> path) option" where
  "watch_path W V path =
     (case extension path of
        None \<Rightarrow> None
      | Some e \<Rightarrow>
          if e = ''torrent'' then ok_item path (read_and_validate_torrent W V path)
          else if e = ''magnet'' then ok_item path (read_and_validate_magnet W V path)
          else None)"

datatype event_kind = CreateEvent | ModifyEvent | OtherEvent

definition watch_cb :: "watch_env \<Rightarrow> session_env \<Rightarrow> (event_kind \<times> path list) res \<Rightarrow> watch_queue \<Rightarrow> unit res \<times> watch_queue" where
  "watch_cb W V ev tx =
     (case ev of
        Inl e \<Rightarrow> (Inl (Bail ''error event''), tx)
      | Inr (OtherEvent, _) \<Rightarrow> (Inr (), tx)
      | Inr (_, paths) \<Rightarrow> (Inr (), tx @ List.map_filter (watch_path W V) paths))"

text \<open>The files that are there when the watch begins.\<close>

definition watch_scan :: "watch_env \<Rightarrow> session_env \<Rightarrow> path list \<Rightarrow> watch_queue \<Rightarrow> watch_queue" where
  "watch_scan W V files tx =
     tx @ List.map_filter (\<lambda>p. ok_item p (read_and_validate_torrent W V p)) (filter (\<lambda>p. extension p = Some ''torrent'') files)"

fun watch_thread :: "watch_env \<Rightarrow> session_env \<Rightarrow> (event_kind \<times> path list) res list \<Rightarrow> watch_queue \<Rightarrow> watch_queue" where
  "watch_thread W V [] tx = tx"
| "watch_thread W V (ev # evs) tx = watch_thread W V evs (snd (watch_cb W V ev tx))"

subsection \<open>What is added\<close>

definition watch_options :: add_torrent_options where
  "watch_options = \<lparr>ao_paused = False, ao_only_files_regex = None, ao_only_files = None, ao_list_only = False, ao_output_folder = None,
     ao_sub_folder = None, ao_initial_peers = None, ao_preferred_id = None, ao_fs_factory = None, ao_trackers = None\<rparr>"

definition watch_add_one ::
  "('b, 's, 'f) managed_env \<Rightarrow> session_env \<Rightarrow> ('b, 's) session \<Rightarrow> add_torrent \<Rightarrow> unit res \<times> ('b, 's) session" where
  "watch_add_one E V se add =
     abind (session_add_torrent E V se add watch_options) (\<lambda>r se.
       (case r of ListOnly _ \<Rightarrow> Inl (Bail ''bug: unexpected list only'') | _ \<Rightarrow> Inr (), se))"

fun watch_adder :: "('b, 's, 'f) managed_env \<Rightarrow> session_env \<Rightarrow> watch_queue \<Rightarrow> ('b, 's) session \<Rightarrow> ('b, 's) session" where
  "watch_adder E V [] se = se"
| "watch_adder E V ((add, path) # rx) se = watch_adder E V rx (snd (watch_add_one E V se add))"

subsection \<open>Only what was parsed is queued\<close>

definition validated :: "watch_env \<Rightarrow> session_env \<Rightarrow> add_torrent \<times> path \<Rightarrow> bool" where
  "validated W V x \<longleftrightarrow>
     (case fst x of
        Url url \<Rightarrow> extension (snd x) = Some ''magnet'' \<and> (\<exists>bytes m. wv_read W (snd x) = Inr bytes \<and> wv_text W bytes = Some url \<and> sv_parse_magnet V url = Inr m)
      | TorrentFileBytes bytes \<Rightarrow> extension (snd x) = Some ''torrent'' \<and> wv_read W (snd x) = Inr bytes \<and> (\<exists>t. sv_torrent_from_bytes V bytes = Inr t))"

lemma torrent_item_validated:
  "extension p = Some ''torrent'' \<Longrightarrow> ok_item p (read_and_validate_torrent W V p) = Some x \<Longrightarrow> validated W V x"
  by (auto simp: ok_item_def read_and_validate_torrent_def validated_def rbind_eq_Inr split: sum.splits)

lemma magnet_item_validated:
  "extension p = Some ''magnet'' \<Longrightarrow> ok_item p (read_and_validate_magnet W V p) = Some x \<Longrightarrow> validated W V x"
  by (auto simp: ok_item_def read_and_validate_magnet_def validated_def rbind_eq_Inr of_option_def split: sum.splits option.splits)

lemma watch_path_validated: "watch_path W V p = Some x \<Longrightarrow> validated W V x"
  using torrent_item_validated magnet_item_validated by (auto simp: watch_path_def split: option.splits if_splits)

lemma set_map_filter: "set (List.map_filter f xs) = {y. \<exists>x \<in> set xs. f x = Some y}"
  by (induction xs) (auto simp: List.map_filter_simps split: option.splits)

lemma watch_thread_validated:
  "\<forall>x \<in> set tx. validated W V x \<Longrightarrow> \<forall>x \<in> set (watch_thread W V evs tx). validated W V x"
proof (induction evs arbitrary: tx)
  case (Cons ev evs)
  have "\<forall>x \<in> set (snd (watch_cb W V ev tx)). validated W V x"
    using Cons.prems watch_path_validated by (auto simp: watch_cb_def set_map_filter split: sum.splits event_kind.splits)
  then show ?case using Cons.IH by simp
qed simp

lemma watch_queue_validated: "\<forall>x \<in> set (watch_thread W V evs (watch_scan W V files [])). validated W V x"
  using torrent_item_validated [of _ W V]
  by (intro watch_thread_validated) (auto simp: watch_scan_def set_map_filter)

subsection \<open>The session stays consistent\<close>

lemma table_ok_add_torrent:
  assumes "table_ok (se_torrents se)"
  shows "table_ok (se_torrents (snd (session_add_torrent E V se add opts)))"
proof -
  have c: "se_torrents (snd (choose_id se opts)) = se_torrents se" for opts by (simp add: choose_id_def split: option.split)
  have "table_ok (se_torrents (snd (add_torrent_internal E V se ia opts)))" for ia opts
  proof -
    have i: "table_ok (se_torrents (snd (insert_torrent E (snd (choose_id se opts)) tid ia md only folder fs p)))" for tid md only folder fs p
      using table_ok_insert [of "snd (choose_id se opts)"] c assms by simp
    then have "table_ok (se_torrents (snd (abind (insert_torrent E (snd (choose_id se opts)) tid ia md only folder fs p) (\<lambda>found se.
        case found of Some eid \<Rightarrow> (Inr (AlreadyManaged eid), se) | None \<Rightarrow> store_and_start E V se tid p))))" for tid md only folder fs p
      using table_ok_store_and_start [OF i] by (auto simp: abind_def split: sum.split option.split)
    then show ?thesis using assms
      by (auto simp: add_torrent_internal_def Let_def split: sum.split prod.split)
  qed
  then show ?thesis using assms by (auto simp: session_add_torrent_def split: sum.split prod.split)
qed

lemma watch_adder_table_ok: "table_ok (se_torrents se) \<Longrightarrow> table_ok (se_torrents (watch_adder E V rx se))"
proof (induction rx arbitrary: se)
  case (Cons x rx)
  obtain add path where x: "x = (add, path)" by fastforce
  have "table_ok (se_torrents (snd (watch_add_one E V se add)))"
    using table_ok_add_torrent [OF Cons.prems, of E V add watch_options]
    by (auto simp: watch_add_one_def abind_def split: sum.split)
  then show ?case using Cons.IH by (simp add: x)
qed simp

text \<open>Whatever appears in a watched folder, only torrents and links that were read and parsed reach the session, and it never holds two
  torrents with the same number or hash.\<close>

theorem watched_folder_safe:
  assumes "table_ok (se_torrents se)" "rx = watch_thread W V evs (watch_scan W V files [])"
  shows "(\<forall>x \<in> set rx. validated W V x) \<and> table_ok (se_torrents (watch_adder E V rx se))"
  using watch_queue_validated [of W V evs files] watch_adder_table_ok [OF assms(1)] assms(2) by blast

end
