(* ===== verification/Spec2Isabelle.thy ===== *)
theory Spec2Isabelle
  imports Selection Peer_State Streaming Player Blocklist Peer_Info Live_Connection Media_Server Create_Torrent
    Metainfo_Search Postgres_Store Session_Start Storage_Variants Watch
begin

text \<open>
  \<^bold>\<open>BT-Player\<close> resolves links to things a browser can play: an HLS address is played as it is, a web page is searched for its video, and a
  magnet link is given to a BitTorrent engine that downloads the torrent and serves its files while it does. The program is the application
  under \<^verbatim>\<open>src/src-tauri/src\<close> and the engine, a patched copy of \<^verbatim>\<open>librqbit\<close> under \<^verbatim>\<open>src/src-tauri/local-patches/librqbit\<close>
  (file names below without a directory are relative to its \<^verbatim>\<open>src\<close>), with two small crates of the engine under \<^verbatim>\<open>src/src-tauri/vendor\<close>,
  \<^verbatim>\<open>librqbit-core\<close> (\<^verbatim>\<open>core:\<close> below) and \<^verbatim>\<open>librqbit-peer-protocol\<close> (\<^verbatim>\<open>proto:\<close>).

  \<^bold>\<open>How the parts work together.\<close> A request to the application (\<^verbatim>\<open>lib.rs\<close>) passes the token check and goes to a handler. The handler for links asks
  the chain of resolvers (\<^verbatim>\<open>resolver/\<close>); for a magnet link the application's engine (\<^verbatim>\<open>engine/mod.rs\<close>) adds it to the session and asks the session's
  own HTTP server (\<^verbatim>\<open>http_api/\<close>) for the files. The session (\<^verbatim>\<open>session.rs\<close>) resolves the metadata with the help of peers
  (\<^verbatim>\<open>dht_utils.rs\<close>, \<^verbatim>\<open>peer_info_reader/\<close>), enters the torrent into its table, writes it to a store (\<^verbatim>\<open>session_persistence/\<close>) and starts it. A managed
  torrent (\<^verbatim>\<open>torrent_state/mod.rs\<close>) is first checked (\<^verbatim>\<open>initializing.rs\<close>, \<^verbatim>\<open>file_ops.rs\<close>), is then paused, and live while it runs
  (\<^verbatim>\<open>torrent_state/live/mod.rs\<close>). Running means connections to peers (\<^verbatim>\<open>peer_connection.rs\<close>, \<^verbatim>\<open>read_buf.rs\<close>), each of which reserves pieces from the chunk
  tracker (\<^verbatim>\<open>chunk_tracker.rs\<close>), requests their chunks, and writes what arrives to the storage (\<^verbatim>\<open>storage/\<close>), where a complete piece is hashed before it
  counts. A player reads through a stream (\<^verbatim>\<open>streaming.rs\<close>), which decides which pieces are wanted first and waits for those that are missing.

  \<^bold>\<open>Conventions\<close> (theory \<open>Prelude\<close>). A fallible function returns \<open>'a res\<close>: \<open>Inl (Bail s)\<close> is an error the source returns, \<open>Inl Panic\<close> a panic.
  Stateful code takes the state and returns it, also when it fails (\<open>abind\<close>), so changes made before an early return are kept. Sizes and offsets are
  naturals with the widths of the source written out (\<open>add64\<close>, \<open>as_u32\<close>, \<open>try_u32\<close>); counters that may wrap are words. Bytes are naturals,
  strings are their UTF-8 bytes (\<open>Text\<close>). Hash maps whose order matters are association lists, and the order itself is arbitrary. Code behind a lock is one step;
  code between two locks is two steps. Concurrency is the arbitrary order of such steps: the inductive relations \<open>lstep\<close> (running torrent), \<open>mstep\<close> (managed
  torrent), \<open>sstep\<close> (session) and \<open>crun\<close> (connection), and the event lists of \<open>Metainfo_Search\<close>.

  \<^bold>\<open>Parameters.\<close> SHA-1, bencode, JSON, regular expressions, HTML and URL parsing, the back-off timer, the random draws, MIME types, the operating system, sockets,
  the DHT, trackers and HTTP clients are library code; they are functions in the environment records (\<open>env\<close>, \<open>init_env\<close>, \<open>managed_env\<close>, \<open>session_env\<close>,
  \<open>json_env\<close>, \<open>pg_env\<close>, \<open>start_env\<close> and others). What a theorem needs of them is among its hypotheses: that digests have 20 bytes, that an encoding is read back
  (\<open>codec_ok\<close>), that an interval tree finds the intervals (\<open>interval_tree_ok\<close>). Every such theorem is applied to concrete functions in its witness.

  \<^bold>\<open>The theories and what they show.\<close>

  \<^item> \<open>Lengths\<close> (\<^verbatim>\<open>core:lengths.rs\<close>): pieces and chunks of a torrent. Pieces, chunks of a piece and chunk bits are three interpretations of the locale
    \<open>tiling\<close>, which shows once that every position has exactly one owner; the files of a torrent (\<open>Metadata\<close>) are a fourth.
  \<^item> \<open>Metadata\<close> (\<^verbatim>\<open>core:torrent_metainfo.rs\<close>, \<^verbatim>\<open>file_info.rs\<close>): the info dictionary, its file names and layout; no accepted path leaves the folder.
  \<^item> \<open>Chunk_Tracker\<close>, \<open>Selection\<close> (\<^verbatim>\<open>chunk_tracker.rs\<close>): the tracker with its invariant \<open>ct_inv\<close> (bit fields of the right size, exact byte counters, a queue of exactly
    the selected missing pieces), kept by every operation; the optimised change of the selection selects exactly the pieces of the wanted files.
  \<^item> \<open>Storage\<close>, \<open>Storage_Variants\<close> (\<^verbatim>\<open>storage/\<close>): the interface of a storage as the locale \<open>torrent_storage\<close>, with the file system, memory, mapped files and the timed
    file system as interpretations; the write-through cache does not keep the interface, which is shown on an example.
  \<^item> \<open>File_Ops\<close> (\<^verbatim>\<open>file_ops.rs\<close>): reading, writing and hashing across files; writing and reading back, and the sequential check agrees with the check of single pieces.
    The lemmas are proved in the locale and used for the file system.
  \<^item> \<open>Peer_State\<close> (\<^verbatim>\<open>live/peer/\<close>, \<^verbatim>\<open>live/peers/\<close>): the states of peers and the exact counters of them; the locales \<open>peer_closure\<close>, \<open>request_closure\<close> and \<open>pex_closure\<close>
    are the contracts of the closures that change one peer in the table.
  \<^item> \<open>Streaming\<close> (\<^verbatim>\<open>streaming.rs\<close>): a stream returns only verified bytes, those of its file at its position, and a stream that waits is woken.
  \<^item> \<open>Live\<close>, \<open>Handler\<close>, \<open>Receive\<close> (\<^verbatim>\<open>live/mod.rs\<close>): the running torrent, the handlers of a connection, and the way of a block to the disk.
    \<open>Live_Inv\<close> has the invariant \<open>live_inv\<close>, \<open>Live_Steps\<close> the step relation, \<open>Live_Props\<close> the properties: consistency in every reachable state, pieces are verified
    before they count, which piece is reserved, what becomes of the work of a dead peer, when a piece may be stolen.
  \<^item> \<open>Initializing\<close> (\<^verbatim>\<open>initializing.rs\<close>, \<^verbatim>\<open>bitv_factory.rs\<close>): fast resume and the full check, over the locale \<open>bitv_laws\<close> of stores for bit fields.
  \<^item> \<open>Managed\<close> (\<^verbatim>\<open>torrent_state/mod.rs\<close>): the life cycle of a torrent with its concurrent initializations. It refines the diagram in the source.
  \<^item> \<open>Json_Store\<close>, \<open>Postgres_Store\<close> (\<^verbatim>\<open>session_persistence/\<close>): the two stores, as interpretations of the locale \<open>session_store\<close>: after any run with failures a store holds what the
    operations made of the session, except that operations that reported an error may be missing. The session file is never torn.
  \<^item> \<open>Session\<close>, \<open>Session_Start\<close>, \<open>Watch\<close> (\<^verbatim>\<open>session.rs\<close>, \<^verbatim>\<open>stream_connect.rs\<close>, \<^verbatim>\<open>watch.rs\<close>): the table of torrents and its operations, start-up and restart, watched folders. Numbers and
    hashes stay unique under any interleaving; a restarted session holds the stored torrents.
  \<^item> \<open>Api\<close>, \<open>Http_Api\<close> (\<^verbatim>\<open>api.rs\<close>, \<^verbatim>\<open>http_api/\<close>): the operations behind the HTTP server, its routes and authentication; what a streamed answer announces and contains.
  \<^item> \<open>Protocol\<close>, \<open>Wire\<close>, \<open>Read_Buf\<close>, \<open>Peer_Connection\<close>, \<open>Live_Connection\<close> (\<^verbatim>\<open>proto:lib.rs\<close>, \<^verbatim>\<open>proto:extended/\<close>, \<^verbatim>\<open>read_buf.rs\<close>, \<^verbatim>\<open>peer_connection.rs\<close>): messages, their bytes (the locale
    \<open>framing\<close> and its interpretation on the decoder), the buffer they are read through, and a connection over any handler (locale \<open>connection_interface\<close>, interpreted for the running torrent and
    for the reader of metadata). A connection in bytes is a run of its torrent.
  \<^item> \<open>Peer_Info\<close>, \<open>Metainfo_Search\<close> (\<^verbatim>\<open>peer_info_reader/\<close>, \<^verbatim>\<open>dht_utils.rs\<close>): metadata from one peer and from many; it is authentic, a peer that sends it is read to the end, and the search ends.
  \<^item> \<open>Create_Torrent\<close> (\<^verbatim>\<open>create_torrent_file.rs\<close>): a torrent made of files is complete for a client that has the files.
  \<^item> \<open>Media_Server\<close> (\<^verbatim>\<open>upnp_server_adapter.rs\<close>): the directory a media player browses is the torrent.
  \<^item> \<open>Blocklist\<close> (\<^verbatim>\<open>blocklist.rs\<close>): which addresses a list blocks.
  \<^item> \<open>Resolver\<close>, \<open>Media_Library\<close>, \<open>Player\<close> (the application): resolution of links (locale \<open>link_resolver\<close>, interpreted for the three resolvers), play history and export queue, and the
    handlers, with the token, the proposal of the file to play and the byte ranges of local files.

  \<^bold>\<open>Bounds and fuel.\<close> Loops are functions with termination proofs; fuel is used only for reading a stream to its end (\<open>read_to_end\<close>), where one unit per
  byte and one more is shown to be enough, and for the number of rounds of the export worker, which the statement gives. The geometry holds for torrents below \<open>2 ^ 64\<close> bytes with
  less than \<open>2 ^ 32\<close> chunks, which the code checks or which follows from a torrent file it accepts; the stores hold numbers below \<open>2 ^ 31\<close>, the width of the database.

  \<^bold>\<open>Not modelled.\<close> The DHT, trackers, UPnP and SOCKS protocols, TCP and the threads that run tasks are library code or I/O: here they deliver addresses and bytes, or fail. Rate
  limiters and semaphores only delay. Time is a number handlers are given; time limits are failures of the call they end. Speed estimates, formatting, logs
  (\<^verbatim>\<open>tracing_subscriber_config_utils.rs\<close>, \<^verbatim>\<open>http_api/handlers/logging.rs\<close>), the pages of the web interface, the client of the API (\<^verbatim>\<open>http_api_client.rs\<close>), DHT statistics and the
  tests leave no trace in the modelled state. \<^verbatim>\<open>storage/examples/mmap.rs\<close> does not fit the present interface of storages. Code for Windows is left out where the source has two paths.
\<close>

end
